(* ===== verification/Prelude.thy ===== *)
theory Prelude
  imports Main "HOL-Library.Word"
begin

unbundle bit_operations_syntax

text \<open>
  Shared vocabulary of the development: fixed-width integers, byte buffers with the
  C library's copy operations, C strings, the decimal formatting of \<^verbatim>\<open>snprintf\<close>, and the
  generic lemmas on lists and words that the component theories share.

  A C buffer is a \<open>byte list\<close> of the declared size; \<open>memcpy_at\<close> overwrites a slice and
  keeps the length whenever the slice fits. A C string is the list of its bytes without
  the terminating NUL, so the functions on strings work on NUL-free lists; \<open>c_str\<close> reads
  the string out of a buffer. Comparisons use the "C" locale (ASCII letters only), which
  is the locale of a program that never calls \<^verbatim>\<open>setlocale\<close>.
\<close>

section \<open>Machine integers and named collections\<close>

type_synonym byte = "8 word"
type_synonym u16 = "16 word"
type_synonym u32 = "32 word"
type_synonym u64 = "64 word"
type_synonym bytes = "byte list"

named_theorems wf_simps \<open>facts that keep a buffer or a component well formed\<close>
named_theorems frame_simps \<open>fields an operation leaves unchanged\<close>
named_theorems codec_simps \<open>what a decoder reads back from an encoder's output\<close>

section \<open>Buffers\<close>

definition memcpy_at :: "'a list \<Rightarrow> nat \<Rightarrow> 'a list \<Rightarrow> 'a list" where
  "memcpy_at dst off src = take off dst @ src @ drop (off + length src) dst"

definition bslice :: "nat \<Rightarrow> nat \<Rightarrow> 'a list \<Rightarrow> 'a list" where
  "bslice off n xs = take n (drop off xs)"

lemma length_memcpy_at [simp]:
  "off + length src \<le> length dst \<Longrightarrow> length (memcpy_at dst off src) = length dst"
  by (simp add: memcpy_at_def)

lemma length_bslice [simp]: "length (bslice off n xs) = min n (length xs - off)"
  by (simp add: bslice_def)

lemma length_bslice_fits: "off + n \<le> length xs \<Longrightarrow> length (bslice off n xs) = n"
  by simp

lemma slice_memcpy_same [codec_simps]:
  "off \<le> length dst \<Longrightarrow> n = length src \<Longrightarrow> bslice off n (memcpy_at dst off src) = src"
  by (simp add: bslice_def memcpy_at_def)

lemma slice_memcpy_before:
  "i + n \<le> off \<Longrightarrow> off \<le> length dst \<Longrightarrow> bslice i n (memcpy_at dst off src) = bslice i n dst"
  by (cases "n = 0") (auto simp: bslice_def memcpy_at_def drop_take min_def)

lemma take_memcpy_at:
  "off + length src \<le> length dst \<Longrightarrow>
   take (off + length src) (memcpy_at dst off src) = take off dst @ src"
  by (simp add: memcpy_at_def)

lemma drop_memcpy_at:
  "off + length src \<le> length dst \<Longrightarrow>
   drop (off + length src) (memcpy_at dst off src) = drop (off + length src) dst"
  by (simp add: memcpy_at_def)

lemma slice_append_left: "off + n \<le> length xs \<Longrightarrow> bslice off n (xs @ ys) = bslice off n xs"
  by (simp add: bslice_def)

lemma slice_append_right:
  "length xs \<le> off \<Longrightarrow> bslice off n (xs @ ys) = bslice (off - length xs) n ys"
  by (simp add: bslice_def)

lemma slice_Cons [simp]: "bslice (Suc k) n (x # xs) = bslice k n xs"
  by (simp add: bslice_def)

lemma slice_0 [simp]: "bslice 0 n xs = take n xs"
  by (simp add: bslice_def)

lemma nth_slice: "i < n \<Longrightarrow> off + n \<le> length xs \<Longrightarrow> bslice off n xs ! i = xs ! (off + i)"
  by (simp add: bslice_def)

lemma slice_slice_join:
  "bslice off (m + n) xs = bslice off m xs @ bslice (off + m) n xs"
  by (simp add: bslice_def take_add add.commute)

lemma slice_drop_join: "bslice j m xs @ drop (j + m) xs = drop j xs"
proof -
  have "drop (j + m) xs = drop m (drop j xs)" by (simp add: add.commute)
  then show ?thesis by (simp only: bslice_def append_take_drop_id)
qed

section \<open>Words\<close>

lemma word_xor_same_cancel [simp]: "(x XOR k) XOR k = (x :: 'a::len word)"
  by (simp add: xor.assoc)

lemma of_nat_unat_8_32 [simp]: "unat (of_nat n :: byte) = n mod 256"
  by (simp add: unat_of_nat)

lemma unat_byte_less [simp]: "unat (b :: byte) < 256"
  using unsigned_less [of b] by simp

lemma unat_u16_less [simp]: "unat (b :: u16) < 65536"
  using unsigned_less [of b] by simp

section \<open>C strings\<close>

definition lit :: "string \<Rightarrow> bytes" where
  "lit s = map of_char s"

lemma lit_simps [simp]: "lit [] = []" "lit (c # cs) = of_char c # lit cs"
  by (simp_all add: lit_def)

lemma length_lit [simp]: "length (lit s) = length s"
  by (simp add: lit_def)

definition c_str :: "bytes \<Rightarrow> bytes" where
  "c_str buf = takeWhile (\<lambda>b. b \<noteq> 0) buf"

definition tolower :: "byte \<Rightarrow> byte" where
  "tolower b = (if 65 \<le> b \<and> b \<le> 90 then b + 32 else b)"

definition toupper :: "byte \<Rightarrow> byte" where
  "toupper b = (if 97 \<le> b \<and> b \<le> 122 then b - 32 else b)"

definition strcaseeq :: "bytes \<Rightarrow> bytes \<Rightarrow> bool" where
  \<comment> \<open>\<open>strcasecmp (a, b) == 0\<close>\<close>
  "strcaseeq a b = (map tolower a = map tolower b)"

definition strncaseeq :: "nat \<Rightarrow> bytes \<Rightarrow> bytes \<Rightarrow> bool" where
  \<comment> \<open>\<open>strncasecmp (a, b, n) == 0\<close>\<close>
  "strncaseeq n a b = (map tolower (take n a) = map tolower (take n b))"

definition snprintf_s :: "nat \<Rightarrow> bytes \<Rightarrow> bytes" where
  \<comment> \<open>the string \<open>snprintf (dst, sz, "%s", s)\<close> leaves in \<open>dst\<close>\<close>
  "snprintf_s sz s = take (sz - 1) s"

definition is_blank :: "byte \<Rightarrow> bool" where
  "is_blank b = (b = 32 \<or> b = 9)"

definition is_space4 :: "byte \<Rightarrow> bool" where
  \<comment> \<open>the blanks, tab, CR and LF of the command parsers\<close>
  "is_space4 b = (b = 32 \<or> b = 9 \<or> b = 13 \<or> b = 10)"

fun strstr :: "bytes \<Rightarrow> bytes \<Rightarrow> nat option" where
  "strstr [] pat = (if pat = [] then Some 0 else None)"
| "strstr (x # xs) pat =
     (if take (length pat) (x # xs) = pat then Some 0
      else map_option Suc (strstr xs pat))"

lemma strcaseeq_refl [simp]: "strcaseeq a a"
  by (simp add: strcaseeq_def)

lemma strcaseeq_sym: "strcaseeq a b \<longleftrightarrow> strcaseeq b a"
  by (auto simp: strcaseeq_def)

lemma strcaseeq_trans: "strcaseeq a b \<Longrightarrow> strcaseeq b c \<Longrightarrow> strcaseeq a c"
  by (simp add: strcaseeq_def)

lemma strstr_Some: "strstr s pat = Some n \<Longrightarrow>
   n + length pat \<le> length s \<and> take (length pat) (drop n s) = pat"
proof (induction s pat arbitrary: n rule: strstr.induct)
  case (2 x xs pat)
  show ?case
  proof (cases "take (length pat) (x # xs) = pat")
    case True
    then have "length (take (length pat) (x # xs)) = length pat" by simp
    then have "length pat \<le> length (x # xs)" by simp
    with True 2 show ?thesis by simp
  next
    case False
    with 2 show ?thesis by fastforce
  qed
qed (auto split: if_splits)

lemma strstr_found:
  "(\<And>k. k < length xs \<Longrightarrow> take (length pat) (drop k (xs @ pat @ ys)) \<noteq> pat) \<Longrightarrow>
   strstr (xs @ pat @ ys) pat = Some (length xs)"
proof (induction xs)
  case Nil
  have "take (length pat) (pat @ ys) = pat" by simp
  then show ?case by (cases "pat @ ys") (auto split: list.splits)
next
  case (Cons x xs)
  have "take (length pat) (x # xs @ pat @ ys) \<noteq> pat"
    using Cons.prems [of 0] by simp
  moreover have "strstr (xs @ pat @ ys) pat = Some (length xs)"
  proof (rule Cons.IH)
    fix k assume "k < length xs"
    then show "take (length pat) (drop k (xs @ pat @ ys)) \<noteq> pat"
      using Cons.prems [of "Suc k"] by simp
  qed
  ultimately show ?case by simp
qed

section \<open>Decimal formatting\<close>

fun dec_nat :: "nat \<Rightarrow> bytes" where
  "dec_nat n = (if n < 10 then [48 + of_nat n] else dec_nat (n div 10) @ [48 + of_nat (n mod 10)])"

declare dec_nat.simps [simp del]

definition dec_int :: "int \<Rightarrow> bytes" where
  \<comment> \<open>\<open>%d\<close>\<close>
  "dec_int i = (if i < 0 then 45 # dec_nat (nat (- i)) else dec_nat (nat i))"

definition dec_pad :: "nat \<Rightarrow> nat \<Rightarrow> bytes" where
  \<comment> \<open>\<open>%0wd\<close> of a non-negative value\<close>
  "dec_pad w n = replicate (w - length (dec_nat n)) 48 @ dec_nat n"

definition tenths_of_quarter :: "int \<Rightarrow> int" where
  \<comment> \<open>tenths in \<open>%.1f\<close> of \<open>q / 4.0\<close>: the tie of an odd \<open>q\<close> is rounded to even\<close>
  "tenths_of_quarter q =
     (let a = abs q; d = 5 * a div 2 in
      if even a then d else if even d then d else d + 1)"

definition fmt_quarter :: "int \<Rightarrow> bytes" where
  "fmt_quarter q =
     (if q < 0 then [45] else []) @ dec_nat (nat (tenths_of_quarter q div 10)) @ [46]
     @ dec_nat (nat (tenths_of_quarter q mod 10))"

section \<open>Searching a table\<close>

text \<open>The index of the first entry of a table that satisfies a test, as a C loop finds it.\<close>

fun find_index :: "('a \<Rightarrow> bool) \<Rightarrow> 'a list \<Rightarrow> nat option" where
  "find_index P [] = None"
| "find_index P (x # xs) = (if P x then Some 0 else map_option Suc (find_index P xs))"

lemma find_index_None: "find_index P xs = None \<longleftrightarrow> (\<forall>x \<in> set xs. \<not> P x)"
  by (induction xs) auto

lemma find_index_ex: "find_index P xs \<noteq> None \<longleftrightarrow> (\<exists>x \<in> set xs. P x)"
  unfolding find_index_None by blast

lemma find_index_Some:
  "find_index P xs = Some i \<longleftrightarrow> i < length xs \<and> P (xs ! i) \<and> (\<forall>j < i. \<not> P (xs ! j))"
proof (induction xs arbitrary: i)
  case Nil
  then show ?case by simp
next
  case (Cons x xs)
  show ?case
  proof (cases i)
    case 0
    then show ?thesis by auto
  next
    case (Suc k)
    with Cons show ?thesis by (auto simp: less_Suc_eq_0_disj)
  qed
qed

lemma find_index_lt: "find_index P xs = Some i \<Longrightarrow> i < length xs"
  by (simp add: find_index_Some)

lemma set_list_update_other: "y \<in> set (xs[i := x]) \<Longrightarrow> y = x \<or> y \<in> set xs"
  using set_update_subset_insert [of xs i x] by auto

lemma list_all_update: "list_all P xs \<Longrightarrow> P x \<Longrightarrow> list_all P (xs[i := x])"
  by (auto simp: list_all_iff dest: set_list_update_other)

section \<open>Reading a text file line by line\<close>

text \<open>
  \<open>fgets\<close> on a buffer of \<open>sz\<close> bytes returns at most \<open>sz - 1\<close> bytes, up to and including
  a newline. \<open>fgets_lines\<close> is the sequence of its results over a whole file.
\<close>

fun fgets :: "nat \<Rightarrow> bytes \<Rightarrow> bytes \<times> bytes" where
  "fgets 0 s = ([], s)"
| "fgets (Suc n) [] = ([], [])"
| "fgets (Suc n) (c # cs) =
     (if c = 10 then ([c], cs) else (let (l, r) = fgets n cs in (c # l, r)))"

lemma fgets_rest: "length (snd (fgets n s)) \<le> length s"
  by (induction n s rule: fgets.induct) (auto split: prod.splits)

lemma fgets_shrinks: "0 < n \<Longrightarrow> s \<noteq> [] \<Longrightarrow> length (snd (fgets n s)) < length s"
proof (cases n)
  case (Suc k)
  assume "s \<noteq> []"
  then obtain c cs where "s = c # cs" by (cases s) auto
  with Suc fgets_rest [of k cs] show ?thesis by (auto split: prod.splits)
qed simp

function fgets_lines :: "nat \<Rightarrow> bytes \<Rightarrow> bytes list" where
  "fgets_lines sz s =
     (if sz \<le> 1 \<or> s = [] then []
      else fst (fgets (sz - 1) s) # fgets_lines sz (snd (fgets (sz - 1) s)))"
  by pat_completeness auto
termination
  by (relation "measure (length \<circ> snd)") (simp_all add: fgets_shrinks)

declare fgets_lines.simps [simp del]

lemma fgets_line:
  "10 \<notin> set l \<Longrightarrow> length l < n \<Longrightarrow> fgets n (l @ 10 # r) = (l @ [10], r)"
proof (induction l arbitrary: n)
  case Nil
  then show ?case by (cases n) auto
next
  case (Cons c l)
  then show ?case by (cases n) auto
qed

lemma fgets_lines_Nil [simp]: "fgets_lines sz [] = []"
  by (simp add: fgets_lines.simps)

lemma fgets_lines_line [simp]:
  "10 \<notin> set l \<Longrightarrow> length l + 1 < sz \<Longrightarrow>
   fgets_lines sz (l @ 10 # r) = (l @ [10]) # fgets_lines sz r"
  by (subst fgets_lines.simps) (simp add: fgets_line)

definition strip_end :: "(byte \<Rightarrow> bool) \<Rightarrow> bytes \<Rightarrow> bytes" where
  \<comment> \<open>the loops that cut trailing characters off a string\<close>
  "strip_end P s = rev (dropWhile P (rev s))"

lemma strip_end_snoc [simp]: "strip_end P (s @ [c]) = (if P c then strip_end P s else s @ [c])"
  by (simp add: strip_end_def)

lemma strip_end_id: "s = [] \<or> \<not> P (last s) \<Longrightarrow> strip_end P s = s"
  by (cases s rule: rev_cases) (auto simp: strip_end_def)

end
