(* ===== verification/Util.thy ===== *)
theory Util
  imports Prelude
begin

text \<open>
  \<^verbatim>\<open>util.h\<close> and \<^verbatim>\<open>util.c\<close>: little-endian integers, hexadecimal and base64. The readers and
  writers take the bytes at the pointer as a list; a writer returns the bytes it stores.
  The decoders return \<open>None\<close> where the code returns -1, and the decoded bytes otherwise.
\<close>

section \<open>Bits of words\<close>

lemma ff_mask: "(0xFF :: 'a::len word) = mask 8"
  by (simp add: mask_eq_exp_minus_1)

lemma nibble_mask: "(0xF :: 'a::len word) = mask 4"
  by (simp add: mask_eq_exp_minus_1)

lemma ucast_and_ff [simp]: "(ucast (v AND 0xFF :: 'a::len word) :: byte) = ucast v"
proof (rule bit_word_eqI)
  fix n assume "n < LENGTH(8)"
  then show "bit (ucast (v AND 0xFF :: 'a::len word) :: byte) n = bit (ucast v :: byte) n"
    by (auto simp: ff_mask bit_simps dest: bit_imp_le_length)
qed

lemma join16: "ucast (ucast v :: byte) OR push_bit 8 (ucast (ucast (drop_bit 8 v) :: byte) :: u16) = (v :: u16)"
proof (rule bit_word_eqI)
  fix n assume n: "n < LENGTH(16)"
  show "bit (ucast (ucast v :: byte) OR push_bit 8 (ucast (ucast (drop_bit 8 v) :: byte) :: u16)) n = bit v n"
    using n by (cases "n < 8") (auto simp: bit_simps)
qed

lemma join32:
  "(ucast (ucast v :: byte) :: u32) OR push_bit 8 (ucast (ucast (drop_bit 8 v) :: byte))
   OR push_bit 16 (ucast (ucast (drop_bit 16 v) :: byte))
   OR push_bit 24 (ucast (ucast (drop_bit 24 v) :: byte)) = (v :: u32)"
  (is "?l = v")
proof (rule bit_word_eqI)
  fix n assume "n < LENGTH(32)"
  then consider "n < 8" | "8 \<le> n" "n < 16" | "16 \<le> n" "n < 24" | "24 \<le> n" "n < 32"
    by fastforce
  then show "bit ?l n = bit v n"
    by cases (auto simp: bit_simps)
qed

lemma low_byte16: "(ucast (ucast a OR push_bit 8 (ucast b) :: u16) :: byte) = a"
  by (rule bit_word_eqI) (simp add: bit_simps)

lemma not_bit_byte_high: "8 \<le> n \<Longrightarrow> \<not> bit (a :: byte) n"
  using bit_imp_le_length [of a n] by auto

lemma high_byte16: "(ucast (drop_bit 8 (ucast (a :: byte)) OR drop_bit 8 (push_bit 8 (ucast (b :: byte))) :: u16) :: byte) = b"
  by (rule bit_word_eqI) (auto simp: bit_simps not_bit_byte_high [OF le_add1])

lemma join_nibbles: "push_bit 4 (drop_bit 4 b) OR (b AND 0xF) = (b :: byte)"
proof (rule bit_word_eqI)
  fix n assume n: "n < LENGTH(8)"
  show "bit (push_bit 4 (drop_bit 4 b) OR (b AND 0xF)) n = bit (b :: byte) n"
    using n by (cases "n < 4") (simp_all add: bit_simps nibble_mask)
qed

lemma byte_of32:
  fixes a b c d :: byte
  defines "w \<equiv> (ucast a OR push_bit 8 (ucast b) OR push_bit 16 (ucast c) OR push_bit 24 (ucast d) :: u32)"
  shows "ucast w = a" "ucast (drop_bit 8 w) = b" "ucast (drop_bit 16 w) = c" "ucast (drop_bit 24 w) = d"
  unfolding w_def by (rule bit_word_eqI; auto simp: bit_simps not_bit_byte_high)+

section \<open>Little-endian integers\<close>

definition rd_u16le :: "bytes \<Rightarrow> u16" where
  "rd_u16le p = ucast (p ! 0) OR push_bit 8 (ucast (p ! 1))"

definition rd_u32le :: "bytes \<Rightarrow> u32" where
  "rd_u32le p = ucast (p ! 0) OR push_bit 8 (ucast (p ! 1)) OR
                push_bit 16 (ucast (p ! 2)) OR push_bit 24 (ucast (p ! 3))"

definition rd_i32le :: "bytes \<Rightarrow> int" where
  "rd_i32le p = sint (rd_u32le p)"

definition wr_u16le :: "u16 \<Rightarrow> bytes" where
  "wr_u16le v = [ucast (v AND 0xFF), ucast (drop_bit 8 v AND 0xFF)]"

definition wr_u32le :: "u32 \<Rightarrow> bytes" where
  "wr_u32le v = [ucast (v AND 0xFF), ucast (drop_bit 8 v AND 0xFF),
                 ucast (drop_bit 16 v AND 0xFF), ucast (drop_bit 24 v AND 0xFF)]"

definition wr_i32le :: "int \<Rightarrow> bytes" where
  "wr_i32le v = wr_u32le (word_of_int v)"

lemma length_wr_u16le [simp]: "length (wr_u16le v) = 2"
  by (simp add: wr_u16le_def)

lemma length_wr_u32le [simp]: "length (wr_u32le v) = 4"
  by (simp add: wr_u32le_def)

lemma length_wr_i32le [simp]: "length (wr_i32le v) = 4"
  by (simp add: wr_i32le_def)

lemma rd_wr_u16le [codec_simps, simp]: "rd_u16le (wr_u16le v @ r) = v"
  using join16 [of v] by (simp add: rd_u16le_def wr_u16le_def)

lemma rd_wr_u32le [codec_simps, simp]: "rd_u32le (wr_u32le v @ r) = v"
  using join32 [of v] by (simp add: rd_u32le_def wr_u32le_def)

lemmas rd_wr_u16le_nil [codec_simps, simp] = rd_wr_u16le [where r = "[]", simplified]
lemmas rd_wr_u32le_nil [codec_simps, simp] = rd_wr_u32le [where r = "[]", simplified]

lemma rd_wr_i32le [codec_simps, simp]:
  "- (2 ^ 31) \<le> v \<Longrightarrow> v < 2 ^ 31 \<Longrightarrow> rd_i32le (wr_i32le v @ r) = v"
  by (simp add: rd_i32le_def wr_i32le_def sint_sbintrunc' signed_take_bit_int_eq_self)

lemma wr_rd_u16le [codec_simps]: "length p = 2 \<Longrightarrow> wr_u16le (rd_u16le p) = p"
  by (cases p; cases "tl p") (auto simp: wr_u16le_def rd_u16le_def low_byte16 high_byte16)

lemma wr_rd_u32le [codec_simps]:
  assumes "length p = 4"
  shows "wr_u32le (rd_u32le p) = p"
proof -
  obtain a b c d where "p = [a, b, c, d]"
    using assms by (auto simp: numeral_eq_Suc length_Suc_conv)
  then show ?thesis by (simp add: wr_u32le_def rd_u32le_def byte_of32 del: drop_bit_or)
qed

lemma rd_take_u16le: "2 \<le> n \<Longrightarrow> rd_u16le (take n p) = rd_u16le p"
  by (simp add: rd_u16le_def)

lemma rd_take_u32le: "4 \<le> n \<Longrightarrow> rd_u32le (take n p) = rd_u32le p"
  by (simp add: rd_u32le_def)

lemma wr_rd_at16 [codec_simps]: "i + 2 \<le> length d \<Longrightarrow> wr_u16le (rd_u16le (drop i d)) = bslice i 2 d"
  using wr_rd_u16le [of "bslice i 2 d"] rd_take_u16le [of 2 "drop i d"] by (simp add: bslice_def)

lemma wr_rd_at32 [codec_simps]: "i + 4 \<le> length d \<Longrightarrow> wr_u32le (rd_u32le (drop i d)) = bslice i 4 d"
  using wr_rd_u32le [of "bslice i 4 d"] rd_take_u32le [of 4 "drop i d"] by (simp add: bslice_def)

section \<open>Hexadecimal\<close>

definition HEXD :: bytes where
  "HEXD = lit ''0123456789abcdef''"

fun hex_digits :: "bytes \<Rightarrow> bytes" where
  \<comment> \<open>the loop of \<open>bin2hex\<close>\<close>
  "hex_digits [] = []"
| "hex_digits (b # bs) =
     HEXD ! unat (drop_bit 4 b AND 0xF) # HEXD ! unat (b AND 0xF) # hex_digits bs"

definition bin2hex :: "bytes \<Rightarrow> nat \<Rightarrow> bytes" where
  \<comment> \<open>the string left in a buffer of \<open>outsz\<close> bytes; empty where the code returns 0\<close>
  "bin2hex xs outsz = (if outsz < length xs * 2 + 1 then [] else hex_digits xs)"

definition hexval :: "byte \<Rightarrow> byte option" where
  "hexval c =
     (if 48 \<le> c \<and> c \<le> 57 then Some (c - 48)
      else if 97 \<le> c \<and> c \<le> 102 then Some (c - 97 + 10)
      else if 65 \<le> c \<and> c \<le> 70 then Some (c - 65 + 10)
      else None)"

fun unhex_pairs :: "bytes \<Rightarrow> bytes option" where
  \<comment> \<open>the loop of \<open>hex2bin\<close>\<close>
  "unhex_pairs (h # l # cs) =
     (case (hexval h, hexval l) of
        (Some hi, Some lo) \<Rightarrow>
          (case unhex_pairs cs of None \<Rightarrow> None
           | Some bs \<Rightarrow> Some ((push_bit 4 hi OR lo) # bs))
      | _ \<Rightarrow> None)"
| "unhex_pairs _ = Some []"

definition hex2bin :: "bytes \<Rightarrow> nat \<Rightarrow> bytes option" where
  "hex2bin s outsz =
     (if length s mod 2 \<noteq> 0 then None
      else if length s div 2 > outsz then None
      else unhex_pairs s)"

fun unhex_prefix :: "bytes \<Rightarrow> bytes" where
  \<comment> \<open>the bytes the loop of \<open>hex2bin\<close> has written when it stops\<close>
  "unhex_prefix (h # l # cs) =
     (case (hexval h, hexval l) of
        (Some hi, Some lo) \<Rightarrow> (push_bit 4 hi OR lo) # unhex_prefix cs
      | _ \<Rightarrow> [])"
| "unhex_prefix _ = []"

definition hex2bin_into :: "bytes \<Rightarrow> bytes \<Rightarrow> bytes" where
  \<comment> \<open>the output array of \<open>hex2bin (s, out, sizeof (out))\<close>, errors included\<close>
  "hex2bin_into s out =
     (if length s mod 2 \<noteq> 0 \<or> length s div 2 > length out then out
      else memcpy_at out 0 (unhex_prefix s))"

lemma unhex_prefix_all: "unhex_pairs s = Some bs \<Longrightarrow> unhex_prefix s = bs"
  by (induction s arbitrary: bs rule: unhex_pairs.induct) (auto split: option.splits)

lemma length_unhex_prefix: "length (unhex_prefix s) \<le> length s div 2"
  by (induction s rule: unhex_prefix.induct) (auto split: option.splits)

lemma hex2bin_into_ok:
  "hex2bin s (length out) = Some bs \<Longrightarrow> hex2bin_into s out = memcpy_at out 0 bs"
  by (auto simp: hex2bin_def hex2bin_into_def unhex_prefix_all split: if_splits)

lemma length_hex2bin_into [wf_simps, simp]: "length (hex2bin_into s out) = length out"
  using length_unhex_prefix [of s] by (auto simp: hex2bin_into_def)

lemma length_hex_digits [simp]: "length (hex_digits bs) = 2 * length bs"
  by (induction bs) auto

lemma nibble_less: "b AND 0xF < (16 :: byte)"
proof -
  have "b AND 0xF \<le> (0xF :: byte)" by (rule word_and_le1)
  then show ?thesis by (rule order_le_less_trans) simp
qed

lemma drop4_less: "drop_bit 4 b AND 0xF < (16 :: byte)"
  by (rule nibble_less)

lemma drop4_and [simp]: "drop_bit 4 b AND 0xF = drop_bit 4 (b :: byte)"
  by (rule bit_word_eqI) (auto simp: bit_simps nibble_mask dest: bit_imp_le_length)

lemma hexval_digit: "n < (16 :: byte) \<Longrightarrow> hexval (HEXD ! unat n) = Some n"
proof -
  assume "n < 16"
  then have "unat n \<in> set [0..<16]" by (simp add: word_less_nat_alt)
  moreover have "list_all (\<lambda>k. hexval (HEXD ! k) = Some (of_nat k)) [0..<16]"
    by code_simp
  ultimately show ?thesis by (auto simp: list_all_iff)
qed

lemma unhex_hex_digits: "unhex_pairs (hex_digits bs) = Some bs"
  by (induction bs)
     (simp_all add: hexval_digit nibble_less drop4_less [simplified] join_nibbles)

text \<open>
  \<open>hex2bin\<close> undoes \<open>bin2hex\<close> for every byte string that fits the two buffers.
\<close>

lemma hex2bin_bin2hex [codec_simps]:
  "length bs * 2 + 1 \<le> sz \<Longrightarrow> length bs \<le> n \<Longrightarrow> hex2bin (bin2hex bs sz) n = Some bs"
  by (simp add: hex2bin_def bin2hex_def unhex_hex_digits)

lemma length_unhex: "unhex_pairs s = Some bs \<Longrightarrow> length bs = length s div 2"
  by (induction s arbitrary: bs rule: unhex_pairs.induct) (auto split: option.splits)

lemma hex2bin_length: "hex2bin s n = Some bs \<Longrightarrow> length bs = length s div 2 \<and> length bs \<le> n"
  by (auto simp: hex2bin_def length_unhex split: if_splits)

section \<open>Base64\<close>

definition b64val :: "byte \<Rightarrow> u32 option" where
  "b64val c =
     (if 65 \<le> c \<and> c \<le> 90 then Some (ucast (c - 65))
      else if 97 \<le> c \<and> c \<le> 122 then Some (ucast (c - 97 + 26))
      else if 48 \<le> c \<and> c \<le> 57 then Some (ucast (c - 48 + 52))
      else if c = 43 then Some 62
      else if c = 47 then Some 63
      else None)"

fun b64_slots :: "bool \<Rightarrow> nat \<Rightarrow> nat \<Rightarrow> bytes \<Rightarrow> (u32 list \<times> nat) option" where
  \<comment> \<open>the inner loop: slots \<open>j, j + 1, \<dots>\<close> of one quartet, with \<open>pad\<close> paddings so far\<close>
  "b64_slots final j pad [] = Some ([], pad)"
| "b64_slots final j pad (c # cs) =
     (if c = 61 then
        (if \<not> final \<or> j < 2 then None
         else map_option (\<lambda>(vs, p). (0 # vs, p)) (b64_slots final (j + 1) (pad + 1) cs))
      else if 0 < pad then None
      else (case b64val c of None \<Rightarrow> None
            | Some v \<Rightarrow> map_option (\<lambda>(vs, p). (v # vs, p)) (b64_slots final (j + 1) pad cs)))"

definition b64_trip :: "u32 list \<Rightarrow> u32" where
  "b64_trip v = push_bit 18 (v ! 0) OR push_bit 12 (v ! 1) OR push_bit 6 (v ! 2) OR v ! 3"

definition b64_bytes :: "u32 \<Rightarrow> nat \<Rightarrow> bytes" where
  "b64_bytes trip nbytes = map (\<lambda>b. ucast (drop_bit (16 - 8 * b) trip AND 0xFF)) [0..<nbytes]"

fun b64_loop :: "nat \<Rightarrow> bytes \<Rightarrow> bytes \<Rightarrow> bytes option" where
  \<comment> \<open>the outer loop, with the bytes written so far\<close>
  "b64_loop outsz out (a # b # c # d # rest) =
     (case b64_slots (rest = []) 0 0 [a, b, c, d] of None \<Rightarrow> None
      | Some (v, pad) \<Rightarrow>
          (let new = b64_bytes (b64_trip v) (3 - pad) in
           if outsz < length out + length new then None
           else b64_loop outsz (out @ new) rest))"
| "b64_loop outsz out _ = Some out"

definition base64_decode :: "bytes \<Rightarrow> nat \<Rightarrow> bytes option" where
  "base64_decode s outsz =
     (if length s = 0 \<or> length s mod 4 \<noteq> 0 then None else b64_loop outsz [] s)"

lemma b64_loop_bound:
  "length out \<le> outsz \<Longrightarrow> b64_loop outsz out s = Some bs \<Longrightarrow> length bs \<le> outsz"
  by (induction outsz out s rule: b64_loop.induct)
     (auto simp: Let_def split: option.splits if_splits)

lemma base64_decode_bound: "base64_decode s n = Some bs \<Longrightarrow> length bs \<le> n"
  by (auto simp: base64_decode_def dest: b64_loop_bound [rotated] split: if_splits)

lemma base64_decode_example:
  "base64_decode (lit ''izOH6cXN6mrJ5e26oRXNcg=='') 32 =
   Some [0x8b, 0x33, 0x87, 0xe9, 0xc5, 0xcd, 0xea, 0x6a, 0xc9, 0xe5, 0xed, 0xba, 0xa1, 0x15, 0xcd, 0x72]"
  by code_simp

end
