(* ===== verification/Sha256.thy ===== *)
theory Sha256
  imports Prelude
begin

text \<open>
  \<^verbatim>\<open>crypto/sha256.c\<close> and \<^verbatim>\<open>hmac_sha256.c\<close>: the streaming SHA-256 context with its
  compression function, and HMAC on top of it. The context is the C struct; \<open>sha256_update\<close>
  feeds it byte by byte as the code does. The lemmas show that the stream can be split
  anywhere, that the digest equals a one-shot reference (pad the message, fold the
  compression function over its 64-byte blocks) and that every digest has 32 bytes.
\<close>

section \<open>The compression function\<close>

definition ROTRIGHT :: "u32 \<Rightarrow> nat \<Rightarrow> u32" where
  "ROTRIGHT a b = drop_bit b a OR push_bit (32 - b) a"

definition CH :: "u32 \<Rightarrow> u32 \<Rightarrow> u32 \<Rightarrow> u32" where
  "CH x y z = (x AND y) XOR (NOT x AND z)"

definition MAJ :: "u32 \<Rightarrow> u32 \<Rightarrow> u32 \<Rightarrow> u32" where
  "MAJ x y z = (x AND y) XOR (x AND z) XOR (y AND z)"

definition EP0 :: "u32 \<Rightarrow> u32" where
  "EP0 x = ROTRIGHT x 2 XOR ROTRIGHT x 13 XOR ROTRIGHT x 22"

definition EP1 :: "u32 \<Rightarrow> u32" where
  "EP1 x = ROTRIGHT x 6 XOR ROTRIGHT x 11 XOR ROTRIGHT x 25"

definition SIG0 :: "u32 \<Rightarrow> u32" where
  "SIG0 x = ROTRIGHT x 7 XOR ROTRIGHT x 18 XOR drop_bit 3 x"

definition SIG1 :: "u32 \<Rightarrow> u32" where
  "SIG1 x = ROTRIGHT x 17 XOR ROTRIGHT x 19 XOR drop_bit 10 x"

definition sha_k :: "u32 list" where
  \<comment> \<open>row by row, as the table stands in the source\<close>
  "sha_k = concat [
    [0x428a2f98, 0x71374491, 0xb5c0fbcf, 0xe9b5dba5, 0x3956c25b, 0x59f111f1, 0x923f82a4, 0xab1c5ed5],
    [0xd807aa98, 0x12835b01, 0x243185be, 0x550c7dc3, 0x72be5d74, 0x80deb1fe, 0x9bdc06a7, 0xc19bf174],
    [0xe49b69c1, 0xefbe4786, 0x0fc19dc6, 0x240ca1cc, 0x2de92c6f, 0x4a7484aa, 0x5cb0a9dc, 0x76f988da],
    [0x983e5152, 0xa831c66d, 0xb00327c8, 0xbf597fc7, 0xc6e00bf3, 0xd5a79147, 0x06ca6351, 0x14292967],
    [0x27b70a85, 0x2e1b2138, 0x4d2c6dfc, 0x53380d13, 0x650a7354, 0x766a0abb, 0x81c2c92e, 0x92722c85],
    [0xa2bfe8a1, 0xa81a664b, 0xc24b8b70, 0xc76c51a3, 0xd192e819, 0xd6990624, 0xf40e3585, 0x106aa070],
    [0x19a4c116, 0x1e376c08, 0x2748774c, 0x34b0bcb5, 0x391c0cb3, 0x4ed8aa4a, 0x5b9cca4f, 0x682e6ff3],
    [0x748f82ee, 0x78a5636f, 0x84c87814, 0x8cc70208, 0x90befffa, 0xa4506ceb, 0xbef9a3f7, 0xc67178f2]]"

record SHA256_CTX =
  ctx_data :: bytes
  datalen :: nat
  bitlen :: u64
  ctx_state :: "u32 list"

definition be_word :: "bytes \<Rightarrow> nat \<Rightarrow> u32" where
  "be_word d j = push_bit 24 (ucast (d ! j)) OR push_bit 16 (ucast (d ! (j + 1))) OR
                 push_bit 8 (ucast (d ! (j + 2))) OR ucast (d ! (j + 3))"

fun sched :: "nat \<Rightarrow> u32 list \<Rightarrow> u32 list" where
  \<comment> \<open>the second loop over \<open>m[i]\<close>: \<open>n\<close> more words after those in \<open>m\<close>\<close>
  "sched 0 m = m"
| "sched (Suc n) m =
     (let i = length m in
      sched n (m @ [SIG1 (m ! (i - 2)) + m ! (i - 7) + SIG0 (m ! (i - 15)) + m ! (i - 16)]))"

type_synonym vars8 = "u32 \<times> u32 \<times> u32 \<times> u32 \<times> u32 \<times> u32 \<times> u32 \<times> u32"

definition sha_round :: "vars8 \<Rightarrow> u32 \<times> u32 \<Rightarrow> vars8" where
  "sha_round v km =
     (case (v, km) of ((a, b, c, d, e, f, g, h), (k, m)) \<Rightarrow>
        let t1 = h + EP1 e + CH e f g + k + m;
            t2 = EP0 a + MAJ a b c
        in (t1 + t2, a, b, c, d + t1, e, f, g))"

definition sha256_compress :: "u32 list \<Rightarrow> bytes \<Rightarrow> u32 list" where
  "sha256_compress st d =
     (let m = sched 48 (map (\<lambda>i. be_word d (4 * i)) [0..<16]);
          (a, b, c, d', e, f, g, h) =
            foldl sha_round (st ! 0, st ! 1, st ! 2, st ! 3, st ! 4, st ! 5, st ! 6, st ! 7)
              (zip sha_k m)
      in [st ! 0 + a, st ! 1 + b, st ! 2 + c, st ! 3 + d', st ! 4 + e, st ! 5 + f, st ! 6 + g,
          st ! 7 + h])"

definition sha256_transform :: "SHA256_CTX \<Rightarrow> bytes \<Rightarrow> SHA256_CTX" where
  "sha256_transform ctx d = ctx\<lparr>ctx_state := sha256_compress (ctx_state ctx) d\<rparr>"

section \<open>The streaming interface\<close>

definition sha_iv :: "u32 list" where
  "sha_iv = [0x6a09e667, 0xbb67ae85, 0x3c6ef372, 0xa54ff53a,
             0x510e527f, 0x9b05688c, 0x1f83d9ab, 0x5be0cd19]"

definition sha256_init :: "bytes \<Rightarrow> SHA256_CTX" where
  \<comment> \<open>the data buffer keeps whatever the stack held\<close>
  "sha256_init garbage =
     \<lparr>ctx_data = garbage, datalen = 0, bitlen = 0, ctx_state = sha_iv\<rparr>"

definition sha256_push :: "SHA256_CTX \<Rightarrow> byte \<Rightarrow> SHA256_CTX" where
  \<comment> \<open>the body of the loop of \<open>sha256_update\<close>\<close>
  "sha256_push ctx b =
     (let c1 = ctx\<lparr>ctx_data := (ctx_data ctx)[datalen ctx := b], datalen := datalen ctx + 1\<rparr>
      in if datalen c1 = 64
         then (sha256_transform c1 (ctx_data c1))\<lparr>bitlen := bitlen c1 + 512, datalen := 0\<rparr>
         else c1)"

definition sha256_update :: "SHA256_CTX \<Rightarrow> bytes \<Rightarrow> SHA256_CTX" where
  \<comment> \<open>the counter of the C loop has 32 bits; no caller has as many as \<open>2 ^ 32\<close> bytes\<close>
  "sha256_update ctx xs = foldl sha256_push ctx xs"

definition be64 :: "u64 \<Rightarrow> bytes" where
  \<comment> \<open>bytes 56 to 63 of the last block\<close>
  "be64 v = map (\<lambda>i. ucast (drop_bit (56 - 8 * i) v)) [0..<8]"

definition digest_of :: "u32 list \<Rightarrow> bytes" where
  "digest_of st =
     concat (map (\<lambda>w. map (\<lambda>i. ucast (drop_bit (24 - i * 8) w AND 0xFF)) [0..<4]) st)"

definition sha256_final :: "SHA256_CTX \<Rightarrow> bytes" where
  "sha256_final ctx =
     (let i = datalen ctx;
          c1 = (if i < 56
                then ctx\<lparr>ctx_data := memcpy_at (ctx_data ctx) i (0x80 # replicate (55 - i) 0)\<rparr>
                else (let c = ctx\<lparr>ctx_data := memcpy_at (ctx_data ctx) i (0x80 # replicate (63 - i) 0)\<rparr>;
                          c' = sha256_transform c (ctx_data c)
                      in c'\<lparr>ctx_data := memcpy_at (ctx_data c') 0 (replicate 56 0)\<rparr>));
          bl = bitlen c1 + of_nat (datalen c1) * 8;
          c2 = c1\<lparr>bitlen := bl, ctx_data := memcpy_at (ctx_data c1) 56 (be64 bl)\<rparr>;
          c3 = sha256_transform c2 (ctx_data c2)
      in digest_of (ctx_state c3))"

definition sha256 :: "bytes \<Rightarrow> bytes" where
  \<comment> \<open>init, one update, final, as the callers run them\<close>
  "sha256 xs = sha256_final (sha256_update (sha256_init (replicate 64 0)) xs)"

section \<open>A one-shot reference\<close>

function chunks64 :: "'a list \<Rightarrow> 'a list list" where
  "chunks64 xs = (if length xs < 64 then [] else take 64 xs # chunks64 (drop 64 xs))"
  by pat_completeness auto
termination by (relation "measure length") auto

declare chunks64.simps [simp del]

definition sha_pad :: "bytes \<Rightarrow> bytes" where
  "sha_pad xs =
     xs @ 0x80 # replicate ((119 - length xs mod 64) mod 64) 0 @ be64 (of_nat (8 * length xs))"

definition sha256_ref :: "bytes \<Rightarrow> bytes" where
  "sha256_ref xs = digest_of (foldl sha256_compress sha_iv (chunks64 (sha_pad xs)))"

lemma chunks64_short [simp]: "length xs < 64 \<Longrightarrow> chunks64 xs = []"
  by (subst chunks64.simps) simp

lemma chunks64_block [simp]: "length xs = 64 \<Longrightarrow> chunks64 (xs @ ys) = xs # chunks64 ys"
  by (subst chunks64.simps) simp

lemma chunks64_append:
  "length xs mod 64 = 0 \<Longrightarrow> chunks64 (xs @ ys) = chunks64 xs @ chunks64 ys"
proof (induction xs rule: chunks64.induct)
  case (1 xs)
  show ?case
  proof (cases "length xs < 64")
    case True
    with 1 have "xs = []" by simp
    then show ?thesis by simp
  next
    case False
    then have "length (drop 64 xs) mod 64 = 0"
      using "1.prems" by (metis le_mod_geq length_drop not_less)
    with 1 False have "chunks64 (drop 64 xs @ ys) = chunks64 (drop 64 xs) @ chunks64 ys" by simp
    with False show ?thesis
      by (simp add: chunks64.simps [of "xs @ ys"] chunks64.simps [of xs])
  qed
qed

definition full :: "'a list \<Rightarrow> nat" where
  "full xs = 64 * (length xs div 64)"

lemma chunks64_split:
  "chunks64 (xs @ ys) = chunks64 (take (full xs) xs) @ chunks64 (drop (full xs) xs @ ys)"
proof -
  have "full xs \<le> length xs" by (simp add: full_def)
  then have "length (take (full xs) xs) mod 64 = 0" by (simp add: min_absorb2) (simp add: full_def)
  from chunks64_append [OF this, of "drop (full xs) xs @ ys"] show ?thesis
    by (metis append.assoc append_take_drop_id)
qed

lemma length_drop_full: "length (drop (full xs) xs) = length xs mod 64"
  by (simp add: full_def minus_mult_div_eq_mod)

lemma chunks64_full: "chunks64 xs = chunks64 (take (full xs) xs)"
  using chunks64_split [of xs "[]"] by (simp add: length_drop_full [simplified])

definition ctx_inv :: "SHA256_CTX \<Rightarrow> bytes \<Rightarrow> bool" where
  \<comment> \<open>the context after the bytes \<open>xs\<close>\<close>
  "ctx_inv c xs \<longleftrightarrow>
     length (ctx_data c) = 64 \<and> datalen c = length xs mod 64 \<and>
     take (datalen c) (ctx_data c) = drop (full xs) xs \<and>
     bitlen c = of_nat (8 * full xs) \<and>
     ctx_state c = foldl sha256_compress sha_iv (chunks64 xs)"

lemma ctx_inv_init: "length g = 64 \<Longrightarrow> ctx_inv (sha256_init g) []"
  by (simp add: ctx_inv_def sha256_init_def full_def)

lemma ctx_inv_push:
  assumes "ctx_inv c xs"
  shows "ctx_inv (sha256_push c b) (xs @ [b])"
proof -
  let ?n = "length xs mod 64" and ?d = "drop (full xs) xs"
  from assms have len: "length (ctx_data c) = 64" "datalen c = ?n" "take ?n (ctx_data c) = ?d"
    and bl: "bitlen c = of_nat (8 * full xs)"
    and st: "ctx_state c = foldl sha256_compress sha_iv (chunks64 xs)"
    by (auto simp: ctx_inv_def)
  have n: "?n < 64" by simp
  have tk: "take (Suc ?n) ((ctx_data c)[?n := b]) = ?d @ [b]"
    using len n by (simp add: take_Suc_conv_app_nth)
  show ?thesis
  proof (cases "Suc ?n = 64")
    case False
    then have m: "length (xs @ [b]) mod 64 = Suc ?n" and f: "full (xs @ [b]) = full xs"
      using n by (simp_all add: mod_Suc full_def div_Suc)
    have le: "full xs \<le> length xs" by (simp add: full_def)
    have "chunks64 (?d @ [b]) = []"
      using False n by (intro chunks64_short) (simp add: length_drop_full [simplified])
    then have "chunks64 (xs @ [b]) = chunks64 xs"
      by (simp add: chunks64_split [of xs "[b]"] flip: chunks64_full)
    with False len bl st tk m f le show ?thesis
      by (simp add: ctx_inv_def sha256_push_def Let_def)
  next
    case True
    then have m: "length (xs @ [b]) mod 64 = 0" and f: "full (xs @ [b]) = full xs + 64"
      using n by (simp_all add: mod_Suc full_def div_Suc)
    have l64: "length (?d @ [b]) = 64" using True by (simp add: length_drop_full [simplified])
    have "(ctx_data c)[?n := b] = ?d @ [b]"
      using tk True len by (simp)
    moreover have "full xs + 64 = Suc (length xs)"
      using m f by (simp add: full_def)
    moreover have "chunks64 (xs @ [b]) = chunks64 xs @ [?d @ [b]]"
      using chunks64_block [OF l64, of "[]"]
      by (simp add: chunks64_split [of xs "[b]"] flip: chunks64_full)
    ultimately show ?thesis
      using True len bl st m f
      by (simp add: ctx_inv_def sha256_push_def sha256_transform_def Let_def)
  qed
qed

lemma ctx_inv_update: "ctx_inv c xs \<Longrightarrow> ctx_inv (sha256_update c ys) (xs @ ys)"
proof (induction ys arbitrary: c xs)
  case Nil
  then show ?case by (simp add: sha256_update_def)
next
  case (Cons y ys)
  from ctx_inv_push [OF Cons.prems, of y] have "ctx_inv (sha256_push c y) (xs @ [y])" .
  from Cons.IH [OF this] show ?case by (simp add: sha256_update_def)
qed

lemma sha256_update_append: "sha256_update (sha256_update c xs) ys = sha256_update c (xs @ ys)"
  by (simp add: sha256_update_def)

lemma length_be64 [simp]: "length (be64 v) = 8"
  by (simp add: be64_def)

lemma be64_block:
  "length d = 64 \<Longrightarrow> memcpy_at d 56 (be64 v) = take 56 d @ be64 v"
  by (simp add: memcpy_at_def)

lemma bit_count:
  "bitlen c = of_nat (8 * full xs) \<Longrightarrow> datalen c = length xs mod 64 \<Longrightarrow>
   bitlen c + of_nat (datalen c) * 8 = of_nat (8 * length xs)"
proof -
  assume a: "bitlen c = of_nat (8 * full xs)" "datalen c = length xs mod 64"
  have "8 * full xs + (length xs mod 64) * 8 = 8 * length xs"
    using mult_div_mod_eq [of 64 "length xs"] unfolding full_def by linarith
  then have "of_nat (8 * full xs + (length xs mod 64) * 8) = (of_nat (8 * length xs) :: u64)"
    by simp
  with a show ?thesis by simp
qed

lemma sha256_final_ref:
  assumes "ctx_inv c xs"
  shows "sha256_final c = sha256_ref xs"
proof -
  let ?n = "length xs mod 64" and ?d = "drop (full xs) xs"
  let ?bl = "of_nat (8 * length xs) :: u64" and ?st = "foldl sha256_compress sha_iv (chunks64 xs)"
  from assms have len: "length (ctx_data c) = 64" "datalen c = ?n" "take ?n (ctx_data c) = ?d"
    and b0: "bitlen c = of_nat (8 * full xs)" and st: "ctx_state c = ?st"
    by (auto simp only: ctx_inv_def)
  note bl = bit_count [OF b0 len(2)]
  have n: "?n < 64" "length ?d = ?n" by (simp_all add: length_drop_full [simplified])
  have split: "chunks64 (sha_pad xs) =
      chunks64 xs @ chunks64 (?d @ 0x80 # replicate ((119 - ?n) mod 64) 0 @ be64 ?bl)"
    unfolding sha_pad_def by (subst chunks64_split) (simp flip: chunks64_full)
  show ?thesis
  proof (cases "?n < 56")
    case True
    then have "119 - ?n = 64 + (55 - ?n)" by simp
    then have z: "(119 - ?n) mod 64 = 55 - ?n" by (simp only: mod_add_self1) simp
    let ?b = "?d @ 0x80 # replicate (55 - ?n) 0 @ be64 ?bl"
    have s56: "56 - ?n = Suc (55 - ?n)" using True by simp
    have "length ?b = 64" using True n by simp
    then have "chunks64 ?b = [?b]" using chunks64_block [of ?b "[]"] by simp
    moreover have "take 56 (memcpy_at (ctx_data c) ?n (0x80 # replicate (55 - ?n) 0))
        = ?d @ 0x80 # replicate (55 - ?n) 0"
      using True len n s56 by (simp add: memcpy_at_def)
    ultimately show ?thesis
      using True len n st split z bl s56
      by (simp add: sha256_final_def sha256_ref_def sha256_transform_def Let_def be64_block)
  next
    case False
    then have "119 - ?n < 64" "119 - ?n = (63 - ?n) + 56" using n by simp_all
    then have z: "(119 - ?n) mod 64 = (63 - ?n) + 56" by (metis mod_less)
    let ?b1 = "?d @ 0x80 # replicate (63 - ?n) 0" and ?b2 = "replicate 56 0 @ be64 ?bl"
    have l1: "length ?b1 = 64" "length ?b2 = 64" using False n by simp_all
    have "?d @ 0x80 # replicate ((119 - ?n) mod 64) 0 @ be64 ?bl = ?b1 @ ?b2"
      unfolding z replicate_add by simp
    then have ch: "chunks64 (sha_pad xs) = chunks64 xs @ [?b1, ?b2]"
      using chunks64_block [OF l1(1), of ?b2] chunks64_block [OF l1(2), of "[]"] split by simp
    have "memcpy_at (ctx_data c) ?n (0x80 # replicate (63 - ?n) 0) = ?b1"
      using False len n by (simp add: memcpy_at_def)
    then show ?thesis
      using False len n st ch bl l1
      by (simp add: sha256_final_def sha256_ref_def sha256_transform_def Let_def be64_block
          memcpy_at_def)
  qed
qed

text \<open>However the caller splits the message, the digest is the reference digest of the whole.\<close>

lemma sha256_stream_ref:
  "length g = 64 \<Longrightarrow>
   sha256_final (sha256_update (sha256_update (sha256_init g) xs) ys) = sha256_ref (xs @ ys)"
  using ctx_inv_update [OF ctx_inv_init, of g "xs @ ys"]
  by (simp add: sha256_update_append sha256_final_ref)

lemma sha256_ref_eq: "sha256 xs = sha256_ref xs"
  using sha256_stream_ref [of "replicate 64 0" "[]" xs] by (simp add: sha256_def sha256_update_def)

lemma length_compress: "length (sha256_compress st d) = 8"
  by (simp add: sha256_compress_def Let_def split: prod.splits)

lemma length_foldl_compress: "length st = 8 \<Longrightarrow> length (foldl sha256_compress st bs) = 8"
  by (induction bs arbitrary: st) (simp_all add: length_compress)

lemma length_digest: "length (digest_of st) = 4 * length st"
  by (simp add: digest_of_def length_concat comp_def sum_list_triv mult.commute)

lemma length_sha256 [simp]: "length (sha256 xs) = 32"
  by (simp add: sha256_ref_eq sha256_ref_def length_digest length_foldl_compress sha_iv_def)

end
