(* ===== verification/Config.thy ===== *)
theory Config
  imports Complex_Main Util Sha256
begin

text \<open>
  \<^verbatim>\<open>config.h\<close> and the data half of \<^verbatim>\<open>config.c\<close>: the configuration record, its defaults, name
  matching, the bounded lists (blacklist, role patterns, public channels, rooms) and the
  rooms and blocks of the backbone hub. Fixed character arrays are their NUL-free strings, and
  \<open>char x[N]; int n_x\<close> pairs are lists of at most the declared size (\<open>wf_config\<close>); the
  parallel arrays \<open>rooms\<close>, \<open>room_key\<close>, \<open>room_hub\<close> are one list of records. A \<^verbatim>\<open>double\<close> is the
  rational it denotes. \<^verbatim>\<open>log_warn\<close> calls have no effect on the state and are omitted.
\<close>

abbreviation (input) "MC_MAX_PUBLIC_CHANNELS \<equiv> 48 :: nat"
abbreviation (input) "MC_MAX_BLACKLIST \<equiv> 32 :: nat"
abbreviation (input) "MC_BLACKLIST_NAME_LEN \<equiv> 32 :: nat"
abbreviation (input) "MC_MAX_AFFINITY \<equiv> 16 :: nat"
abbreviation (input) "MC_MAX_HOME \<equiv> 8 :: nat"
abbreviation (input) "MC_MAX_ROOMS \<equiv> 40 :: nat"
abbreviation (input) "MC_ROOM_NAME_LEN \<equiv> 32 :: nat"
abbreviation (input) "MC_MAX_PROBE_ALLOW \<equiv> 8 :: nat"
abbreviation (input) "MC_NAME_PAT_LEN \<equiv> 32 :: nat"
abbreviation (input) "MC_POLICY_MAX_ROOMS \<equiv> 32 :: nat"
abbreviation (input) "MC_POLICY_MAX_BLOCKS \<equiv> 256 :: nat"

section \<open>Data\<close>

record mc_policy =
  version :: u32
  pol_rooms :: "bytes list"
  pol_names :: "bytes list"
  pol_keys :: "bytes list"
  skipped :: int

datatype mc_role = ROLE_REPEATER | ROLE_HOTSPOT

record mc_pub_channel =
  ch_name :: bytes
  secret :: bytes
  secret_len :: nat
  ch_hash :: byte
  derived :: bool
  hub :: bool

record mc_room =
  room_name :: bytes
  room_key :: bytes
  room_hub :: bool

record radio_config =
  frequency :: rat
  bandwidth :: rat
  spreading_factor :: byte
  coding_rate :: byte
  tx_power :: int
  preamble :: u16
  sync_word :: u16
  crc_on :: bool
  iq_inverted :: bool
  use_cad :: bool
  tcxo_voltage :: rat
  ocp_reg :: byte

record wiring_config =
  spi_dev :: bytes
  spi_speed :: u32
  gpio_chip :: bytes
  gpio_reset :: u32
  gpio_busy :: u32
  gpio_dio1 :: u32
  gpio_nss :: u32
  rf_switch_dio2 :: bool
  gpio_rxen :: u32
  gpio_txen :: u32
  use_leds :: bool
  gpio_led_on :: u32
  gpio_led_data :: u32

record link_config =
  link_mode :: bytes
  link_key :: bytes
  link_peer :: bytes
  link_port :: u16

record backbone_config =
  backbone_enable :: bool
  backbone_host :: bytes
  backbone_port :: u16
  backbone_hub_key :: bytes
  backbone_have_hub_key :: bool
  backbone_observe :: bool
  backbone_bridge :: bool
  backbone_rate :: u32

record aprs_config =
  aprs_enable :: bool
  aprs_call :: bytes
  aprs_passcode :: bytes
  aprs_host :: bytes
  aprs_port :: u16
  aprs_tocall :: bytes
  aprs_symbol :: bytes
  aprs_node_symbol :: bytes
  aprs_comment :: bytes
  aprs_altitude :: rat
  aprs_beacon_interval :: u32
  aprs_node_rate :: u32

record mc_config =
  radio :: radio_config
  wiring :: wiring_config
  cfg_name :: bytes
  key_file :: bytes
  has_location :: bool
  latitude :: rat
  longitude :: rat
  advert_interval :: u32
  forward :: bool
  ping_pong :: bool
  ping_channel :: bytes
  probe_allow :: "bytes list"
  mbox_enable :: bool
  timeofday_enable :: bool
  verbose :: bool
  public_channels :: "mc_pub_channel list"
  rooms :: "mc_room list"
  backbone_policy :: bool
  backbone_policy_file :: bytes
  policy :: mc_policy
  policy_rooms :: nat
  policy_skipped :: int
  blacklist :: "bytes list"
  control_port :: u16
  link :: link_config
  backbone :: backbone_config
  aprs :: aprs_config
  role :: mc_role
  affinity :: "bytes list"
  home :: "bytes list"
  hotspot_power_high :: int
  hotspot_power_low :: int
  hotspot_awake :: u32
  web_port :: u16
  web_password :: bytes

definition empty_policy :: mc_policy where
  "empty_policy = \<lparr>version = 0, pol_rooms = [], pol_names = [], pol_keys = [], skipped = 0\<rparr>"

definition config_defaults :: mc_config where
  "config_defaults = \<lparr>
     radio = \<lparr>frequency = 43489 / 100, bandwidth = 125 / 2, spreading_factor = 8, coding_rate = 8,
       tx_power = 22, preamble = 16, sync_word = 0x1424, crc_on = True, iq_inverted = False,
       use_cad = True, tcxo_voltage = 16 / 10, ocp_reg = 0x38\<rparr>,
     wiring = \<lparr>spi_dev = lit ''/dev/spidev0.0'', spi_speed = 2000000, gpio_chip = lit ''gpiochip0'',
       gpio_reset = 18, gpio_busy = 20, gpio_dio1 = 16, gpio_nss = 21, rf_switch_dio2 = True,
       gpio_rxen = 23, gpio_txen = 22, use_leds = True, gpio_led_on = 19, gpio_led_data = 26\<rparr>,
     cfg_name = lit ''HamRepeater'', key_file = lit ''repeater.key'', has_location = False,
     latitude = 0, longitude = 0, advert_interval = 1800, forward = True, ping_pong = True,
     ping_channel = lit ''#mesh'', probe_allow = [], mbox_enable = True, timeofday_enable = True,
     verbose = False, public_channels = [], rooms = [], backbone_policy = True,
     backbone_policy_file = lit ''backbone-policy.txt'', policy = empty_policy, policy_rooms = 0,
     policy_skipped = 0, blacklist = [], control_port = 4403,
     link = \<lparr>link_mode = lit ''off'', link_key = [], link_peer = [], link_port = 4404\<rparr>,
     backbone = \<lparr>backbone_enable = False, backbone_host = lit ''be.mesh73.net'', backbone_port = 4405,
       backbone_hub_key = replicate 32 0, backbone_have_hub_key = False, backbone_observe = True,
       backbone_bridge = False, backbone_rate = 30\<rparr>,
     aprs = \<lparr>aprs_enable = False, aprs_call = [], aprs_passcode = lit ''auto'',
       aprs_host = lit ''belgium.aprs2.net'', aprs_port = 14580, aprs_tocall = lit ''APRFGR'',
       aprs_symbol = lit ''R&'', aprs_node_symbol = lit ''Mn'',
       aprs_comment = lit ''meshcore-repeater 1.0 https://rf.guru'', aprs_altitude = 0,
       aprs_beacon_interval = 1800, aprs_node_rate = 900\<rparr>,
     role = ROLE_REPEATER, affinity = [], home = [], hotspot_power_high = 22,
     hotspot_power_low = -9, hotspot_awake = 3600, web_port = 80, web_password = []\<rparr>"

section \<open>Name matching\<close>

definition config_name_matches :: "bytes \<Rightarrow> bytes \<Rightarrow> bool" where
  "config_name_matches pattern nm =
     (if 0 < length pattern \<and> last pattern = 42
      then strncaseeq (length pattern - 1) pattern nm
      else strcaseeq pattern nm)"

definition config_is_home :: "mc_config \<Rightarrow> bytes \<Rightarrow> bool" where
  "config_is_home cfg nm = (nm \<noteq> [] \<and> list_ex (\<lambda>p. config_name_matches p nm) (home cfg))"

definition config_probe_allowed :: "mc_config \<Rightarrow> bytes \<Rightarrow> bool" where
  "config_probe_allowed cfg nm = (nm \<noteq> [] \<and> list_ex (\<lambda>p. config_name_matches p nm) (probe_allow cfg))"

definition config_is_affinity :: "mc_config \<Rightarrow> bytes \<Rightarrow> bool" where
  "config_is_affinity cfg nm = (nm \<noteq> [] \<and> list_ex (\<lambda>p. config_name_matches p nm) (affinity cfg))"

datatype name_error = NameEmpty | SsidOnRepeater | NoCallsign | SsidLength | SsidNotNumeric

definition config_valid_node_name :: "bytes \<Rightarrow> mc_role \<Rightarrow> name_error option" where
  \<comment> \<open>\<open>None\<close> where the code returns true, otherwise the reason it formats\<close>
  "config_valid_node_name nm rl =
     (if nm = [] then Some NameEmpty
      else (case find_index (\<lambda>c. c = 45) nm of
              None \<Rightarrow> None
            | Some dash \<Rightarrow>
                if rl \<noteq> ROLE_HOTSPOT then Some SsidOnRepeater
                else if dash = 0 then Some NoCallsign
                else let ssid = drop (dash + 1) nm; sl = length ssid in
                if sl < 1 \<or> 2 < sl then Some SsidLength
                else if list_ex (\<lambda>c. c < 48 \<or> 57 < c) ssid then Some SsidNotNumeric
                else None))"

section \<open>Bounded name lists and the blacklist\<close>

definition trim_name :: "bytes \<Rightarrow> nat \<Rightarrow> bytes" where
  "trim_name s outsz = strip_end is_space4 (snprintf_s outsz (dropWhile is_blank s))"

definition list_add :: "bytes list \<Rightarrow> nat \<Rightarrow> bytes \<Rightarrow> int \<times> bytes list" where
  "list_add xs mx val =
     (let clean = trim_name val MC_NAME_PAT_LEN in
      if clean = [] then (-2, xs)
      else if clean = [42] then (-2, xs)
      else if list_ex (\<lambda>x. strcaseeq x clean) xs then (0, xs)
      else if mx \<le> length xs then (-2, xs)
      else (0, xs @ [snprintf_s MC_NAME_PAT_LEN clean]))"

definition config_blacklist_add :: "mc_config \<Rightarrow> bytes \<Rightarrow> int \<times> mc_config" where
  "config_blacklist_add cfg nm =
     (let clean = trim_name nm MC_BLACKLIST_NAME_LEN in
      if clean = [] then (-1, cfg)
      else if list_ex (\<lambda>x. strcaseeq x clean) (blacklist cfg) then (1, cfg)
      else if MC_MAX_BLACKLIST \<le> length (blacklist cfg) then (-1, cfg)
      else (0, cfg\<lparr>blacklist := blacklist cfg @ [snprintf_s MC_BLACKLIST_NAME_LEN clean]\<rparr>))"

definition config_blacklist_remove :: "mc_config \<Rightarrow> bytes \<Rightarrow> int \<times> mc_config" where
  "config_blacklist_remove cfg nm =
     (let clean = trim_name nm MC_BLACKLIST_NAME_LEN in
      case find_index (\<lambda>x. strcaseeq x clean) (blacklist cfg) of
        None \<Rightarrow> (-1, cfg)
      | Some i \<Rightarrow> (0, cfg\<lparr>blacklist := take i (blacklist cfg) @ drop (i + 1) (blacklist cfg)\<rparr>))"

definition ascii_lower :: "byte \<Rightarrow> byte" where
  "ascii_lower x = (if 65 \<le> x \<and> x \<le> 90 then x - 65 + 97 else x)"

fun config_ascii_eq :: "bytes \<Rightarrow> bytes \<Rightarrow> bool" where
  \<comment> \<open>on NUL-free strings: a missing character is the terminator\<close>
  "config_ascii_eq [] [] = True"
| "config_ascii_eq (a # as) (b # bs) = (if ascii_lower a \<noteq> ascii_lower b then False else config_ascii_eq as bs)"
| "config_ascii_eq _ _ = False"

definition config_is_blacklisted :: "mc_config \<Rightarrow> bytes \<Rightarrow> bool" where
  "config_is_blacklisted cfg nm =
     (if nm = [] then False
      else if list_ex (\<lambda>x. strcaseeq x nm) (blacklist cfg) then True
      else backbone_policy cfg \<and> list_ex (\<lambda>x. config_ascii_eq x nm) (pol_names (policy cfg)))"

definition config_is_key_blocked :: "mc_config \<Rightarrow> bytes \<Rightarrow> bool" where
  "config_is_key_blocked cfg pk =
     (if \<not> backbone_policy cfg then False else list_ex (\<lambda>k. k = pk) (pol_keys (policy cfg)))"

section \<open>Public channels and rooms\<close>

definition register_channel :: "mc_config \<Rightarrow> bytes \<Rightarrow> bytes \<Rightarrow> bool \<Rightarrow> int \<times> mc_config" where
  "register_channel cfg nm key drv =
     (let len = length key in
      if len \<noteq> 16 \<and> len \<noteq> 32 then (-2, cfg)
      else if list_ex (\<lambda>c. secret_len c = len \<and> take len (secret c) = key) (public_channels cfg)
      then (0, cfg)
      else if MC_MAX_PUBLIC_CHANNELS \<le> length (public_channels cfg) then (-2, cfg)
      else (0, cfg\<lparr>public_channels := public_channels cfg @
             [\<lparr>ch_name = snprintf_s MC_ROOM_NAME_LEN nm, secret = memcpy_at (replicate 32 0) 0 key,
               secret_len = len, ch_hash = sha256 key ! 0, derived = drv, hub = False\<rparr>]\<rparr>))"

definition is_hex_digit :: "byte \<Rightarrow> bool" where
  "is_hex_digit c = ((48 \<le> c \<and> c \<le> 57) \<or> (97 \<le> c \<and> c \<le> 102) \<or> (65 \<le> c \<and> c \<le> 70))"

definition add_public_channel :: "mc_config \<Rightarrow> bytes \<Rightarrow> int \<times> mc_config" where
  "add_public_channel cfg val =
     (let (nm, psk) = (case find_index (\<lambda>c. c = 58) val of
                         None \<Rightarrow> ([], val)
                       | Some colon \<Rightarrow> (take (min colon (MC_ROOM_NAME_LEN - 1)) val, drop (colon + 1) val));
          pl = length psk;
          ishex = ((pl = 32 \<or> pl = 64) \<and> list_all is_hex_digit psk)
      in case (if ishex then hex2bin psk 32 else base64_decode psk 32) of
           None \<Rightarrow> (-2, cfg)
         | Some key \<Rightarrow> register_channel cfg nm key False)"

definition norm_room :: "bytes \<Rightarrow> bytes option" where
  \<comment> \<open>the name \<open>add_room_ex\<close> stores: trimmed, exactly one leading '#', not too long\<close>
  "norm_room val =
     (let clean = trim_name val (MC_ROOM_NAME_LEN * 2) in
      if clean = [] then None
      else let nm = (if clean ! 0 = 35 then clean else 35 # clean) in
      if length nm = 1 then None
      else if MC_ROOM_NAME_LEN \<le> length nm then None
      else Some nm)"

definition serve_room :: "mc_config \<Rightarrow> bytes \<Rightarrow> bool \<Rightarrow> mc_config" where
  \<comment> \<open>\<open>add_room_ex\<close> once the room is known to be new and to fit\<close>
  "serve_room cfg nm hb =
     (let key = take 16 (sha256 nm);
          had = length (public_channels cfg);
          cfg = cfg\<lparr>rooms := rooms cfg @ [\<lparr>room_name = nm, room_key = key, room_hub = hb\<rparr>]\<rparr>;
          cfg = snd (register_channel cfg nm key True)
      in if hb \<and> had < length (public_channels cfg)
         then cfg\<lparr>public_channels := (public_channels cfg)[had := (public_channels cfg ! had)\<lparr>hub := True\<rparr>]\<rparr>
         else cfg)"

definition add_room_ex :: "mc_config \<Rightarrow> bytes \<Rightarrow> bool \<Rightarrow> int \<times> mc_config" where
  "add_room_ex cfg val hb =
     (case norm_room val of
        None \<Rightarrow> (-2, cfg)
      | Some nm \<Rightarrow>
          if list_ex (\<lambda>r. room_name r = nm) (rooms cfg) then (0, cfg)
          else if MC_MAX_ROOMS \<le> length (rooms cfg) then (-2, cfg)
          else (0, serve_room cfg nm hb))"

definition config_ensure_hashtag_channel :: "mc_config \<Rightarrow> bytes \<Rightarrow> mc_config" where
  "config_ensure_hashtag_channel cfg nm =
     (if nm = [] then cfg
      else if list_ex (\<lambda>c. ch_name c = nm) (public_channels cfg) then cfg
      else snd (register_channel cfg nm (take 16 (sha256 nm)) True))"

definition config_ensure_ping_channel :: "mc_config \<Rightarrow> mc_config" where
  "config_ensure_ping_channel cfg =
     (let cfg = config_ensure_hashtag_channel cfg (ping_channel cfg) in
      if mbox_enable cfg then config_ensure_hashtag_channel cfg (lit ''#mbox'') else cfg)"

section \<open>Rooms and blocks from the hub\<close>

definition drop_hub :: "mc_config \<Rightarrow> mc_config" where
  \<comment> \<open>the two compacting loops at the head of \<open>config_policy_merge\<close>\<close>
  "drop_hub cfg = cfg\<lparr>rooms := filter (\<lambda>r. \<not> room_hub r) (rooms cfg),
                    public_channels := filter (\<lambda>c. \<not> hub c) (public_channels cfg),
                    policy_rooms := 0, policy_skipped := skipped (policy cfg)\<rparr>"

definition merge_room :: "mc_config \<Rightarrow> bytes \<Rightarrow> mc_config" where
  \<comment> \<open>one iteration of its last loop\<close>
  "merge_room cfg nm =
     (let had = length (rooms cfg);
          served = list_ex (\<lambda>r. room_name r = nm) (rooms cfg);
          (rc, cfg') = (if served then (0, cfg) else add_room_ex cfg nm True) in
      if served \<or> (rc = 0 \<and> had < length (rooms cfg'))
      then cfg'\<lparr>policy_rooms := policy_rooms cfg' + 1\<rparr>
      else cfg'\<lparr>policy_skipped := policy_skipped cfg' + 1\<rparr>)"

definition config_policy_merge :: "mc_config \<Rightarrow> mc_config" where
  "config_policy_merge cfg =
     (let cfg = drop_hub cfg in
      if \<not> backbone_policy cfg then cfg
      else foldl merge_room cfg (pol_rooms (policy cfg)))"

definition config_set_policy :: "mc_config \<Rightarrow> mc_policy \<Rightarrow> bytes option \<Rightarrow> mc_config" where
  "config_set_policy cfg p own_pub =
     config_policy_merge (cfg\<lparr>policy :=
       \<lparr>version = version p, pol_rooms = pol_rooms p,
        pol_names = filter (\<lambda>n. \<not> config_ascii_eq n (cfg_name cfg)) (pol_names p),
        pol_keys = filter (\<lambda>k. Some k \<noteq> own_pub) (pol_keys p),
        skipped = skipped p\<rparr>\<rparr>)"

section \<open>Well-formed configurations\<close>

text \<open>Every list stays within its array, and every channel carries the hash of its own key.\<close>

definition wf_channel :: "mc_pub_channel \<Rightarrow> bool" where
  "wf_channel c \<longleftrightarrow> length (secret c) = 32 \<and> (secret_len c = 16 \<or> secret_len c = 32) \<and>
     drop (secret_len c) (secret c) = replicate (32 - secret_len c) 0 \<and>
     ch_hash c = sha256 (take (secret_len c) (secret c)) ! 0 \<and> length (ch_name c) < MC_ROOM_NAME_LEN"

definition wf_room :: "mc_room \<Rightarrow> bool" where
  "wf_room r \<longleftrightarrow> room_key r = take 16 (sha256 (room_name r)) \<and> length (room_name r) < MC_ROOM_NAME_LEN \<and>
     (\<exists>n. room_name r = 35 # n \<and> n \<noteq> [])"

definition wf_config :: "mc_config \<Rightarrow> bool" where
  "wf_config cfg \<longleftrightarrow>
     list_all wf_channel (public_channels cfg) \<and> length (public_channels cfg) \<le> MC_MAX_PUBLIC_CHANNELS \<and>
     list_all wf_room (rooms cfg) \<and> length (rooms cfg) \<le> MC_MAX_ROOMS \<and> distinct (map room_name (rooms cfg)) \<and>
     length (blacklist cfg) \<le> MC_MAX_BLACKLIST \<and> length (affinity cfg) \<le> MC_MAX_AFFINITY \<and>
     length (home cfg) \<le> MC_MAX_HOME \<and> length (probe_allow cfg) \<le> MC_MAX_PROBE_ALLOW"

lemma wf_defaults: "wf_config config_defaults"
  by (simp add: wf_config_def config_defaults_def)

lemma wf_new_channel:
  assumes "length key = 16 \<or> length key = 32"
  shows "wf_channel \<lparr>ch_name = snprintf_s 32 nm, secret = memcpy_at (replicate 32 0) 0 key,
    secret_len = length key, ch_hash = sha256 key ! 0, derived = d, hub = h\<rparr>"
  using assms by (auto simp: wf_channel_def memcpy_at_def snprintf_s_def)

lemma register_channel_cases:
  obtains (bad) "length key \<noteq> 16" "length key \<noteq> 32" "register_channel cfg nm key d = (-2, cfg)"
    | (dup) c where "c \<in> set (public_channels cfg)" "take (length key) (secret c) = key"
        "secret_len c = length key" "register_channel cfg nm key d = (0, cfg)"
    | (full) "MC_MAX_PUBLIC_CHANNELS \<le> length (public_channels cfg)" "register_channel cfg nm key d = (-2, cfg)"
    | (added) c where "wf_channel c" "\<not> hub c" "derived c = d" "take (secret_len c) (secret c) = key"
        "length (public_channels cfg) < MC_MAX_PUBLIC_CHANNELS"
        "register_channel cfg nm key d = (0, cfg\<lparr>public_channels := public_channels cfg @ [c]\<rparr>)"
proof -
  let ?c = "\<lparr>ch_name = snprintf_s 32 nm, secret = memcpy_at (replicate 32 0) 0 key,
    secret_len = length key, ch_hash = sha256 key ! 0, derived = d, hub = False\<rparr>"
  consider "length key \<noteq> 16 \<and> length key \<noteq> 32"
    | "length key = 16 \<or> length key = 32"
      "list_ex (\<lambda>c. secret_len c = length key \<and> take (length key) (secret c) = key) (public_channels cfg)"
    | "length key = 16 \<or> length key = 32"
      "\<not> list_ex (\<lambda>c. secret_len c = length key \<and> take (length key) (secret c) = key) (public_channels cfg)"
    by blast
  then show thesis
  proof cases
    case 1
    then show thesis by (intro bad) (simp_all add: register_channel_def)
  next
    case 2
    then obtain c where "c \<in> set (public_channels cfg)" "secret_len c = length key"
      "take (length key) (secret c) = key" by (auto simp: list_ex_iff)
    moreover have "register_channel cfg nm key d = (0, cfg)"
      using 2 by (simp add: register_channel_def Let_def)
    ultimately show thesis by (intro dup)
  next
    case 3
    show thesis
    proof (cases "MC_MAX_PUBLIC_CHANNELS \<le> length (public_channels cfg)")
      case True
      with 3 show thesis by (intro full) (auto simp: register_channel_def)
    next
      case False
      show thesis
      proof (rule added)
        show "wf_channel ?c" using 3(1) by (rule wf_new_channel)
        show "take (secret_len ?c) (secret ?c) = key" by (auto simp: memcpy_at_def)
      qed (use 3 False in \<open>auto simp: register_channel_def Let_def\<close>)
    qed
  qed
qed

lemma register_channel_wf [wf_simps]: "wf_config cfg \<Longrightarrow> wf_config (snd (register_channel cfg nm key d))"
  by (cases rule: register_channel_cases [of key cfg nm d]) (auto simp: wf_config_def)

text \<open>The invariant of the operations that only touch rooms and channels.\<close>

lemma list_add_bound: "length xs \<le> mx \<Longrightarrow> length (snd (list_add xs mx v)) \<le> mx"
  by (simp add: list_add_def Let_def)

lemma list_add_no_wildcard:
  "[42] \<notin> set xs \<Longrightarrow> [] \<notin> set xs \<Longrightarrow> [42] \<notin> set (snd (list_add xs mx v)) \<and> [] \<notin> set (snd (list_add xs mx v))"
proof -
  have t: "snprintf_s 32 (trim_name v 32) = trim_name v 32"
  proof -
    have "length (trim_name v 32) \<le> length (snprintf_s 32 (dropWhile is_blank v))"
      unfolding trim_name_def strip_end_def by (metis length_dropWhile_le length_rev)
    also have "\<dots> \<le> 31" by (simp add: snprintf_s_def)
    finally show ?thesis by (simp add: snprintf_s_def)
  qed
  show "[42] \<notin> set xs \<Longrightarrow> [] \<notin> set xs \<Longrightarrow> ?thesis" by (auto simp: list_add_def Let_def t)
qed

lemma norm_room_Some:
  assumes "norm_room val = Some nm"
  shows "length nm < 32 \<and> (\<exists>n. nm = 35 # n \<and> n \<noteq> [])"
proof -
  define clean where "clean = trim_name val 64"
  have "clean \<noteq> []" "nm = (if clean ! 0 = 35 then clean else 35 # clean)" "length nm \<noteq> 1" "length nm < 32"
    using assms by (auto simp: norm_room_def Let_def split: if_splits simp flip: clean_def)
  then show ?thesis by (cases clean) (auto split: if_splits)
qed

lemma serve_room_cases:
  obtains r C where "wf_room r" "room_hub r = hb" "room_name r = nm"
      "serve_room cfg nm hb = cfg\<lparr>rooms := rooms cfg @ [r], public_channels := public_channels cfg @ C\<rparr>"
      "C = [] \<or> (\<exists>c. C = [c] \<and> wf_channel c \<and> hub c = hb \<and> derived c \<and> length (public_channels cfg) < MC_MAX_PUBLIC_CHANNELS)"
    | "\<not> (length nm < 32 \<and> (\<exists>n. nm = 35 # n \<and> n \<noteq> []))"
proof (cases "length nm < 32 \<and> (\<exists>n. nm = 35 # n \<and> n \<noteq> [])")
  case True
  let ?key = "take 16 (sha256 nm)"
  let ?r = "\<lparr>room_name = nm, room_key = ?key, room_hub = hb\<rparr>"
  let ?cfg = "cfg\<lparr>rooms := rooms cfg @ [?r]\<rparr>"
  have r: "wf_room ?r" using True by (simp add: wf_room_def)
  show thesis
  proof (cases rule: register_channel_cases [of ?key ?cfg nm True])
    case (added c)
    let ?c = "c\<lparr>hub := hb\<rparr>"
    have "serve_room cfg nm hb = ?cfg\<lparr>public_channels := public_channels cfg @ [?c]\<rparr>"
      using added(2,6) by (cases hb) (simp_all add: serve_room_def Let_def)
    moreover have "wf_channel ?c" using added(1) by (simp add: wf_channel_def)
    ultimately show thesis using that(1) [of ?r "[?c]"] r added by simp
  qed (use that(1) [of ?r "[]"] r in \<open>simp_all add: serve_room_def Let_def\<close>)
qed (use that(2) in blast)

lemma add_room_cases:
  obtains (same) rc where "add_room_ex cfg val hb = (rc, cfg)"
    | (added) r C where "wf_room r" "room_hub r = hb" "room_name r \<notin> room_name ` set (rooms cfg)"
        "norm_room val = Some (room_name r)" "length (rooms cfg) < MC_MAX_ROOMS"
        "add_room_ex cfg val hb =
           (0, cfg\<lparr>rooms := rooms cfg @ [r], public_channels := public_channels cfg @ C\<rparr>)"
        "C = [] \<or> (\<exists>c. C = [c] \<and> wf_channel c \<and> hub c = hb \<and> derived c \<and> length (public_channels cfg) < MC_MAX_PUBLIC_CHANNELS)"
proof (cases "norm_room val")
  case None
  then show thesis using same by (simp add: add_room_ex_def)
next
  case (Some nm)
  show thesis
  proof (cases "list_ex (\<lambda>r. room_name r = nm) (rooms cfg) \<or> MC_MAX_ROOMS \<le> length (rooms cfg)")
    case True
    then show thesis
      using same [of "if list_ex (\<lambda>r. room_name r = nm) (rooms cfg) then 0 else -2"] Some
      by (auto simp: add_room_ex_def)
  next
    case False
    with Some have e: "add_room_ex cfg val hb = (0, serve_room cfg nm hb)" by (simp add: add_room_ex_def)
    show thesis
    proof (rule serve_room_cases [of hb nm cfg])
      fix r C
      assume "wf_room r" "room_hub r = hb" and n: "room_name r = nm"
        and s: "serve_room cfg nm hb = cfg\<lparr>rooms := rooms cfg @ [r], public_channels := public_channels cfg @ C\<rparr>"
        and "C = [] \<or> (\<exists>c. C = [c] \<and> wf_channel c \<and> hub c = hb \<and> derived c \<and>
          length (public_channels cfg) < MC_MAX_PUBLIC_CHANNELS)"
      moreover have "room_name r \<notin> room_name ` set (rooms cfg)" "length (rooms cfg) < MC_MAX_ROOMS"
        using False n by (auto simp: list_ex_iff)
      moreover have "norm_room val = Some (room_name r)" using Some n by simp
      ultimately show thesis using e [unfolded s] by (intro added)
    qed (use norm_room_Some [OF Some] in blast)
  qed
qed

lemma add_room_wf [wf_simps]:
  assumes "wf_config cfg" shows "wf_config (snd (add_room_ex cfg val hb))"
  using assms by (cases rule: add_room_cases [of cfg val hb]) (auto simp: wf_config_def)

lemma ensure_wf [wf_simps]:
  "wf_config cfg \<Longrightarrow> wf_config (config_ensure_hashtag_channel cfg nm)"
  "wf_config cfg \<Longrightarrow> wf_config (config_ensure_ping_channel cfg)"
  by (simp_all add: config_ensure_ping_channel_def config_ensure_hashtag_channel_def Let_def register_channel_wf)

lemma add_public_channel_wf [wf_simps]: "wf_config cfg \<Longrightarrow> wf_config (snd (add_public_channel cfg val))"
  by (auto simp: add_public_channel_def register_channel_wf Let_def split: prod.split option.split)

lemma blacklist_wf [wf_simps]:
  "wf_config cfg \<Longrightarrow> wf_config (snd (config_blacklist_add cfg nm))"
  "wf_config cfg \<Longrightarrow> wf_config (snd (config_blacklist_remove cfg nm))"
  by (auto simp: wf_config_def config_blacklist_add_def config_blacklist_remove_def Let_def
      split: option.split dest: find_index_lt)

section \<open>What the policy merge keeps\<close>

definition local_part :: "mc_config \<Rightarrow> mc_room list \<times> mc_pub_channel list" where
  "local_part cfg = (filter (\<lambda>r. \<not> room_hub r) (rooms cfg), filter (\<lambda>c. \<not> hub c) (public_channels cfg))"

lemma add_hub_room_local: "local_part (snd (add_room_ex cfg nm True)) = local_part cfg"
  by (cases rule: add_room_cases [of cfg nm True]) (auto simp: local_part_def)

lemma merge_room_local: "local_part (merge_room cfg nm) = local_part cfg"
  using add_hub_room_local [of cfg nm]
  by (auto simp: merge_room_def Let_def local_part_def split: prod.splits)

lemma merge_rooms_local: "local_part (foldl merge_room cfg ns) = local_part cfg"
  by (induction ns arbitrary: cfg) (simp_all add: merge_room_local)

lemma drop_hub_local: "local_part (drop_hub cfg) = local_part cfg"
  by (simp add: local_part_def drop_hub_def)

lemma policy_merge_local: "local_part (config_policy_merge cfg) = local_part cfg"
  by (simp add: config_policy_merge_def Let_def merge_rooms_local drop_hub_local)

lemma add_room_frame [frame_simps]:
  "\<exists>R C. snd (add_room_ex cfg nm hb) = cfg\<lparr>rooms := R, public_channels := C\<rparr>"
proof (cases rule: add_room_cases [of cfg nm hb])
  case (same rc)
  then show ?thesis by (intro exI [of _ "rooms cfg"] exI [of _ "public_channels cfg"]) simp
next
  case (added r C)
  then show ?thesis by auto
qed

lemma merge_room_frame:
  "\<exists>R C n k. merge_room cfg nm = cfg\<lparr>rooms := R, public_channels := C, policy_rooms := n, policy_skipped := k\<rparr>"
proof -
  obtain R C where f: "snd (add_room_ex cfg nm True) = cfg\<lparr>rooms := R, public_channels := C\<rparr>"
    using add_room_frame by blast
  have e: "cfg = cfg\<lparr>rooms := rooms cfg, public_channels := public_channels cfg\<rparr>" by simp
  show ?thesis
  proof (cases "list_ex (\<lambda>r. room_name r = nm) (rooms cfg)")
    case True
    then have "merge_room cfg nm = cfg\<lparr>rooms := rooms cfg, public_channels := public_channels cfg,
      policy_rooms := policy_rooms cfg + 1, policy_skipped := policy_skipped cfg\<rparr>"
      by (simp add: merge_room_def)
    then show ?thesis by blast
  next
    case False
    let ?ok = "fst (add_room_ex cfg nm True) = 0 \<and> length (rooms cfg) < length R"
    have "merge_room cfg nm = cfg\<lparr>rooms := R, public_channels := C,
      policy_rooms := (if ?ok then policy_rooms cfg + 1 else policy_rooms cfg),
      policy_skipped := (if ?ok then policy_skipped cfg else policy_skipped cfg + 1)\<rparr>"
      using False f by (auto simp: merge_room_def Let_def split: prod.splits)
    then show ?thesis by blast
  qed
qed

lemma merge_rooms_frame:
  "\<exists>R C n k. foldl merge_room cfg ns = cfg\<lparr>rooms := R, public_channels := C, policy_rooms := n, policy_skipped := k\<rparr>"
proof (induction ns arbitrary: cfg)
  case Nil
  have "cfg = cfg\<lparr>rooms := rooms cfg, public_channels := public_channels cfg,
    policy_rooms := policy_rooms cfg, policy_skipped := policy_skipped cfg\<rparr>" by simp
  then show ?case by (metis foldl_Nil)
next
  case (Cons nm ns)
  obtain R C n k where a: "merge_room cfg nm =
      cfg\<lparr>rooms := R, public_channels := C, policy_rooms := n, policy_skipped := k\<rparr>"
    using merge_room_frame by blast
  from Cons.IH [of "merge_room cfg nm"] show ?case unfolding foldl_Cons a by auto
qed

lemma policy_merge_frame:
  "\<exists>R C n k. config_policy_merge cfg =
     cfg\<lparr>rooms := R, public_channels := C, policy_rooms := n, policy_skipped := k\<rparr>"
proof (cases "backbone_policy cfg")
  case True
  then have "config_policy_merge cfg = foldl merge_room (drop_hub cfg) (pol_rooms (policy cfg))"
    by (simp add: config_policy_merge_def drop_hub_def Let_def)
  then show ?thesis using merge_rooms_frame [of "drop_hub cfg" "pol_rooms (policy cfg)"]
    by (auto simp: drop_hub_def)
next
  case False
  then show ?thesis by (auto simp: config_policy_merge_def drop_hub_def Let_def)
qed

lemma policy_merge_fields [frame_simps, simp]:
  "policy (config_policy_merge cfg) = policy cfg"
  "backbone_policy (config_policy_merge cfg) = backbone_policy cfg"
  "cfg_name (config_policy_merge cfg) = cfg_name cfg"
  "blacklist (config_policy_merge cfg) = blacklist cfg"
  using policy_merge_frame [of cfg] by auto

lemma drop_hub_merge: "drop_hub (config_policy_merge cfg) = drop_hub cfg"
proof -
  obtain R C n k where m: "config_policy_merge cfg =
      cfg\<lparr>rooms := R, public_channels := C, policy_rooms := n, policy_skipped := k\<rparr>"
    using policy_merge_frame by blast
  have "local_part (config_policy_merge cfg) = local_part cfg" by (rule policy_merge_local)
  then show ?thesis unfolding m by (simp add: local_part_def drop_hub_def)
qed

lemma policy_merge_again: "config_policy_merge (config_policy_merge cfg) = config_policy_merge cfg"
proof -
  have "config_policy_merge c =
      (if \<not> backbone_policy c then drop_hub c else foldl merge_room (drop_hub c) (pol_rooms (policy c)))" for c
    by (simp add: config_policy_merge_def drop_hub_def Let_def)
  then show ?thesis by (metis drop_hub_merge policy_merge_fields(1,2))
qed

lemma filter_distinct_names: "distinct (map f xs) \<Longrightarrow> distinct (map f (filter P xs))"
  by (induction xs) auto

lemma merge_room_wf: "wf_config cfg \<Longrightarrow> wf_config (merge_room cfg nm)"
  using add_room_wf [of cfg nm True] by (auto simp: merge_room_def Let_def wf_config_def split: prod.splits)

lemma merge_rooms_wf: "wf_config cfg \<Longrightarrow> wf_config (foldl merge_room cfg ns)"
  by (induction ns arbitrary: cfg) (simp_all add: merge_room_wf)

lemma drop_hub_wf: "wf_config cfg \<Longrightarrow> wf_config (drop_hub cfg)"
  by (auto simp: wf_config_def drop_hub_def list_all_iff filter_distinct_names
      intro: le_trans [OF length_filter_le])

lemma policy_merge_wf [wf_simps]: "wf_config cfg \<Longrightarrow> wf_config (config_policy_merge cfg)"
  by (simp add: config_policy_merge_def Let_def drop_hub_wf merge_rooms_wf)

lemma set_policy_wf [wf_simps]: "wf_config cfg \<Longrightarrow> wf_config (config_set_policy cfg p own)"
  unfolding config_set_policy_def by (rule policy_merge_wf) (simp add: wf_config_def)

lemma ascii_eq_iff: "config_ascii_eq a b \<longleftrightarrow> map ascii_lower a = map ascii_lower b"
  by (induction a b rule: config_ascii_eq.induct) auto

lemma set_policy_own:
  "\<not> config_is_key_blocked (config_set_policy cfg p (Some own)) own"
  "config_is_blacklisted (config_set_policy cfg p own_pub) (cfg_name cfg) \<longleftrightarrow>
     cfg_name cfg \<noteq> [] \<and> list_ex (\<lambda>x. strcaseeq x (cfg_name cfg)) (blacklist cfg)"
  by (auto simp: config_is_key_blocked_def config_is_blacklisted_def config_set_policy_def list_ex_iff)

section \<open>The blacklist\<close>

lemma trim_name_len: "length (trim_name v 32) \<le> 31"
proof -
  have "length (trim_name v 32) \<le> length (snprintf_s 32 (dropWhile is_blank v))"
    unfolding trim_name_def strip_end_def by (metis length_dropWhile_le length_rev)
  also have "\<dots> \<le> 31" by (simp add: snprintf_s_def)
  finally show ?thesis .
qed

definition uniq_names :: "bytes list \<Rightarrow> bool" where
  \<comment> \<open>no entry twice, whatever the case\<close>
  "uniq_names xs = distinct (map (map tolower) xs)"

lemma blacklist_add_listed:
  assumes "config_blacklist_add cfg nm = (rc, cfg')" "0 \<le> rc"
  shows "config_is_blacklisted cfg' (trim_name nm 32)"
  using assms trim_name_len [of nm]
  by (auto simp: config_blacklist_add_def config_is_blacklisted_def Let_def snprintf_s_def list_ex_iff
      split: if_splits)

lemma blacklist_add_uniq:
  "uniq_names (blacklist cfg) \<Longrightarrow> uniq_names (blacklist (snd (config_blacklist_add cfg nm)))"
  using trim_name_len [of nm]
  by (auto simp: config_blacklist_add_def Let_def uniq_names_def list_ex_iff strcaseeq_def snprintf_s_def)

lemma blacklist_remove_gone:
  assumes "uniq_names (blacklist cfg)"
  shows "uniq_names (blacklist (snd (config_blacklist_remove cfg nm)))"
    and "\<not> list_ex (\<lambda>x. strcaseeq x (trim_name nm 32)) (blacklist (snd (config_blacklist_remove cfg nm)))"
proof -
  let ?P = "\<lambda>x. strcaseeq x (trim_name nm 32)" and ?xs = "blacklist cfg"
  have "uniq_names (blacklist (snd (config_blacklist_remove cfg nm))) \<and>
    \<not> list_ex ?P (blacklist (snd (config_blacklist_remove cfg nm)))"
  proof (cases "find_index ?P ?xs")
    case None
    then have "\<forall>x \<in> set ?xs. \<not> ?P x" by (simp only: find_index_None)
    with None assms show ?thesis by (simp add: config_blacklist_remove_def Let_def list_ex_iff)
  next
    case (Some i)
    then have i: "i < length ?xs" "?P (?xs ! i)" by (auto simp: find_index_Some)
    let ?l = "map (map tolower) ?xs"
    have s: "?l = take i ?l @ ?l ! i # drop (Suc i) ?l"
      by (rule id_take_nth_drop) (use i(1) in simp)
    have d: "distinct (take i ?l @ ?l ! i # drop (Suc i) ?l)"
      using assms s unfolding uniq_names_def by metis
    have "map tolower (trim_name nm 32) = ?l ! i" using i by (simp add: strcaseeq_def)
    then have "\<not> list_ex ?P (take i ?xs @ drop (Suc i) ?xs)"
      using d i(1) by (auto simp: list_ex_iff strcaseeq_def take_map drop_map image_iff)
    with d Some show ?thesis
      by (simp add: config_blacklist_remove_def Let_def uniq_names_def take_map drop_map)
  qed
  then show "uniq_names (blacklist (snd (config_blacklist_remove cfg nm)))"
    "\<not> list_ex ?P (blacklist (snd (config_blacklist_remove cfg nm)))" by simp_all
qed

end
