(* ===== verification/World.thy ===== *)
theory World
  imports Config
begin

text \<open>
  What the daemon sees of the machine (\<^verbatim>\<open>hal.h\<close>, \<^verbatim>\<open>hal_linux.c\<close>, \<^verbatim>\<open>time\<close>, the radio driver's
  results) and what it does to it. \<open>world\<close> holds the readings still to come as sequences
  indexed by a counter, the state of the random number generator, the settings the radio
  driver was given, and the list of effects so far, in order. The random number generator,
  the airtime formula and \<^verbatim>\<open>config_to_sx126x\<close> are the code's own; a \<^verbatim>\<open>double\<close> is the
  rational it denotes, so an airtime that is a whole number of milliseconds may come out one
  lower here than in floating point.
\<close>

section \<open>The radio driver's settings and the airtime formula\<close>

record sx126x_cfg =
  sx_freq :: rat
  sx_bw :: rat
  sx_sf :: byte
  sx_cr :: byte
  sx_power :: int
  sx_preamble :: u16
  sx_crc_on :: bool
  sx_iq_inverted :: bool
  sx_ldro :: bool
  sx_tcxo :: rat
  sx_sync_word :: u16
  sx_ocp :: byte
  sx_use_cad :: bool
  sx_dio2 :: bool

definition config_to_sx126x :: "mc_config \<Rightarrow> sx126x_cfg" where
  "config_to_sx126x cfg =
     (let r = radio cfg;
          ts_ms = (of_nat (2 ^ unat (spreading_factor r)) / (bandwidth r * 1000)) * 1000 in
      \<lparr>sx_freq = frequency r, sx_bw = bandwidth r, sx_sf = spreading_factor r,
       sx_cr = coding_rate r, sx_power = tx_power r, sx_preamble = preamble r,
       sx_crc_on = crc_on r, sx_iq_inverted = iq_inverted r, sx_ldro = (16 < ts_ms),
       sx_tcxo = tcxo_voltage r, sx_sync_word = sync_word r, sx_ocp = ocp_reg r,
       sx_use_cad = use_cad r, sx_dio2 = rf_switch_dio2 (wiring cfg)\<rparr>)"

definition sx126x_airtime_ms :: "sx126x_cfg \<Rightarrow> nat \<Rightarrow> u32" where
  "sx126x_airtime_ms g len =
     (let bw = sx_bw g * 1000;
          ts = of_nat (2 ^ unat (sx_sf g)) / bw;
          t_preamble = (of_nat (unat (sx_preamble g)) + 17 / 4) * ts;
          de = (if sx_ldro g then 1 else 0);
          crc = (if sx_crc_on g then 1 else 0);
          sf = of_nat (unat (sx_sf g)) :: rat;
          num = 8 * of_nat len - 4 * sf + 28 + 16 * crc;
          den = 4 * (sf - 2 * de);
          ceil_part = max 0 \<lceil>num / den\<rceil>;
          n_payload = 8 + of_int ceil_part * of_nat (unat (sx_cr g));
          total_ms = (t_preamble + n_payload * ts) * 1000
      in word_of_int \<lceil>total_ms\<rceil>)"

section \<open>Effects\<close>

datatype effect =
    MonDrop byte bytes int
  | MonPublic bytes bytes int int
  | MonRegion bytes byte nat int int
  | MonAdvert bytes byte "(int \<times> int) option" int int
  | MonTx bytes bool nat nat int u32 bytes
  | BackboneOffer bytes bool
  | BackboneStatusSoon
  | AprsGate u64 bytes byte int int bytes
  | SetTxPower int
  | Transmit bytes u32
  | RadioReinit

section \<open>The world\<close>

record world =
  w_millis :: "nat \<Rightarrow> u64"
  w_millis_i :: nat
  w_time :: "nat \<Rightarrow> nat"
  w_time_i :: nat
  w_rng :: u64
  w_busy :: "nat \<Rightarrow> int"
  w_busy_i :: nat
  w_txrc :: "nat \<Rightarrow> int"
  w_txrc_i :: nat
  w_sx :: sx126x_cfg
  w_out :: "effect list"

definition hal_millis :: "world \<Rightarrow> u64 \<times> world" where
  "hal_millis w = (w_millis w (w_millis_i w), w\<lparr>w_millis_i := w_millis_i w + 1\<rparr>)"

definition time_now :: "world \<Rightarrow> nat \<times> world" where
  \<comment> \<open>\<open>time (NULL)\<close>, in seconds since 1970\<close>
  "time_now w = (w_time w (w_time_i w), w\<lparr>w_time_i := w_time_i w + 1\<rparr>)"

definition xorshift64 :: "world \<Rightarrow> u64 \<times> world" where
  "xorshift64 w =
     (let x = w_rng w;
          x = x XOR push_bit 13 x;
          x = x XOR drop_bit 7 x;
          x = x XOR push_bit 17 x
      in (x, w\<lparr>w_rng := x\<rparr>))"

definition hal_rng_int :: "u32 \<Rightarrow> u32 \<Rightarrow> world \<Rightarrow> u32 \<times> world" where
  "hal_rng_int lo hi w =
     (if hi \<le> lo then (lo, w)
      else let span = hi - lo + 1; (x, w) = xorshift64 w
           in (lo + ucast (x mod ucast span), w))"

definition sx126x_channel_busy :: "world \<Rightarrow> int \<times> world" where
  \<comment> \<open>the driver's answer: 1 when CAD hears LoRa activity\<close>
  "sx126x_channel_busy w = (w_busy w (w_busy_i w), w\<lparr>w_busy_i := w_busy_i w + 1\<rparr>)"

definition emit :: "effect \<Rightarrow> world \<Rightarrow> world" where
  "emit e w = w\<lparr>w_out := w_out w @ [e]\<rparr>"

definition sx126x_transmit :: "bytes \<Rightarrow> u32 \<Rightarrow> world \<Rightarrow> int \<times> world" where
  \<comment> \<open>the frame goes to the radio; the driver's return code comes back\<close>
  "sx126x_transmit raw timeout w =
     (let w = emit (Transmit raw timeout) w
      in (w_txrc w (w_txrc_i w), w\<lparr>w_txrc_i := w_txrc_i w + 1\<rparr>))"

lemma hal_rng_int_range:
  assumes "lo \<le> hi" "unat hi < 2 ^ 31"
  shows "lo \<le> fst (hal_rng_int lo hi w)" "fst (hal_rng_int lo hi w) \<le> hi"
proof -
  have "unat lo \<le> unat (fst (hal_rng_int lo hi w)) \<and> unat (fst (hal_rng_int lo hi w)) \<le> unat hi"
  proof (cases "hi \<le> lo")
    case True
    with assms show ?thesis by (simp add: hal_rng_int_def)
  next
    case False
    let ?x = "fst (xorshift64 w)" and ?s = "hi - lo + 1"
    have s: "unat ?s = unat hi - unat lo + 1"
      using assms by (simp add: unat_word_ariths unat_sub word_le_nat_alt)
    have m: "unat (?x mod ucast ?s) = unat ?x mod unat ?s"
    proof -
      have "unat (ucast ?s :: u64) = unat ?s"
        unfolding unsigned_ucast_eq using s assms(2) by (intro take_bit_nat_eq_self) simp
      then show ?thesis by (simp only: unat_mod_distrib)
    qed
    have lt: "unat ?x mod unat ?s \<le> unat hi - unat lo"
      using s by (metis Suc_eq_plus1 less_Suc_eq_le mod_less_divisor zero_less_Suc)
    have u: "unat (ucast (?x mod ucast ?s) :: u32) = unat ?x mod unat ?s"
      unfolding unsigned_ucast_eq m using lt assms(2) by (intro take_bit_nat_eq_self) simp
    have "fst (hal_rng_int lo hi w) = lo + ucast (?x mod ucast ?s)"
      using False by (simp add: hal_rng_int_def split: prod.split)
    moreover have "unat (lo + ucast (?x mod ucast ?s)) = unat lo + unat ?x mod unat ?s"
      using u lt assms by (simp add: unat_word_ariths word_le_nat_alt)
    ultimately show ?thesis using lt assms(1) by (simp add: word_le_nat_alt)
  qed
  then show "lo \<le> fst (hal_rng_int lo hi w)" "fst (hal_rng_int lo hi w) \<le> hi"
    by (simp_all add: word_le_nat_alt)
qed

end
