(* ===== verification/Packet.thy ===== *)
theory Packet
  imports Util Sha256
begin

text \<open>
  \<^verbatim>\<open>packet.h\<close> and \<^verbatim>\<open>packet.c\<close>: the wire format. \<open>mc_packet\<close> is the C struct, with \<open>path\<close> and
  \<open>payload\<close> the fixed arrays of 64 and 184 bytes and the lengths as natural numbers;
  \<open>pkt_parse\<close> and \<open>pkt_serialize\<close> return the code's negative error number (\<open>Inl\<close>) or the
  result (\<open>Inr\<close>). The lemmas give the well-formedness of every parsed packet (which is what
  keeps each \<^verbatim>\<open>memcpy\<close> inside its array), both round trips and the shape of the dedup hash.
\<close>

section \<open>Sizes and field values\<close>

abbreviation (input) "MC_MAX_PACKET_PAYLOAD \<equiv> 184 :: nat"
abbreviation (input) "MC_MAX_PATH_SIZE \<equiv> 64 :: nat"
abbreviation (input) "MC_MAX_TRANS_UNIT \<equiv> 255 :: nat"
abbreviation (input) "MC_MAX_HASH_SIZE \<equiv> 8 :: nat"

abbreviation (input) "ROUTE_TYPE_TRANSPORT_FLOOD \<equiv> 0x00 :: byte"
abbreviation (input) "ROUTE_TYPE_FLOOD \<equiv> 0x01 :: byte"
abbreviation (input) "ROUTE_TYPE_DIRECT \<equiv> 0x02 :: byte"
abbreviation (input) "ROUTE_TYPE_TRANSPORT_DIRECT \<equiv> 0x03 :: byte"

abbreviation (input) "PAYLOAD_TYPE_REQ \<equiv> 0x00 :: byte"
abbreviation (input) "PAYLOAD_TYPE_RESPONSE \<equiv> 0x01 :: byte"
abbreviation (input) "PAYLOAD_TYPE_TXT_MSG \<equiv> 0x02 :: byte"
abbreviation (input) "PAYLOAD_TYPE_ACK \<equiv> 0x03 :: byte"
abbreviation (input) "PAYLOAD_TYPE_ADVERT \<equiv> 0x04 :: byte"
abbreviation (input) "PAYLOAD_TYPE_GRP_TXT \<equiv> 0x05 :: byte"
abbreviation (input) "PAYLOAD_TYPE_GRP_DATA \<equiv> 0x06 :: byte"
abbreviation (input) "PAYLOAD_TYPE_ANON_REQ \<equiv> 0x07 :: byte"
abbreviation (input) "PAYLOAD_TYPE_PATH \<equiv> 0x08 :: byte"
abbreviation (input) "PAYLOAD_TYPE_TRACE \<equiv> 0x09 :: byte"
abbreviation (input) "PAYLOAD_TYPE_MULTIPART \<equiv> 0x0A :: byte"
abbreviation (input) "PAYLOAD_TYPE_CONTROL \<equiv> 0x0B :: byte"
abbreviation (input) "PAYLOAD_TYPE_RAW_CUSTOM \<equiv> 0x0F :: byte"

section \<open>The packet and its header fields\<close>

record mc_packet =
  header :: byte
  transport_codes :: "u16 \<times> u16"
  path_len :: byte
  path :: bytes
  payload_len :: nat
  payload :: bytes
  rssi_dbm :: int
  snr_q :: int
  marked_dnr :: bool

definition zero_pkt :: mc_packet where
  \<comment> \<open>\<open>memset (pkt, 0, sizeof (*pkt))\<close>\<close>
  "zero_pkt = \<lparr>header = 0, transport_codes = (0, 0), path_len = 0,
     path = replicate MC_MAX_PATH_SIZE 0, payload_len = 0,
     payload = replicate MC_MAX_PACKET_PAYLOAD 0, rssi_dbm = 0, snr_q = 0, marked_dnr = False\<rparr>"

definition pkt_route_type :: "mc_packet \<Rightarrow> byte" where
  "pkt_route_type p = header p AND 0x03"

definition pkt_payload_type :: "mc_packet \<Rightarrow> byte" where
  "pkt_payload_type p = drop_bit 2 (header p) AND 0x0F"

definition pkt_payload_ver :: "mc_packet \<Rightarrow> byte" where
  "pkt_payload_ver p = drop_bit 6 (header p) AND 0x03"

definition pkt_make_header :: "byte \<Rightarrow> byte \<Rightarrow> byte \<Rightarrow> byte" where
  "pkt_make_header ver typ route =
     (route AND 0x03) OR push_bit 2 (typ AND 0x0F) OR push_bit 6 (ver AND 0x03)"

definition pkt_is_route_flood :: "mc_packet \<Rightarrow> bool" where
  "pkt_is_route_flood p = (pkt_route_type p AND 0x02 = 0)"

definition pkt_is_route_direct :: "mc_packet \<Rightarrow> bool" where
  "pkt_is_route_direct p = (pkt_route_type p AND 0x02 \<noteq> 0)"

definition pkt_has_transport_codes :: "mc_packet \<Rightarrow> bool" where
  "pkt_has_transport_codes p =
     (let rt = pkt_route_type p in
      rt = ROUTE_TYPE_TRANSPORT_FLOOD \<or> rt = ROUTE_TYPE_TRANSPORT_DIRECT)"

definition pkt_path_hash_count :: "mc_packet \<Rightarrow> nat" where
  "pkt_path_hash_count p = unat (path_len p AND 0x3F)"

definition pkt_path_hash_size :: "mc_packet \<Rightarrow> nat" where
  "pkt_path_hash_size p = unat (drop_bit 6 (path_len p) + 1)"

definition pkt_path_byte_len :: "mc_packet \<Rightarrow> nat" where
  "pkt_path_byte_len p = pkt_path_hash_count p * pkt_path_hash_size p"

definition pkt_set_path_hash_count :: "mc_packet \<Rightarrow> nat \<Rightarrow> mc_packet" where
  "pkt_set_path_hash_count p n =
     p\<lparr>path_len := (path_len p AND 0xC0) OR (of_nat n AND 0x3F)\<rparr>"

definition pkt_valid_path_len :: "byte \<Rightarrow> bool" where
  "pkt_valid_path_len pl =
     (let hash_count = unat (pl AND 0x3F); hash_size = unat (drop_bit 6 pl + 1) in
      if hash_size = 4 then False else hash_count * hash_size \<le> MC_MAX_PATH_SIZE)"

section \<open>Parsing and serialising\<close>

definition parse_tail :: "mc_packet \<Rightarrow> bytes \<Rightarrow> nat \<Rightarrow> int + mc_packet" where
  \<comment> \<open>\<open>pkt_parse\<close> from the read of \<open>path_len\<close> at index \<open>i\<close>\<close>
  "parse_tail pkt src i =
     (let len = length src in
      if len \<le> i then Inl (-3)
      else let pkt = pkt\<lparr>path_len := src ! i\<rparr>; i = i + 1 in
      if \<not> pkt_valid_path_len (path_len pkt) then Inl (-4)
      else let pbl = pkt_path_byte_len pkt in
      if len < i + pbl then Inl (-5)
      else let pkt = pkt\<lparr>path := memcpy_at (path pkt) 0 (bslice i pbl src)\<rparr>;
               i = i + pbl; plen = len - i in
      if MC_MAX_PACKET_PAYLOAD < plen then Inl (-6)
      else Inr (pkt\<lparr>payload_len := plen,
                    payload := memcpy_at (payload pkt) 0 (bslice i plen src)\<rparr>))"

definition pkt_parse :: "bytes \<Rightarrow> int + mc_packet" where
  "pkt_parse src =
     (let len = length src in
      if len < 2 \<or> MC_MAX_TRANS_UNIT < len then Inl (-1)
      else let pkt = zero_pkt\<lparr>header := src ! 0, marked_dnr := (src ! 0 = 0xFF)\<rparr> in
      if pkt_has_transport_codes pkt then
        (if len < 1 + 4 then Inl (-2)
         else parse_tail (pkt\<lparr>transport_codes := (rd_u16le (bslice 1 2 src), rd_u16le (bslice 3 2 src))\<rparr>)
                src 5)
      else parse_tail pkt src 1)"

definition pkt_raw_length :: "mc_packet \<Rightarrow> nat" where
  "pkt_raw_length p =
     2 + pkt_path_byte_len p + payload_len p + (if pkt_has_transport_codes p then 4 else 0)"

definition pkt_serialize :: "mc_packet \<Rightarrow> nat \<Rightarrow> int + bytes" where
  "pkt_serialize p destsz =
     (let raw = pkt_raw_length p in
      if destsz < raw \<or> MC_MAX_TRANS_UNIT < raw then Inl (-1)
      else if MC_MAX_PACKET_PAYLOAD < payload_len p then Inl (-2)
      else if \<not> pkt_valid_path_len (path_len p) then Inl (-3)
      else Inr ([header p]
                @ (if pkt_has_transport_codes p
                   then wr_u16le (fst (transport_codes p)) @ wr_u16le (snd (transport_codes p))
                   else [])
                @ [path_len p]
                @ take (pkt_path_byte_len p) (path p)
                @ take (payload_len p) (payload p)))"

definition pkt_calc_hash :: "mc_packet \<Rightarrow> bytes" where
  "pkt_calc_hash p =
     (let t = pkt_payload_type p;
          ctx = sha256_update (sha256_init (replicate 64 0)) [t];
          ctx = (if t = PAYLOAD_TYPE_TRACE
                 then sha256_update ctx (wr_u16le (ucast (path_len p))) else ctx);
          ctx = sha256_update ctx (take (payload_len p) (payload p))
      in take MC_MAX_HASH_SIZE (sha256_final ctx))"

text \<open>The hash as one digest: the payload type, the path length byte of a trace, the payload.\<close>

lemma pkt_calc_hash_ref:
  "pkt_calc_hash p =
     take 8 (sha256 (pkt_payload_type p # (if pkt_payload_type p = PAYLOAD_TYPE_TRACE then wr_u16le (ucast (path_len p)) else [])
       @ take (payload_len p) (payload p)))"
proof -
  have "sha256_final (sha256_update (sha256_init (replicate 64 0)) xs) = sha256_ref xs" for xs
    using sha256_stream_ref [of "replicate 64 0" "[]" xs] by (simp add: sha256_update_def)
  then show ?thesis by (simp add: pkt_calc_hash_def Let_def sha256_ref_eq sha256_update_append)
qed

lemma length_pkt_calc_hash [simp]: "length (pkt_calc_hash p) = 8"
  by (simp add: pkt_calc_hash_ref)

section \<open>Header arithmetic\<close>

lemma payload_type_of_make [codec_simps]:
  "drop_bit 2 (pkt_make_header ver typ route) AND 0x0F = typ AND 0x0F"
proof (rule bit_word_eqI)
  have m: "(3 :: byte) = mask 2" "(15 :: byte) = mask 4" by (simp_all add: mask_eq_exp_minus_1)
  fix n assume "n < LENGTH(8)"
  then show "bit (drop_bit 2 (pkt_make_header ver typ route) AND 0x0F) n = bit (typ AND 0x0F) n"
    by (auto simp: pkt_make_header_def m bit_simps)
qed

lemma route_type_of_make [codec_simps]:
  "pkt_make_header ver typ route AND 0x03 = route AND 0x03"
proof (rule bit_word_eqI)
  have m: "(3 :: byte) = mask 2" "(15 :: byte) = mask 4" by (simp_all add: mask_eq_exp_minus_1)
  fix n assume "n < LENGTH(8)"
  then show "bit (pkt_make_header ver typ route AND 0x03) n = bit (route AND 0x03) n"
    by (auto simp: pkt_make_header_def m bit_simps)
qed

lemma flood_or_direct: "pkt_is_route_direct p = (\<not> pkt_is_route_flood p)"
  by (simp add: pkt_is_route_direct_def pkt_is_route_flood_def)

lemma hash_count_less: "pkt_path_hash_count p < 64"
proof -
  have "path_len p AND 0x3F \<le> (0x3F :: byte)" by (rule word_and_le1)
  then show ?thesis by (simp add: pkt_path_hash_count_def word_le_nat_alt)
qed

lemma path_len_parts:
  "path_len p' = (path_len p AND 0xC0) OR (of_nat n AND 0x3F) \<Longrightarrow> n < 64 \<Longrightarrow>
   path_len p' AND 0x3F = of_nat n \<and> drop_bit 6 (path_len p') = drop_bit 6 (path_len p)"
proof -
  assume pl: "path_len p' = (path_len p AND 0xC0) OR (of_nat n AND 0x3F)" and n: "n < 64"
  have m: "(0x3F :: byte) = mask 6" "(0xC0 :: byte) = push_bit 6 (mask 2)"
    by (simp_all add: mask_eq_exp_minus_1)
  have n6: "of_nat n AND 0x3F = (of_nat n :: byte)"
    using n by (simp add: m flip: take_bit_eq_mask) (simp add: take_bit_of_nat take_bit_nat_eq_self)
  have "path_len p' AND 0x3F = of_nat n AND (0x3F :: byte)"
    unfolding pl by (rule bit_word_eqI) (auto simp: m bit_simps)
  moreover have "drop_bit 6 (path_len p') = drop_bit 6 (path_len p)"
    unfolding pl by (rule bit_word_eqI) (auto simp: m bit_simps dest: bit_imp_le_length)
  ultimately show ?thesis using n6 by simp
qed

lemma set_hash_count [simp]:
  assumes "n < 64"
  shows "pkt_path_hash_count (pkt_set_path_hash_count p n) = n"
    and "pkt_path_hash_size (pkt_set_path_hash_count p n) = pkt_path_hash_size p"
  using path_len_parts [of "pkt_set_path_hash_count p n" p n] assms
  by (simp_all add: pkt_set_path_hash_count_def pkt_path_hash_count_def pkt_path_hash_size_def
      unat_of_nat)

lemma set_hash_count_frame [frame_simps, simp]:
  "header (pkt_set_path_hash_count p n) = header p"
  "transport_codes (pkt_set_path_hash_count p n) = transport_codes p"
  "path (pkt_set_path_hash_count p n) = path p"
  "payload_len (pkt_set_path_hash_count p n) = payload_len p"
  "payload (pkt_set_path_hash_count p n) = payload p"
  "rssi_dbm (pkt_set_path_hash_count p n) = rssi_dbm p"
  "snr_q (pkt_set_path_hash_count p n) = snr_q p"
  "marked_dnr (pkt_set_path_hash_count p n) = marked_dnr p"
  by (simp_all add: pkt_set_path_hash_count_def)

lemma hash_size_pos: "pkt_valid_path_len (path_len p) \<Longrightarrow> 1 \<le> pkt_path_hash_size p \<and> pkt_path_hash_size p \<le> 3"
proof -
  assume v: "pkt_valid_path_len (path_len p)"
  have m: "(3 :: byte) = mask 2" by (simp add: mask_eq_exp_minus_1)
  have "drop_bit 6 (path_len p) AND 0x3 = drop_bit 6 (path_len p)"
    by (rule bit_word_eqI) (auto simp: bit_simps m dest: bit_imp_le_length)
  then have "drop_bit 6 (path_len p) \<le> (0x3 :: byte)" by (metis word_and_le1)
  then have "unat (drop_bit 6 (path_len p)) \<le> 3" by (simp add: word_le_nat_alt)
  then have "unat (drop_bit 6 (path_len p) + 1) = unat (drop_bit 6 (path_len p)) + 1"
    by (simp add: unat_word_ariths)
  with v \<open>unat (drop_bit 6 (path_len p)) \<le> 3\<close> show ?thesis
    by (auto simp: pkt_valid_path_len_def pkt_path_hash_size_def Let_def split: if_splits)
qed

section \<open>Well-formed packets\<close>

definition wf_pkt :: "mc_packet \<Rightarrow> bool" where
  \<comment> \<open>the arrays have their declared sizes, and the lengths stay inside them\<close>
  "wf_pkt p \<longleftrightarrow> length (path p) = MC_MAX_PATH_SIZE \<and> length (payload p) = MC_MAX_PACKET_PAYLOAD \<and>
     pkt_valid_path_len (path_len p) \<and> payload_len p \<le> MC_MAX_PACKET_PAYLOAD"

lemma zero_pkt_arrays [simp]:
  "length (path zero_pkt) = 64" "length (payload zero_pkt) = 184"
  by (simp_all add: zero_pkt_def)

lemma valid_byte_len: "pkt_valid_path_len (path_len p) \<Longrightarrow> pkt_path_byte_len p \<le> 64"
  by (auto simp: pkt_valid_path_len_def pkt_path_byte_len_def pkt_path_hash_count_def
      pkt_path_hash_size_def Let_def split: if_splits)

lemma wf_byte_len [wf_simps]: "wf_pkt p \<Longrightarrow> pkt_path_byte_len p \<le> 64"
  by (simp add: wf_pkt_def valid_byte_len)

lemma wf_payload_len [wf_simps]: "wf_pkt p \<Longrightarrow> payload_len p \<le> 184"
  by (simp add: wf_pkt_def)

lemma valid_set_count:
  assumes "pkt_valid_path_len (path_len p)" "n < 64" "n * pkt_path_hash_size p \<le> 64"
  shows "pkt_valid_path_len (path_len (pkt_set_path_hash_count p n))"
  using assms set_hash_count [of n p]
  by (auto simp: pkt_valid_path_len_def pkt_path_hash_count_def pkt_path_hash_size_def Let_def
      split: if_splits)

lemma parse_tail_props:
  assumes "parse_tail p0 src i = Inr p" "length (path p0) = 64" "length (payload p0) = 184"
  shows "wf_pkt p" and "header p = header p0" and "transport_codes p = transport_codes p0"
    and "marked_dnr p = marked_dnr p0" and "i < length src" and "path_len p = src ! i"
    and "i + 1 + pkt_path_byte_len p + payload_len p = length src"
    and "path p = memcpy_at (path p0) 0 (bslice (i + 1) (pkt_path_byte_len p) src)"
    and "payload p = memcpy_at (payload p0) 0 (drop (i + 1 + pkt_path_byte_len p) src)"
    and "rssi_dbm p = rssi_dbm p0" and "snr_q p = snr_q p0"
  using assms valid_byte_len [of "p0\<lparr>path_len := src ! i\<rparr>"]
  by (auto simp: parse_tail_def wf_pkt_def Let_def pkt_path_byte_len_def pkt_path_hash_count_def
      pkt_path_hash_size_def bslice_def split: if_splits)

lemma pkt_parse_cases:
  assumes "pkt_parse src = Inr p"
  obtains (tc) "pkt_has_transport_codes p" "5 \<le> length src"
      "parse_tail (zero_pkt\<lparr>header := src ! 0, marked_dnr := (src ! 0 = 0xFF),
         transport_codes := (rd_u16le (bslice 1 2 src), rd_u16le (bslice 3 2 src))\<rparr>) src 5 = Inr p"
    | (plain) "\<not> pkt_has_transport_codes p"
      "parse_tail (zero_pkt\<lparr>header := src ! 0, marked_dnr := (src ! 0 = 0xFF)\<rparr>) src 1 = Inr p"
proof -
  let ?p0 = "zero_pkt\<lparr>header := src ! 0, marked_dnr := (src ! 0 = 0xFF)\<rparr>"
  have hdr: "pkt_has_transport_codes p = pkt_has_transport_codes ?p0" if "header p = src ! 0"
    using that by (simp add: pkt_has_transport_codes_def pkt_route_type_def)
  show thesis
  proof (cases "pkt_has_transport_codes ?p0")
    case True
    with assms have l: "5 \<le> length src" and
      t: "parse_tail (?p0\<lparr>transport_codes := (rd_u16le (bslice 1 2 src), rd_u16le (bslice 3 2 src))\<rparr>) src 5 = Inr p"
      by (auto simp: pkt_parse_def Let_def split: if_splits)
    from parse_tail_props(2) [OF t] True hdr have "pkt_has_transport_codes p" by simp
    from tc [OF this l] t show thesis by simp
  next
    case False
    with assms have t: "parse_tail ?p0 src 1 = Inr p"
      by (auto simp: pkt_parse_def Let_def split: if_splits)
    from parse_tail_props(2) [OF t] False hdr have "\<not> pkt_has_transport_codes p" by simp
    from plain [OF this t] show thesis .
  qed
qed

lemma pkt_parse_length: "pkt_parse src = Inr p \<Longrightarrow> 2 \<le> length src \<and> length src \<le> 255"
  by (auto simp: pkt_parse_def Let_def split: if_splits)

lemma pkt_parse_from:
  assumes "pkt_parse src = Inr p"
  obtains p0 i where "parse_tail p0 src i = Inr p" "length (path p0) = 64" "length (payload p0) = 184"
    "header p0 = src ! 0" "marked_dnr p0 = (src ! 0 = 0xFF)"
    "i = (if pkt_has_transport_codes p then 5 else 1)"
  using assms
proof (cases rule: pkt_parse_cases)
  case tc
  from that [OF tc(3)] tc(1) show thesis by simp
next
  case plain
  from that [OF plain(2)] plain(1) show thesis by simp
qed

lemma pkt_parse_wf: "pkt_parse src = Inr p \<Longrightarrow> wf_pkt p"
  by (erule pkt_parse_from) (rule parse_tail_props)

lemma pkt_parse_header: "pkt_parse src = Inr p \<Longrightarrow> header p = src ! 0 \<and> marked_dnr p = (src ! 0 = 0xFF)"
  by (erule pkt_parse_from) (metis parse_tail_props(2,4))

lemma pkt_parse_raw_length: "pkt_parse src = Inr p \<Longrightarrow> pkt_raw_length p = length src"
proof (erule pkt_parse_from)
  fix p0 i
  assume a: "parse_tail p0 src i = Inr p" "length (path p0) = 64" "length (payload p0) = 184"
    "i = (if pkt_has_transport_codes p then 5 else 1)"
  from parse_tail_props(7) [OF a(1-3)] a(4) show ?thesis by (auto simp: pkt_raw_length_def)
qed

section \<open>Round trips\<close>

lemma take_memcpy_head:
  "length src \<le> length dst \<Longrightarrow> n = length src \<Longrightarrow> take n (memcpy_at dst 0 src) = src"
  using take_memcpy_at [of 0 src dst] by simp

lemma head_slice_tail:
  assumes "i < length src" "i + 1 + m \<le> length src"
  shows "take i src @ src ! i # bslice (i + 1) m src @ drop (i + 1 + m) src = src"
proof -
  have "take i src @ src ! i # drop (Suc i) src = src" using id_take_nth_drop [OF assms(1)] by simp
  then show ?thesis by (simp only: slice_drop_join Suc_eq_plus1)
qed

lemma parse_tail_wire:
  assumes "parse_tail p0 src i = Inr p" "length (path p0) = 64" "length (payload p0) = 184"
  shows "take i src @ [path_len p] @ take (pkt_path_byte_len p) (path p)
         @ take (payload_len p) (payload p) = src"
proof -
  note t = parse_tail_props [OF assms]
  have "pkt_path_byte_len p \<le> 64" using t(1) by (rule wf_byte_len)
  then have "take (pkt_path_byte_len p) (path p) = bslice (i + 1) (pkt_path_byte_len p) src"
    using t(5,7) assms(2) unfolding t(8) by (intro take_memcpy_head) simp_all
  moreover have "take (payload_len p) (payload p) = drop (i + 1 + pkt_path_byte_len p) src"
    using wf_payload_len [OF t(1)] t(7) assms(3) unfolding t(9) by (intro take_memcpy_head) auto
  ultimately show ?thesis
    using head_slice_tail [of i src "pkt_path_byte_len p"] t(5,6,7) by simp
qed

lemma take5_parts:
  assumes "5 \<le> length src"
  shows "take 5 src = [src ! 0] @ wr_u16le (rd_u16le (bslice 1 2 src)) @ wr_u16le (rd_u16le (bslice 3 2 src))"
proof -
  have "take 5 src = bslice 0 1 src @ bslice 1 2 src @ bslice 3 2 src"
    using slice_slice_join [of 1 2 2 src] slice_slice_join [of 0 1 4 src]
    by (simp add: numeral_eq_Suc)
  moreover have "bslice 0 1 src = [src ! 0]" using assms by (cases src) simp_all
  ultimately show ?thesis using assms by (simp add: wr_rd_u16le)
qed

lemma serialize_parse:
  assumes "pkt_parse src = Inr p"
  shows "pkt_serialize p 255 = Inr src"
proof -
  have wf: "wf_pkt p" using assms by (rule pkt_parse_wf)
  have hd: "header p = src ! 0" using pkt_parse_header [OF assms] by simp
  have len: "2 \<le> length src" "length src \<le> 255" using pkt_parse_length [OF assms] by simp_all
  have tk1: "take 1 src = [src ! 0]" using len by (cases src) simp_all
  have "[header p]
      @ (if pkt_has_transport_codes p
         then wr_u16le (fst (transport_codes p)) @ wr_u16le (snd (transport_codes p)) else [])
      @ [path_len p] @ take (pkt_path_byte_len p) (path p) @ take (payload_len p) (payload p) = src"
    using assms
  proof (cases rule: pkt_parse_cases)
    case tc
    with parse_tail_wire [OF tc(3)] parse_tail_props(3) [OF tc(3)] take5_parts [OF tc(2)] hd
    show ?thesis by simp
  next
    case plain
    with parse_tail_wire [OF plain(2)] tk1 hd show ?thesis by simp
  qed
  then show ?thesis
    using wf len pkt_parse_raw_length [OF assms] unfolding pkt_serialize_def Let_def wf_pkt_def
    by simp
qed

text \<open>
  What a receiver reads of a packet: the wire fields, the arrays zero beyond the lengths and
  no transport codes unless the route type carries them.
\<close>

definition wire_view :: "mc_packet \<Rightarrow> mc_packet" where
  "wire_view p = zero_pkt\<lparr>header := header p, marked_dnr := (header p = 0xFF),
     transport_codes := (if pkt_has_transport_codes p then transport_codes p else (0, 0)),
     path_len := path_len p,
     path := memcpy_at (path zero_pkt) 0 (take (pkt_path_byte_len p) (path p)),
     payload_len := payload_len p,
     payload := memcpy_at (payload zero_pkt) 0 (take (payload_len p) (payload p))\<rparr>"

lemma parse_tail_append:
  assumes "pkt_valid_path_len pl" "length P = pkt_path_byte_len (p0\<lparr>path_len := pl\<rparr>)"
    "length Y \<le> 184" "i = length pre"
  shows "parse_tail p0 (pre @ [pl] @ P @ Y) i =
    Inr (p0\<lparr>path_len := pl, path := memcpy_at (path p0) 0 P, payload_len := length Y,
           payload := memcpy_at (payload p0) 0 Y\<rparr>)"
  using assms by (simp add: parse_tail_def Let_def bslice_def nth_append)

lemma parse_serialize:
  assumes wf: "wf_pkt p" and len: "pkt_serialize p sz = Inr w"
  shows "pkt_parse w = Inr (wire_view p)"
proof -
  let ?P = "take (pkt_path_byte_len p) (path p)" and ?Y = "take (payload_len p) (payload p)"
  have P: "length ?P = pkt_path_byte_len p" and Y: "length ?Y = payload_len p"
    using wf wf_byte_len [OF wf] by (simp_all add: wf_pkt_def)
  have v: "pkt_valid_path_len (path_len p)" using wf by (simp add: wf_pkt_def)
  have w: "w = [header p]
      @ (if pkt_has_transport_codes p
         then wr_u16le (fst (transport_codes p)) @ wr_u16le (snd (transport_codes p)) else [])
      @ [path_len p] @ ?P @ ?Y" and raw: "pkt_raw_length p \<le> 255"
    using len by (auto simp: pkt_serialize_def Let_def split: if_splits)
  have ht: "pkt_has_transport_codes (zero_pkt\<lparr>header := header p, marked_dnr := m\<rparr>) = pkt_has_transport_codes p" for m
    by (simp add: pkt_has_transport_codes_def pkt_route_type_def)
  have pb: "length ?P = pkt_path_byte_len (q\<lparr>path_len := path_len p\<rparr>)" for q
    using P by (simp add: pkt_path_byte_len_def pkt_path_hash_count_def pkt_path_hash_size_def)
  have Y': "length ?Y \<le> 184" using Y wf by (simp add: wf_pkt_def)
  have lw: "length w = pkt_raw_length p" unfolding w pkt_raw_length_def using P Y by simp
  show ?thesis
  proof (cases "pkt_has_transport_codes p")
    case True
    let ?C = "wr_u16le (fst (transport_codes p)) @ wr_u16le (snd (transport_codes p))"
    have w': "w = ([header p] @ ?C) @ [path_len p] @ ?P @ ?Y" using True unfolding w by simp
    have c: "bslice 1 2 w = wr_u16le (fst (transport_codes p))"
      "bslice 3 2 w = wr_u16le (snd (transport_codes p))" "w ! 0 = header p"
      unfolding w' by (simp_all add: bslice_def)
    have "parse_tail p0 w 5 = Inr (p0\<lparr>path_len := path_len p, path := memcpy_at (path p0) 0 ?P,
        payload_len := length ?Y, payload := memcpy_at (payload p0) 0 ?Y\<rparr>)" for p0
      unfolding w' by (rule parse_tail_append [OF v pb Y']) simp
    moreover have "5 \<le> length w" "length w \<le> 255" using lw raw True by (simp_all add: pkt_raw_length_def)
    ultimately show ?thesis using True ht Y c
      by (simp add: pkt_parse_def Let_def wire_view_def rd_wr_u16le del: One_nat_def)
  next
    case False
    have w': "w = [header p] @ [path_len p] @ ?P @ ?Y" using False unfolding w by simp
    have "parse_tail p0 w 1 = Inr (p0\<lparr>path_len := path_len p, path := memcpy_at (path p0) 0 ?P,
        payload_len := length ?Y, payload := memcpy_at (payload p0) 0 ?Y\<rparr>)" for p0
      unfolding w' by (rule parse_tail_append [OF v pb Y']) simp
    moreover have "2 \<le> length w" "length w \<le> 255" "w ! 0 = header p"
      using lw raw False by (simp_all add: pkt_raw_length_def w')
    ultimately show ?thesis using False ht Y
      by (simp add: pkt_parse_def Let_def wire_view_def zero_pkt_def del: One_nat_def)
  qed
qed

end
