(* ===== verification/Identity.thy ===== *)
theory Identity
  imports Packet
begin

text \<open>
  \<^verbatim>\<open>identity.h\<close> and \<^verbatim>\<open>identity.c\<close>: the node's Ed25519 identity. TweetNaCl
  (\<^verbatim>\<open>crypto/tweetnacl.c\<close>, a vendored library) is a parameter: \<open>crypto_sign msg sk\<close> is the
  signed message, \<open>crypto_sign_open sm pk\<close> the opened message or \<open>None\<close> where it returns a
  non-zero code. What the program relies on is \<open>sign_correct\<close>: a signed message is the
  64-byte signature followed by the message, and opens under the public half of the key.
\<close>

type_synonym sign_fn = "bytes \<Rightarrow> bytes \<Rightarrow> bytes"
type_synonym open_fn = "bytes \<Rightarrow> bytes \<Rightarrow> bytes option"

record mc_identity =
  pub :: bytes
  sec :: bytes
  has_secret :: bool

definition wf_identity :: "mc_identity \<Rightarrow> bool" where
  "wf_identity self \<longleftrightarrow> length (pub self) = 32 \<and> length (sec self) = 64"

abbreviation (input) "SIGN_SCRATCH \<equiv> 192 :: nat"

section \<open>Signing and verifying\<close>

definition mc_identity_generate :: "(bytes \<times> bytes) \<Rightarrow> mc_identity" where
  \<comment> \<open>the argument is the pair \<open>crypto_sign_keypair\<close> writes\<close>
  "mc_identity_generate kp = \<lparr>pub = fst kp, sec = snd kp, has_secret = True\<rparr>"

definition mc_identity_sign :: "sign_fn \<Rightarrow> mc_identity \<Rightarrow> bytes \<Rightarrow> int + bytes" where
  "mc_identity_sign crypto_sign self msg =
     (if \<not> has_secret self \<or> SIGN_SCRATCH < length msg + 64 then Inl (-1)
      else Inr (take 64 (crypto_sign msg (sec self))))"

definition mc_identity_verify :: "open_fn \<Rightarrow> bytes \<Rightarrow> bytes \<Rightarrow> bytes \<Rightarrow> bool" where
  "mc_identity_verify crypto_sign_open pk sig msg =
     (if SIGN_SCRATCH < length msg + 64 then False
      else (case crypto_sign_open (sig @ msg) pk of
              None \<Rightarrow> False
            | Some m \<Rightarrow> length m = length msg))"

definition mc_identity_copy_hash :: "mc_identity \<Rightarrow> nat \<Rightarrow> bytes" where
  "mc_identity_copy_hash self n = take n (pub self)"

definition mc_identity_hash_match :: "mc_identity \<Rightarrow> bytes \<Rightarrow> nat \<Rightarrow> bool" where
  "mc_identity_hash_match self hash n = (take n (pub self) = take n hash)"

definition sign_correct :: "sign_fn \<Rightarrow> open_fn \<Rightarrow> mc_identity \<Rightarrow> bool" where
  \<comment> \<open>the documented behaviour of \<open>crypto_sign\<close> and \<open>crypto_sign_open\<close> for one key pair\<close>
  "sign_correct crypto_sign crypto_sign_open self \<longleftrightarrow>
     (\<forall>msg. 64 \<le> length (crypto_sign msg (sec self)) \<and>
            drop 64 (crypto_sign msg (sec self)) = msg \<and>
            crypto_sign_open (crypto_sign msg (sec self)) (pub self) = Some msg)"

lemma verify_sign:
  assumes "sign_correct cs co self" "mc_identity_sign cs self msg = Inr sig"
  shows "length sig = 64 \<and> mc_identity_verify co (pub self) sig msg"
proof -
  have sig: "sig = take 64 (cs msg (sec self))" and len: "length msg + 64 \<le> SIGN_SCRATCH"
    using assms(2) by (auto simp: mc_identity_sign_def split: if_splits)
  have "sig @ msg = cs msg (sec self)"
    using assms(1) unfolding sig sign_correct_def by (metis append_take_drop_id)
  then show ?thesis
    using assms(1) len sig by (simp add: mc_identity_verify_def sign_correct_def)
qed

section \<open>The key file\<close>

definition mc_identity_save :: "mc_identity \<Rightarrow> bytes" where
  \<comment> \<open>the contents of the file written\<close>
  "mc_identity_save self =
     lit ''# MeshCore repeater identity - keep this file private!'' @ [10]
     @ lit ''pub='' @ bin2hex (pub self) 65 @ [10]
     @ lit ''sec='' @ bin2hex (sec self) 129 @ [10]"

definition load_line :: "mc_identity \<times> bool \<times> bool \<Rightarrow> bytes \<Rightarrow> mc_identity \<times> bool \<times> bool" where
  \<comment> \<open>one iteration of the loop of \<open>mc_identity_load\<close>\<close>
  "load_line st raw =
     (case st of (self, have_pub, have_sec) \<Rightarrow>
      let line = c_str raw in
      if take 1 line = [35] \<or> take 1 line = [10] then st
      else (case find_index (\<lambda>b. b = 61) line of
              None \<Rightarrow> st
            | Some eq \<Rightarrow>
                let key = take eq line;
                    val = strip_end (\<lambda>b. b = 10 \<or> b = 13 \<or> b = 32) (drop (eq + 1) line) in
                if key = lit ''pub'' then
                  (self\<lparr>pub := hex2bin_into val (pub self)\<rparr>,
                   have_pub \<or> map_option length (hex2bin val 32) = Some 32, have_sec)
                else if key = lit ''sec'' then
                  (self\<lparr>sec := hex2bin_into val (sec self)\<rparr>, have_pub,
                   have_sec \<or> map_option length (hex2bin val 64) = Some 64)
                else st))"

definition mc_identity_load :: "bytes option \<Rightarrow> int + mc_identity" where
  \<comment> \<open>the argument is the file's contents, \<open>None\<close> where it cannot be opened\<close>
  "mc_identity_load file =
     (case file of
        None \<Rightarrow> Inl (-1)
      | Some s \<Rightarrow>
          (case foldl load_line
                  (\<lparr>pub = replicate 32 0, sec = replicate 64 0, has_secret = False\<rparr>, False, False)
                  (fgets_lines 512 s) of
             (self, have_pub, have_sec) \<Rightarrow>
               if \<not> have_pub \<or> \<not> have_sec then Inl (-2)
               else Inr (self\<lparr>has_secret := True\<rparr>)))"

lemma HEXD_digits:
  "n < 16 \<Longrightarrow> HEXD ! n \<noteq> 0 \<and> HEXD ! n \<noteq> 10 \<and> HEXD ! n \<noteq> 13 \<and> HEXD ! n \<noteq> 32 \<and> HEXD ! n \<noteq> 61"
proof -
  assume "n < 16"
  then have "n \<in> set [0..<16]" by simp
  moreover have "list_all (\<lambda>n. HEXD ! n \<noteq> 0 \<and> HEXD ! n \<noteq> 10 \<and> HEXD ! n \<noteq> 13 \<and> HEXD ! n \<noteq> 32
      \<and> HEXD ! n \<noteq> 61) [0..<16]"
    by code_simp
  ultimately show ?thesis unfolding list_all_iff by blast
qed

lemma hex_digits_plain:
  "b \<in> set (hex_digits bs) \<Longrightarrow> b \<noteq> 0 \<and> b \<noteq> 10 \<and> b \<noteq> 13 \<and> b \<noteq> 32 \<and> b \<noteq> 61"
proof (induction bs)
  case (Cons c cs)
  have "unat (drop_bit 4 c AND 0xF) < 16" "unat (c AND 0xF) < 16"
    using drop4_less [of c] nibble_less [of c] by (simp_all add: word_less_nat_alt)
  with Cons HEXD_digits show ?case by auto
qed simp

lemma c_str_plain: "0 \<notin> set s \<Longrightarrow> c_str s = s"
  by (auto simp: c_str_def takeWhile_eq_all_conv)

lemma load_line_hex:
  assumes "bs \<noteq> []"
  shows "load_line (self, hp, hs) (lit ''pub='' @ hex_digits bs @ [10]) =
      (self\<lparr>pub := hex2bin_into (hex_digits bs) (pub self)\<rparr>,
       hp \<or> map_option length (hex2bin (hex_digits bs) 32) = Some 32, hs)"
    and "load_line (self, hp, hs) (lit ''sec='' @ hex_digits bs @ [10]) =
      (self\<lparr>sec := hex2bin_into (hex_digits bs) (sec self)\<rparr>, hp,
       hs \<or> map_option length (hex2bin (hex_digits bs) 64) = Some 64)"
proof -
  have h: "strip_end (\<lambda>b. b = 10 \<or> b = 13 \<or> b = 32) (hex_digits bs) = hex_digits bs"
    by (rule strip_end_id) (use hex_digits_plain [of "last (hex_digits bs)" bs] last_in_set in blast)
  have c: "c_str (lit k @ hex_digits bs @ [10]) = lit k @ hex_digits bs @ [10]" if "0 \<notin> set (lit k)" for k
    by (rule c_str_plain) (use that hex_digits_plain [of 0 bs] in auto)
  have s: "strip_end (\<lambda>b. b = 10 \<or> b = 13 \<or> b = 32) (hex_digits bs @ [10]) = hex_digits bs"
    by (simp add: h)
  show "load_line (self, hp, hs) (lit ''pub='' @ hex_digits bs @ [10]) =
      (self\<lparr>pub := hex2bin_into (hex_digits bs) (pub self)\<rparr>,
       hp \<or> map_option length (hex2bin (hex_digits bs) 32) = Some 32, hs)"
    using c [of "''pub=''"] s by (simp add: load_line_def Let_def)
  show "load_line (self, hp, hs) (lit ''sec='' @ hex_digits bs @ [10]) =
      (self\<lparr>sec := hex2bin_into (hex_digits bs) (sec self)\<rparr>, hp,
       hs \<or> map_option length (hex2bin (hex_digits bs) 64) = Some 64)"
    using c [of "''sec=''"] s by (simp add: load_line_def Let_def)
qed

lemma load_line_comment: "load_line st (35 # r) = st"
  by (cases st) (simp add: load_line_def c_str_def Let_def)

lemma identity_file_lines:
  assumes "wf_identity self"
  shows "fgets_lines 512 (mc_identity_save self) =
    [lit ''# MeshCore repeater identity - keep this file private!'' @ [10],
     lit ''pub='' @ hex_digits (pub self) @ [10], lit ''sec='' @ hex_digits (sec self) @ [10]]"
proof -
  have n: "10 \<notin> set (lit ''pub='' @ hex_digits bs)" "10 \<notin> set (lit ''sec='' @ hex_digits bs)" for bs
    using hex_digits_plain [of 10 bs] by auto
  have "fgets_lines 512 ((lit ''sec='' @ hex_digits (sec self)) @ 10 # []) =
      [(lit ''sec='' @ hex_digits (sec self)) @ [10]]"
    using n(2) [of "sec self"] assms by (subst fgets_lines_line) (simp_all add: wf_identity_def)
  moreover have "fgets_lines 512 ((lit ''pub='' @ hex_digits (pub self)) @ 10 # r) =
      ((lit ''pub='' @ hex_digits (pub self)) @ [10]) # fgets_lines 512 r" for r
    using n(1) [of "pub self"] assms by (subst fgets_lines_line) (simp_all add: wf_identity_def)
  moreover have "fgets_lines 512 (lit ''# MeshCore repeater identity - keep this file private!'' @ 10 # r) =
      (lit ''# MeshCore repeater identity - keep this file private!'' @ [10]) # fgets_lines 512 r" for r
    by (rule fgets_lines_line) simp_all
  ultimately show ?thesis
    using assms by (simp add: mc_identity_save_def bin2hex_def wf_identity_def)
qed

lemma load_save:
  assumes "wf_identity self" "has_secret self"
  shows "mc_identity_load (Some (mc_identity_save self)) = Inr self"
proof -
  have p: "pub self \<noteq> []" "sec self \<noteq> []" "length (pub self) = 32" "length (sec self) = 64"
    using assms(1) by (auto simp: wf_identity_def)
  have x: "hex2bin (hex_digits (pub self)) 32 = Some (pub self)"
      "hex2bin (hex_digits (sec self)) 64 = Some (sec self)"
    using p by (simp_all add: hex2bin_def unhex_hex_digits)
  have m: "memcpy_at (replicate n 0) 0 bs = bs" if "length bs = n" for n and bs :: bytes
    using that by (simp add: memcpy_at_def)
  have i: "hex2bin_into (hex_digits (pub self)) (replicate 32 0) = pub self"
      "hex2bin_into (hex_digits (sec self)) (replicate 64 0) = sec self"
    using x p by (simp_all add: hex2bin_into_ok m)
  show ?thesis
    using p x i assms(2)
    by (simp add: mc_identity_load_def identity_file_lines [OF assms(1)]
        load_line_hex [simplified] load_line_comment)
qed

end
