(* ===== verification/Mbox.thy ===== *)
theory Mbox
  imports Prelude
begin

text \<open>
  \<^verbatim>\<open>mbox.h\<close> and \<^verbatim>\<open>mbox.c\<close>: the mailbox ring of the \<^verbatim>\<open>#mbox\<close> room. \<open>mc_mbox\<close> keeps the C
  layout (an array of 32 slots, the next write slot, the count); \<open>mbox_list\<close> abstracts it to
  the stored messages, oldest first, and \<open>mbox_store\<close> is shown to append to that list and to
  drop its oldest entry when full. Strings are NUL-free byte lists.
\<close>

abbreviation (input) "MC_MBOX_MAX \<equiv> 32 :: nat"
abbreviation (input) "MC_MBOX_CALL \<equiv> 24 :: nat"
abbreviation (input) "MC_MBOX_MSG \<equiv> 96 :: nat"

record mc_mbox_entry =
  to_call :: bytes
  from_call :: bytes
  msg_text :: bytes
  msg_ts :: u32

record mc_mbox =
  mb_e :: "mc_mbox_entry list"
  mb_head :: nat
  mb_count :: nat

definition zero_entry :: mc_mbox_entry where
  "zero_entry = \<lparr>to_call = [], from_call = [], msg_text = [], msg_ts = 0\<rparr>"

definition mbox_init :: "mc_mbox \<Rightarrow> mc_mbox" where
  "mbox_init mb = mb\<lparr>mb_head := 0, mb_count := 0\<rparr>"

definition base_call :: "bytes \<Rightarrow> nat \<Rightarrow> bytes" where
  "base_call s sz = take (sz - 1) (takeWhile (\<lambda>c. c \<noteq> 45) s)"

section \<open>Commands\<close>

datatype mbox_cmd = MBOX_OTHER | MBOX_MENTION bytes bytes | MBOX_FETCH

definition skip_blanks :: "bytes \<Rightarrow> bytes" where
  "skip_blanks s = dropWhile is_blank s"

definition mbox_classify :: "bytes \<Rightarrow> nat \<Rightarrow> mbox_cmd" where
  \<comment> \<open>\<open>MBOX_MENTION mention msg\<close> carries the two outputs\<close>
  "mbox_classify body msz =
     (let body = skip_blanks body in
      if take 1 body = [64] then
        (let word = takeWhile (\<lambda>c. \<not> is_blank c) (tl body);
             mention = take (msz - 1) word;
             p = skip_blanks (drop (length word) (tl body)) in
         if mention = [] \<or> p = [] then MBOX_OTHER else MBOX_MENTION mention p)
      else if strncaseeq 5 body (lit ''fetch'') \<and> dropWhile is_space4 (drop 5 body) = [] then MBOX_FETCH
      else MBOX_OTHER)"

section \<open>The ring\<close>

definition mbox_store :: "mc_mbox \<Rightarrow> bytes \<Rightarrow> bytes \<Rightarrow> bytes \<Rightarrow> u32 \<Rightarrow> mc_mbox" where
  "mbox_store mb to from msg ts =
     mb\<lparr>mb_e := (mb_e mb)[mb_head mb :=
            \<lparr>to_call = snprintf_s MC_MBOX_CALL to, from_call = snprintf_s MC_MBOX_CALL from,
             msg_text = snprintf_s MC_MBOX_MSG msg, msg_ts = ts\<rparr>],
        mb_head := (mb_head mb + 1) mod MC_MBOX_MAX,
        mb_count := (if mb_count mb < MC_MBOX_MAX then mb_count mb + 1 else mb_count mb)\<rparr>"

definition mbox_nth :: "mc_mbox \<Rightarrow> nat \<Rightarrow> mc_mbox_entry" where
  \<comment> \<open>the \<open>k\<close>-th oldest entry, as \<open>mbox_format_fetch\<close> indexes it\<close>
  "mbox_nth mb k =
     (let oldest = (mb_head mb + MC_MBOX_MAX - mb_count mb) mod MC_MBOX_MAX in
      mb_e mb ! ((oldest + k) mod MC_MBOX_MAX))"

definition mbox_list :: "mc_mbox \<Rightarrow> mc_mbox_entry list" where
  "mbox_list mb = map (mbox_nth mb) [0..<mb_count mb]"

record fetch_state =
  fs_out :: bytes
  fs_matches :: nat
  fs_shown :: nat
  fs_full :: bool

definition fetch_step :: "bytes \<Rightarrow> nat \<Rightarrow> fetch_state \<Rightarrow> mc_mbox_entry \<Rightarrow> fetch_state" where
  \<comment> \<open>one iteration of the loop of \<open>mbox_format_fetch\<close>; \<open>off\<close> is the length of \<open>fs_out\<close>\<close>
  "fetch_step want outsz st e =
     (if \<not> strcaseeq (base_call (to_call e) MC_MBOX_CALL) want then st
      else let st = st\<lparr>fs_matches := fs_matches st + 1\<rparr> in
      if fs_full st then st
      else let off = length (fs_out st);
               room = (if off < outsz then outsz - off else 0);
               s = (if off \<noteq> 0 then lit '' | '' else []) @ [91] @ from_call e @ lit ''] '' @ msg_text e in
      if room \<le> length s then st\<lparr>fs_full := True\<rparr>
      else st\<lparr>fs_out := fs_out st @ s, fs_shown := fs_shown st + 1\<rparr>)"

definition mbox_format_fetch :: "mc_mbox \<Rightarrow> bytes \<Rightarrow> nat \<Rightarrow> fetch_state" where
  \<comment> \<open>\<open>out\<close> is \<open>fs_out\<close>, \<open>*total\<close> is \<open>fs_matches\<close>, the result is \<open>fs_shown\<close>\<close>
  "mbox_format_fetch mb call outsz =
     foldl (fetch_step (base_call call MC_MBOX_CALL) outsz)
       \<lparr>fs_out = [], fs_matches = 0, fs_shown = 0, fs_full = False\<rparr> (mbox_list mb)"

definition mbox_help_text :: bytes where
  "mbox_help_text = lit ''mbox: leave a message with '' @ [39] @ lit ''@CALL text'' @ [39]
     @ lit '' (also flooded); send '' @ [39] @ lit ''fetch'' @ [39] @ lit '' for yours''"

section \<open>The ring is a bounded queue\<close>

definition wf_mbox :: "mc_mbox \<Rightarrow> bool" where
  "wf_mbox mb \<longleftrightarrow> length (mb_e mb) = MC_MBOX_MAX \<and> mb_head mb < MC_MBOX_MAX \<and>
     mb_count mb \<le> MC_MBOX_MAX"

lemma mbox_init_wf: "length (mb_e mb) = 32 \<Longrightarrow> wf_mbox (mbox_init mb) \<and> mbox_list (mbox_init mb) = []"
  by (simp add: wf_mbox_def mbox_init_def mbox_list_def)

lemma mbox_store_wf [wf_simps]: "wf_mbox mb \<Longrightarrow> wf_mbox (mbox_store mb t f m ts)"
  by (simp add: wf_mbox_def mbox_store_def)

definition new_entry :: "bytes \<Rightarrow> bytes \<Rightarrow> bytes \<Rightarrow> u32 \<Rightarrow> mc_mbox_entry" where
  "new_entry t f m ts = \<lparr>to_call = snprintf_s 24 t, from_call = snprintf_s 24 f,
     msg_text = snprintf_s 96 m, msg_ts = ts\<rparr>"

lemma mod32:
  "x < 96 \<Longrightarrow> x mod 32 = (if x < 32 then x else if x < 64 then x - 32 else x - (64 :: nat))"
  by (simp add: le_mod_geq)

lemma nth_mbox_list:
  assumes "wf_mbox mb" "k < mb_count mb"
  shows "mbox_list mb ! k = mb_e mb ! ((mb_head mb + 32 - mb_count mb + k) mod 32)"
  using assms by (simp add: mbox_list_def mbox_nth_def Let_def mod_add_left_eq)

lemma mbox_store_list:
  assumes "wf_mbox mb"
  shows "mbox_list (mbox_store mb t f m ts) =
    (if mb_count mb < 32 then mbox_list mb else tl (mbox_list mb)) @ [new_entry t f m ts]"
proof -
  let ?h = "mb_head mb" and ?c = "mb_count mb" and ?mb = "mbox_store mb t f m ts"
  have wf: "length (mb_e mb) = 32" "?h < 32" "?c \<le> 32" using assms by (auto simp: wf_mbox_def)
  have l: "length (mbox_list x) = mb_count x" for x by (simp add: mbox_list_def)
  have e: "mb_e ?mb = (mb_e mb)[?h := new_entry t f m ts]" "mb_head ?mb = (?h + 1) mod 32"
    "mb_count ?mb = (if ?c < 32 then ?c + 1 else ?c)"
    by (simp_all add: mbox_store_def new_entry_def)
  show ?thesis
  proof (rule nth_equalityI)
    show "length (mbox_list ?mb) =
      length ((if ?c < 32 then mbox_list mb else tl (mbox_list mb)) @ [new_entry t f m ts])"
      using wf by (simp add: l e(3))
    fix k assume "k < length (mbox_list ?mb)"
    then have k: "k < mb_count ?mb" by (simp add: l)
    let ?i = "((?h + 1) mod 32 + 32 - mb_count ?mb + k) mod 32"
    have lhs: "mbox_list ?mb ! k = (mb_e mb)[?h := new_entry t f m ts] ! ?i"
      using nth_mbox_list [OF mbox_store_wf [OF assms] k] unfolding e(1,2) .
    show "mbox_list ?mb ! k =
      ((if ?c < 32 then mbox_list mb else tl (mbox_list mb)) @ [new_entry t f m ts]) ! k"
    proof (cases "k = mb_count ?mb - 1")
      case True
      then have "?i = ?h" using wf k e(3) by (auto simp: mod32 split: if_splits)
      then show ?thesis using lhs True wf k e(3) by (auto simp: nth_append l)
    next
      case False
      let ?j = "if ?c < 32 then k else k + 1"
      have j: "?j < ?c" using False k e(3) by (auto split: if_splits)
      have "?i = (?h + 32 - ?c + ?j) mod 32" "?i \<noteq> ?h"
        using wf k e(3) False by (auto simp: mod32 split: if_splits)
      then have "mbox_list ?mb ! k = mbox_list mb ! ?j"
        using lhs nth_mbox_list [OF assms j] by simp
      then show ?thesis using j wf by (auto simp: nth_append l nth_tl)
    qed
  qed
qed

section \<open>What a fetch returns\<close>

definition addressed :: "bytes \<Rightarrow> mc_mbox_entry \<Rightarrow> bool" where
  "addressed call e = strcaseeq (base_call (to_call e) 24) (base_call call 24)"

definition fetch_text :: "mc_mbox_entry list \<Rightarrow> bytes" where
  \<comment> \<open>whole entries, separated\<close>
  "fetch_text es =
     concat (map (\<lambda>(i, e). (if i \<noteq> 0 then lit '' | '' else []) @ [91] @ from_call e @ lit ''] '' @ msg_text e)
               (zip [0..<length es] es))"

lemma fetch_text_Nil [simp]: "fetch_text [] = []"
  by (simp add: fetch_text_def)

lemma fetch_text_snoc:
  "fetch_text (es @ [e]) =
     fetch_text es @ (if es \<noteq> [] then lit '' | '' else []) @ [91] @ from_call e @ lit ''] '' @ msg_text e"
  by (auto simp: fetch_text_def)

lemma fetch_text_nonempty: "fetch_text es = [] \<longleftrightarrow> es = []"
  by (cases es rule: rev_cases) (simp_all add: fetch_text_snoc)

definition fetch_inv :: "bytes \<Rightarrow> nat \<Rightarrow> mc_mbox_entry list \<Rightarrow> fetch_state \<Rightarrow> bool" where
  "fetch_inv call sz seen_es st \<longleftrightarrow>
     (let ms = filter (addressed call) seen_es in
      fs_matches st = length ms \<and> fs_shown st \<le> length ms \<and>
      fs_out st = fetch_text (take (fs_shown st) ms) \<and> (fs_shown st < length ms \<longrightarrow> fs_full st) \<and>
      length (fs_out st) < sz)"

lemma fetch_step_inv:
  assumes "fetch_inv call sz seen_es st"
  shows "fetch_inv call sz (seen_es @ [e]) (fetch_step (base_call call 24) sz st e)"
proof (cases "addressed call e")
  case False
  then have "fetch_step (base_call call 24) sz st e = st" by (simp add: fetch_step_def addressed_def)
  with False assms show ?thesis by (simp add: fetch_inv_def)
next
  case True
  let ?ms = "filter (addressed call) seen_es"
  have i: "fs_matches st = length ?ms" "fs_shown st \<le> length ?ms"
    "fs_out st = fetch_text (take (fs_shown st) ?ms)" "fs_shown st < length ?ms \<Longrightarrow> fs_full st"
    "length (fs_out st) < sz"
    using assms by (auto simp: fetch_inv_def Let_def)
  show ?thesis
  proof (cases "fs_full st")
    case True
    with \<open>addressed call e\<close> i show ?thesis
      by (auto simp: fetch_inv_def fetch_step_def addressed_def Let_def)
  next
    case False
    then have s: "fs_shown st = length ?ms" using i(2,4) by (metis le_neq_implies_less)
    have o: "fs_out st = fetch_text ?ms" "(fs_out st = []) = (?ms = [])"
      using i(3) s by (simp_all add: fetch_text_nonempty)
    show ?thesis
      using \<open>addressed call e\<close> False i(1,5) s o
      by (auto simp: fetch_inv_def fetch_step_def addressed_def Let_def fetch_text_snoc)
  qed
qed

lemma fetch_loop_inv:
  "fetch_inv call sz seen_es st \<Longrightarrow>
   fetch_inv call sz (seen_es @ es) (foldl (fetch_step (base_call call 24) sz) st es)"
proof (induction es arbitrary: seen_es st)
  case (Cons e es)
  from Cons.IH [OF fetch_step_inv [OF Cons.prems]] show ?case by simp
qed simp

lemma mbox_fetch_spec:
  assumes "0 < sz"
  shows "fetch_inv call sz (mbox_list mb) (mbox_format_fetch mb call sz)"
  unfolding mbox_format_fetch_def
  using fetch_loop_inv [of call sz "[]" _ "mbox_list mb"] assms by (simp add: fetch_inv_def)

end
