(* ===== verification/Once.thy ===== *)
theory Once
  imports Prelude
begin

text \<open>
  The interface of the two filters that admit an item at most once: the dedup ring of the
  mesh and the replay window of the backbone session. \<open>admit s k\<close> says whether \<open>k\<close> is new and
  records it. \<open>once\<close> is the contract of a single step; \<open>once_window\<close> adds that an item stays
  recorded while fewer than \<open>cap\<close> further items are admitted; \<open>once_forever\<close> that it is never
  forgotten. The client lemmas speak of runs, the results of feeding a list of items.
\<close>

locale once =
  fixes admit :: "'s \<Rightarrow> 'k \<Rightarrow> bool \<times> 's"
    and taken :: "'s \<Rightarrow> 'k \<Rightarrow> bool"
    and inv :: "'s \<Rightarrow> bool"
  assumes admit_new: "inv s \<Longrightarrow> fst (admit s k) \<longleftrightarrow> \<not> taken s k"
    and admit_taken: "inv s \<Longrightarrow> fst (admit s k) \<Longrightarrow> taken (snd (admit s k)) k"
    and admit_same: "inv s \<Longrightarrow> \<not> fst (admit s k) \<Longrightarrow> snd (admit s k) = s"
    and admit_inv: "inv s \<Longrightarrow> inv (snd (admit s k))"
begin

primrec run :: "'s \<Rightarrow> 'k list \<Rightarrow> bool list \<times> 's" where
  "run s [] = ([], s)"
| "run s (k # ks) =
     (let (b, s1) = admit s k; (bs, s2) = run s1 ks in (b # bs, s2))"

lemma run_inv: "inv s \<Longrightarrow> inv (snd (run s ks))"
  by (induction ks arbitrary: s) (auto simp: split_beta Let_def admit_inv)

lemma run_foldl: "snd (run s ks) = foldl (\<lambda>s k. snd (admit s k)) s ks"
  by (induction ks arbitrary: s) (simp_all add: split_beta Let_def)

lemma length_run: "length (fst (run s ks)) = length ks"
  by (induction ks arbitrary: s) (auto simp: split_beta Let_def)

lemma twice: "inv s \<Longrightarrow> \<not> fst (admit (snd (admit s k)) k)"
  using admit_new admit_taken admit_same admit_inv by metis

lemma after_admit: "inv s \<Longrightarrow> taken (snd (admit s k)) k"
  using admit_new admit_taken admit_same by metis

end

locale once_window = once admit taken inv
  for admit :: "'s \<Rightarrow> 'k \<Rightarrow> bool \<times> 's" and taken :: "'s \<Rightarrow> 'k \<Rightarrow> bool" and inv :: "'s \<Rightarrow> bool" +
  fixes age :: "'s \<Rightarrow> 'k \<Rightarrow> nat" and cap :: nat
  assumes cap_pos: "0 < cap"
    and taken_age: "inv s \<Longrightarrow> taken s k \<longleftrightarrow> age s k < cap"
    and age_new: "inv s \<Longrightarrow> fst (admit s k) \<Longrightarrow> age (snd (admit s k)) k = 0"
    and age_grows: "inv s \<Longrightarrow> age (snd (admit s k)) j \<le> age s j + 1"
begin

lemma run_age: "inv s \<Longrightarrow> age (snd (run s ks)) j \<le> age s j + length ks"
proof (induction ks arbitrary: s)
  case (Cons k ks)
  have "age (snd (run (snd (admit s k)) ks)) j \<le> age (snd (admit s k)) j + length ks"
    by (rule Cons.IH) (rule admit_inv [OF Cons.prems])
  then show ?case using age_grows [OF Cons.prems, of k j] by (simp add: split_beta Let_def)
qed simp

text \<open>An item admitted now is refused as long as fewer than \<open>cap\<close> items follow it.\<close>

lemma refused_within:
  assumes "inv s" "fst (admit s k)" "length ks < cap"
  shows "\<not> fst (admit (snd (run (snd (admit s k)) ks)) k)"
proof -
  let ?s = "snd (admit s k)"
  have "age (snd (run ?s ks)) k \<le> age ?s k + length ks" by (rule run_age) (rule admit_inv [OF assms(1)])
  then have "age (snd (run ?s ks)) k < cap" using age_new [OF assms(1,2)] assms(3) by simp
  moreover have "inv (snd (run ?s ks))" by (intro run_inv admit_inv assms(1))
  ultimately show ?thesis using taken_age admit_new by blast
qed

end

locale once_forever = once +
  assumes taken_stays: "inv s \<Longrightarrow> taken s j \<Longrightarrow> taken (snd (admit s k)) j"
begin

lemma run_taken: "inv s \<Longrightarrow> taken s j \<Longrightarrow> taken (snd (run s ks)) j"
  by (induction ks arbitrary: s) (auto simp: split_beta Let_def admit_inv taken_stays)

lemma run_refuses: "inv s \<Longrightarrow> taken s k \<Longrightarrow> i < length ks \<Longrightarrow> ks ! i = k \<Longrightarrow> \<not> fst (run s ks) ! i"
proof (induction ks arbitrary: s i)
  case (Cons x ks)
  show ?case
  proof (cases i)
    case 0
    with Cons admit_new show ?thesis by (auto simp: split_beta Let_def)
  next
    case (Suc n)
    have "\<not> fst (run (snd (admit s x)) ks) ! n"
      using Cons Suc by (intro Cons.IH admit_inv taken_stays) auto
    with Suc show ?thesis by (simp add: split_beta Let_def)
  qed
qed simp

text \<open>In a whole run no item is admitted twice.\<close>

lemma admitted_once:
  "inv s \<Longrightarrow> i < j \<Longrightarrow> j < length ks \<Longrightarrow> ks ! i = ks ! j \<Longrightarrow> fst (run s ks) ! i \<Longrightarrow> \<not> fst (run s ks) ! j"
proof (induction ks arbitrary: s i j)
  case (Cons x ks)
  obtain j' where j: "j = Suc j'" using Cons.prems(2) by (cases j) auto
  show ?case
  proof (cases i)
    case 0
    have "\<not> fst (run (snd (admit s x)) ks) ! j'"
      using Cons.prems 0 j by (intro run_refuses [where k = x] admit_inv after_admit) auto
    with j show ?thesis by (simp add: split_beta Let_def)
  next
    case (Suc i')
    have "\<not> fst (run (snd (admit s x)) ks) ! j'"
      using Cons.prems Suc j by (intro Cons.IH [of _ i'] admit_inv) (auto simp: split_beta Let_def)
    with j show ?thesis by (simp add: split_beta Let_def)
  qed
qed simp

end

end
