(* ===== verification/Mesh_State.thy ===== *)
theory Mesh_State
  imports World Packet Identity Mbox Once
begin

text \<open>
  \<^verbatim>\<open>mesh.h\<close>: the state of the repeater core, and the parts of \<^verbatim>\<open>mesh.c\<close> that only touch one
  table of it: the dedup ring, the neighbour table, the affinity hashes. The pointers
  \<open>aprs\<close>, \<open>mon\<close> and \<open>bb\<close> are present or absent; what the mesh hands them goes to the effect
  list of the world in order (none of them calls back into the mesh). The dedup ring is
  shown to refuse a hash while fewer than 160 others follow it.
\<close>

abbreviation (input) "MESH_SEEN_SIZE \<equiv> 160 :: nat"
abbreviation (input) "MESH_TXQ_SIZE \<equiv> 24 :: nat"
abbreviation (input) "MESH_MAX_NEIGHBORS \<equiv> 96 :: nat"
abbreviation (input) "MESH_REPLY_DELAY_MS \<equiv> 300 :: u32"
abbreviation (input) "MON_VIA_BACKBONE \<equiv> -32768 :: int"

section \<open>Data\<close>

datatype mesh_src = MESH_SRC_RF | MESH_SRC_BACKBONE

datatype mesh_rx =
  MESH_RX_FORWARDED | MESH_RX_DUPLICATE | MESH_RX_POLICY | MESH_RX_LOCAL | MESH_RX_MALFORMED

record mesh_stats =
  rx_total :: u64
  rx_bad_parse :: u64
  rx_crc_err :: u64
  rx_hdr_err :: u64
  rx_dup :: u64
  rx_advert :: u64
  rx_advert_bad :: u64
  fwd_flood :: u64
  fwd_direct :: u64
  fwd_dropped :: u64
  trace_seen :: u64
  fwd_grp_public :: u64
  fwd_region :: u64
  rx_transport_flood :: u64
  fwd_denied :: u64
  fwd_denied_dm :: u64
  fwd_denied_grp :: u64
  fwd_denied_other :: u64
  grp_mac_fail :: u64
  ping_seen :: u64
  pong_sent :: u64
  probes_sent :: u64
  mbox_stored :: u64
  mbox_replies :: u64
  timeofday_sent :: u64
  help_sent :: u64
  blacklisted :: u64
  tx_total :: u64
  tx_cad_busy :: u64
  tx_queue_full :: u64
  tx_failed :: u64
  radio_resets :: u64
  adverts_sent :: u64
  tx_silent :: u64
  tx_airtime_ms :: u64
  rx_airtime_ms :: u64

record mesh_neighbor =
  nb_used :: bool
  nb_pub :: bytes
  nb_name :: bytes
  nb_type :: byte
  nb_rssi :: int
  nb_snr_q :: int
  nb_last_seen :: u32
  nb_count :: u32
  nb_hops :: nat

record mesh_tx_entry =
  tx_used :: bool
  tx_pkt :: mc_packet
  tx_due_ms :: u64
  tx_priority :: nat
  tx_power_dbm :: int

record mbox_gate_entry =
  gate_call :: bytes
  gate_next_ms :: u64

record mc_mesh =
  ident :: mc_identity
  cfg :: mc_config
  seen :: "bytes list"
  seen_idx :: nat
  txq :: "mesh_tx_entry list"
  neighbors :: "mesh_neighbor list"
  stats :: mesh_stats
  start_ms :: u64
  has_aprs :: bool
  mon :: "nat option"
  has_bb :: bool
  rx_src :: mesh_src
  affinity_hash :: bytes
  hs_awake_until_ms :: u64
  hs_woken_by :: bytes
  hs_silent :: bool
  last_advert_ms :: u64
  probe_ch :: mc_pub_channel
  probe_interval_ms :: u32
  probe_total :: int
  probe_remaining :: int
  probe_seq :: int
  probe_next_ms :: u64
  mbox :: mc_mbox
  mbox_gate :: "mbox_gate_entry list"
  tod_ch :: mc_pub_channel
  tod_minute :: u32
  tod_time_pending :: bool
  tod_date_pending :: bool
  mesh_help_next_ms :: u64
  wld :: world

definition zero_stats :: mesh_stats where
  "zero_stats = \<lparr>rx_total = 0, rx_bad_parse = 0, rx_crc_err = 0, rx_hdr_err = 0, rx_dup = 0,
     rx_advert = 0, rx_advert_bad = 0, fwd_flood = 0, fwd_direct = 0, fwd_dropped = 0,
     trace_seen = 0, fwd_grp_public = 0, fwd_region = 0, rx_transport_flood = 0, fwd_denied = 0,
     fwd_denied_dm = 0, fwd_denied_grp = 0, fwd_denied_other = 0, grp_mac_fail = 0, ping_seen = 0,
     pong_sent = 0, probes_sent = 0, mbox_stored = 0, mbox_replies = 0, timeofday_sent = 0,
     help_sent = 0, blacklisted = 0, tx_total = 0, tx_cad_busy = 0, tx_queue_full = 0,
     tx_failed = 0, radio_resets = 0, adverts_sent = 0, tx_silent = 0, tx_airtime_ms = 0,
     rx_airtime_ms = 0\<rparr>"

definition zero_neighbor :: mesh_neighbor where
  "zero_neighbor = \<lparr>nb_used = False, nb_pub = replicate 32 0, nb_name = [], nb_type = 0,
     nb_rssi = 0, nb_snr_q = 0, nb_last_seen = 0, nb_count = 0, nb_hops = 0\<rparr>"

definition zero_tx :: mesh_tx_entry where
  "zero_tx = \<lparr>tx_used = False, tx_pkt = zero_pkt, tx_due_ms = 0, tx_priority = 0, tx_power_dbm = 0\<rparr>"

definition zero_channel :: mc_pub_channel where
  "zero_channel = \<lparr>ch_name = [], secret = replicate 32 0, secret_len = 0, ch_hash = 0,
     derived = False, hub = False\<rparr>"

definition mesh_init :: "mc_identity \<Rightarrow> mc_config \<Rightarrow> world \<Rightarrow> mc_mesh" where
  "mesh_init self c w =
     (let (now, w) = hal_millis w in
      \<lparr>ident = self, cfg = c, seen = replicate MESH_SEEN_SIZE (replicate 8 0), seen_idx = 0,
       txq = replicate MESH_TXQ_SIZE zero_tx, neighbors = replicate MESH_MAX_NEIGHBORS zero_neighbor,
       stats = zero_stats, start_ms = now, has_aprs = False, mon = None, has_bb = False,
       rx_src = MESH_SRC_RF, affinity_hash = [], hs_awake_until_ms = 0, hs_woken_by = [],
       hs_silent = False, last_advert_ms = now, probe_ch = zero_channel, probe_interval_ms = 0,
       probe_total = 0, probe_remaining = 0, probe_seq = 0, probe_next_ms = 0,
       mbox = mbox_init \<lparr>mb_e = replicate 32 zero_entry, mb_head = 0, mb_count = 0\<rparr>,
       mbox_gate = replicate 8 \<lparr>gate_call = [], gate_next_ms = 0\<rparr>, tod_ch = zero_channel,
       tod_minute = 0, tod_time_pending = False, tod_date_pending = False, mesh_help_next_ms = 0,
       wld = w\<rparr>)"

definition bump :: "(mesh_stats \<Rightarrow> mesh_stats) \<Rightarrow> mc_mesh \<Rightarrow> mc_mesh" where
  \<comment> \<open>an update of the counters\<close>
  "bump f m = m\<lparr>stats := f (stats m)\<rparr>"

definition mesh_millis :: "mc_mesh \<Rightarrow> u64 \<times> mc_mesh" where
  "mesh_millis m = (let (t, w) = hal_millis (wld m) in (t, m\<lparr>wld := w\<rparr>))"

definition mesh_time :: "mc_mesh \<Rightarrow> nat \<times> mc_mesh" where
  "mesh_time m = (let (t, w) = time_now (wld m) in (t, m\<lparr>wld := w\<rparr>))"

definition mesh_rng :: "u32 \<Rightarrow> u32 \<Rightarrow> mc_mesh \<Rightarrow> u32 \<times> mc_mesh" where
  "mesh_rng lo hi m = (let (r, w) = hal_rng_int lo hi (wld m) in (r, m\<lparr>wld := w\<rparr>))"

definition mesh_emit :: "effect \<Rightarrow> mc_mesh \<Rightarrow> mc_mesh" where
  "mesh_emit e m = m\<lparr>wld := emit e (wld m)\<rparr>"

definition mon_emit :: "effect \<Rightarrow> mc_mesh \<Rightarrow> mc_mesh" where
  \<comment> \<open>\<open>if (m->mon) monitor_...\<close>\<close>
  "mon_emit e m = (if mon m = None then m else mesh_emit e m)"

section \<open>The dedup ring\<close>

definition ring_admit :: "bytes list \<times> nat \<Rightarrow> bytes \<Rightarrow> bool \<times> bytes list \<times> nat" where
  \<comment> \<open>the body of \<open>seen_check_and_add\<close> on the two fields it uses; \<open>True\<close> where the hash is new\<close>
  "ring_admit r h =
     (case r of (ring, idx) \<Rightarrow>
      if list_ex (\<lambda>x. x = h) ring then (False, ring, idx)
      else (True, ring[idx := h], (idx + 1) mod MESH_SEEN_SIZE))"

definition seen_check_and_add :: "mc_mesh \<Rightarrow> bytes \<Rightarrow> bool \<times> mc_mesh" where
  "seen_check_and_add m h =
     (let (new, ring, idx) = ring_admit (seen m, seen_idx m) h
      in (\<not> new, m\<lparr>seen := ring, seen_idx := idx\<rparr>))"

definition wf_ring :: "bytes list \<times> nat \<Rightarrow> bool" where
  "wf_ring r \<longleftrightarrow> length (fst r) = MESH_SEEN_SIZE \<and> snd r < MESH_SEEN_SIZE"

definition ring_recent :: "bytes list \<times> nat \<Rightarrow> bytes list" where
  \<comment> \<open>the ring's contents, the newest first\<close>
  "ring_recent r = map (\<lambda>j. fst r ! ((snd r + 159 - j) mod 160)) [0..<160]"

definition ring_age :: "bytes list \<times> nat \<Rightarrow> bytes \<Rightarrow> nat" where
  "ring_age r h = (case find_index (\<lambda>x. x = h) (ring_recent r) of None \<Rightarrow> 160 | Some i \<Rightarrow> i)"

lemma ring_admit_wf: "wf_ring r \<Longrightarrow> wf_ring (snd (ring_admit r h))"
  by (auto simp: wf_ring_def ring_admit_def split: prod.splits)

lemma mod160: "x < 320 \<Longrightarrow> x mod 160 = (if x < 160 then x else x - (160 :: nat))"
  by (simp add: le_mod_geq)

lemma ring_recent_set:
  assumes "wf_ring r"
  shows "set (ring_recent r) = set (fst r)"
proof -
  have l: "length (fst r) = 160" "snd r < 160" using assms by (auto simp: wf_ring_def)
  have "(\<lambda>j. (snd r + 159 - j) mod 160) ` {0..<160} = {0..<160}"
  proof (rule equalityI; rule subsetI)
    fix i assume i: "i \<in> {0..<160 :: nat}"
    let ?j = "if i < snd r then snd r - 1 - i else snd r + 159 - i"
    have "i = (snd r + 159 - ?j) mod 160" using i l(2) by (auto simp: mod160)
    moreover have "?j \<in> {0..<160}" using i l(2) by auto
    ultimately show "i \<in> (\<lambda>j. (snd r + 159 - j) mod 160) ` {0..<160}" by blast
  qed auto
  moreover have "set (ring_recent r) = (!) (fst r) ` ((\<lambda>j. (snd r + 159 - j) mod 160) ` {0..<160})"
    by (simp add: ring_recent_def image_image)
  ultimately have "set (ring_recent r) = (!) (fst r) ` {0..<160}" by simp
  also have "\<dots> = set (fst r)" using l(1) by (metis list.set_map map_nth set_upt)
  finally show ?thesis .
qed

lemma ring_recent_add:
  assumes "wf_ring r" "fst (ring_admit r h)"
  shows "ring_recent (snd (ring_admit r h)) = h # butlast (ring_recent r)"
proof -
  obtain ring idx where r: "r = (ring, idx)" by (cases r)
  have l: "length ring = 160" "idx < 160" using assms r by (auto simp: wf_ring_def)
  have s: "snd (ring_admit r h) = (ring[idx := h], (idx + 1) mod 160)"
    using assms(2) by (auto simp: ring_admit_def r split: if_splits)
  show ?thesis
  proof (rule nth_equalityI)
    show "length (ring_recent (snd (ring_admit r h))) = length (h # butlast (ring_recent r))"
      by (simp add: ring_recent_def)
    fix k assume "k < length (ring_recent (snd (ring_admit r h)))"
    then have k: "k < 160" by (simp add: ring_recent_def)
    let ?i = "((idx + 1) mod 160 + 159 - k) mod 160"
    have lhs: "ring_recent (snd (ring_admit r h)) ! k = ring[idx := h] ! ?i"
      using k by (simp add: s ring_recent_def)
    show "ring_recent (snd (ring_admit r h)) ! k = (h # butlast (ring_recent r)) ! k"
    proof (cases k)
      case 0
      then have "?i = idx" using l by (auto simp: mod160 split: if_splits)
      then show ?thesis using lhs l 0 by simp
    next
      case (Suc n)
      have "?i = (idx + 159 - n) mod 160" "?i \<noteq> idx"
        using Suc k l by (auto simp: mod160 split: if_splits)
      then have "ring_recent (snd (ring_admit r h)) ! k = ring ! ((idx + 159 - n) mod 160)"
        using lhs by simp
      then show ?thesis using Suc k by (simp add: r ring_recent_def nth_butlast)
    qed
  qed
qed

lemma find_index_butlast:
  "(case find_index P (x # butlast xs) of None \<Rightarrow> length xs | Some i \<Rightarrow> i)
     \<le> Suc (case find_index P xs of None \<Rightarrow> length xs | Some i \<Rightarrow> i)"
proof (cases "find_index P (butlast xs)")
  case None
  show ?thesis
  proof (cases "find_index P xs")
    case (Some i)
    have "\<not> i < length xs - 1"
    proof
      assume i: "i < length xs - 1"
      then have "P (butlast xs ! i)" using Some by (simp add: find_index_Some nth_butlast)
      moreover have "butlast xs ! i \<in> set (butlast xs)" using i by (intro nth_mem) simp
      ultimately show False using None unfolding find_index_None by blast
    qed
    with None Some show ?thesis by auto
  next
    case None': None
    with None show ?thesis by (simp split: option.split)
  qed
next
  case (Some j)
  then have j: "j < length xs - 1" "P (butlast xs ! j)" "\<forall>i < j. \<not> P (butlast xs ! i)"
    by (auto simp: find_index_Some)
  then have "find_index P xs = Some j"
    by (auto simp: find_index_Some nth_butlast)
  with Some show ?thesis by simp
qed

interpretation dedup: once_window ring_admit "\<lambda>r h. h \<in> set (fst r)" wf_ring ring_age 160
proof
  fix r :: "bytes list \<times> nat" and h k :: bytes
  assume w: "wf_ring r"
  have len: "length (ring_recent r') = 160" for r' by (simp add: ring_recent_def)
  show new: "fst (ring_admit r h) \<longleftrightarrow> h \<notin> set (fst r)"
    by (auto simp: ring_admit_def list_ex_iff split: prod.splits)
  show "h \<in> set (fst (snd (ring_admit r h)))" if "fst (ring_admit r h)"
    using that w by (auto simp: ring_admit_def wf_ring_def list_ex_iff set_update_memI split: prod.splits if_splits)
  show "snd (ring_admit r h) = r" if "\<not> fst (ring_admit r h)"
    using that by (auto simp: ring_admit_def split: prod.splits if_splits)
  show "wf_ring (snd (ring_admit r h))" using w by (rule ring_admit_wf)
  show "h \<in> set (fst r) \<longleftrightarrow> ring_age r h < 160"
    using find_index_lt [of "\<lambda>x. x = h" "ring_recent r"] find_index_None [of "\<lambda>x. x = h" "ring_recent r"] len
    by (auto simp: ring_age_def ring_recent_set [OF w] split: option.splits)
  show "ring_age (snd (ring_admit r h)) h = 0" if "fst (ring_admit r h)"
    by (simp add: ring_age_def ring_recent_add [OF w that])
  show "ring_age (snd (ring_admit r h)) k \<le> ring_age r k + 1"
  proof (cases "fst (ring_admit r h)")
    case True
    show ?thesis
      using find_index_butlast [where P = "\<lambda>x. x = k" and x = h and xs = "ring_recent r"] len
      unfolding ring_age_def ring_recent_add [OF w True] len Suc_eq_plus1 by blast
  next
    case False
    then have "snd (ring_admit r h) = r" by (auto simp: ring_admit_def split: prod.splits if_splits)
    then show ?thesis by simp
  qed
qed simp

end
