(* ===== verification/Advert.thy ===== *)
theory Advert
  imports Identity
begin

text \<open>
  \<^verbatim>\<open>advert.h\<close> and \<^verbatim>\<open>advert.c\<close>: adverts, the one payload a repeater interprets. A latitude or
  longitude is carried as the value the code computes of it, \<^verbatim>\<open>(int32_t)lround(x * 1e6)\<close>
  (micro-degrees), so \<open>latitude\<close> and \<open>longitude\<close> are integers here. The lemmas
  show that an advert the node builds verifies, and give the type, name and location read
  back from it; and that the name a verified advert yields may come from bytes beyond the 32
  that the signature covers.
\<close>

abbreviation (input) "ADV_TYPE_REPEATER \<equiv> 2 :: byte"
abbreviation (input) "ADV_LATLON_MASK \<equiv> 0x10 :: byte"
abbreviation (input) "ADV_FEAT1_MASK \<equiv> 0x20 :: byte"
abbreviation (input) "ADV_FEAT2_MASK \<equiv> 0x40 :: byte"
abbreviation (input) "ADV_NAME_MASK \<equiv> 0x80 :: byte"
abbreviation (input) "MC_MAX_ADVERT_DATA \<equiv> 32 :: nat"
abbreviation (input) "ADV_TS_OFF \<equiv> 32 :: nat"
abbreviation (input) "ADV_SIG_OFF \<equiv> 36 :: nat"
abbreviation (input) "ADV_DATA_OFF \<equiv> 100 :: nat"

record mc_advert_info =
  adv_type :: byte
  adv_has_location :: bool
  adv_lat :: int
  adv_lon :: int
  adv_name :: "bytes option"

section \<open>Building\<close>

definition encode_app_data :: "mc_advert_info \<Rightarrow> bytes" where
  "encode_app_data info =
     (let flags = adv_type info AND 0x0F;
          loc = (if adv_has_location info
                 then wr_i32le (adv_lat info) @ wr_i32le (adv_lon info) else []);
          flags = (if adv_has_location info then flags OR ADV_LATLON_MASK else flags);
          nm = (case adv_name info of None \<Rightarrow> []
                | Some n \<Rightarrow> take (MC_MAX_ADVERT_DATA - (1 + length loc)) n);
          flags = (if nm = [] then flags else flags OR ADV_NAME_MASK)
      in flags # loc @ nm)"

definition advert_msg :: "bytes \<Rightarrow> u32 \<Rightarrow> bytes \<Rightarrow> bytes" where
  \<comment> \<open>the signed message: public key, timestamp, app data\<close>
  "advert_msg pk ts app = pk @ wr_u32le ts @ app"

definition mc_advert_build ::
  "sign_fn \<Rightarrow> mc_identity \<Rightarrow> mc_advert_info \<Rightarrow> u32 \<Rightarrow> int + mc_packet" where
  "mc_advert_build crypto_sign self info timestamp =
     (if \<not> has_secret self then Inl (-1)
      else
        let app_data = encode_app_data info;
            msg = advert_msg (pub self) timestamp app_data in
        case mc_identity_sign crypto_sign self msg of
          Inl _ \<Rightarrow> Inl (-2)
        | Inr sig \<Rightarrow>
            let pay = payload zero_pkt;
                pay = memcpy_at pay 0 (pub self);
                pay = memcpy_at pay ADV_TS_OFF (wr_u32le timestamp);
                pay = memcpy_at pay ADV_SIG_OFF sig;
                pay = memcpy_at pay ADV_DATA_OFF app_data
            in Inr (zero_pkt\<lparr>header := pkt_make_header 0 PAYLOAD_TYPE_ADVERT ROUTE_TYPE_FLOOD,
                  path_len := 0, payload := pay,
                  payload_len := ADV_DATA_OFF + length app_data\<rparr>))"

section \<open>Reading\<close>

definition advert_app :: "mc_packet \<Rightarrow> bytes" where
  \<comment> \<open>the app data, up to the end of the payload\<close>
  "advert_app p = bslice ADV_DATA_OFF (payload_len p - ADV_DATA_OFF) (payload p)"

definition mc_advert_extract :: "mc_packet \<Rightarrow> nat \<Rightarrow> byte option \<times> bytes" where
  \<comment> \<open>the type (\<open>None\<close> where the code returns -1) and the string left in \<open>name[namesz]\<close>\<close>
  "mc_advert_extract p namesz =
     (if payload_len p < ADV_DATA_OFF then (None, [])
      else let app = advert_app p in
      if app = [] then (None, [])
      else let flags = app ! 0;
               i = 1 + (if flags AND ADV_LATLON_MASK \<noteq> 0 then 8 else 0)
                     + (if flags AND ADV_FEAT1_MASK \<noteq> 0 then 2 else 0)
                     + (if flags AND ADV_FEAT2_MASK \<noteq> 0 then 2 else 0) in
        (Some (flags AND 0x0F),
         if flags AND ADV_NAME_MASK \<noteq> 0 \<and> 0 < namesz \<and> i < length app
         then c_str (take (namesz - 1) (drop i app)) else []))"

definition mc_advert_extract_location :: "mc_packet \<Rightarrow> (int \<times> int) option" where
  "mc_advert_extract_location p =
     (if payload_len p < ADV_DATA_OFF then None
      else let app = advert_app p in
      if length app < 9 \<or> app ! 0 AND ADV_LATLON_MASK = 0 then None
      else Some (rd_i32le (bslice 1 4 app), rd_i32le (bslice 5 4 app)))"

definition mc_advert_verify :: "open_fn \<Rightarrow> mc_packet \<Rightarrow> bytes option" where
  \<comment> \<open>the public key of a valid advert\<close>
  "mc_advert_verify crypto_sign_open p =
     (if pkt_payload_type p \<noteq> PAYLOAD_TYPE_ADVERT then None
      else if payload_len p < ADV_DATA_OFF then None
      else
        let pk = take 32 (payload p);
            timestamp = rd_u32le (bslice ADV_TS_OFF 4 (payload p));
            sig = bslice ADV_SIG_OFF 64 (payload p);
            app_data = take MC_MAX_ADVERT_DATA (advert_app p) in
        if mc_identity_verify crypto_sign_open pk sig (advert_msg pk timestamp app_data)
        then Some pk else None)"

section \<open>What an advert carries\<close>

lemma length_encode_app_data: "1 \<le> length (encode_app_data info) \<and> length (encode_app_data info) \<le> 32"
  by (simp add: encode_app_data_def Let_def split: option.split)

lemma length_advert_msg:
  "length pk = 32 \<Longrightarrow> length app \<le> 32 \<Longrightarrow> length (advert_msg pk ts app) + 64 \<le> SIGN_SCRATCH"
  by (simp add: advert_msg_def)

lemma memcpy_at_append:
  "length pre = off \<Longrightarrow> off + length src \<le> n \<Longrightarrow>
   memcpy_at (pre @ replicate (n - off) 0) off src = (pre @ src) @ replicate (n - (off + length src)) 0"
  by (simp add: memcpy_at_def)

lemma advert_build_parts:
  assumes wf: "wf_identity self" and b: "mc_advert_build cs self info ts = Inr p"
    and cs: "\<And>m. 64 \<le> length (cs m (sec self))"
  obtains sig where
    "mc_identity_sign cs self (advert_msg (pub self) ts (encode_app_data info)) = Inr sig"
    "payload p = pub self @ wr_u32le ts @ sig @ encode_app_data info
       @ replicate (84 - length (encode_app_data info)) 0"
    "payload_len p = 100 + length (encode_app_data info)"
    "header p = pkt_make_header 0 PAYLOAD_TYPE_ADVERT ROUTE_TYPE_FLOOD" "path_len p = 0"
    "path p = path zero_pkt" "length sig = 64"
proof -
  let ?app = "encode_app_data info"
  have P: "length (pub self) = 32" using wf by (simp add: wf_identity_def)
  from b obtain sig where s: "mc_identity_sign cs self (advert_msg (pub self) ts ?app) = Inr sig"
    and p: "payload p = memcpy_at (memcpy_at (memcpy_at (memcpy_at (replicate (184 - 0) 0) 0 (pub self))
        32 (wr_u32le ts)) 36 sig) 100 ?app"
      "payload_len p = 100 + length ?app" "path_len p = 0" "path p = path zero_pkt"
      "header p = pkt_make_header 0 PAYLOAD_TYPE_ADVERT ROUTE_TYPE_FLOOD"
    by (auto simp: mc_advert_build_def Let_def zero_pkt_def split: if_splits sum.splits)
  have S: "length sig = 64" using s cs by (auto simp: mc_identity_sign_def split: if_splits)
  note m = memcpy_at_append [where n = 184]
  have "payload p = (((([] @ pub self) @ wr_u32le ts) @ sig) @ ?app) @ replicate (184 - (100 + length ?app)) 0"
    unfolding p(1) using m [of "[]" 0 "pub self"] m [of "[] @ pub self" 32 "wr_u32le ts"]
      m [of "([] @ pub self) @ wr_u32le ts" 36 sig]
      m [of "(([] @ pub self) @ wr_u32le ts) @ sig" 100 ?app] P S length_encode_app_data [of info]
    by simp
  with that [OF s _ p(2,5,3,4) S] show thesis by simp
qed

lemma advert_app_built:
  assumes "payload p = pk @ wr_u32le ts @ sig @ app @ r" "length pk = 32" "length sig = 64"
    "payload_len p = 100 + length app"
  shows "advert_app p = app"
  using assms by (simp add: advert_app_def bslice_def)

lemma build_verify:
  assumes "wf_identity self" "sign_correct cs co self" "mc_advert_build cs self info ts = Inr p"
  shows "mc_advert_verify co p = Some (pub self)"
proof -
  have cs: "64 \<le> length (cs m (sec self))" for m using assms(2) by (simp add: sign_correct_def)
  have P: "length (pub self) = 32" using assms(1) by (simp add: wf_identity_def)
  show ?thesis
  proof (rule advert_build_parts [OF assms(1,3) cs])
    fix sig
    assume s: "mc_identity_sign cs self (advert_msg (pub self) ts (encode_app_data info)) = Inr sig"
      and pay: "payload p = pub self @ wr_u32le ts @ sig @ encode_app_data info
         @ replicate (84 - length (encode_app_data info)) 0"
      and len: "payload_len p = 100 + length (encode_app_data info)"
      and hdr: "header p = pkt_make_header 0 PAYLOAD_TYPE_ADVERT ROUTE_TYPE_FLOOD"
      and sig: "length sig = 64"
    have "pkt_payload_type p = PAYLOAD_TYPE_ADVERT"
      unfolding pkt_payload_type_def hdr payload_type_of_make by simp
    moreover have "take 32 (payload p) = pub self" "bslice 32 4 (payload p) = wr_u32le ts"
      "bslice 36 64 (payload p) = sig"
      unfolding pay using P sig by (simp_all add: bslice_def)
    moreover have "take 32 (advert_app p) = encode_app_data info"
      using advert_app_built [OF pay P sig len] length_encode_app_data [of info] by simp
    ultimately show ?thesis
      using len verify_sign [OF assms(2) s] by (simp add: mc_advert_verify_def)
  qed
qed

lemma app_flags:
  fixes t :: byte
  assumes "f = (t AND 0xF) OR (if l then 0x10 else 0) OR (if n then 0x80 else 0)"
  shows "f AND 0xF = t AND 0xF" "(f AND 0x10 \<noteq> 0) = l" "(f AND 0x80 \<noteq> 0) = n"
    "f AND 0x20 = 0" "f AND 0x40 = 0"
  unfolding assms by (simp_all add: bit.conj_disj_distrib2 and.assoc)

definition sent_name :: "mc_advert_info \<Rightarrow> bytes" where
  \<comment> \<open>the part of the name that fits the app data\<close>
  "sent_name info = take (if adv_has_location info then 23 else 31) (case adv_name info of None \<Rightarrow> [] | Some n \<Rightarrow> n)"

lemma encode_app_data_alt:
  "encode_app_data info =
     ((adv_type info AND 0xF) OR (if adv_has_location info then 0x10 else 0)
        OR (if sent_name info \<noteq> [] then 0x80 else 0))
     # (if adv_has_location info then wr_i32le (adv_lat info) @ wr_i32le (adv_lon info) else [])
     @ sent_name info"
  by (auto simp: encode_app_data_def sent_name_def Let_def or.assoc split: option.splits)

lemma advert_extract_of_app:
  assumes "advert_app p = encode_app_data info" "100 \<le> payload_len p" "0 < n" "0 \<notin> set (sent_name info)"
  shows "mc_advert_extract p n = (Some (adv_type info AND 0xF), take (n - 1) (sent_name info))"
    and "mc_advert_extract_location p =
       (if adv_has_location info
        then Some (rd_i32le (wr_i32le (adv_lat info)), rd_i32le (wr_i32le (adv_lon info)))
        else None)"
proof -
  have c: "c_str (take (n - 1) (sent_name info)) = take (n - 1) (sent_name info)"
    using assms(4) by (intro c_str_plain) (auto dest: in_set_takeD)
  obtain f where app: "advert_app p = f
      # (if adv_has_location info then wr_i32le (adv_lat info) @ wr_i32le (adv_lon info) else [])
      @ sent_name info"
    and fl: "f AND 0xF = adv_type info AND 0xF" "(f AND 0x10 \<noteq> 0) = adv_has_location info"
      "(f AND 0x80 \<noteq> 0) = (sent_name info \<noteq> [])" "f AND 0x20 = 0" "f AND 0x40 = 0"
    using assms(1) app_flags [OF refl, of "adv_type info" "adv_has_location info" "sent_name info \<noteq> []"]
    unfolding encode_app_data_alt by blast
  show "mc_advert_extract p n = (Some (adv_type info AND 0xF), take (n - 1) (sent_name info))"
    using assms(2,3) c fl by (simp add: mc_advert_extract_def Let_def app)
  show "mc_advert_extract_location p =
       (if adv_has_location info
        then Some (rd_i32le (wr_i32le (adv_lat info)), rd_i32le (wr_i32le (adv_lon info)))
        else None)"
  proof (cases "adv_has_location info")
    case True
    then show ?thesis
      using assms(2) fl
      by (simp add: mc_advert_extract_location_def Let_def app bslice_def del: rd_wr_i32le)
  next
    case False
    then show ?thesis using assms(2) fl by (simp add: mc_advert_extract_location_def Let_def app)
  qed
qed

lemma build_extract:
  assumes "wf_identity self" "sign_correct cs co self" "mc_advert_build cs self info ts = Inr p"
    "0 < n" "0 \<notin> set (sent_name info)"
  shows "mc_advert_extract p n = (Some (adv_type info AND 0xF), take (n - 1) (sent_name info))"
proof -
  have cs: "64 \<le> length (cs m (sec self))" for m using assms(2) by (simp add: sign_correct_def)
  have P: "length (pub self) = 32" using assms(1) by (simp add: wf_identity_def)
  show ?thesis
    by (rule advert_build_parts [OF assms(1,3) cs])
       (rule advert_extract_of_app(1) [OF advert_app_built [OF _ P]], use assms(4,5) in simp_all)
qed

lemma build_wf [wf_simps]:
  assumes "wf_identity self" "mc_advert_build cs self info ts = Inr p"
  shows "wf_pkt p"
proof -
  obtain sig where s: "mc_identity_sign cs self (advert_msg (pub self) ts (encode_app_data info)) = Inr sig"
    and p: "payload p = memcpy_at (memcpy_at (memcpy_at (memcpy_at (payload zero_pkt) 0 (pub self))
        32 (wr_u32le ts)) 36 sig) 100 (encode_app_data info)"
      "payload_len p = 100 + length (encode_app_data info)" "path_len p = 0" "path p = path zero_pkt"
    using assms(2) by (auto simp: mc_advert_build_def Let_def split: if_splits sum.splits)
  have "length sig \<le> 64" using s by (auto simp: mc_identity_sign_def split: if_splits)
  then have "length (payload p) = 184"
    using assms(1) length_encode_app_data [of info] unfolding p(1) by (simp add: wf_identity_def)
  then show ?thesis
    using p length_encode_app_data [of info] by (simp add: wf_pkt_def pkt_valid_path_len_def)
qed

section \<open>What the signature covers\<close>

lemma verify_covers_prefix:
  assumes "header p' = header p" "132 \<le> payload_len p" "132 \<le> payload_len p'"
    "take 132 (payload p') = take 132 (payload p)"
  shows "mc_advert_verify co p' = mc_advert_verify co p"
proof -
  have t: "take k (payload p') = take k (payload p)" if "k \<le> 132" for k
    using arg_cong [OF assms(4), of "take k"] that by (simp add: min_def)
  have s: "bslice i k (payload p') = bslice i k (payload p)" if "i + k \<le> 132" for i k
    using arg_cong [OF assms(4), of "bslice i k"] that by (simp add: bslice_def drop_take min_absorb1)
  have a: "take 32 (advert_app q) = bslice 100 32 (payload q)" if "132 \<le> payload_len q" for q :: mc_packet
    using that by (simp add: advert_app_def bslice_def min_def)
  show ?thesis
    using assms(1-3) t [of 32] s [of 32 4] s [of 36 64] s [of 100 32] a
    by (simp add: mc_advert_verify_def pkt_payload_type_def Let_def)
qed

end
