(* ===== verification/Mesh_Tables.thy ===== *)
theory Mesh_Tables
  imports Mesh_State Advert
begin

text \<open>
  The neighbour table, the affinity hashes and the hotspot's sense of being attended
  (\<^verbatim>\<open>mesh.c\<close>: \<open>neighbor_update\<close>, \<open>mesh_rf_silent\<close>, \<open>path_has_affinity\<close>, \<open>learn_affinity\<close>,
  \<open>is_companion_name\<close>, \<open>mesh_txq_free\<close>, \<open>mesh_neighbor_count\<close>), and the monitor
  event of a dropped packet.
\<close>

section \<open>Neighbours\<close>

definition nb_extract :: "mc_packet \<Rightarrow> mesh_neighbor \<Rightarrow> mesh_neighbor" where
  \<comment> \<open>\<open>mc_advert_extract (pkt, &n->type, n->name, sizeof (n->name))\<close>\<close>
  "nb_extract p n =
     (case mc_advert_extract p 32 of (ty, nm) \<Rightarrow>
        n\<lparr>nb_type := (case ty of None \<Rightarrow> nb_type n | Some t \<Rightarrow> t), nb_name := nm\<rparr>)"

fun oldest_from :: "mesh_neighbor list \<Rightarrow> nat \<Rightarrow> u32 \<Rightarrow> nat \<Rightarrow> nat" where
  \<comment> \<open>\<open>oldest\<close> after the loop, from entry \<open>i\<close> on\<close>
  "oldest_from [] i oldest_ts oldest = oldest"
| "oldest_from (n # ns) i oldest_ts oldest =
     (if nb_used n \<and> nb_last_seen n < oldest_ts
      then oldest_from ns (i + 1) (nb_last_seen n) i
      else oldest_from ns (i + 1) oldest_ts oldest)"

definition neighbor_update :: "mc_mesh \<Rightarrow> bytes \<Rightarrow> mc_packet \<Rightarrow> int \<Rightarrow> int \<Rightarrow> mc_mesh" where
  "neighbor_update m pk p rssi snr =
     (let (t, m) = mesh_time m; now = of_nat t;
          ns = neighbors m; hops = pkt_path_hash_count p in
      case find_index (\<lambda>n. nb_used n \<and> nb_pub n = pk) ns of
        Some i \<Rightarrow>
          m\<lparr>neighbors := ns[i := nb_extract p ((ns ! i)\<lparr>nb_rssi := rssi, nb_snr_q := snr,
              nb_last_seen := now, nb_count := nb_count (ns ! i) + 1, nb_hops := hops\<rparr>)]\<rparr>
      | None \<Rightarrow>
          let idx = (case find_index (\<lambda>n. \<not> nb_used n) ns of
                       Some free \<Rightarrow> free | None \<Rightarrow> oldest_from ns 0 0xFFFFFFFF 0) in
          m\<lparr>neighbors := ns[idx := nb_extract p (zero_neighbor\<lparr>nb_used := True, nb_pub := pk,
              nb_rssi := rssi, nb_snr_q := snr, nb_last_seen := now, nb_count := 1, nb_hops := hops\<rparr>)]\<rparr>)"

definition mesh_neighbor_count :: "mc_mesh \<Rightarrow> nat" where
  "mesh_neighbor_count m = length (filter nb_used (neighbors m))"

definition mesh_txq_free :: "mc_mesh \<Rightarrow> nat" where
  "mesh_txq_free m = length (filter (\<lambda>e. \<not> tx_used e) (txq m))"

section \<open>The attended hotspot\<close>

definition mesh_rf_silent :: "mc_mesh \<Rightarrow> u64 \<Rightarrow> bool" where
  "mesh_rf_silent m now_ms =
     (if role (cfg m) \<noteq> ROLE_HOTSPOT \<or> hotspot_awake (cfg m) = 0 then False
      else hs_awake_until_ms m \<le> now_ms)"

definition own_tx_power :: "mc_mesh \<Rightarrow> int" where
  "own_tx_power m =
     (if role (cfg m) = ROLE_HOTSPOT then hotspot_power_high (cfg m) else tx_power (radio (cfg m)))"

definition path_has_affinity :: "mc_mesh \<Rightarrow> mc_packet \<Rightarrow> bool" where
  "path_has_affinity m p =
     list_ex (\<lambda>h. list_ex (\<lambda>a. a = path p ! (h * pkt_path_hash_size p)) (affinity_hash m))
       [0..<pkt_path_hash_count p]"

definition learn_affinity :: "mc_mesh \<Rightarrow> bytes \<Rightarrow> mc_mesh" where
  "learn_affinity m pk =
     (if list_ex (\<lambda>a. a = pk ! 0) (affinity_hash m) then m
      else if length (affinity_hash m) < MC_MAX_AFFINITY
      then m\<lparr>affinity_hash := affinity_hash m @ [pk ! 0]\<rparr>
      else m)"

definition is_companion_name :: "mc_mesh \<Rightarrow> bytes \<Rightarrow> bool" where
  "is_companion_name m nm =
     (if nm = [] \<or> \<not> config_is_home (cfg m) nm \<or> strncaseeq 3 nm (lit ''ON0'') \<or>
         config_is_affinity (cfg m) nm \<or> strcaseeq nm (cfg_name (cfg m))
      then False
      else \<not> list_ex (\<lambda>n. nb_used n \<and> nb_type n \<noteq> 1 \<and> strcaseeq (nb_name n) nm) (neighbors m))"

definition mon_pkt_drop :: "mc_mesh \<Rightarrow> mc_packet \<Rightarrow> bytes \<Rightarrow> mc_mesh" where
  "mon_pkt_drop m p reason =
     (let pt = pkt_payload_type p;
          chash = (if (pt = PAYLOAD_TYPE_GRP_TXT \<or> pt = PAYLOAD_TYPE_GRP_DATA) \<and> 1 \<le> payload_len p
                   then int (unat (payload p ! 0)) else -1)
      in mon_emit (MonDrop pt reason chash) m)"

section \<open>Invariants\<close>

definition wf_neighbors :: "mesh_neighbor list \<Rightarrow> bool" where
  \<comment> \<open>one entry per key, in the fixed table\<close>
  "wf_neighbors ns \<longleftrightarrow> length ns = MESH_MAX_NEIGHBORS \<and>
     (\<forall>i < length ns. \<forall>j < length ns. nb_used (ns ! i) \<and> nb_used (ns ! j) \<and> nb_pub (ns ! i) = nb_pub (ns ! j)
        \<longrightarrow> i = j)"

lemma nb_extract_frame [frame_simps, simp]:
  "nb_used (nb_extract p n) = nb_used n" "nb_pub (nb_extract p n) = nb_pub n"
  by (simp_all add: nb_extract_def split: prod.splits)

lemma oldest_from_lt:
  "oldest < i + length ns \<Longrightarrow> oldest_from ns i ts oldest < i + length ns"
proof (induction ns arbitrary: i ts oldest)
  case (Cons a ns)
  have "oldest_from ns (i + 1) ts' o' < i + 1 + length ns" if "o' < i + 1 + length ns" for ts' o'
    using that by (rule Cons.IH)
  with Cons.prems show ?case by simp
qed simp

lemma wf_neighbors_update:
  assumes "wf_neighbors ns" "i < length ns" "nb_used n"
    "nb_pub n = nb_pub (ns ! i) \<and> nb_used (ns ! i) \<or> (\<forall>k \<in> set ns. \<not> (nb_used k \<and> nb_pub k = nb_pub n))"
  shows "wf_neighbors (ns[i := n])"
proof -
  have u: "j = k" if "j < length ns" "k < length ns" "nb_used (ns ! j)" "nb_used (ns ! k)"
    "nb_pub (ns ! j) = nb_pub (ns ! k)" for j k
    using assms(1) that unfolding wf_neighbors_def by blast
  have o: "j = i" if "j < length ns" "nb_used (ns ! j)" "nb_pub (ns ! j) = nb_pub n" for j
    using assms(2,4) that u nth_mem by metis
  show ?thesis
    using assms(1,2) o u unfolding wf_neighbors_def
    by (simp add: nth_list_update) (metis (no_types, lifting))
qed

lemma neighbor_update_neighbors:
  obtains i n where "i < length (neighbors m)" "nb_used n" "nb_pub n = pk"
    "nb_used (neighbors m ! i) \<and> nb_pub (neighbors m ! i) = pk \<or>
     (\<forall>k \<in> set (neighbors m). \<not> (nb_used k \<and> nb_pub k = pk))"
    "neighbor_update m pk p rssi snr = (snd (mesh_time m))\<lparr>neighbors := (neighbors m)[i := n]\<rparr>"
  | "neighbors m = []"
proof -
  obtain t m' where t: "mesh_time m = (t, m')" by (cases "mesh_time m")
  then have n: "neighbors m' = neighbors m" by (auto simp: mesh_time_def split: prod.splits)
  show thesis
  proof (cases "find_index (\<lambda>n. nb_used n \<and> nb_pub n = pk) (neighbors m)")
    case (Some i)
    then have "i < length (neighbors m)" "nb_used (neighbors m ! i)" "nb_pub (neighbors m ! i) = pk"
      by (auto simp: find_index_Some)
    moreover have "neighbor_update m pk p rssi snr = m'\<lparr>neighbors := (neighbors m)[i := nb_extract p
        ((neighbors m ! i)\<lparr>nb_rssi := rssi, nb_snr_q := snr, nb_last_seen := of_nat t,
           nb_count := nb_count (neighbors m ! i) + 1, nb_hops := pkt_path_hash_count p\<rparr>)]\<rparr>"
      using Some t n by (simp add: neighbor_update_def Let_def)
    ultimately show thesis using t by (intro that(1)) auto
  next
    case None
    then have no: "\<forall>k \<in> set (neighbors m). \<not> (nb_used k \<and> nb_pub k = pk)"
      unfolding find_index_None .
    show thesis
    proof (cases "neighbors m = []")
      case False
      let ?i = "case find_index (\<lambda>n. \<not> nb_used n) (neighbors m) of
        Some free \<Rightarrow> free | None \<Rightarrow> oldest_from (neighbors m) 0 0xFFFFFFFF 0"
      have "?i < length (neighbors m)"
        using False oldest_from_lt [of 0 0 "neighbors m" "0xFFFFFFFF"]
        by (auto split: option.split dest: find_index_lt)
      moreover have "neighbor_update m pk p rssi snr = m'\<lparr>neighbors := (neighbors m)[?i := nb_extract p
          (zero_neighbor\<lparr>nb_used := True, nb_pub := pk, nb_rssi := rssi, nb_snr_q := snr,
             nb_last_seen := of_nat t, nb_count := 1, nb_hops := pkt_path_hash_count p\<rparr>)]\<rparr>"
        using None t n by (simp add: neighbor_update_def Let_def cong: option.case_cong)
      ultimately show thesis using no t by (intro that(1)) auto
    qed (rule that(2))
  qed
qed

lemma neighbor_update_wf [wf_simps]:
  "wf_neighbors (neighbors m) \<Longrightarrow> wf_neighbors (neighbors (neighbor_update m pk p rssi snr))"
  by (rule neighbor_update_neighbors [of m pk p rssi snr])
     (auto intro!: wf_neighbors_update simp: wf_neighbors_def [of "[]"])

lemma neighbor_update_known:
  assumes "neighbors m \<noteq> []"
  shows "\<exists>n \<in> set (neighbors (neighbor_update m pk p rssi snr)). nb_used n \<and> nb_pub n = pk"
  by (rule neighbor_update_neighbors [of m pk p rssi snr])
     (use assms in \<open>auto intro: set_update_memI\<close>)

lemma affinity_bound [wf_simps]:
  "length (affinity_hash m) \<le> 16 \<Longrightarrow> length (affinity_hash (learn_affinity m pk)) \<le> 16"
  by (simp add: learn_affinity_def)

end
