(* ===== verification/Hmac.thy ===== *)
theory Hmac
  imports Sha256
begin

text \<open>
  \<^verbatim>\<open>hmac_sha256.c\<close>: HMAC-SHA256, and the contract its callers rely on. The channel MACs, the
  region codes, the split-RX link and the backbone session all truncate a 32-byte tag; the
  locale \<open>mac_fn\<close> states that and proves the generic truncated-tag facts once.
\<close>

section \<open>HMAC-SHA256\<close>

definition hmac_key :: "bytes \<Rightarrow> bytes" where
  \<comment> \<open>the 64-byte key block: hashed down if too long, then zero padded\<close>
  "hmac_key key =
     (if length key > 64 then memcpy_at (replicate 64 0) 0 (sha256 key)
      else memcpy_at (replicate 64 0) 0 key)"

definition hmac_sha256 :: "bytes \<Rightarrow> bytes \<Rightarrow> bytes" where
  "hmac_sha256 key msg =
     (let k = hmac_key key;
          ipad = map (\<lambda>b. b XOR 0x36) k;
          opad = map (\<lambda>b. b XOR 0x5c) k;
          z = replicate 64 0;
          inner = sha256_final (sha256_update (sha256_update (sha256_init z) ipad) msg)
      in sha256_final (sha256_update (sha256_update (sha256_init z) opad) inner))"

lemma length_hmac_key [simp]: "length (hmac_key key) = 64"
  by (simp add: hmac_key_def)

lemma hmac_sha256_ref:
  "hmac_sha256 key msg =
     sha256 (map (\<lambda>b. b XOR 0x5c) (hmac_key key) @ sha256 (map (\<lambda>b. b XOR 0x36) (hmac_key key) @ msg))"
  by (simp add: hmac_sha256_def Let_def sha256_stream_ref sha256_ref_eq)

lemma length_hmac_sha256 [simp]: "length (hmac_sha256 key msg) = 32"
  by (simp add: hmac_sha256_ref)

section \<open>The contract of a MAC\<close>

locale mac_fn =
  fixes mac :: "bytes \<Rightarrow> bytes \<Rightarrow> bytes"
  assumes length_mac: "length (mac k m) = 32"
begin

lemma length_tag: "n \<le> 32 \<Longrightarrow> length (take n (mac k m)) = n"
  by (simp add: length_mac)

lemma tag_at_end:
  "n \<le> 32 \<Longrightarrow> bslice (length m) n (m @ take n (mac k m)) = take n (mac k m)"
  by (simp add: bslice_def length_mac)

lemma tagged_split:
  assumes "n \<le> 32"
  shows "take (length (m @ take n (mac k m)) - n) (m @ take n (mac k m)) = m"
  using assms by (simp add: length_mac)

end

interpretation hmac: mac_fn hmac_sha256
  by unfold_locales simp

end
