(* ===== verification/Mesh_Policy.thy ===== *)
theory Mesh_Policy
  imports Mesh_Tables Hmac
begin

text \<open>
  The content policy of \<^verbatim>\<open>mesh.c\<close>: transport-region codes, \<open>classify_forward\<close> and the hotspot's
  scoping \<open>hotspot_decide\<close>. The lemmas state what an allow decision proves of a packet: it is
  an advert or a trace, or its MAC verifies under a configured public channel, or it carries the
  code of a served region; private unicast never gets one.
\<close>

section \<open>Regions\<close>

definition region_transport_code :: "bytes \<Rightarrow> byte \<Rightarrow> bytes \<Rightarrow> u16" where
  "region_transport_code key ptype pay =
     (let msg = ptype # take MC_MAX_PACKET_PAYLOAD pay;
          h = hmac_sha256 key msg;
          code = ucast (h ! 0) OR push_bit 8 (ucast (h ! 1)) :: u16
      in if code = 0 then 1 else if code = 0xFFFF then 0xFFFE else code)"

definition region_match_index :: "mc_mesh \<Rightarrow> mc_packet \<Rightarrow> nat option" where
  "region_match_index m p =
     (if pkt_route_type p \<noteq> ROUTE_TYPE_TRANSPORT_FLOOD then None
      else find_index (\<lambda>r. region_transport_code (room_key r) (pkt_payload_type p)
                             (take (payload_len p) (payload p)) = fst (transport_codes p))
             (rooms (cfg m)))"

definition region_match :: "mc_mesh \<Rightarrow> mc_packet \<Rightarrow> bool" where
  "region_match m p = (region_match_index m p \<noteq> None)"

section \<open>The allow-list\<close>

datatype fwd_decision =
  FWD_OK_PUBLIC | FWD_OK_GRP_PUBLIC | FWD_OK_REGION | FWD_DROP_DM | FWD_DROP_GRP_UNMATCHED
  | FWD_DROP_GRP_MACFAIL | FWD_DROP_OTHER

definition channel_mac_ok :: "mc_pub_channel \<Rightarrow> mc_packet \<Rightarrow> bool" where
  \<comment> \<open>the MAC test of the channel loop: two bytes over the ciphertext\<close>
  "channel_mac_ok ch p =
     (let ct = bslice 3 (payload_len p - 3) (payload p);
          h = hmac_sha256 (secret ch) ct
      in h ! 0 = payload p ! 1 \<and> h ! 1 = payload p ! 2)"

fun match_channel :: "mc_pub_channel list \<Rightarrow> mc_packet \<Rightarrow> mc_pub_channel option" where
  \<comment> \<open>the channel loop, up to its return\<close>
  "match_channel [] p = None"
| "match_channel (ch # chs) p =
     (if ch_hash ch \<noteq> payload p ! 0 then match_channel chs p
      else if channel_mac_ok ch p then Some ch
      else match_channel chs p)"

definition classify_grp :: "mc_mesh \<Rightarrow> mc_packet \<Rightarrow> fwd_decision \<times> mc_pub_channel option" where
  \<comment> \<open>the \<open>GRP_TXT\<close> / \<open>GRP_DATA\<close> case\<close>
  "classify_grp m p =
     (if payload_len p < 19 then (FWD_DROP_GRP_UNMATCHED, None)
      else (case match_channel (public_channels (cfg m)) p of
              Some ch \<Rightarrow> (FWD_OK_GRP_PUBLIC, Some ch)
            | None \<Rightarrow>
                if region_match m p then (FWD_OK_REGION, None)
                else if list_ex (\<lambda>ch. ch_hash ch = payload p ! 0) (public_channels (cfg m))
                then (FWD_DROP_GRP_MACFAIL, None)
                else (FWD_DROP_GRP_UNMATCHED, None)))"

definition classify_forward :: "mc_mesh \<Rightarrow> mc_packet \<Rightarrow> fwd_decision \<times> mc_pub_channel option" where
  "classify_forward m p =
     (let pt = pkt_payload_type p in
      if pt = PAYLOAD_TYPE_ADVERT \<or> pt = PAYLOAD_TYPE_TRACE then (FWD_OK_PUBLIC, None)
      else if pt = PAYLOAD_TYPE_GRP_TXT \<or> pt = PAYLOAD_TYPE_GRP_DATA then classify_grp m p
      else if pt = PAYLOAD_TYPE_REQ \<or> pt = PAYLOAD_TYPE_RESPONSE \<or> pt = PAYLOAD_TYPE_TXT_MSG
              \<or> pt = PAYLOAD_TYPE_ANON_REQ \<or> pt = PAYLOAD_TYPE_PATH then (FWD_DROP_DM, None)
      else (FWD_DROP_OTHER, None))"

definition payload_type_name :: "byte \<Rightarrow> bytes" where
  "payload_type_name pt = lit (
     if pt = PAYLOAD_TYPE_REQ then ''REQ''
     else if pt = PAYLOAD_TYPE_RESPONSE then ''RESPONSE''
     else if pt = PAYLOAD_TYPE_TXT_MSG then ''TXT_MSG''
     else if pt = PAYLOAD_TYPE_ACK then ''ACK''
     else if pt = PAYLOAD_TYPE_ADVERT then ''ADVERT''
     else if pt = PAYLOAD_TYPE_GRP_TXT then ''GRP_TXT''
     else if pt = PAYLOAD_TYPE_GRP_DATA then ''GRP_DATA''
     else if pt = PAYLOAD_TYPE_ANON_REQ then ''ANON_REQ''
     else if pt = PAYLOAD_TYPE_PATH then ''PATH''
     else if pt = PAYLOAD_TYPE_TRACE then ''TRACE''
     else if pt = PAYLOAD_TYPE_MULTIPART then ''MULTIPART''
     else if pt = PAYLOAD_TYPE_CONTROL then ''CONTROL''
     else if pt = PAYLOAD_TYPE_RAW_CUSTOM then ''RAW_CUSTOM''
     else ''?'')"

fun decision_reason :: "fwd_decision \<Rightarrow> bytes" where
  "decision_reason FWD_DROP_DM = lit ''private direct message''"
| "decision_reason FWD_DROP_GRP_UNMATCHED = lit ''group msg on an unconfigured channel''"
| "decision_reason FWD_DROP_GRP_MACFAIL = lit ''group msg failed public-channel MAC''"
| "decision_reason _ = lit ''non-public payload type''"

section \<open>The hotspot's personal scope\<close>

definition hotspot_decide :: "mc_mesh \<Rightarrow> mc_packet \<Rightarrow> bytes \<Rightarrow> bytes \<Rightarrow> bool \<times> int" where
  \<comment> \<open>whether to forward, and the power set\<close>
  "hotspot_decide m p aname grp_sender =
     (let pt = pkt_payload_type p;
          low = hotspot_power_low (cfg m); high = hotspot_power_high (cfg m) in
      if rx_src m = MESH_SRC_BACKBONE
      then (pt \<noteq> PAYLOAD_TYPE_ADVERT \<or> config_is_affinity (cfg m) aname, low)
      else if pt = PAYLOAD_TYPE_ADVERT then
        (if config_is_affinity (cfg m) aname then (True, low)
         else if config_is_home (cfg m) aname then (True, high)
         else (False, low))
      else if path_has_affinity m p then (True, low)
      else if pt = PAYLOAD_TYPE_GRP_TXT \<and> config_is_affinity (cfg m) grp_sender then (True, low)
      else if pt = PAYLOAD_TYPE_GRP_TXT then (config_is_home (cfg m) grp_sender, high)
      else (False, high))"

section \<open>What a decision proves\<close>

lemma match_channel_Some:
  "match_channel chs p = Some ch \<Longrightarrow> ch \<in> set chs \<and> ch_hash ch = payload p ! 0 \<and> channel_mac_ok ch p"
  by (induction chs p rule: match_channel.induct) (auto split: if_splits)

lemma match_channel_None:
  "match_channel chs p = None \<longleftrightarrow> (\<forall>ch \<in> set chs. ch_hash ch = payload p ! 0 \<longrightarrow> \<not> channel_mac_ok ch p)"
  by (induction chs p rule: match_channel.induct) auto

definition provably_public :: "mc_mesh \<Rightarrow> mc_packet \<Rightarrow> bool" where
  \<comment> \<open>the policy's definition of traffic that may be relayed\<close>
  "provably_public m p \<longleftrightarrow>
     pkt_payload_type p = PAYLOAD_TYPE_ADVERT \<or> pkt_payload_type p = PAYLOAD_TYPE_TRACE \<or>
     (pkt_payload_type p = PAYLOAD_TYPE_GRP_TXT \<or> pkt_payload_type p = PAYLOAD_TYPE_GRP_DATA) \<and>
     19 \<le> payload_len p \<and>
     ((\<exists>ch \<in> set (public_channels (cfg m)). ch_hash ch = payload p ! 0 \<and> channel_mac_ok ch p) \<or>
      pkt_route_type p = ROUTE_TYPE_TRANSPORT_FLOOD \<and>
      (\<exists>r \<in> set (rooms (cfg m)). region_transport_code (room_key r) (pkt_payload_type p)
         (take (payload_len p) (payload p)) = fst (transport_codes p)))"

definition fwd_ok :: "fwd_decision \<Rightarrow> bool" where
  "fwd_ok d = (d = FWD_OK_PUBLIC \<or> d = FWD_OK_GRP_PUBLIC \<or> d = FWD_OK_REGION)"

lemma region_match_iff:
  "region_match m p \<longleftrightarrow> pkt_route_type p = ROUTE_TYPE_TRANSPORT_FLOOD \<and>
     (\<exists>r \<in> set (rooms (cfg m)). region_transport_code (room_key r) (pkt_payload_type p)
        (take (payload_len p) (payload p)) = fst (transport_codes p))"
  by (simp only: region_match_def region_match_index_def find_index_ex if_distrib [where f = "\<lambda>x. x \<noteq> None"]
      not_False_eq_True simp_thms if_False if_True split: if_split) blast

lemma classify_ok_iff: "fwd_ok (fst (classify_forward m p)) \<longleftrightarrow> provably_public m p"
proof (cases "pkt_payload_type p = PAYLOAD_TYPE_GRP_TXT \<or> pkt_payload_type p = PAYLOAD_TYPE_GRP_DATA")
  case True
  then have "fwd_ok (fst (classify_forward m p)) \<longleftrightarrow>
      19 \<le> payload_len p \<and> (match_channel (public_channels (cfg m)) p \<noteq> None \<or> region_match m p)"
    by (auto simp: classify_forward_def Let_def classify_grp_def fwd_ok_def split: option.splits if_splits)
  then show ?thesis using True
    by (auto simp: provably_public_def match_channel_None region_match_iff)
next
  case False
  then show ?thesis by (auto simp: classify_forward_def Let_def fwd_ok_def provably_public_def)
qed

lemma classify_matched:
  assumes "classify_forward m p = (d, ch)"
  shows "d = FWD_OK_GRP_PUBLIC \<longleftrightarrow> ch \<noteq> None"
    and "ch = Some c \<Longrightarrow> c \<in> set (public_channels (cfg m)) \<and> channel_mac_ok c p"
  using assms match_channel_Some [of "public_channels (cfg m)" p]
  by (cases "match_channel (public_channels (cfg m)) p";
      auto simp: classify_forward_def Let_def classify_grp_def split: if_splits)+

lemma region_code_reserved:
  "region_transport_code key t pay \<noteq> 0 \<and> region_transport_code key t pay \<noteq> 0xFFFF"
  by (simp add: region_transport_code_def Let_def)

lemma classify_cfg_cong: "cfg m' = cfg m \<Longrightarrow> classify_forward m' p = classify_forward m p"
proof -
  assume c: "cfg m' = cfg m"
  have "region_match m' p = region_match m p" by (simp add: region_match_iff c)
  then show ?thesis unfolding classify_forward_def classify_grp_def c by simp
qed

lemma hotspot_backbone_low:
  "rx_src m = MESH_SRC_BACKBONE \<Longrightarrow> snd (hotspot_decide m p a g) = hotspot_power_low (cfg m)"
  by (simp add: hotspot_decide_def Let_def)

end
