(* ===== verification/Aes128.thy ===== *)
theory Aes128
  imports Prelude
begin

text \<open>
  \<^verbatim>\<open>crypto/aes128.c\<close>: AES-128 key expansion, one-block encryption and decryption, and ECB over
  a buffer. A block is the 16 bytes of the C state, \<open>state[i][j]\<close> at index \<open>4 * i + j\<close>.
  The lemmas show that every step is undone by its inverse, so that decryption undoes
  encryption for every key schedule; the locale \<open>block_cipher\<close> lifts that to buffers.
\<close>

section \<open>Tables\<close>

definition sbox :: bytes where
  "sbox = [
   0x63,0x7c,0x77,0x7b,0xf2,0x6b,0x6f,0xc5,0x30,0x01,0x67,0x2b,0xfe,0xd7,0xab,0x76,
   0xca,0x82,0xc9,0x7d,0xfa,0x59,0x47,0xf0,0xad,0xd4,0xa2,0xaf,0x9c,0xa4,0x72,0xc0,
   0xb7,0xfd,0x93,0x26,0x36,0x3f,0xf7,0xcc,0x34,0xa5,0xe5,0xf1,0x71,0xd8,0x31,0x15,
   0x04,0xc7,0x23,0xc3,0x18,0x96,0x05,0x9a,0x07,0x12,0x80,0xe2,0xeb,0x27,0xb2,0x75,
   0x09,0x83,0x2c,0x1a,0x1b,0x6e,0x5a,0xa0,0x52,0x3b,0xd6,0xb3,0x29,0xe3,0x2f,0x84,
   0x53,0xd1,0x00,0xed,0x20,0xfc,0xb1,0x5b,0x6a,0xcb,0xbe,0x39,0x4a,0x4c,0x58,0xcf,
   0xd0,0xef,0xaa,0xfb,0x43,0x4d,0x33,0x85,0x45,0xf9,0x02,0x7f,0x50,0x3c,0x9f,0xa8,
   0x51,0xa3,0x40,0x8f,0x92,0x9d,0x38,0xf5,0xbc,0xb6,0xda,0x21,0x10,0xff,0xf3,0xd2,
   0xcd,0x0c,0x13,0xec,0x5f,0x97,0x44,0x17,0xc4,0xa7,0x7e,0x3d,0x64,0x5d,0x19,0x73,
   0x60,0x81,0x4f,0xdc,0x22,0x2a,0x90,0x88,0x46,0xee,0xb8,0x14,0xde,0x5e,0x0b,0xdb,
   0xe0,0x32,0x3a,0x0a,0x49,0x06,0x24,0x5c,0xc2,0xd3,0xac,0x62,0x91,0x95,0xe4,0x79,
   0xe7,0xc8,0x37,0x6d,0x8d,0xd5,0x4e,0xa9,0x6c,0x56,0xf4,0xea,0x65,0x7a,0xae,0x08,
   0xba,0x78,0x25,0x2e,0x1c,0xa6,0xb4,0xc6,0xe8,0xdd,0x74,0x1f,0x4b,0xbd,0x8b,0x8a,
   0x70,0x3e,0xb5,0x66,0x48,0x03,0xf6,0x0e,0x61,0x35,0x57,0xb9,0x86,0xc1,0x1d,0x9e,
   0xe1,0xf8,0x98,0x11,0x69,0xd9,0x8e,0x94,0x9b,0x1e,0x87,0xe9,0xce,0x55,0x28,0xdf,
   0x8c,0xa1,0x89,0x0d,0xbf,0xe6,0x42,0x68,0x41,0x99,0x2d,0x0f,0xb0,0x54,0xbb,0x16]"

definition rsbox :: bytes where
  "rsbox = [
   0x52,0x09,0x6a,0xd5,0x30,0x36,0xa5,0x38,0xbf,0x40,0xa3,0x9e,0x81,0xf3,0xd7,0xfb,
   0x7c,0xe3,0x39,0x82,0x9b,0x2f,0xff,0x87,0x34,0x8e,0x43,0x44,0xc4,0xde,0xe9,0xcb,
   0x54,0x7b,0x94,0x32,0xa6,0xc2,0x23,0x3d,0xee,0x4c,0x95,0x0b,0x42,0xfa,0xc3,0x4e,
   0x08,0x2e,0xa1,0x66,0x28,0xd9,0x24,0xb2,0x76,0x5b,0xa2,0x49,0x6d,0x8b,0xd1,0x25,
   0x72,0xf8,0xf6,0x64,0x86,0x68,0x98,0x16,0xd4,0xa4,0x5c,0xcc,0x5d,0x65,0xb6,0x92,
   0x6c,0x70,0x48,0x50,0xfd,0xed,0xb9,0xda,0x5e,0x15,0x46,0x57,0xa7,0x8d,0x9d,0x84,
   0x90,0xd8,0xab,0x00,0x8c,0xbc,0xd3,0x0a,0xf7,0xe4,0x58,0x05,0xb8,0xb3,0x45,0x06,
   0xd0,0x2c,0x1e,0x8f,0xca,0x3f,0x0f,0x02,0xc1,0xaf,0xbd,0x03,0x01,0x13,0x8a,0x6b,
   0x3a,0x91,0x11,0x41,0x4f,0x67,0xdc,0xea,0x97,0xf2,0xcf,0xce,0xf0,0xb4,0xe6,0x73,
   0x96,0xac,0x74,0x22,0xe7,0xad,0x35,0x85,0xe2,0xf9,0x37,0xe8,0x1c,0x75,0xdf,0x6e,
   0x47,0xf1,0x1a,0x71,0x1d,0x29,0xc5,0x89,0x6f,0xb7,0x62,0x0e,0xaa,0x18,0xbe,0x1b,
   0xfc,0x56,0x3e,0x4b,0xc6,0xd2,0x79,0x20,0x9a,0xdb,0xc0,0xfe,0x78,0xcd,0x5a,0xf4,
   0x1f,0xdd,0xa8,0x33,0x88,0x07,0xc7,0x31,0xb1,0x12,0x10,0x59,0x27,0x80,0xec,0x5f,
   0x60,0x51,0x7f,0xa9,0x19,0xb5,0x4a,0x0d,0x2d,0xe5,0x7a,0x9f,0x93,0xc9,0x9c,0xef,
   0xa0,0xe0,0x3b,0x4d,0xae,0x2a,0xf5,0xb0,0xc8,0xeb,0xbb,0x3c,0x83,0x53,0x99,0x61,
   0x17,0x2b,0x04,0x7e,0xba,0x77,0xd6,0x26,0xe1,0x69,0x14,0x63,0x55,0x21,0x0c,0x7d]"

definition Rcon :: bytes where
  "Rcon = [0x8d,0x01,0x02,0x04,0x08,0x10,0x20,0x40,0x80,0x1b,0x36]"

section \<open>Key expansion\<close>

definition xor_bytes :: "bytes \<Rightarrow> bytes \<Rightarrow> bytes" where
  "xor_bytes xs ys = map (\<lambda>(x, y). x XOR y) (zip xs ys)"

definition rot_sub :: "nat \<Rightarrow> bytes \<Rightarrow> bytes" where
  "rot_sub i t = [sbox ! unat (t ! 1) XOR Rcon ! (i div 4), sbox ! unat (t ! 2),
                  sbox ! unat (t ! 3), sbox ! unat (t ! 0)]"

definition expand_word :: "bytes \<Rightarrow> nat \<Rightarrow> bytes" where
  "expand_word rk i =
     (let tempa = bslice ((i - 1) * 4) 4 rk;
          tempa = (if i mod 4 = 0 then rot_sub i tempa else tempa)
      in rk @ xor_bytes (bslice ((i - 4) * 4) 4 rk) tempa)"

definition KeyExpansion :: "bytes \<Rightarrow> bytes" where
  "KeyExpansion key = foldl expand_word (take 16 key) [4..<44]"

definition aes128_init :: "bytes \<Rightarrow> bytes" where
  "aes128_init key = KeyExpansion key"

section \<open>The rounds\<close>

definition AddRoundKey :: "nat \<Rightarrow> bytes \<Rightarrow> bytes \<Rightarrow> bytes" where
  "AddRoundKey rnd rk s = xor_bytes s (bslice (rnd * 16) 16 rk)"

definition SubBytes :: "bytes \<Rightarrow> bytes" where
  "SubBytes s = map (\<lambda>b. sbox ! unat b) s"

definition ShiftRows :: "bytes \<Rightarrow> bytes" where
  "ShiftRows s = map (\<lambda>i. s ! i) [0, 5, 10, 15, 4, 9, 14, 3, 8, 13, 2, 7, 12, 1, 6, 11]"

definition xtime :: "byte \<Rightarrow> byte" where
  "xtime x = push_bit 1 x XOR ((drop_bit 7 x AND 1) * 0x1b)"

definition mix_column :: "bytes \<Rightarrow> bytes" where
  "mix_column s =
     (let t = s ! 0; tmp = s ! 0 XOR s ! 1 XOR s ! 2 XOR s ! 3 in
      [s ! 0 XOR (xtime (s ! 0 XOR s ! 1) XOR tmp),
       s ! 1 XOR (xtime (s ! 1 XOR s ! 2) XOR tmp),
       s ! 2 XOR (xtime (s ! 2 XOR s ! 3) XOR tmp),
       s ! 3 XOR (xtime (s ! 3 XOR t) XOR tmp)])"

definition columns :: "(bytes \<Rightarrow> bytes) \<Rightarrow> bytes \<Rightarrow> bytes" where
  "columns f s = concat (map (\<lambda>i. f (bslice (4 * i) 4 s)) [0..<4])"

definition MixColumns :: "bytes \<Rightarrow> bytes" where
  "MixColumns s = columns mix_column s"

definition Multiply :: "byte \<Rightarrow> byte \<Rightarrow> byte" where
  "Multiply x y =
     ((y AND 1) * x) XOR
     ((drop_bit 1 y AND 1) * xtime x) XOR
     ((drop_bit 2 y AND 1) * xtime (xtime x)) XOR
     ((drop_bit 3 y AND 1) * xtime (xtime (xtime x))) XOR
     ((drop_bit 4 y AND 1) * xtime (xtime (xtime (xtime x))))"

definition inv_mix_column :: "bytes \<Rightarrow> bytes" where
  "inv_mix_column s =
     (let a = s ! 0; b = s ! 1; c = s ! 2; d = s ! 3 in
      [Multiply a 0x0e XOR Multiply b 0x0b XOR Multiply c 0x0d XOR Multiply d 0x09,
       Multiply a 0x09 XOR Multiply b 0x0e XOR Multiply c 0x0b XOR Multiply d 0x0d,
       Multiply a 0x0d XOR Multiply b 0x09 XOR Multiply c 0x0e XOR Multiply d 0x0b,
       Multiply a 0x0b XOR Multiply b 0x0d XOR Multiply c 0x09 XOR Multiply d 0x0e])"

definition InvMixColumns :: "bytes \<Rightarrow> bytes" where
  "InvMixColumns s = columns inv_mix_column s"

definition InvSubBytes :: "bytes \<Rightarrow> bytes" where
  "InvSubBytes s = map (\<lambda>b. rsbox ! unat b) s"

definition InvShiftRows :: "bytes \<Rightarrow> bytes" where
  "InvShiftRows s = map (\<lambda>i. s ! i) [0, 13, 10, 7, 4, 1, 14, 11, 8, 5, 2, 15, 12, 9, 6, 3]"

definition enc_round :: "bytes \<Rightarrow> bytes \<Rightarrow> nat \<Rightarrow> bytes" where
  "enc_round rk s rnd = AddRoundKey rnd rk (MixColumns (ShiftRows (SubBytes s)))"

definition aes128_encrypt_block :: "bytes \<Rightarrow> bytes \<Rightarrow> bytes" where
  "aes128_encrypt_block rk block =
     (let s = AddRoundKey 0 rk block;
          s = foldl (enc_round rk) s [1..<10]
      in AddRoundKey 10 rk (ShiftRows (SubBytes s)))"

fun dec_rounds :: "bytes \<Rightarrow> nat \<Rightarrow> bytes \<Rightarrow> bytes" where
  \<comment> \<open>the loop from round \<open>rnd\<close> down to 0, which leaves before the last \<open>InvMixColumns\<close>\<close>
  "dec_rounds rk 0 s = AddRoundKey 0 rk (InvSubBytes (InvShiftRows s))"
| "dec_rounds rk (Suc rnd) s =
     dec_rounds rk rnd (InvMixColumns (AddRoundKey (Suc rnd) rk (InvSubBytes (InvShiftRows s))))"

definition aes128_decrypt_block :: "bytes \<Rightarrow> bytes \<Rightarrow> bytes" where
  "aes128_decrypt_block rk block = dec_rounds rk 9 (AddRoundKey 10 rk block)"

section \<open>Every step has an inverse\<close>

lemma xor_bytes_length [simp]: "length (xor_bytes xs ys) = min (length xs) (length ys)"
  by (simp add: xor_bytes_def)

lemma xor_bytes_twice: "length xs \<le> length ks \<Longrightarrow> xor_bytes (xor_bytes xs ks) ks = xs"
  by (rule nth_equalityI) (simp_all add: xor_bytes_def)

lemma AddRoundKey_twice:
  "length s = 16 \<Longrightarrow> rnd * 16 + 16 \<le> length rk \<Longrightarrow> AddRoundKey rnd rk (AddRoundKey rnd rk s) = s"
  by (simp add: AddRoundKey_def xor_bytes_twice)

lemma rsbox_sbox_table: "map (\<lambda>i. rsbox ! unat (sbox ! i)) [0..<256] = map of_nat [0..<256]"
  by code_simp

lemma rsbox_sbox [simp]: "rsbox ! unat (sbox ! unat b) = b"
proof -
  have "map (\<lambda>i. rsbox ! unat (sbox ! i)) [0..<256] ! unat b = map of_nat [0..<256] ! unat b"
    by (simp only: rsbox_sbox_table)
  then show ?thesis by simp
qed

lemma InvSub_Sub [simp]: "InvSubBytes (SubBytes s) = s"
  by (simp add: InvSubBytes_def SubBytes_def comp_def)

lemma list16: "length s = 16 \<Longrightarrow>
  [s!0, s!1, s!2, s!3, s!4, s!5, s!6, s!7, s!8, s!9, s!10, s!11, s!12, s!13, s!14, s!15] = s"
proof -
  assume "length s = 16"
  then have "map (\<lambda>i. s ! i) [0..<16] = s" by (metis map_nth)
  moreover have "[0..<16] = [0, 1, 2, 3, 4, 5, 6, 7, 8, 9, 10, 11, 12, 13, 14, 15 :: nat]"
    by code_simp
  ultimately show ?thesis by simp
qed

lemma InvShift_Shift [simp]: "length s = 16 \<Longrightarrow> InvShiftRows (ShiftRows s) = s"
  using list16 [of s] by (simp add: InvShiftRows_def ShiftRows_def)

lemma bit_cases: "(drop_bit 7 x AND 1 :: byte) = 0 \<or> (drop_bit 7 x AND 1 :: byte) = 1"
  by (simp add: and_one_eq mod_2_eq_odd)

lemma xtime_xor: "xtime (x XOR y) = xtime x XOR xtime y"
proof -
  have d: "drop_bit 7 (x XOR y) AND 1 = (drop_bit 7 x AND 1) XOR (drop_bit 7 y AND 1)"
    by (rule bit_word_eqI) (auto simp: bit_simps)
  have e: "(p XOR q) * 0x1b = p * 0x1b XOR q * (0x1b :: byte)"
    if "p = 0 \<or> p = 1" "q = 0 \<or> q = 1" for p q :: byte
    using that by auto
  show ?thesis
    unfolding xtime_def d push_bit_xor e [OF bit_cases bit_cases] by (simp only: xor.assoc xor.left_commute)
qed

lemma xor_cancel: "(x :: byte) XOR (x XOR y) = y"
  by (simp flip: xor.assoc)

lemma InvMix_Mix_column: "inv_mix_column (mix_column [a, b, c, d]) = [a, b, c, d]"
  by (simp add: inv_mix_column_def mix_column_def Let_def Multiply_def xtime_xor
      xor.assoc xor.commute xor.left_commute xor_cancel)

lemma slice4: "length s = 16 \<Longrightarrow> i < 4 \<Longrightarrow>
  bslice (4 * i) 4 s = [s ! (4 * i), s ! (4 * i + 1), s ! (4 * i + 2), s ! (4 * i + 3)]"
  by (rule nth_equalityI) (auto simp: nth_slice nth_Cons' numeral_eq_Suc less_Suc_eq)

lemma length_mix_column [simp]: "length (mix_column s) = 4"
  by (simp add: mix_column_def Let_def)

lemma length_inv_mix_column [simp]: "length (inv_mix_column s) = 4"
  by (simp add: inv_mix_column_def Let_def)

lemma columns_unfold:
  "columns f s = f (bslice 0 4 s) @ f (bslice 4 4 s) @ f (bslice 8 4 s) @ f (bslice 12 4 s)"
proof -
  have "[0..<4] = [0, 1, 2, 3 :: nat]" by code_simp
  then show ?thesis by (simp add: columns_def)
qed

lemma slices_of_columns:
  assumes "length a = 4" "length b = 4" "length c = 4" "length d = 4"
  shows "bslice 0 4 (a @ b @ c @ d) = a" "bslice 4 4 (a @ b @ c @ d) = b"
    "bslice 8 4 (a @ b @ c @ d) = c" "bslice 12 4 (a @ b @ c @ d) = d"
  using assms by (simp_all add: bslice_def)

lemma InvMix_Mix [simp]:
  assumes "length s = 16"
  shows "InvMixColumns (MixColumns s) = s"
proof -
  have col: "inv_mix_column (mix_column (bslice (4 * i) 4 s)) = bslice (4 * i) 4 s" if "i < 4" for i
    using slice4 [OF assms that] by (simp only: InvMix_Mix_column)
  have "InvMixColumns (MixColumns s)
      = bslice 0 4 s @ bslice 4 4 s @ bslice 8 4 s @ bslice 12 4 s"
    using col [of 0] col [of 1] col [of 2] col [of 3]
    by (simp add: InvMixColumns_def MixColumns_def columns_unfold slices_of_columns del: slice_0)
  also have "\<dots> = s"
    using assms slice_slice_join [of 8 4 4 s] slice_slice_join [of 4 4 8 s]
      slice_slice_join [of 0 4 12 s] by simp
  finally show ?thesis .
qed

lemma length_SubBytes [simp]: "length (SubBytes s) = length s"
  by (simp add: SubBytes_def)

lemma length_ShiftRows [simp]: "length (ShiftRows s) = 16"
  by (simp add: ShiftRows_def)

lemma length_MixColumns [simp]: "length (MixColumns s) = 16"
  by (simp add: MixColumns_def columns_unfold)

lemma length_AddRoundKey [simp]:
  "length s = 16 \<Longrightarrow> rnd * 16 + 16 \<le> length rk \<Longrightarrow> length (AddRoundKey rnd rk s) = 16"
  by (simp add: AddRoundKey_def)

section \<open>Decryption undoes encryption\<close>

lemma length_enc_rounds:
  "length rk = 176 \<Longrightarrow> length s = 16 \<Longrightarrow> r \<le> 9 \<Longrightarrow>
   length (foldl (enc_round rk) s [1..<Suc r]) = 16"
  by (cases r) (simp_all add: enc_round_def)

lemma dec_rounds_undo:
  assumes "length rk = 176" "length blk = 16" "r \<le> 9"
  shows "dec_rounds rk r (ShiftRows (SubBytes (foldl (enc_round rk) (AddRoundKey 0 rk blk) [1..<Suc r]))) = blk"
  using assms(3)
proof (induction r)
  case 0
  then show ?case using assms by (simp add: AddRoundKey_twice)
next
  case (Suc r)
  let ?s = "foldl (enc_round rk) (AddRoundKey 0 rk blk) [1..<Suc r]"
  have "length ?s = 16" using assms Suc.prems by (intro length_enc_rounds) simp_all
  then have "dec_rounds rk (Suc r) (ShiftRows (SubBytes (enc_round rk ?s (Suc r))))
      = dec_rounds rk r (ShiftRows (SubBytes ?s))"
    using assms Suc.prems by (simp add: enc_round_def AddRoundKey_twice)
  with Suc show ?case by simp
qed

lemma length_aes128_encrypt_block [simp]:
  "length rk = 176 \<Longrightarrow> length (aes128_encrypt_block rk blk) = 16"
  by (simp add: aes128_encrypt_block_def Let_def)

lemma aes128_decrypt_encrypt:
  assumes "length rk = 176" "length blk = 16"
  shows "aes128_decrypt_block rk (aes128_encrypt_block rk blk) = blk"
  using dec_rounds_undo [OF assms, of 9] assms
  by (simp add: aes128_decrypt_block_def aes128_encrypt_block_def Let_def AddRoundKey_twice
      del: dec_rounds.simps upt_Suc)

lemma length_expand:
  "length rk = 4 * n \<Longrightarrow> 4 \<le> n \<Longrightarrow> length (foldl expand_word rk [n..<n + k]) = 4 * (n + k)"
proof (induction k)
  case (Suc k)
  then show ?case by (simp add: expand_word_def Let_def rot_sub_def)
qed simp

lemma length_aes128_init [simp]: "16 \<le> length key \<Longrightarrow> length (aes128_init key) = 176"
  using length_expand [of "take 16 key" 4 40] by (simp add: aes128_init_def KeyExpansion_def)

section \<open>ECB over a buffer\<close>

fun ecb_map :: "(bytes \<Rightarrow> bytes) \<Rightarrow> nat \<Rightarrow> bytes \<Rightarrow> bytes" where
  \<comment> \<open>the loop over \<open>off + 16 \<le> len\<close>, for a given number of whole blocks\<close>
  "ecb_map f 0 buf = buf"
| "ecb_map f (Suc n) buf = f (take 16 buf) @ ecb_map f n (drop 16 buf)"

definition aes128_ecb_encrypt :: "bytes \<Rightarrow> bytes \<Rightarrow> bytes" where
  "aes128_ecb_encrypt rk buf = ecb_map (aes128_encrypt_block rk) (length buf div 16) buf"

definition aes128_ecb_decrypt :: "bytes \<Rightarrow> bytes \<Rightarrow> bytes" where
  "aes128_ecb_decrypt rk buf = ecb_map (aes128_decrypt_block rk) (length buf div 16) buf"

locale block_cipher =
  fixes enc :: "bytes \<Rightarrow> bytes \<Rightarrow> bytes"
    and dec :: "bytes \<Rightarrow> bytes \<Rightarrow> bytes"
    and sched_ok :: "bytes \<Rightarrow> bool"
  assumes length_enc: "sched_ok rk \<Longrightarrow> length blk = 16 \<Longrightarrow> length (enc rk blk) = 16"
    and dec_enc: "sched_ok rk \<Longrightarrow> length blk = 16 \<Longrightarrow> dec rk (enc rk blk) = blk"
begin

lemma length_ecb:
  "sched_ok rk \<Longrightarrow> length buf = 16 * n \<Longrightarrow> length (ecb_map (enc rk) n buf) = 16 * n"
  by (induction n arbitrary: buf) (simp_all add: length_enc)

lemma ecb_inverse:
  "sched_ok rk \<Longrightarrow> length buf = 16 * n \<Longrightarrow> ecb_map (dec rk) n (ecb_map (enc rk) n buf) = buf"
  by (induction n arbitrary: buf) (simp_all add: length_enc dec_enc)

end

interpretation aes: block_cipher aes128_encrypt_block aes128_decrypt_block "\<lambda>rk. length rk = 176"
  by unfold_locales (simp_all add: aes128_decrypt_encrypt)

lemma length_aes128_ecb_encrypt [simp]:
  "length rk = 176 \<Longrightarrow> length buf mod 16 = 0 \<Longrightarrow> length (aes128_ecb_encrypt rk buf) = length buf"
  using aes.length_ecb [of rk buf "length buf div 16"]
  by (auto simp: aes128_ecb_encrypt_def)

lemma aes128_ecb_decrypt_encrypt [codec_simps]:
  "length rk = 176 \<Longrightarrow> length buf mod 16 = 0 \<Longrightarrow>
   aes128_ecb_decrypt rk (aes128_ecb_encrypt rk buf) = buf"
  using aes.ecb_inverse [of rk buf "length buf div 16"] aes.length_ecb [of rk buf "length buf div 16"]
  by (auto simp: aes128_ecb_decrypt_def aes128_ecb_encrypt_def)

end
