(* ===== verification/Mesh_Channel.thy ===== *)
theory Mesh_Channel
  imports Mesh_Policy Aes128
begin

text \<open>
  The public-channel codec of \<^verbatim>\<open>mesh.c\<close>: \<open>channel_build_txt\<close>, \<open>channel_decrypt\<close> and the parsers
  of a message's text (sender, body, commands). A plaintext is the \<open>ctlen\<close> bytes the code
  decrypts; the text is the C string from byte 5 on, which the code NUL-terminates at
  \<open>ctlen\<close>. The lemmas show that a message the node builds is one the policy calls public, and
  that decrypting and splitting it gives back the sender and the text.
\<close>

section \<open>Encrypting and decrypting\<close>

definition channel_decrypt :: "mc_pub_channel \<Rightarrow> mc_packet \<Rightarrow> nat \<Rightarrow> bytes option" where
  "channel_decrypt ch p outsz =
     (if payload_len p < 19 then None
      else let ctlen = payload_len p - 3 in
      if ctlen mod 16 \<noteq> 0 \<or> outsz < ctlen + 1 then None
      else Some (aes128_ecb_decrypt (aes128_init (secret ch)) (bslice 3 ctlen (payload p))))"

definition channel_build_txt ::
  "mc_pub_channel \<Rightarrow> bytes \<Rightarrow> bytes \<Rightarrow> u32 \<Rightarrow> byte \<Rightarrow> mc_packet option" where
  "channel_build_txt ch sender txt ts route =
     (let plain = wr_u32le ts @ [0] @ sender @ lit '': '' @ txt;
          i = length plain;
          ctlen = (i + 15) div 16 * 16 in
      if MC_MAX_PACKET_PAYLOAD < 3 + ctlen then None
      else
        let plain = plain @ replicate (ctlen - i) 0;
            ct = aes128_ecb_encrypt (aes128_init (secret ch)) plain;
            mac = hmac_sha256 (secret ch) ct
        in Some (zero_pkt\<lparr>header := pkt_make_header 0 PAYLOAD_TYPE_GRP_TXT route, path_len := 0,
             payload := memcpy_at (payload zero_pkt) 0 ([ch_hash ch, mac ! 0, mac ! 1] @ ct),
             payload_len := 3 + ctlen\<rparr>))"

section \<open>Reading a message\<close>

definition plain_text :: "bytes \<Rightarrow> bytes" where
  \<comment> \<open>the C string at \<open>&plain[5]\<close>\<close>
  "plain_text plain = c_str (drop 5 plain)"

definition grp_message_body :: "bytes \<Rightarrow> bytes option" where
  "grp_message_body plain =
     (if length plain < 5 then None
      else let text = plain_text plain in
      Some (case strstr text (lit '': '') of Some sep \<Rightarrow> drop (sep + 2) text | None \<Rightarrow> text))"

definition grp_sender_name :: "bytes \<Rightarrow> nat \<Rightarrow> bytes" where
  "grp_sender_name plain outsz =
     (let text = plain_text plain;
          n = (case strstr text (lit '': '') of Some sep \<Rightarrow> sep | None \<Rightarrow> 0)
      in take (min n (outsz - 1)) text)"

definition is_word :: "bytes \<Rightarrow> bytes \<Rightarrow> bool" where
  "is_word msg word =
     (let msg = skip_blanks msg in
      strncaseeq (length word) msg word \<and> dropWhile is_space4 (drop (length word) msg) = [])"

definition is_ping :: "bytes \<Rightarrow> bool" where
  "is_ping msg =
     (let msg = skip_blanks msg in
      strncaseeq 4 msg (lit ''ping'') \<and> dropWhile is_space4 (drop 4 msg) = [])"

definition is_cspace :: "byte \<Rightarrow> bool" where
  \<comment> \<open>\<open>isspace\<close>\<close>
  "is_cspace b = (b = 32 \<or> (9 \<le> b \<and> b \<le> 13))"

definition is_digit :: "byte \<Rightarrow> bool" where
  "is_digit b = (48 \<le> b \<and> b \<le> 57)"

definition dec_value :: "bytes \<Rightarrow> nat" where
  "dec_value ds = foldl (\<lambda>a d. 10 * a + unat (d - 48)) 0 ds"

definition scan_int :: "bytes \<Rightarrow> (int \<times> bytes) option" where
  \<comment> \<open>one \<open>%d\<close>: blanks, a sign, digits; a value beyond \<open>long\<close> saturates before the cast to \<open>int\<close>\<close>
  "scan_int s =
     (let s = dropWhile is_cspace s;
          neg = (take 1 s = [45]);
          s = (if take 1 s = [45] \<or> take 1 s = [43] then tl s else s);
          ds = takeWhile is_digit s;
          v = (if neg then - int (dec_value ds) else int (dec_value ds));
          v = max (- (2 ^ 63)) (min (2 ^ 63 - 1) v) in
      if ds = [] then None
      else Some (sint (word_of_int v :: u32), drop (length ds) s))"

definition is_probe :: "bytes \<Rightarrow> (int \<times> int) option" where
  \<comment> \<open>the seconds and the count of a probe command\<close>
  "is_probe msg =
     (let msg = skip_blanks msg in
      if \<not> strncaseeq 5 msg (lit ''probe'') then None
      else let p = drop 5 msg in
      if p \<noteq> [] \<and> \<not> is_blank (hd p) then None
      else let p = skip_blanks p in
      if strncaseeq 4 p (lit ''stop'') \<or> strncaseeq 6 p (lit ''cancel'') then Some (0, 0)
      else (case scan_int p of
              None \<Rightarrow> None
            | Some (s, rest) \<Rightarrow> (case scan_int rest of None \<Rightarrow> None | Some (c, _) \<Rightarrow> Some (s, c))))"

section \<open>A built message is public and reads back\<close>

definition build_plain :: "bytes \<Rightarrow> bytes \<Rightarrow> u32 \<Rightarrow> bytes" where
  "build_plain sender txt ts =
     (let s = wr_u32le ts @ [0] @ sender @ lit '': '' @ txt
      in s @ replicate ((length s + 15) div 16 * 16 - length s) 0)"

lemma round16: "i \<le> (i + 15) div 16 * (16 :: nat)"
  using mod_less_divisor [of 16 "i + 15"] div_mult_mod_eq [of "i + 15" 16] by linarith

lemma length_build_plain: "length (build_plain sender txt ts) = (length sender + length txt + 22) div 16 * 16"
  using round16 [of "length sender + length txt + 7"] by (simp add: build_plain_def add_ac)

lemma build_txt_parts:
  assumes "channel_build_txt ch sender txt ts route = Some p" "length (secret ch) = 32"
  obtains ct where "ct = aes128_ecb_encrypt (aes128_init (secret ch)) (build_plain sender txt ts)"
    "length ct = length (build_plain sender txt ts)" "length ct mod 16 = 0" "16 \<le> length ct" "length ct \<le> 176"
    "payload p = [ch_hash ch, hmac_sha256 (secret ch) ct ! 0, hmac_sha256 (secret ch) ct ! 1] @ ct
       @ replicate (181 - length ct) 0"
    "payload_len p = 3 + length ct" "path p = path zero_pkt" "path_len p = 0"
    "header p = pkt_make_header 0 PAYLOAD_TYPE_GRP_TXT route"
proof -
  let ?pl = "build_plain sender txt ts"
  define ct where "ct = aes128_ecb_encrypt (aes128_init (secret ch)) ?pl"
  have lp: "length ?pl = (length sender + length txt + 22) div 16 * 16" by (rule length_build_plain)
  have lc: "length ct = length ?pl"
    unfolding ct_def by (rule length_aes128_ecb_encrypt) (use assms(2) lp in simp_all)
  from assms(1) have len: "3 + length ?pl \<le> 184"
    and p: "p = zero_pkt\<lparr>header := pkt_make_header 0 PAYLOAD_TYPE_GRP_TXT route, path_len := 0,
      payload := memcpy_at (payload zero_pkt) 0 ([ch_hash ch, hmac_sha256 (secret ch) ct ! 0,
        hmac_sha256 (secret ch) ct ! 1] @ ct), payload_len := 3 + length ?pl\<rparr>"
    unfolding lp by (auto simp: channel_build_txt_def Let_def build_plain_def ct_def add.commute
        split: if_splits)
  show thesis
  proof (rule that [OF ct_def lc])
    show "length ct mod 16 = 0" "16 \<le> length ct" unfolding lc lp by simp_all
    then show "length ct \<le> 176" using len lc by presburger
    then show "payload p = [ch_hash ch, hmac_sha256 (secret ch) ct ! 0, hmac_sha256 (secret ch) ct ! 1] @ ct
       @ replicate (181 - length ct) 0"
      by (simp add: p memcpy_at_def zero_pkt_def)
  qed (use p lc in simp_all)
qed

lemma build_txt_wf:
  assumes "channel_build_txt ch sender txt ts route = Some p" "length (secret ch) = 32"
  shows "wf_pkt p"
  by (rule build_txt_parts [OF assms]) (simp add: wf_pkt_def pkt_valid_path_len_def)

lemma build_txt_header:
  assumes "channel_build_txt ch sender txt ts route = Some p"
  shows "pkt_payload_type p = PAYLOAD_TYPE_GRP_TXT \<and> pkt_route_type p = route AND 0x03 \<and> path_len p = 0"
proof -
  have "header p = pkt_make_header 0 PAYLOAD_TYPE_GRP_TXT route" "path_len p = 0"
    using assms by (auto simp: channel_build_txt_def Let_def split: if_splits)
  then show ?thesis
    by (simp add: pkt_payload_type_def pkt_route_type_def payload_type_of_make route_type_of_make)
qed

lemma build_txt_mac:
  assumes "channel_build_txt ch sender txt ts route = Some p" "length (secret ch) = 32"
  shows "payload p ! 0 = ch_hash ch \<and> channel_mac_ok ch p \<and> 19 \<le> payload_len p"
  by (rule build_txt_parts [OF assms]) (simp add: channel_mac_ok_def bslice_def Let_def)

lemma build_txt_decrypt:
  assumes "channel_build_txt ch sender txt ts route = Some p" "length (secret ch) = 32"
  shows "channel_decrypt ch p 184 = Some (build_plain sender txt ts)"
proof (rule build_txt_parts [OF assms])
  fix ct
  assume ct: "ct = aes128_ecb_encrypt (aes128_init (secret ch)) (build_plain sender txt ts)"
    and l: "length ct = length (build_plain sender txt ts)" "length ct mod 16 = 0" "16 \<le> length ct" "length ct \<le> 176"
    and p: "payload p = [ch_hash ch, hmac_sha256 (secret ch) ct ! 0, hmac_sha256 (secret ch) ct ! 1] @ ct
       @ replicate (181 - length ct) 0" "payload_len p = 3 + length ct"
  have "bslice 3 (length ct) (payload p) = ct" unfolding p(1) by (simp add: bslice_def)
  moreover have "aes128_ecb_decrypt (aes128_init (secret ch)) ct = build_plain sender txt ts"
    unfolding ct by (rule aes128_ecb_decrypt_encrypt) (use assms(2) l in simp_all)
  ultimately show ?thesis using l p(2) by (simp add: channel_decrypt_def)
qed

lemma c_str_padded: "0 \<notin> set s \<Longrightarrow> c_str (s @ replicate n 0) = s"
  by (cases n) (auto simp: c_str_def takeWhile_append takeWhile_eq_all_conv)

lemma plain_text_build:
  assumes "0 \<notin> set sender" "0 \<notin> set txt"
  shows "plain_text (build_plain sender txt ts) = sender @ lit '': '' @ txt"
  using assms c_str_padded [of "sender @ lit '': '' @ txt"]
  by (simp add: plain_text_def build_plain_def Let_def)

lemma strstr_sender:
  assumes "58 \<notin> set sender"
  shows "strstr (sender @ lit '': '' @ txt) (lit '': '') = Some (length sender)"
proof (rule strstr_found)
  fix k assume k: "k < length sender"
  then have "drop k (sender @ lit '': '' @ txt) = sender ! k # drop (Suc k) sender @ lit '': '' @ txt"
    by (simp add: Cons_nth_drop_Suc [symmetric])
  moreover have "sender ! k \<noteq> 58" using assms k nth_mem by metis
  ultimately show "take (length (lit '': '')) (drop k (sender @ lit '': '' @ txt)) \<noteq> lit '': ''" by simp
qed

lemma build_plain_read:
  assumes "0 \<notin> set sender" "0 \<notin> set txt" "58 \<notin> set sender"
  shows "grp_message_body (build_plain sender txt ts) = Some txt"
    and "length sender < sz \<Longrightarrow> grp_sender_name (build_plain sender txt ts) sz = sender"
proof -
  have t: "plain_text (build_plain sender txt ts) = sender @ lit '': '' @ txt"
    using assms(1,2) by (rule plain_text_build)
  have s: "strstr (plain_text (build_plain sender txt ts)) (lit '': '') = Some (length sender)"
    unfolding t by (rule strstr_sender [OF assms(3)])
  have "5 \<le> length (build_plain sender txt ts)" by (simp add: build_plain_def)
  then show "grp_message_body (build_plain sender txt ts) = Some txt"
    by (simp add: grp_message_body_def Let_def s del: lit_simps) (simp add: t)
  have "grp_sender_name (build_plain sender txt ts) sz =
      take (min (length sender) (sz - 1)) (plain_text (build_plain sender txt ts))"
    by (simp add: grp_sender_name_def Let_def s del: lit_simps)
  then show "grp_sender_name (build_plain sender txt ts) sz = sender" if "length sender < sz"
    using that by (simp add: t min_absorb1 del: lit_simps)
qed

lemma build_txt_public:
  assumes "channel_build_txt ch sender txt ts route = Some p" "length (secret ch) = 32"
    "ch \<in> set (public_channels (cfg m))"
  shows "fst (classify_forward m p) = FWD_OK_GRP_PUBLIC"
proof -
  note b = build_txt_mac [OF assms(1,2)]
  have "match_channel (public_channels (cfg m)) p \<noteq> None"
    using b assms(3) by (auto simp: match_channel_None)
  then obtain c where "match_channel (public_channels (cfg m)) p = Some c" by blast
  then show ?thesis
    using b build_txt_header [OF assms(1)]
    by (simp add: classify_forward_def classify_grp_def Let_def)
qed

end
