(* ===== verification/Mesh_Services.thy ===== *)
theory Mesh_Services
  imports Mesh_Queue
begin

text \<open>
  The local services of \<^verbatim>\<open>mesh.c\<close> on a public channel: ping/pong, the help line, time and date
  at the minute boundary, the mailbox with its routed replies and per-sender cooldown, and the
  coverage probe; then \<open>process_public_grp\<close>, which dispatches to them. The wall clock is UTC
  and never before 1970; \<open>civil_from_days\<close> is the calendar \<^verbatim>\<open>gmtime_r\<close> computes.
\<close>

section \<open>Pong\<close>

definition send_pong :: "mc_mesh \<Rightarrow> mc_pub_channel \<Rightarrow> int \<Rightarrow> int \<Rightarrow> mc_mesh" where
  "send_pong m ch rssi snr =
     (let txt = snprintf_s 48 (lit ''pong rssi '' @ dec_int rssi @ lit ''dBm snr '' @ fmt_quarter snr @ lit ''dB'');
          (t, m) = mesh_time m in
      case channel_build_txt ch (cfg_name (cfg m)) txt (of_nat t) ROUTE_TYPE_FLOOD of
        None \<Rightarrow> m
      | Some p \<Rightarrow>
          let m = seen_note m p;
              (d, m) = reply_delay_ms m;
              (ok, m) = enqueue m p 1 d (own_tx_power m) True in
          if \<not> ok then m else bump (\<lambda>s. s\<lparr>pong_sent := pong_sent s + 1\<rparr>) m)"

section \<open>Time and date\<close>

definition tod_arm :: "mc_mesh \<Rightarrow> mc_pub_channel \<Rightarrow> bool \<Rightarrow> bool \<Rightarrow> mc_mesh" where
  "tod_arm m ch want_time want_date =
     (let m = (if \<not> tod_time_pending m \<and> \<not> tod_date_pending m
               then (let (t, m) = mesh_time m in m\<lparr>tod_minute := of_nat (t div 60)\<rparr>) else m)
      in m\<lparr>tod_ch := ch, tod_time_pending := tod_time_pending m \<or> want_time,
           tod_date_pending := tod_date_pending m \<or> want_date\<rparr>)"

definition send_tod :: "mc_mesh \<Rightarrow> bytes \<Rightarrow> mc_mesh" where
  "send_tod m txt =
     (let (t, m) = mesh_time m in
      case channel_build_txt (tod_ch m) (cfg_name (cfg m)) txt (of_nat t) ROUTE_TYPE_FLOOD of
        None \<Rightarrow> m
      | Some p \<Rightarrow>
          let m = seen_note m p;
              (r, m) = mesh_rng 0 3 m;
              (ok, m) = enqueue m p 1 (r * 50) (own_tx_power m) True in
          if ok then bump (\<lambda>s. s\<lparr>timeofday_sent := timeofday_sent s + 1\<rparr>) m else m)"

definition civil_from_days :: "nat \<Rightarrow> nat \<times> nat \<times> nat" where
  \<comment> \<open>year, month, day of a day number since 1970-01-01\<close>
  "civil_from_days days =
     (let z = days + 719468; era = z div 146097; doe = z mod 146097;
          yoe = (doe - doe div 1460 + doe div 36524 - doe div 146096) div 365;
          doy = doe - (365 * yoe + yoe div 4 - yoe div 100);
          mp = (5 * doy + 2) div 153;
          d = doy - (153 * mp + 2) div 5 + 1;
          mo = (if mp < 10 then mp + 3 else mp - 9);
          y = yoe + era * 400 + (if mo \<le> 2 then 1 else 0)
      in (y, mo, d))"

definition time_text :: "nat \<Rightarrow> bytes" where
  "time_text t = snprintf_s 40 (lit ''time '' @ dec_pad 2 (t mod 86400 div 3600) @ lit '':''
     @ dec_pad 2 (t mod 3600 div 60) @ lit '' UTC'')"

definition date_text :: "nat \<Rightarrow> bytes" where
  "date_text t = (case civil_from_days (t div 86400) of (y, mo, d) \<Rightarrow>
     snprintf_s 40 (lit ''date '' @ dec_pad 4 y @ lit ''-'' @ dec_pad 2 mo @ lit ''-'' @ dec_pad 2 d))"

definition mesh_service_timeofday :: "mc_mesh \<Rightarrow> mc_mesh" where
  "mesh_service_timeofday m =
     (if \<not> tod_time_pending m \<and> \<not> tod_date_pending m then m
      else let (t, m) = mesh_time m; minute = of_nat (t div 60) in
      if minute = tod_minute m then m
      else
        let m = m\<lparr>tod_minute := minute\<rparr>;
            m = (if tod_time_pending m then (send_tod m (time_text t))\<lparr>tod_time_pending := False\<rparr> else m)
        in if tod_date_pending m then (send_tod m (date_text t))\<lparr>tod_date_pending := False\<rparr> else m)"

section \<open>Help\<close>

abbreviation (input) "MESH_HELP_COOLDOWN_MS \<equiv> 8000 :: u64"

definition send_help :: "mc_mesh \<Rightarrow> mc_pub_channel \<Rightarrow> mc_mesh" where
  "send_help m ch =
     (let txt = snprintf_s 160 (lit ''commands:''
            @ (if ping_pong (cfg m) then lit '' ping(alive)'' else [])
            @ (if timeofday_enable (cfg m) then lit '' time/date(UTC clock)'' else [])
            @ (if probe_allow (cfg m) \<noteq> [] then lit '' probe<secs count>(range,auth)'' else [])
            @ lit '' help'');
          (t, m) = mesh_time m in
      case channel_build_txt ch (cfg_name (cfg m)) txt (of_nat t) ROUTE_TYPE_FLOOD of
        None \<Rightarrow> m
      | Some p \<Rightarrow>
          let m = seen_note m p;
              (d, m) = reply_delay_ms m;
              (ok, m) = enqueue m p 1 d (own_tx_power m) True
          in bump (\<lambda>s. s\<lparr>help_sent := help_sent s + 1\<rparr>) m)"

section \<open>The mailbox\<close>

abbreviation (input) "MBOX_REPLY_COOLDOWN_MS \<equiv> 8000 :: u64"

definition reverse_path :: "mc_packet \<Rightarrow> bytes" where
  \<comment> \<open>the hashes of the received path, last hop first\<close>
  "reverse_path rx =
     (let n = pkt_path_hash_count rx; hs = pkt_path_hash_size rx
      in concat (map (\<lambda>i. bslice ((n - 1 - i) * hs) hs (path rx)) [0..<n]))"

definition route_back :: "mc_packet \<Rightarrow> mc_packet \<Rightarrow> mc_packet" where
  \<comment> \<open>the loop that reverses the path of \<open>rx\<close> into the reply \<open>p\<close>\<close>
  "route_back rx p =
     (let n = pkt_path_hash_count rx; hs = pkt_path_hash_size rx in
      if 0 < n \<and> n * hs \<le> MC_MAX_PATH_SIZE then
        p\<lparr>path := memcpy_at (path p) 0 (reverse_path rx),
          path_len := push_bit 6 (of_nat (hs - 1) AND 0x03) OR (of_nat n AND 0x3F)\<rparr>
      else p)"

definition send_routed_reply ::
  "mc_mesh \<Rightarrow> mc_packet \<Rightarrow> mc_pub_channel \<Rightarrow> bytes \<Rightarrow> bool \<times> mc_mesh" where
  "send_routed_reply m rx ch txt =
     (let (t, m) = mesh_time m in
      case channel_build_txt ch (cfg_name (cfg m)) txt (of_nat t) ROUTE_TYPE_DIRECT of
        None \<Rightarrow> (False, m)
      | Some p \<Rightarrow>
          let p = route_back rx p;
              m = seen_note m p;
              (d, m) = reply_delay_ms m
          in enqueue m p 1 d (own_tx_power m) True)"

fun gate_oldest :: "mbox_gate_entry list \<Rightarrow> nat list \<Rightarrow> nat \<Rightarrow> nat" where
  \<comment> \<open>\<open>oldest\<close> after the loop over the slots \<open>ks\<close>\<close>
  "gate_oldest g [] oldest = oldest"
| "gate_oldest g (k # ks) oldest =
     gate_oldest g ks
       (if gate_call (g ! k) \<noteq> [] \<and> gate_next_ms (g ! k) < gate_next_ms (g ! oldest) then k else oldest)"

definition mbox_rate_ok :: "mbox_gate_entry list \<Rightarrow> bytes \<Rightarrow> u64 \<Rightarrow> bool \<times> mbox_gate_entry list" where
  "mbox_rate_ok g sender now =
     (let base = base_call sender MC_MBOX_CALL in
      if base = [] then (False, g)
      else (case find_index (\<lambda>e. gate_call e \<noteq> [] \<and> strcaseeq (gate_call e) base) g of
              Some k \<Rightarrow>
                if now < gate_next_ms (g ! k) then (False, g)
                else (True, g[k := (g ! k)\<lparr>gate_next_ms := now + MBOX_REPLY_COOLDOWN_MS\<rparr>])
            | None \<Rightarrow>
                let slot = (case find_index (\<lambda>e. gate_call e = []) g of
                              Some free \<Rightarrow> free | None \<Rightarrow> gate_oldest g [0..<length g] 0)
                in (True, g[slot := \<lparr>gate_call = snprintf_s MC_MBOX_CALL base,
                                    gate_next_ms = now + MBOX_REPLY_COOLDOWN_MS\<rparr>])))"

definition fetch_reply :: "mc_mbox \<Rightarrow> bytes \<Rightarrow> bytes" where
  \<comment> \<open>the text of a fetch reply\<close>
  "fetch_reply mb sender =
     (let st = mbox_format_fetch mb sender 110; total = fs_matches st; shown = fs_shown st in
      snprintf_s 160
        (if total = 0 then lit ''mbox: no messages for you''
         else if shown = 0 then lit ''mbox: '' @ dec_nat total @ lit '' msg(s) for you, too long to show here''
         else if shown < total then lit ''mbox '' @ dec_nat shown @ lit ''/'' @ dec_nat total @ lit '': '' @ fs_out st
         else lit ''mbox '' @ dec_nat total @ lit '': '' @ fs_out st))"

definition mbox_handle ::
  "mc_mesh \<Rightarrow> mc_packet \<Rightarrow> mc_pub_channel \<Rightarrow> bytes \<Rightarrow> bytes \<Rightarrow> bool \<times> mc_mesh" where
  \<comment> \<open>whether the message still floods\<close>
  "mbox_handle m p ch sender body =
     (case mbox_classify body MC_MBOX_CALL of
        MBOX_MENTION mention msg \<Rightarrow>
          (let (t, m) = mesh_time m;
               m = m\<lparr>mbox := mbox_store (mbox m) mention sender msg (of_nat t)\<rparr>
           in (True, bump (\<lambda>s. s\<lparr>mbox_stored := mbox_stored s + 1\<rparr>) m))
      | cmd \<Rightarrow>
          (let (now, m) = mesh_millis m;
               (ok, g) = mbox_rate_ok (mbox_gate m) sender now;
               m = m\<lparr>mbox_gate := g\<rparr> in
           if \<not> ok then (False, m)
           else let reply = (if cmd = MBOX_FETCH then fetch_reply (mbox m) sender
                             else snprintf_s 160 mbox_help_text);
                    (sent, m) = send_routed_reply m p ch reply
                in (False, if sent then bump (\<lambda>s. s\<lparr>mbox_replies := mbox_replies s + 1\<rparr>) m else m)))"

section \<open>The coverage probe\<close>

abbreviation (input) "MESH_PROBE_MAX_SECS \<equiv> 3600 :: int"
abbreviation (input) "MESH_PROBE_MAX_COUNT \<equiv> 100 :: int"

definition mesh_start_probe :: "mc_mesh \<Rightarrow> mc_pub_channel \<Rightarrow> int \<Rightarrow> int \<Rightarrow> mc_mesh" where
  "mesh_start_probe m ch secs count =
     (if count \<le> 0 then m\<lparr>probe_remaining := 0\<rparr>
      else
        let secs = (if secs < 1 then 1 else secs);
            secs = (if MESH_PROBE_MAX_SECS < secs then MESH_PROBE_MAX_SECS else secs);
            count = (if MESH_PROBE_MAX_COUNT < count then MESH_PROBE_MAX_COUNT else count);
            (now, m) = mesh_millis m
        in m\<lparr>probe_ch := ch, probe_interval_ms := word_of_int secs * 1000, probe_total := count,
             probe_remaining := count, probe_seq := 0,
             probe_next_ms := now + ucast MESH_REPLY_DELAY_MS\<rparr>)"

definition mesh_service_probe :: "mc_mesh \<Rightarrow> u64 \<Rightarrow> mc_mesh" where
  "mesh_service_probe m now_ms =
     (if probe_remaining m \<le> 0 \<or> now_ms < probe_next_ms m then m
      else if mesh_rf_silent m now_ms then m\<lparr>probe_remaining := 0\<rparr>
      else
        let m = m\<lparr>probe_seq := probe_seq m + 1\<rparr>;
            txt = snprintf_s 48 (lit ''probe '' @ dec_int (probe_seq m) @ lit ''/'' @ dec_int (probe_total m));
            (t, m) = mesh_time m;
            m = (case channel_build_txt (probe_ch m) (cfg_name (cfg m)) txt (of_nat t) ROUTE_TYPE_FLOOD of
                   None \<Rightarrow> m
                 | Some p \<Rightarrow>
                     let m = seen_note m p;
                         (r, m) = mesh_rng 0 3 m;
                         (ok, m) = enqueue m p 1 (r * 50) (own_tx_power m) True
                     in bump (\<lambda>s. s\<lparr>probes_sent := probes_sent s + 1\<rparr>) m)
        in m\<lparr>probe_remaining := probe_remaining m - 1,
             probe_next_ms := now_ms + ucast (probe_interval_ms m)\<rparr>)"

section \<open>Dispatch\<close>

definition grp_command ::
  "mc_mesh \<Rightarrow> mc_packet \<Rightarrow> mc_pub_channel \<Rightarrow> bytes \<Rightarrow> bytes \<Rightarrow> bool \<times> mc_mesh" where
  \<comment> \<open>the \<open>if (body)\<close> block: whether the message is still forwarded\<close>
  "grp_command m p ch sender body =
     (let on_ping_ch = (ping_channel (cfg m) = [] \<or> ch_name ch = ping_channel (cfg m)) in
      if ping_pong (cfg m) \<and> is_ping body then
        (let m = bump (\<lambda>s. s\<lparr>ping_seen := ping_seen s + 1\<rparr>) m
         in (True, if on_ping_ch then send_pong m ch (rssi_dbm p) (snr_q p) else m))
      else if on_ping_ch \<and> probe_allow (cfg m) \<noteq> [] \<and> is_probe body \<noteq> None
              \<and> config_probe_allowed (cfg m) sender then
        (case is_probe body of Some (secs, count) \<Rightarrow> (True, mesh_start_probe m ch secs count)
         | None \<Rightarrow> (True, m))
      else if on_ping_ch \<and> timeofday_enable (cfg m) \<and> is_word body (lit ''time'') then
        (True, tod_arm m ch True False)
      else if on_ping_ch \<and> timeofday_enable (cfg m) \<and> is_word body (lit ''date'') then
        (True, tod_arm m ch False True)
      else if on_ping_ch \<and> is_word body (lit ''help'') then
        (let (now, m) = mesh_millis m in
         (True, if mesh_help_next_ms m = 0 \<or> mesh_help_next_ms m \<le> now
                then (send_help m ch)\<lparr>mesh_help_next_ms := now + MESH_HELP_COOLDOWN_MS\<rparr> else m))
      else if mbox_enable (cfg m) \<and> role (cfg m) \<noteq> ROLE_HOTSPOT \<and> pkt_is_route_flood p
              \<and> ch_name ch = lit ''#mbox'' then mbox_handle m p ch sender body
      else (True, m))"

definition process_public_grp ::
  "sign_fn \<Rightarrow> mc_mesh \<Rightarrow> mc_packet \<Rightarrow> mc_pub_channel \<Rightarrow> int \<times> bytes \<times> mc_mesh" where
  \<comment> \<open>1 forward, 0 consumed here, -1 blacklisted; the sender's name; the state\<close>
  "process_public_grp crypto_sign m p ch =
     (if pkt_payload_type p \<noteq> PAYLOAD_TYPE_GRP_TXT then (1, [], m)
      else (case channel_decrypt ch p MC_MAX_PACKET_PAYLOAD of
              None \<Rightarrow> (1, [], m)
            | Some plain \<Rightarrow>
                if length plain < 5 then (1, [], m)
                else let sender = grp_sender_name plain MC_BLACKLIST_NAME_LEN in
                if config_is_blacklisted (cfg m) sender then
                  (-1, sender, mon_pkt_drop (bump (\<lambda>s. s\<lparr>blacklisted := blacklisted s + 1\<rparr>) m) p
                                 (lit ''blacklisted sender''))
                else
                  let m = hotspot_wake crypto_sign m p sender;
                      m = mon_emit (MonPublic (ch_name ch) (plain_text plain) (rssi_dbm p) (snr_q p)) m in
                  if rx_src m = MESH_SRC_BACKBONE then (1, sender, m)
                  else (case grp_message_body plain of
                          None \<Rightarrow> (1, sender, m)
                        | Some body \<Rightarrow>
                            let (flood, m) = grp_command m p ch sender body
                            in (if flood then 1 else 0, sender, m))))"

end
