(* ===== verification/Mesh_Recv.thy ===== *)
theory Mesh_Recv
  imports Mesh_Services
begin

text \<open>
  The receive path of \<^verbatim>\<open>mesh.c\<close>: \<open>mesh_on_recv\<close>, \<open>mesh_on_backbone\<close>, \<open>mesh_on_rx_error\<close>. The
  handler is cut where the C function changes subject: \<open>recv_advert\<close> is the advert block,
  \<open>recv_forward\<close> everything from the forward switch on, \<open>relay\<close> the final flood/direct part.
  Each returns the disposition and the state. Logging has no effect on the state and is omitted.
\<close>

definition mesh_on_rx_error :: "mc_mesh \<Rightarrow> bool \<Rightarrow> int \<Rightarrow> int \<Rightarrow> mc_mesh" where
  \<comment> \<open>the flag is \<open>kind == SX126X_RX_CRC_ERR\<close>\<close>
  "mesh_on_rx_error m crc_err rssi snr =
     (let (m, reason) =
        (if crc_err
         then (bump (\<lambda>s. s\<lparr>rx_crc_err := rx_crc_err s + 1\<rparr>) m,
               snprintf_s 64 (lit ''CRC error (rssi '' @ dec_int rssi @ lit '' snr '' @ fmt_quarter snr @ lit '')''))
         else (bump (\<lambda>s. s\<lparr>rx_hdr_err := rx_hdr_err s + 1\<rparr>) m,
               snprintf_s 64 (lit ''corrupt LoRa header'')))
      in mon_emit (MonDrop 0xFF reason (-1)) m)"

section \<open>Retransmission\<close>

definition append_hash :: "mc_mesh \<Rightarrow> mc_packet \<Rightarrow> mc_packet" where
  \<comment> \<open>our path hash at the back, one hop more\<close>
  "append_hash m p =
     (let n = pkt_path_hash_count p; hs = pkt_path_hash_size p in
      pkt_set_path_hash_count
        (p\<lparr>path := memcpy_at (path p) (n * hs) (mc_identity_copy_hash (ident m) hs)\<rparr>) (n + 1))"

definition strip_hash :: "mc_packet \<Rightarrow> mc_packet" where
  \<comment> \<open>the front hash removed, one hop less\<close>
  "strip_hash p =
     (let n = pkt_path_hash_count p; hs = pkt_path_hash_size p in
      pkt_set_path_hash_count
        (p\<lparr>path := memcpy_at (path p) 0 (bslice hs ((n - 1) * hs) (path p))\<rparr>) (n - 1))"

definition relay :: "mc_mesh \<Rightarrow> mc_packet \<Rightarrow> int \<Rightarrow> mesh_rx \<times> mc_mesh" where
  "relay m p dbm =
     (let n = pkt_path_hash_count p; hs = pkt_path_hash_size p in
      if pkt_is_route_flood p then
        (if \<not> marked_dnr p \<and> (n + 1) * hs \<le> MC_MAX_PATH_SIZE then
           let p' = append_hash m p;
               (d, m) = flood_backoff_ms m p';
               (ok, m) = enqueue m p' (n + 1) d dbm False in
           if \<not> ok then (MESH_RX_LOCAL, m)
           else (MESH_RX_FORWARDED, bump (\<lambda>s. s\<lparr>fwd_flood := fwd_flood s + 1\<rparr>) m)
         else
           (MESH_RX_LOCAL,
            mon_pkt_drop (bump (\<lambda>s. s\<lparr>fwd_dropped := fwd_dropped s + 1\<rparr>) m) p
              (if marked_dnr p then lit ''do-not-retransmit'' else lit ''path full'')))
      else if 1 \<le> n \<and> mc_identity_hash_match (ident m) (path p) hs then
        (let (ok, m) = enqueue m (strip_hash p) 0 0 dbm False in
         if \<not> ok then (MESH_RX_LOCAL, m)
         else (MESH_RX_FORWARDED, bump (\<lambda>s. s\<lparr>fwd_direct := fwd_direct s + 1\<rparr>) m))
      else (MESH_RX_LOCAL, m))"

section \<open>Policy and scope\<close>

definition deny :: "mc_mesh \<Rightarrow> mc_packet \<Rightarrow> fwd_decision \<Rightarrow> mc_mesh" where
  \<comment> \<open>the counters and the monitor event of a policy drop\<close>
  "deny m p d =
     (let m = bump (\<lambda>s. s\<lparr>fwd_denied := fwd_denied s + 1\<rparr>) m;
          m = (if d = FWD_DROP_DM then bump (\<lambda>s. s\<lparr>fwd_denied_dm := fwd_denied_dm s + 1\<rparr>) m
               else if d = FWD_DROP_GRP_UNMATCHED then bump (\<lambda>s. s\<lparr>fwd_denied_grp := fwd_denied_grp s + 1\<rparr>) m
               else if d = FWD_DROP_GRP_MACFAIL
               then bump (\<lambda>s. s\<lparr>fwd_denied_grp := fwd_denied_grp s + 1, grp_mac_fail := grp_mac_fail s + 1\<rparr>) m
               else bump (\<lambda>s. s\<lparr>fwd_denied_other := fwd_denied_other s + 1\<rparr>) m)
      in mon_pkt_drop m p (decision_reason d))"

definition recv_scope :: "mc_mesh \<Rightarrow> mc_packet \<Rightarrow> bytes \<Rightarrow> bytes \<Rightarrow> mesh_rx \<times> mc_mesh" where
  \<comment> \<open>the hotspot's scope, then the retransmission\<close>
  "recv_scope m p aname grp_sender =
     (if role (cfg m) = ROLE_HOTSPOT then
        (case hotspot_decide m p aname grp_sender of (ok, dbm) \<Rightarrow>
           if \<not> ok then (MESH_RX_POLICY, mon_pkt_drop m p (lit ''hotspot: out of personal scope''))
           else relay m p dbm)
      else relay m p (tx_power (radio (cfg m))))"

definition note_region :: "mc_mesh \<Rightarrow> mc_packet \<Rightarrow> mc_mesh" where
  \<comment> \<open>the \<open>FWD_OK_REGION\<close> branch\<close>
  "note_region m p =
     (let m = bump (\<lambda>s. s\<lparr>fwd_region := fwd_region s + 1\<rparr>) m in
      case region_match_index m p of
        None \<Rightarrow> m
      | Some ri \<Rightarrow> mon_emit (MonRegion (room_name (rooms (cfg m) ! ri)) (pkt_payload_type p)
                     (payload_len p) (rssi_dbm p) (snr_q p)) m)"

definition recv_forward :: "sign_fn \<Rightarrow> mc_mesh \<Rightarrow> mc_packet \<Rightarrow> bytes \<Rightarrow> mesh_rx \<times> mc_mesh" where
  "recv_forward crypto_sign m p aname =
     (if \<not> forward (cfg m) then (MESH_RX_LOCAL, m)
      else (case classify_forward m p of
              (FWD_OK_GRP_PUBLIC, Some ch) \<Rightarrow>
                (case process_public_grp crypto_sign m p ch of (g, sender, m) \<Rightarrow>
                   if g < 0 then (MESH_RX_POLICY, m)
                   else if g = 0 then (MESH_RX_LOCAL, m)
                   else recv_scope (bump (\<lambda>s. s\<lparr>fwd_grp_public := fwd_grp_public s + 1\<rparr>) m) p aname sender)
            | (FWD_OK_REGION, _) \<Rightarrow> recv_scope (note_region m p) p aname []
            | (FWD_OK_PUBLIC, _) \<Rightarrow> recv_scope m p aname []
            | (d, _) \<Rightarrow> (MESH_RX_POLICY, deny m p d)))"

section \<open>Adverts\<close>

definition gate_node :: "mc_mesh \<Rightarrow> bytes \<Rightarrow> byte \<Rightarrow> int \<times> int \<Rightarrow> bytes \<Rightarrow> mc_mesh" where
  \<comment> \<open>\<open>aprsis_gate_node (m->aprs, hal_millis (), ...)\<close>\<close>
  "gate_node m aname atype loc pk =
     (let (now, m) = mesh_millis m in mesh_emit (AprsGate now aname atype (fst loc) (snd loc) pk) m)"

definition advert_accept :: "sign_fn \<Rightarrow> mc_mesh \<Rightarrow> mc_packet \<Rightarrow> bytes \<Rightarrow> bytes \<Rightarrow> byte \<Rightarrow> mc_mesh" where
  \<comment> \<open>the advert block once the advert is verified and not blacklisted\<close>
  "advert_accept crypto_sign m p pk aname atype =
     (let rf = (rx_src m \<noteq> MESH_SRC_BACKBONE);
          m = (if rf then
                 let m = bump (\<lambda>s. s\<lparr>rx_advert := rx_advert s + 1\<rparr>) m;
                     m = neighbor_update m pk p (rssi_dbm p) (snr_q p);
                     m = (if role (cfg m) = ROLE_HOTSPOT \<and> config_is_affinity (cfg m) aname
                          then learn_affinity m pk else m)
                 in if atype = 1 then hotspot_wake crypto_sign m p aname else m
               else m);
          loc = mc_advert_extract_location p;
          m = mon_emit (MonAdvert aname atype loc (rssi_dbm p) (snr_q p)) m
      in if rf \<and> has_aprs m then (case loc of None \<Rightarrow> m | Some l \<Rightarrow> gate_node m aname atype l pk) else m)"

definition recv_advert ::
  "sign_fn \<Rightarrow> open_fn \<Rightarrow> mc_mesh \<Rightarrow> mc_packet \<Rightarrow> bytes option \<times> mc_mesh" where
  \<comment> \<open>\<open>Some aname\<close> where the advert passes, \<open>None\<close> where the handler returns \<open>MESH_RX_POLICY\<close>\<close>
  "recv_advert crypto_sign crypto_sign_open m p =
     (case mc_advert_verify crypto_sign_open p of
        None \<Rightarrow>
          (None, mon_pkt_drop (if rx_src m \<noteq> MESH_SRC_BACKBONE
                               then bump (\<lambda>s. s\<lparr>rx_advert_bad := rx_advert_bad s + 1\<rparr>) m else m)
                   p (lit ''advert: bad signature''))
      | Some pk \<Rightarrow>
          (case mc_advert_extract p 32 of (ty, aname) \<Rightarrow>
             if config_is_blacklisted (cfg m) aname \<or> config_is_key_blocked (cfg m) pk then
               (None, mon_pkt_drop (bump (\<lambda>s. s\<lparr>blacklisted := blacklisted s + 1\<rparr>) m) p
                        (lit ''advert: blacklisted sender''))
             else (Some aname,
                   advert_accept crypto_sign m p pk aname (case ty of None \<Rightarrow> 0 | Some t \<Rightarrow> t))))"

section \<open>The handler\<close>

definition recv_typed :: "sign_fn \<Rightarrow> open_fn \<Rightarrow> mc_mesh \<Rightarrow> mc_packet \<Rightarrow> mesh_rx \<times> mc_mesh" where
  \<comment> \<open>the handler after the dedup\<close>
  "recv_typed crypto_sign crypto_sign_open m p =
     (let rf = (rx_src m \<noteq> MESH_SRC_BACKBONE);
          m = (if rf \<and> pkt_route_type p = ROUTE_TYPE_TRANSPORT_FLOOD
               then bump (\<lambda>s. s\<lparr>rx_transport_flood := rx_transport_flood s + 1\<rparr>) m else m);
          pt = pkt_payload_type p in
      if pt = PAYLOAD_TYPE_ADVERT then
        (case recv_advert crypto_sign crypto_sign_open m p of
           (None, m) \<Rightarrow> (MESH_RX_POLICY, m)
         | (Some aname, m) \<Rightarrow> recv_forward crypto_sign m p aname)
      else if pt = PAYLOAD_TYPE_TRACE then
        (MESH_RX_LOCAL,
         mon_pkt_drop (if rf then bump (\<lambda>s. s\<lparr>trace_seen := trace_seen s + 1\<rparr>) m else m) p
           (lit ''trace (not forwarded yet)''))
      else recv_forward crypto_sign m p [])"

definition mesh_on_recv ::
  "sign_fn \<Rightarrow> open_fn \<Rightarrow> mc_mesh \<Rightarrow> bytes \<Rightarrow> int \<Rightarrow> int \<Rightarrow> mesh_rx \<times> mc_mesh" where
  "mesh_on_recv crypto_sign crypto_sign_open m raw rssi snr =
     (let rf = (rx_src m \<noteq> MESH_SRC_BACKBONE);
          m = (if rf then bump (\<lambda>s. s\<lparr>rx_airtime_ms := rx_airtime_ms s
                                   + ucast (sx126x_airtime_ms (w_sx (wld m)) (length raw))\<rparr>) m else m) in
      case pkt_parse raw of
        Inl _ \<Rightarrow>
          (MESH_RX_MALFORMED,
           mon_emit (MonDrop 0xFF (lit ''parse error (malformed frame)'') (-1))
             (if rf then bump (\<lambda>s. s\<lparr>rx_bad_parse := rx_bad_parse s + 1\<rparr>) m else m))
      | Inr p0 \<Rightarrow>
          let p = p0\<lparr>rssi_dbm := rssi, snr_q := snr\<rparr>;
              m = (if rf then bump (\<lambda>s. s\<lparr>rx_total := rx_total s + 1\<rparr>) m else m);
              (dup, m) = seen_check_and_add m (pkt_calc_hash p) in
          if dup then
            (MESH_RX_DUPLICATE,
             mon_pkt_drop (if rf then bump (\<lambda>s. s\<lparr>rx_dup := rx_dup s + 1\<rparr>) m else m) p
               (lit ''duplicate (already seen)''))
          else recv_typed crypto_sign crypto_sign_open m p)"

definition mesh_on_backbone :: "sign_fn \<Rightarrow> open_fn \<Rightarrow> mc_mesh \<Rightarrow> bytes \<Rightarrow> mesh_rx \<times> mc_mesh" where
  "mesh_on_backbone crypto_sign crypto_sign_open m raw =
     (case mesh_on_recv crypto_sign crypto_sign_open (m\<lparr>rx_src := MESH_SRC_BACKBONE\<rparr>) raw MON_VIA_BACKBONE 0 of
        (r, m') \<Rightarrow> (r, m'\<lparr>rx_src := rx_src m\<rparr>))"

end
