(* ===== verification/Mesh_Path.thy ===== *)
theory Mesh_Path
  imports Mesh_Recv
begin

text \<open>
  Paths as lists of hashes. \<open>path_hashes\<close> abstracts the path bytes of a packet to the list of
  its hop hashes; appending our hash, stripping the front one and reversing a path for a routed
  reply are shown to be \<open>@\<close>, \<open>tl\<close> and \<open>rev\<close> on that list. The one exception is a flood packet
  that has already crossed 63 hops: its 6-bit hop count wraps to 0 when the hash is appended.
\<close>

definition path_hashes :: "mc_packet \<Rightarrow> bytes list" where
  "path_hashes p = map (\<lambda>i. bslice (i * pkt_path_hash_size p) (pkt_path_hash_size p) (path p))
     [0..<pkt_path_hash_count p]"

lemma length_path_hashes [simp]: "length (path_hashes p) = pkt_path_hash_count p"
  by (simp add: path_hashes_def)

lemma nth_path_hashes:
  "i < pkt_path_hash_count p \<Longrightarrow>
   path_hashes p ! i = bslice (i * pkt_path_hash_size p) (pkt_path_hash_size p) (path p)"
  by (simp add: path_hashes_def)

lemma wf_hash_size: "wf_pkt p \<Longrightarrow> 1 \<le> pkt_path_hash_size p \<and> pkt_path_hash_size p \<le> 3"
  by (rule hash_size_pos) (simp add: wf_pkt_def)

lemma wf_path_bytes: "wf_pkt p \<Longrightarrow> pkt_path_hash_count p * pkt_path_hash_size p \<le> 64"
  using wf_byte_len by (simp add: pkt_path_byte_len_def)

lemma hop_inside:
  fixes i n hs :: nat
  assumes "i < n" shows "i * hs + hs \<le> n * hs"
  using mult_le_mono1 [of "Suc i" n hs] assms by (simp add: add.commute)

lemma set_count_path [simp]:
  "pkt_path_hash_size (pkt_set_path_hash_count (p\<lparr>path := P\<rparr>) n) =
   pkt_path_hash_size (pkt_set_path_hash_count p n)"
  "pkt_path_hash_count (pkt_set_path_hash_count (p\<lparr>path := P\<rparr>) n) =
   pkt_path_hash_count (pkt_set_path_hash_count p n)"
  by (simp_all add: pkt_set_path_hash_count_def pkt_path_hash_size_def pkt_path_hash_count_def)

lemma bslice_memcpy_disjoint:
  assumes "i + n \<le> off \<or> off + length src \<le> i" "off + length src \<le> length dst"
  shows "bslice i n (memcpy_at dst off src) = bslice i n dst"
proof (cases "i + n \<le> off")
  case True
  with assms show ?thesis by (simp add: slice_memcpy_before)
next
  case False
  with assms have o: "off + length src \<le> i" by simp
  then have "drop i (memcpy_at dst off src) = drop i dst"
    using assms(2) by (simp add: memcpy_at_def drop_append)
  then show ?thesis by (simp add: bslice_def)
qed

section \<open>Appending our hash\<close>

lemma append_hash_frame [frame_simps]:
  "header (append_hash m p) = header p" "payload (append_hash m p) = payload p"
  "payload_len (append_hash m p) = payload_len p" "transport_codes (append_hash m p) = transport_codes p"
  "marked_dnr (append_hash m p) = marked_dnr p"
  by (simp_all add: append_hash_def Let_def)

lemma append_hash_hashes:
  assumes "wf_pkt p" "wf_identity (ident m)" "pkt_path_hash_count p < 63"
    "(pkt_path_hash_count p + 1) * pkt_path_hash_size p \<le> 64"
  shows "path_hashes (append_hash m p) = path_hashes p @ [mc_identity_copy_hash (ident m) (pkt_path_hash_size p)]"
    and "pkt_path_hash_size (append_hash m p) = pkt_path_hash_size p"
proof -
  let ?n = "pkt_path_hash_count p" and ?hs = "pkt_path_hash_size p"
  let ?own = "mc_identity_copy_hash (ident m) ?hs"
  have hs: "1 \<le> ?hs" "?hs \<le> 3" using wf_hash_size [OF assms(1)] by simp_all
  have own: "length ?own = ?hs" using assms(2) hs by (simp add: mc_identity_copy_hash_def wf_identity_def)
  have P: "length (path p) = 64" using assms(1) by (simp add: wf_pkt_def)
  have c: "pkt_path_hash_count (append_hash m p) = ?n + 1"
    "pkt_path_hash_size (append_hash m p) = ?hs"
    "path (append_hash m p) = memcpy_at (path p) (?n * ?hs) ?own"
    using assms(3) by (simp_all add: append_hash_def Let_def)
  show "pkt_path_hash_size (append_hash m p) = ?hs" by (rule c(2))
  show "path_hashes (append_hash m p) = path_hashes p @ [?own]"
  proof (rule nth_equalityI)
    fix i assume "i < length (path_hashes (append_hash m p))"
    then have i: "i < ?n + 1" by (simp add: c(1))
    show "path_hashes (append_hash m p) ! i = (path_hashes p @ [?own]) ! i"
    proof (cases "i < ?n")
      case True
      then have "i * ?hs + ?hs \<le> ?n * ?hs" by (rule hop_inside)
      then have "bslice (i * ?hs) ?hs (path (append_hash m p)) = bslice (i * ?hs) ?hs (path p)"
        unfolding c(3) using own P assms(4) by (intro bslice_memcpy_disjoint) simp_all
      with True i show ?thesis by (simp add: nth_path_hashes c(1,2) nth_append)
    next
      case False
      then have "i = ?n" using i by simp
      moreover have "bslice (?n * ?hs) ?hs (path (append_hash m p)) = ?own"
        unfolding c(3) using own P assms(4) by (intro slice_memcpy_same) simp_all
      ultimately show ?thesis by (simp add: nth_path_hashes c(1,2) nth_append)
    qed
  qed (simp add: c(1))
qed

lemma set_count_64: "pkt_path_hash_count (pkt_set_path_hash_count p 64) = 0"
proof -
  have "((path_len p AND 0xC0) OR (of_nat 64 AND 0x3F)) AND 0x3F = (0 :: byte)"
    by (simp add: bit.conj_disj_distrib2 and.assoc)
  then show ?thesis by (simp add: pkt_path_hash_count_def pkt_set_path_hash_count_def)
qed

lemma append_hash_wraps:
  "pkt_path_hash_count p = 63 \<Longrightarrow> path_hashes (append_hash m p) = []"
  using set_count_64 by (simp add: append_hash_def Let_def path_hashes_def)

lemma append_hash_wf [wf_simps]:
  assumes "wf_pkt p" "(pkt_path_hash_count p + 1) * pkt_path_hash_size p \<le> 64"
  shows "wf_pkt (append_hash m p)"
proof -
  let ?n = "pkt_path_hash_count p" and ?hs = "pkt_path_hash_size p"
  let ?own = "mc_identity_copy_hash (ident m) ?hs"
  have "length ?own \<le> ?hs" by (simp add: mc_identity_copy_hash_def)
  then have "length (path (append_hash m p)) = 64"
    using assms by (simp add: append_hash_def Let_def wf_pkt_def)
  moreover have "pkt_valid_path_len (path_len (append_hash m p))"
  proof (cases "?n + 1 < 64")
    case True
    then show ?thesis
      using valid_set_count [of "p\<lparr>path := x\<rparr>" "?n + 1" for x] assms
      by (simp add: append_hash_def Let_def wf_pkt_def pkt_path_hash_size_def)
  next
    case False
    then have n: "?n + 1 = 64" using hash_count_less [of p] by simp
    have "path_len (append_hash m p) = (path_len p AND 0xC0) OR (of_nat 64 AND 0x3F)"
      unfolding append_hash_def Let_def n by (simp add: pkt_set_path_hash_count_def)
    then have "path_len (append_hash m p) = (path_len p AND 0xC0)" by simp
    then have "path_len (append_hash m p) = path_len (pkt_set_path_hash_count p 0)"
      by (simp add: pkt_set_path_hash_count_def)
    then show ?thesis using valid_set_count [of p 0] assms by (simp add: wf_pkt_def)
  qed
  ultimately show ?thesis using assms by (simp add: wf_pkt_def append_hash_frame)
qed

section \<open>Stripping the front hash\<close>

lemma strip_hash_frame [frame_simps]:
  "header (strip_hash p) = header p" "payload (strip_hash p) = payload p"
  "payload_len (strip_hash p) = payload_len p" "transport_codes (strip_hash p) = transport_codes p"
  by (simp_all add: strip_hash_def Let_def)

lemma strip_hash_hashes:
  assumes "wf_pkt p" "1 \<le> pkt_path_hash_count p"
  shows "path_hashes (strip_hash p) = tl (path_hashes p)"
    and "pkt_path_hash_size (strip_hash p) = pkt_path_hash_size p"
proof -
  let ?n = "pkt_path_hash_count p" and ?hs = "pkt_path_hash_size p"
  have P: "length (path p) = 64" using assms(1) by (simp add: wf_pkt_def)
  have n: "?n - 1 < 64" using hash_count_less [of p] by simp
  have c: "pkt_path_hash_count (strip_hash p) = ?n - 1" "pkt_path_hash_size (strip_hash p) = ?hs"
    "path (strip_hash p) = memcpy_at (path p) 0 (bslice ?hs ((?n - 1) * ?hs) (path p))"
    using n by (simp_all add: strip_hash_def Let_def)
  have fits: "?hs + (?n - 1) * ?hs \<le> 64"
    using wf_path_bytes [OF assms(1)] assms(2) by (cases ?n) simp_all
  show "pkt_path_hash_size (strip_hash p) = ?hs" by (rule c(2))
  show "path_hashes (strip_hash p) = tl (path_hashes p)"
  proof (rule nth_equalityI)
    fix i assume "i < length (path_hashes (strip_hash p))"
    then have i: "i < ?n - 1" by (simp add: c(1))
    then have h: "i * ?hs + ?hs \<le> (?n - 1) * ?hs" by (rule hop_inside)
    have "bslice (i * ?hs) ?hs (path (strip_hash p)) =
        bslice (i * ?hs) ?hs (bslice ?hs ((?n - 1) * ?hs) (path p))"
      unfolding c(3) memcpy_at_def using h fits P by (simp add: slice_append_left)
    also have "\<dots> = bslice (Suc i * ?hs) ?hs (path p)"
      using h by (simp add: bslice_def drop_take min_absorb1 add.commute)
    finally show "path_hashes (strip_hash p) ! i = tl (path_hashes p) ! i"
      using i by (simp add: nth_path_hashes c(1,2) nth_tl)
  qed (simp add: c(1))
qed

lemma strip_hash_wf [wf_simps]:
  assumes "wf_pkt p" "1 \<le> pkt_path_hash_count p"
  shows "wf_pkt (strip_hash p)"
proof -
  let ?n = "pkt_path_hash_count p" and ?hs = "pkt_path_hash_size p"
  have n: "?n - 1 < 64" using hash_count_less [of p] by simp
  have "(?n - 1) * ?hs \<le> ?n * ?hs" by (rule mult_le_mono1) simp
  then have le: "(?n - 1) * ?hs \<le> 64" using wf_path_bytes [OF assms(1)] by linarith
  have "pkt_valid_path_len (path_len (strip_hash p))"
    using valid_set_count [of "p\<lparr>path := x\<rparr>" "?n - 1" for x] assms n le
    by (simp add: strip_hash_def Let_def wf_pkt_def pkt_path_hash_size_def)
  moreover have "length (path (strip_hash p)) = 64"
    using assms le by (simp add: strip_hash_def Let_def wf_pkt_def)
  ultimately show ?thesis using assms by (simp add: wf_pkt_def strip_hash_frame)
qed

section \<open>Reversing a path\<close>

lemma route_len_parts:
  assumes "1 \<le> hs" "hs \<le> 3" "n < 64"
  shows "(push_bit 6 (of_nat (hs - 1) AND 0x03) OR (of_nat n AND 0x3F)) AND (0x3F :: byte) = of_nat n"
    and "drop_bit 6 (push_bit 6 (of_nat (hs - 1) AND 0x03) OR (of_nat n AND 0x3F :: byte)) = of_nat (hs - 1)"
proof -
  have m: "(0x3F :: byte) = mask 6" "(0x03 :: byte) = mask 2" by (simp_all add: mask_eq_exp_minus_1)
  have n6: "of_nat n AND 0x3F = (of_nat n :: byte)"
    using assms(3) by (simp add: m flip: take_bit_eq_mask) (simp add: take_bit_of_nat take_bit_nat_eq_self)
  have h2: "of_nat (hs - 1) AND 0x03 = (of_nat (hs - 1) :: byte)"
    using assms(2) by (simp add: m flip: take_bit_eq_mask) (simp add: take_bit_of_nat take_bit_nat_eq_self)
  have a: "(push_bit 6 x OR (y AND mask 6)) AND mask 6 = y AND mask 6" for x y :: byte
    by (rule bit_word_eqI) (auto simp: bit_simps)
  have b: "drop_bit 6 (push_bit 6 (x AND mask 2) OR (y AND mask 6)) = x AND mask 2" for x y :: byte
    by (rule bit_word_eqI) (auto simp: bit_simps)
  show "(push_bit 6 (of_nat (hs - 1) AND 0x03) OR (of_nat n AND 0x3F)) AND (0x3F :: byte) = of_nat n"
    using a [of "of_nat (hs - 1) AND 0x03" "of_nat n"] n6 by (simp add: m)
  show "drop_bit 6 (push_bit 6 (of_nat (hs - 1) AND 0x03) OR (of_nat n AND 0x3F :: byte)) = of_nat (hs - 1)"
    using b [of "of_nat (hs - 1)" "of_nat n"] h2 unfolding m by metis
qed

lemma length_reverse_path:
  assumes "length (path rx) = 64" "pkt_path_hash_count rx * pkt_path_hash_size rx \<le> 64"
  shows "length (reverse_path rx) = pkt_path_hash_count rx * pkt_path_hash_size rx"
proof -
  let ?n = "pkt_path_hash_count rx" and ?hs = "pkt_path_hash_size rx"
  have "length (bslice ((?n - 1 - i) * ?hs) ?hs (path rx)) = ?hs" if "i < ?n" for i
    using hop_inside [of "?n - 1 - i" ?n ?hs] that assms by simp
  then have "map (length \<circ> (\<lambda>i. bslice ((?n - 1 - i) * ?hs) ?hs (path rx))) [0..<?n] = replicate ?n ?hs"
    by (intro nth_equalityI) simp_all
  then show ?thesis
    by (simp add: reverse_path_def Let_def length_concat sum_list_replicate del: length_bslice)
qed

lemma bslice_concat:
  assumes "\<And>x. x \<in> set xs \<Longrightarrow> length x = k" "i < length xs"
  shows "bslice (i * k) k (concat xs) = xs ! i"
  using assms
proof (induction xs arbitrary: i)
  case (Cons x xs)
  then show ?case by (cases i) (auto simp: bslice_def)
qed simp

lemma reverse_path_hash:
  assumes "length (path rx) = 64" "pkt_path_hash_count rx * pkt_path_hash_size rx \<le> 64"
    "i < pkt_path_hash_count rx"
  shows "bslice (i * pkt_path_hash_size rx) (pkt_path_hash_size rx) (reverse_path rx) = rev (path_hashes rx) ! i"
proof -
  let ?n = "pkt_path_hash_count rx" and ?hs = "pkt_path_hash_size rx"
  let ?xs = "map (\<lambda>i. bslice ((?n - 1 - i) * ?hs) ?hs (path rx)) [0..<?n]"
  have "length x = ?hs" if x: "x \<in> set ?xs" for x
  proof -
    from x obtain j where j: "j < ?n" "x = bslice ((?n - 1 - j) * ?hs) ?hs (path rx)" by auto
    with hop_inside [of "?n - 1 - j" ?n ?hs] assms show ?thesis by simp
  qed
  then have "bslice (i * ?hs) ?hs (concat ?xs) = ?xs ! i" using assms(3) by (intro bslice_concat) simp_all
  then show ?thesis using assms(3) by (simp add: reverse_path_def Let_def rev_nth nth_path_hashes)
qed

lemma route_back_frame [frame_simps]:
  "header (route_back rx p) = header p" "payload (route_back rx p) = payload p"
  "payload_len (route_back rx p) = payload_len p"
  by (simp_all add: route_back_def Let_def)

lemma route_back_wf_hashes:
  assumes "wf_pkt p" "wf_pkt rx" "path_len p = 0"
  shows "wf_pkt (route_back rx p) \<and> path_hashes (route_back rx p) = rev (path_hashes rx)"
proof -
  let ?n = "pkt_path_hash_count rx" and ?hs = "pkt_path_hash_size rx"
  note hs = wf_hash_size [OF assms(2)] and b = wf_path_bytes [OF assms(2)]
  have P: "length (path rx) = 64" "length (path p) = 64" using assms by (simp_all add: wf_pkt_def)
  show ?thesis
  proof (cases "0 < ?n")
    case False
    with assms show ?thesis by (simp add: route_back_def Let_def path_hashes_def pkt_path_hash_count_def)
  next
    case True
    let ?r = "route_back rx p"
    have r: "path ?r = memcpy_at (path p) 0 (reverse_path rx)"
      "path_len ?r = push_bit 6 (of_nat (?hs - 1) AND 0x03) OR (of_nat ?n AND 0x3F)"
      using True b by (simp_all add: route_back_def Let_def)
    have cs: "pkt_path_hash_count ?r = ?n" "pkt_path_hash_size ?r = ?hs"
      using route_len_parts [of ?hs ?n] hs hash_count_less [of rx]
      by (simp_all add: pkt_path_hash_count_def pkt_path_hash_size_def r(2) unat_of_nat unat_word_ariths
          del: One_nat_def)
    have L: "length (reverse_path rx) = ?n * ?hs" using P(1) b by (rule length_reverse_path)
    have "path_hashes ?r = rev (path_hashes rx)"
    proof (rule nth_equalityI)
      fix i assume "i < length (path_hashes ?r)"
      then have i: "i < ?n" by (simp add: cs)
      have "bslice (i * ?hs) ?hs (path ?r) = bslice (i * ?hs) ?hs (reverse_path rx)"
        unfolding r(1) memcpy_at_def using hop_inside [OF i, of ?hs] L by (simp add: slice_append_left)
      then show "path_hashes ?r ! i = rev (path_hashes rx) ! i"
        using i reverse_path_hash [OF P(1) b i] by (simp add: nth_path_hashes cs)
    qed (simp add: cs)
    moreover have "pkt_valid_path_len (path_len ?r)"
      using cs b hs by (auto simp: pkt_valid_path_len_def pkt_path_hash_count_def pkt_path_hash_size_def Let_def)
    moreover have "length (path ?r) = 64" unfolding r(1) using L b P by simp
    ultimately show ?thesis using assms(1) by (simp add: wf_pkt_def route_back_frame)
  qed
qed

end
