(* ===== verification/Mesh_Tx.thy ===== *)
theory Mesh_Tx
  imports Mesh_Queue
begin

text \<open>
  The transmit side of \<^verbatim>\<open>mesh.c\<close>: \<open>pick_due\<close>, \<open>mon_pkt_tx\<close> and \<open>mesh_service_tx\<close>. The radio's
  answers (CAD, the result of a transmission) come from the world; what is put on air is its
  \<open>Transmit\<close> effects. The order \<open>pick_due\<close> minimises is an instance of \<open>linorder\<close> on the pair of
  priority and due time.
\<close>

section \<open>The most urgent entry\<close>

fun pick_from :: "mesh_tx_entry list \<Rightarrow> u64 \<Rightarrow> nat list \<Rightarrow> nat option \<Rightarrow> nat option" where
  \<comment> \<open>\<open>best\<close> after the loop over the indices\<close>
  "pick_from q now [] best = best"
| "pick_from q now (i # is) best =
     (let e = q ! i in
      if \<not> tx_used e \<or> now < tx_due_ms e then pick_from q now is best
      else (case best of
              None \<Rightarrow> pick_from q now is (Some i)
            | Some b \<Rightarrow>
                if tx_priority e < tx_priority (q ! b)
                   \<or> (tx_priority e = tx_priority (q ! b) \<and> tx_due_ms e < tx_due_ms (q ! b))
                then pick_from q now is (Some i)
                else pick_from q now is best))"

definition pick_due :: "mc_mesh \<Rightarrow> u64 \<Rightarrow> nat option" where
  "pick_due m now = pick_from (txq m) now [0..<length (txq m)] None"

section \<open>Transmitting\<close>

definition tx_detail :: "mc_mesh \<Rightarrow> mc_packet \<Rightarrow> bytes" where
  \<comment> \<open>the \<open>detail\<close> string of \<open>mon_pkt_tx\<close>\<close>
  "tx_detail m p =
     (let pt = pkt_payload_type p in
      if pt = PAYLOAD_TYPE_GRP_TXT \<and> fst (classify_forward m p) = FWD_OK_GRP_PUBLIC then
        (case snd (classify_forward m p) of
           None \<Rightarrow> []
         | Some ch \<Rightarrow>
             (case channel_decrypt ch p MC_MAX_PACKET_PAYLOAD of
                None \<Rightarrow> []
              | Some plain \<Rightarrow>
                  if length plain < 5 then []
                  else snprintf_s 232 ([91] @ (if ch_name ch = [] then [45] else ch_name ch) @ lit ''] ''
                         @ plain_text plain)))
      else if pt = PAYLOAD_TYPE_ADVERT then
        (case mc_advert_extract p 32 of (ty, nm) \<Rightarrow>
           if ty \<noteq> None \<and> nm \<noteq> [] then snprintf_s 232 ([39] @ nm @ [39]) else [])
      else [])"

definition mon_pkt_tx :: "mc_mesh \<Rightarrow> mc_packet \<Rightarrow> nat \<Rightarrow> int \<Rightarrow> u32 \<Rightarrow> mc_mesh" where
  "mon_pkt_tx m p len dbm airtime =
     (if mon m = None \<or> mon m = Some 0 then m
      else mesh_emit (MonTx (payload_type_name (pkt_payload_type p)) (pkt_is_route_flood p) len
             (pkt_path_hash_count p) dbm airtime (tx_detail m p)) m)"

definition silence :: "mc_mesh \<Rightarrow> mc_mesh" where
  \<comment> \<open>the branch of \<open>mesh_service_tx\<close> for a silent hotspot\<close>
  "silence m =
     (let m = (if \<not> hs_silent m then backbone_status_soon (m\<lparr>hs_silent := True\<rparr>) else m);
          n = length (filter tx_used (txq m))
      in bump (\<lambda>s. s\<lparr>tx_silent := tx_silent s + of_nat n\<rparr>)
           (m\<lparr>txq := map (\<lambda>e. if tx_used e then e\<lparr>tx_used := False\<rparr> else e) (txq m)\<rparr>))"

definition transmit :: "mc_mesh \<Rightarrow> mesh_tx_entry \<Rightarrow> bytes \<Rightarrow> mc_mesh" where
  \<comment> \<open>the \<open>if (n > 0)\<close> block\<close>
  "transmit m e raw =
     (let m = mesh_emit (SetTxPower (tx_power_dbm e)) m;
          airtime = sx126x_airtime_ms (w_sx (wld m)) (length raw);
          (rc, w) = sx126x_transmit raw (airtime + 1000) (wld m);
          m = m\<lparr>wld := w\<rparr> in
      if rc = 0 then
        mon_pkt_tx (bump (\<lambda>s. s\<lparr>tx_total := tx_total s + 1,
            tx_airtime_ms := tx_airtime_ms s + ucast airtime\<rparr>) m) (tx_pkt e) (length raw)
          (tx_power_dbm e) airtime
      else mesh_emit RadioReinit
             (bump (\<lambda>s. s\<lparr>tx_failed := tx_failed s + 1, radio_resets := radio_resets s + 1\<rparr>) m))"

definition mesh_service_tx :: "mc_mesh \<Rightarrow> u64 \<Rightarrow> mc_mesh" where
  "mesh_service_tx m now_ms =
     (if mesh_rf_silent m now_ms then silence m
      else (case pick_due m now_ms of
              None \<Rightarrow> m
            | Some idx \<Rightarrow>
                let e = txq m ! idx;
                    (busy, m) = (if use_cad (radio (cfg m))
                                 then (let (b, w) = sx126x_channel_busy (wld m) in (b = 1, m\<lparr>wld := w\<rparr>))
                                 else (False, m)) in
                if busy then
                  let m = bump (\<lambda>s. s\<lparr>tx_cad_busy := tx_cad_busy s + 1\<rparr>) m;
                      (r, m) = mesh_rng 1 4 m
                  in m\<lparr>txq := (txq m)[idx := e\<lparr>tx_due_ms := now_ms + ucast (r * 120)\<rparr>]\<rparr>
                else
                  let m = (case pkt_serialize (tx_pkt e) MC_MAX_TRANS_UNIT of
                             Inr raw \<Rightarrow> if 0 < length raw then transmit m e raw else m
                           | Inl _ \<Rightarrow> m)
                  in m\<lparr>txq := (txq m)[idx := e\<lparr>tx_used := False\<rparr>]\<rparr>))"

end
