(* ===== verification/Mesh_Inv.thy ===== *)
theory Mesh_Inv
  imports Mesh_Path Mesh_Tx
begin

text \<open>
  What every operation of the mesh guarantees. The locale \<open>mesh_rel\<close> is a relation between the
  state before and after that is reflexive, transitive and holds of each atomic update (a
  counter, a clock reading, a random number, a monitor event, the dedup ring, one enqueue, a
  neighbour, \<dots>); inside it the relation is derived for every composite operation up to the
  receive handler, once. Its interpretations give the state invariant, what is never replaced,
  that queued packets are never touched by receiving, and what may be handed to the hub.
\<close>

section \<open>The state invariant\<close>

definition wf_txq :: "mesh_tx_entry list \<Rightarrow> bool" where
  "wf_txq q \<longleftrightarrow> length q = MESH_TXQ_SIZE \<and> (\<forall>e \<in> set q. tx_used e \<longrightarrow> wf_pkt (tx_pkt e))"

definition wf_probe :: "mc_pub_channel \<Rightarrow> int \<Rightarrow> int \<Rightarrow> u32 \<Rightarrow> bool" where
  \<comment> \<open>channel, total, remaining, interval\<close>
  "wf_probe ch t r iv \<longleftrightarrow> length (secret ch) = 32 \<and> 0 \<le> r \<and> r \<le> t \<and> t \<le> MESH_PROBE_MAX_COUNT \<and>
     (0 < r \<longrightarrow> 1000 \<le> iv \<and> iv \<le> 3600000)"

definition wf_mesh :: "mc_mesh \<Rightarrow> bool" where
  "wf_mesh m \<longleftrightarrow> wf_identity (ident m) \<and> wf_config (cfg m) \<and> wf_ring (seen m, seen_idx m) \<and>
     wf_txq (txq m) \<and> wf_neighbors (neighbors m) \<and> length (affinity_hash m) \<le> MC_MAX_AFFINITY \<and>
     wf_probe (probe_ch m) (probe_total m) (probe_remaining m) (probe_interval_ms m) \<and>
     length (secret (tod_ch m)) = 32 \<and> wf_mbox (mbox m) \<and> length (mbox_gate m) = 8"

lemma wf_channel_secret: "wf_mesh m \<Longrightarrow> ch \<in> set (public_channels (cfg m)) \<Longrightarrow> length (secret ch) = 32"
  by (auto simp: wf_mesh_def wf_config_def list_all_iff wf_channel_def)

lemma mesh_init_wf:
  assumes "wf_identity self" "wf_config c"
  shows "wf_mesh (mesh_init self c w)"
  using assms mbox_init_wf [of "\<lparr>mb_e = replicate 32 zero_entry, mb_head = 0, mb_count = 0\<rparr>"]
  by (simp add: mesh_init_def hal_millis_def Let_def wf_mesh_def wf_ring_def wf_txq_def zero_tx_def
      wf_neighbors_def zero_neighbor_def wf_probe_def zero_channel_def)

section \<open>What no operation replaces\<close>

definition keeps :: "mc_mesh \<Rightarrow> mc_mesh \<Rightarrow> bool" where
  "keeps m m' \<longleftrightarrow> ident m' = ident m \<and> cfg m' = cfg m \<and> has_aprs m' = has_aprs m \<and> mon m' = mon m \<and>
     has_bb m' = has_bb m \<and> rx_src m' = rx_src m \<and> start_ms m' = start_ms m \<and>
     w_sx (wld m') = w_sx (wld m)"

lemma keeps_refl [simp, intro]: "keeps m m"
  by (simp add: keeps_def)

lemma keeps_trans: "keeps m m' \<Longrightarrow> keeps m' m'' \<Longrightarrow> keeps m m''"
  by (simp add: keeps_def)

fun local_event :: "effect \<Rightarrow> bool" where
  \<comment> \<open>events for the monitors, the APRS gate and the hub status: nothing goes on air or to the hub\<close>
  "local_event (BackboneOffer _ _) = False"
| "local_event (Transmit _ _) = False"
| "local_event (SetTxPower _) = False"
| "local_event RadioReinit = False"
| "local_event _ = True"

lemma time_tod_ch [frame_simps]: "tod_ch (snd (mesh_time m)) = tod_ch m"
  by (simp add: mesh_time_def split_beta)

lemma time_probe [frame_simps]: "probe_remaining (snd (mesh_time m)) = probe_remaining m"
  by (simp add: mesh_time_def split_beta)

lemma probe_remaining_frame [frame_simps]:
  "probe_remaining (snd (mesh_time m)) = probe_remaining m"
  "probe_remaining (snd (mesh_rng lo hi m)) = probe_remaining m"
  "probe_remaining (seen_note m p) = probe_remaining m"
  "probe_remaining (snd (enqueue m p prio d dbm own)) = probe_remaining m"
  "probe_remaining (bump f m) = probe_remaining m"
proof -
  show "probe_remaining (snd (mesh_time m)) = probe_remaining m" "probe_remaining (snd (mesh_rng lo hi m)) = probe_remaining m"
    "probe_remaining (seen_note m p) = probe_remaining m" "probe_remaining (bump f m) = probe_remaining m" for m
    by (simp_all add: mesh_time_def mesh_rng_def seen_note_def seen_check_and_add_def bump_def split_beta)
  show "probe_remaining (snd (enqueue m p prio d dbm own)) = probe_remaining m"
    by (auto simp: enqueue_def mesh_millis_def mon_pkt_drop_def mon_emit_def mesh_emit_def bump_def offer_raw_def
        split_beta Let_def split: option.split sum.split)
qed

lemma interval_bounds:
  assumes "1 \<le> s" "s \<le> 3600"
  shows "1000 \<le> (word_of_int s * 1000 :: u32) \<and> (word_of_int s * 1000 :: u32) \<le> 3600000"
proof -
  have "uint (word_of_int s :: u32) = s" using assms by (simp add: uint_word_of_int)
  then have "uint (word_of_int s * 1000 :: u32) = s * 1000"
    using assms by (simp add: uint_word_ariths)
  with assms show ?thesis by (simp add: word_le_def)
qed

section \<open>Relations that hold of every operation\<close>

locale mesh_rel =
  fixes R :: "mc_mesh \<Rightarrow> mc_mesh \<Rightarrow> bool"
  assumes refl [simp, intro]: "R m m"
    and trans: "R m m' \<Longrightarrow> R m' m'' \<Longrightarrow> R m m''"
    and keeps: "R m m' \<Longrightarrow> keeps m m'"
    and wf: "R m m' \<Longrightarrow> wf_mesh m \<Longrightarrow> wf_mesh m'"
    and bump: "R m (bump f m)"
    and millis: "R m (snd (mesh_millis m))"
    and clock: "R m (snd (mesh_time m))"
    and rng: "R m (snd (mesh_rng lo hi m))"
    and event: "local_event e \<Longrightarrow> R m (mesh_emit e m)"
    and seen: "R m (snd (seen_check_and_add m h))"
    and enq: "wf_pkt p \<Longrightarrow> R m (snd (enqueue m p prio d dbm own))"
    and neighbor: "R m (neighbor_update m pk p rssi snr)"
    and affinity: "R m (learn_affinity m pk)"
    and wake_fields: "R m (m\<lparr>hs_awake_until_ms := t, hs_woken_by := n\<rparr>)"
    and silent_field: "R m (m\<lparr>hs_silent := b\<rparr>)"
    and advert_field: "R m (m\<lparr>last_advert_ms := t\<rparr>)"
    and probe_fields: "wf_probe ch tot rem iv \<Longrightarrow>
      R m (m\<lparr>probe_ch := ch, probe_interval_ms := iv, probe_total := tot, probe_remaining := rem,
             probe_seq := sq, probe_next_ms := nx\<rparr>)"
    and mbox_field: "wf_mbox mb \<Longrightarrow> R m (m\<lparr>mbox := mb\<rparr>)"
    and gate_field: "length g = 8 \<Longrightarrow> R m (m\<lparr>mbox_gate := g\<rparr>)"
    and tod_fields: "length (secret ch) = 32 \<Longrightarrow>
      R m (m\<lparr>tod_ch := ch, tod_minute := mi, tod_time_pending := a, tod_date_pending := b\<rparr>)"
    and help_field: "R m (m\<lparr>mesh_help_next_ms := t\<rparr>)"
begin

lemma cfg_eq: "R m m' \<Longrightarrow> cfg m' = cfg m"
  using keeps by (auto simp: keeps_def)

lemma step_wf: "R m m' \<Longrightarrow> wf_mesh m \<Longrightarrow> wf_mesh m'"
  by (rule wf)

lemma then_bump: "R m m' \<Longrightarrow> R m (bump f m')"
  using trans bump by blast

lemma then_enq: "R m m' \<Longrightarrow> wf_pkt p \<Longrightarrow> R m (snd (enqueue m' p prio d dbm own))"
  using trans enq by blast

lemma mon_event: "local_event e \<Longrightarrow> R m (mon_emit e m)"
  by (simp add: mon_emit_def event)

lemma drop_event: "R m (mon_pkt_drop m p reason)"
  by (simp add: mon_pkt_drop_def Let_def mon_event)

lemma noted: "R m (seen_note m p)"
  by (simp add: seen_note_def seen)

lemma reply_delay: "R m (snd (reply_delay_ms m))"
  by (simp add: reply_delay_ms_def split_beta rng)

lemma backoff: "R m (snd (flood_backoff_ms m p))"
  by (simp add: flood_backoff_ms_def split_beta Let_def rng)

lemma status: "R m (backbone_status_soon m)"
  by (simp add: backbone_status_soon_def event)

text \<open>The pattern of everything the node originates: note the hash, draw a delay, enqueue.\<close>

lemma originate:
  assumes "wf_pkt p"
  shows "R m (snd (enqueue (snd (reply_delay_ms (seen_note m p))) p prio d dbm own))"
    and "R m (snd (enqueue (snd (mesh_rng lo hi (seen_note m p))) p prio d dbm own))"
  using trans [OF noted trans [OF reply_delay enq [OF assms]]]
    trans [OF noted trans [OF rng enq [OF assms]]] by blast+

lemma send_advert: "wf_mesh m \<Longrightarrow> R m (snd (mesh_send_advert cs m))"
proof -
  assume w: "wf_mesh m"
  let ?m1 = "snd (mesh_millis m)"
  let ?m2 = "snd (mesh_time ?m1)"
  have r2: "R m ?m2" by (rule trans [OF millis clock])
  show ?thesis
  proof (cases "mc_advert_build cs (ident ?m2) (own_advert_info (cfg ?m2)) (of_nat (fst (mesh_time ?m1)))")
    case (Inl e)
    then show ?thesis
      using millis [of m] r2 by (simp add: mesh_send_advert_def split_beta Let_def)
  next
    case (Inr p)
    have "wf_mesh ?m2" using r2 w by (rule wf)
    then have p: "wf_pkt p" using Inr build_wf by (auto simp: wf_mesh_def)
    let ?m4 = "snd (mesh_rng 0 3 (seen_note ?m2 p))"
    let ?m5 = "snd (enqueue ?m4 p 0 (fst (mesh_rng 0 3 (seen_note ?m2 p)) * 50) (own_tx_power ?m4) True)"
    have r5: "R m ?m5" by (rule trans [OF r2 originate(2) [OF p]])
    have "R m ((snd (mesh_millis (bump f ?m5)))\<lparr>last_advert_ms := t\<rparr>)" for f t
      by (rule trans [OF r5 trans [OF bump trans [OF millis advert_field]]])
    then show ?thesis
      using millis [of m] r5 Inr by (simp add: mesh_send_advert_def split_beta Let_def)
  qed
qed

lemma wake: "wf_mesh m \<Longrightarrow> R m (hotspot_wake cs m p who)"
proof -
  assume w: "wf_mesh m"
  let ?m1 = "snd (mesh_millis m)"
  let ?t = "fst (mesh_millis m) + ucast (hotspot_awake (cfg ?m1)) * 1000"
  let ?m2 = "?m1\<lparr>hs_awake_until_ms := ?t, hs_woken_by := snprintf_s 32 who\<rparr>"
  let ?m3 = "?m2\<lparr>hs_silent := False\<rparr>"
  have r2: "R m ?m2" by (rule trans [OF millis wake_fields])
  have r3: "R m ?m3" by (rule trans [OF r2 silent_field])
  have "R m (backbone_status_soon (snd (mesh_send_advert cs ?m3)))"
    by (rule trans [OF r3 trans [OF send_advert status]]) (rule wf [OF r3 w])
  with r2 show ?thesis by (simp add: hotspot_wake_def split_beta Let_def)
qed

lemma built_wf:
  assumes "channel_build_txt ch sender txt ts route = Some p" "length (secret ch) = 32"
  shows "wf_pkt p"
  using assms by (rule build_txt_wf)

text \<open>What a service does with the message it built, after the clock reading.\<close>

lemma sent:
  assumes "channel_build_txt ch sender txt ts route = Some p" "length (secret ch) = 32" "R m m1"
  shows "R m (snd (enqueue (snd (reply_delay_ms (seen_note m1 p))) p prio d dbm own))"
    and "R m (snd (enqueue (snd (mesh_rng lo hi (seen_note m1 p))) p prio d dbm own))"
  using trans [OF assms(3) originate(1)] trans [OF assms(3) originate(2)] built_wf [OF assms(1,2)]
  by blast+

lemma pong: "length (secret ch) = 32 \<Longrightarrow> R m (send_pong m ch rssi snr)"
  unfolding send_pong_def split_beta Let_def
  by (split option.split, intro conjI impI allI)
     (simp_all add: clock then_bump sent(1) [OF _ _ clock])

lemma tod: "length (secret (tod_ch m)) = 32 \<Longrightarrow> R m (send_tod m txt)"
  unfolding send_tod_def split_beta Let_def
  by (split option.split, intro conjI impI allI)
     (simp_all add: clock then_bump sent(2) [OF _ _ clock] time_tod_ch)

lemma help_line: "length (secret ch) = 32 \<Longrightarrow> R m (send_help m ch)"
  unfolding send_help_def split_beta Let_def
  by (split option.split, intro conjI impI allI)
     (simp_all only: clock then_bump sent(1) [OF _ _ clock])

lemma routed_reply:
  assumes "wf_pkt rx" "length (secret ch) = 32"
  shows "R m (snd (send_routed_reply m rx ch txt))"
proof (cases "channel_build_txt ch (cfg_name (cfg (snd (mesh_time m)))) txt (of_nat (fst (mesh_time m))) ROUTE_TYPE_DIRECT")
  case None
  then show ?thesis by (simp add: send_routed_reply_def split_beta Let_def clock)
next
  case (Some p)
  have "wf_pkt (route_back rx p)"
    using route_back_wf_hashes [OF built_wf [OF Some assms(2)] assms(1)] build_txt_header [OF Some] by simp
  then show ?thesis
    using Some by (simp add: send_routed_reply_def split_beta Let_def trans [OF clock originate(1)])
qed

lemma rate_ok_length: "length (snd (mbox_rate_ok g sender now)) = length g"
  by (simp add: mbox_rate_ok_def Let_def split: option.split)

lemma handle_mbox:
  assumes "wf_mesh m" "wf_pkt p" "length (secret ch) = 32"
  shows "R m (snd (mbox_handle m p ch sender body))"
proof -
  have w: "wf_mesh (snd (mesh_time m))" "wf_mesh (snd (mesh_millis m))"
    using assms(1) wf [OF clock] wf [OF millis] by blast+
  have store: "R m (bump f ((snd (mesh_time m))\<lparr>mbox := mbox_store (mbox (snd (mesh_time m))) a b c d\<rparr>))"
    for f a b c d
    by (intro then_bump trans [OF clock mbox_field] mbox_store_wf) (use w in \<open>simp add: wf_mesh_def\<close>)
  let ?m1 = "snd (mesh_millis m)"
  let ?g = "mbox_rate_ok (mbox_gate ?m1) sender (fst (mesh_millis m))"
  have gate: "R m (?m1\<lparr>mbox_gate := snd ?g\<rparr>)"
    by (rule trans [OF millis gate_field]) (use w in \<open>simp add: rate_ok_length wf_mesh_def\<close>)
  have reply: "R m (snd (send_routed_reply (?m1\<lparr>mbox_gate := snd ?g\<rparr>) p ch t))" for t
    by (rule trans [OF gate routed_reply [OF assms(2,3)]])
  show ?thesis
    using store gate reply
    by (cases "mbox_classify body MC_MBOX_CALL")
       (simp_all add: mbox_handle_def split_beta Let_def then_bump)
qed

lemma start_probe:
  assumes "wf_mesh m" "length (secret ch) = 32"
  shows "R m (mesh_start_probe m ch secs count)"
proof (cases "count \<le> 0")
  case True
  have "R m (m\<lparr>probe_ch := probe_ch m, probe_interval_ms := probe_interval_ms m, probe_total := probe_total m,
      probe_remaining := 0, probe_seq := probe_seq m, probe_next_ms := probe_next_ms m\<rparr>)"
    by (rule probe_fields) (use assms(1) in \<open>simp add: wf_mesh_def wf_probe_def\<close>)
  with True show ?thesis by (simp add: mesh_start_probe_def)
next
  case False
  let ?s = "if 3600 < (if secs < 1 then 1 else secs) then 3600 else (if secs < 1 then 1 else secs)"
  let ?c = "if 100 < count then 100 else count"
  have "1000 \<le> (word_of_int ?s * 1000 :: u32) \<and> (word_of_int ?s * 1000 :: u32) \<le> 3600000"
    by (rule interval_bounds) simp_all
  then have "wf_probe ch ?c ?c (word_of_int ?s * 1000)"
    using False assms(2) unfolding wf_probe_def by simp
  then have "R m ((snd (mesh_millis m))\<lparr>probe_ch := ch, probe_interval_ms := word_of_int ?s * 1000,
      probe_total := ?c, probe_remaining := ?c, probe_seq := 0, probe_next_ms := nx\<rparr>)" for nx
    by (intro trans [OF millis probe_fields])
  with False show ?thesis by (simp add: mesh_start_probe_def split_beta Let_def cong: if_cong)
qed

lemma service_tod:
  assumes "wf_mesh m"
  shows "R m (mesh_service_timeofday m)"
proof -
  have set: "R x (x\<lparr>tod_ch := tod_ch x, tod_minute := mi, tod_time_pending := a, tod_date_pending := b\<rparr>)"
    if "wf_mesh x" for x mi a b
    by (rule tod_fields) (use that in \<open>simp add: wf_mesh_def\<close>)
  have send: "R x ((send_tod x t)\<lparr>tod_time_pending := a\<rparr>)" "R x ((send_tod x t)\<lparr>tod_date_pending := b\<rparr>)"
    if "wf_mesh x" for x t a b
  proof -
    have r: "R x (send_tod x t)" by (rule tod) (use that in \<open>simp add: wf_mesh_def\<close>)
    note s = set [OF wf [OF r that]]
    show "R x ((send_tod x t)\<lparr>tod_time_pending := a\<rparr>)"
      using trans [OF r s [where mi = "tod_minute (send_tod x t)" and a = a and b = "tod_date_pending (send_tod x t)"]] by simp
    show "R x ((send_tod x t)\<lparr>tod_date_pending := b\<rparr>)"
      using trans [OF r s [where mi = "tod_minute (send_tod x t)" and a = "tod_time_pending (send_tod x t)" and b = b]] by simp
  qed
  have min: "R m ((snd (mesh_time m))\<lparr>tod_minute := mi\<rparr>)" for mi
    using trans [OF clock set [OF wf [OF clock assms], where mi = mi and a = "tod_time_pending (snd (mesh_time m))"
        and b = "tod_date_pending (snd (mesh_time m))"]] by simp
  have one: "R m (if c then (send_tod x t)\<lparr>tod_time_pending := a\<rparr> else x)" if "R m x" for x c t a
    using that trans [OF that send(1) [OF wf [OF that assms]]] by simp
  have two: "R m (if c then (send_tod x t)\<lparr>tod_date_pending := a\<rparr> else x)" if "R m x" for x c t a
    using that trans [OF that send(2) [OF wf [OF that assms]]] by simp
  have either: "R m a \<Longrightarrow> R m b \<Longrightarrow> R m (if c then a else b)" for a b c by simp
  show ?thesis
    unfolding mesh_service_timeofday_def split_beta Let_def
    by (rule either, rule refl, rule either, rule clock, rule two, rule one, rule min)
qed

lemma service_probe:
  assumes "wf_mesh m"
  shows "R m (mesh_service_probe m now)"
proof -
  have set: "R x (x\<lparr>probe_remaining := rem, probe_seq := sq, probe_next_ms := nx\<rparr>)"
    if "wf_mesh x" "0 \<le> rem" "rem \<le> probe_remaining x" for x sq rem nx
    using probe_fields [of "probe_ch x" "probe_total x" rem "probe_interval_ms x" x nx sq] that
    by (simp add: wf_mesh_def wf_probe_def)
  let ?m1 = "m\<lparr>probe_seq := probe_seq m + 1\<rparr>"
  let ?m2 = "snd (mesh_time ?m1)"
  have r1: "R m ?m1"
    using set [OF assms, where rem = "probe_remaining m" and sq = "probe_seq m + 1" and nx = "probe_next_ms m"] assms
    by (simp add: wf_mesh_def wf_probe_def)
  have r2: "R m ?m2" by (rule trans [OF r1 clock])
  have w: "wf_mesh ?m2" using r2 assms by (rule wf)
  have sec: "length (secret (probe_ch ?m2)) = 32" using w by (simp add: wf_mesh_def wf_probe_def)
  let ?send = "\<lambda>tx. case channel_build_txt (probe_ch ?m2) (cfg_name (cfg ?m2)) tx (of_nat (fst (mesh_time ?m1)))
      ROUTE_TYPE_FLOOD of None \<Rightarrow> ?m2
    | Some p \<Rightarrow> bump (\<lambda>s. s\<lparr>probes_sent := probes_sent s + 1\<rparr>)
        (snd (enqueue (snd (mesh_rng 0 3 (seen_note ?m2 p))) p 1 (fst (mesh_rng 0 3 (seen_note ?m2 p)) * 50)
          (own_tx_power (snd (mesh_rng 0 3 (seen_note ?m2 p)))) True))"
  have r3: "R m (?send tx)" for tx
    by (split option.split, intro conjI impI allI) (simp_all only: r2 then_bump sent(2) [OF _ sec r2])
  have rem: "probe_remaining (?send tx) = probe_remaining m" for tx
    by (simp add: probe_remaining_frame split: option.split)
  have set': "R x (x\<lparr>probe_remaining := rem, probe_next_ms := nx\<rparr>)"
    if "wf_mesh x" "0 \<le> rem" "rem \<le> probe_remaining x" for x rem nx
    using set [OF that, where sq = "probe_seq x"] by simp
  have r4: "R m ((?send tx)\<lparr>probe_remaining := probe_remaining m - 1, probe_next_ms := nx\<rparr>)"
    if "0 < probe_remaining m" for tx nx
  proof (rule trans [OF r3 set' [OF wf [OF r3 assms]]])
    show "0 \<le> probe_remaining m - 1" using that by simp
    show "probe_remaining m - 1 \<le> probe_remaining (?send tx)" unfolding rem by simp
  qed
  show ?thesis
  proof (cases "probe_remaining m \<le> 0 \<or> now < probe_next_ms m")
    case True
    then show ?thesis by (simp add: mesh_service_probe_def)
  next
    case go: False
    have "R m (m\<lparr>probe_remaining := 0\<rparr>)"
      using set [where x = m and rem = 0 and sq = "probe_seq m" and nx = "probe_next_ms m"] assms by (simp add: wf_mesh_def wf_probe_def)
    then show ?thesis
      using go r4 rem unfolding mesh_service_probe_def split_beta Let_def
      by (cases "mesh_rf_silent m now") simp_all
  qed
qed

lemma command:
  assumes "wf_mesh m" "wf_pkt p" "length (secret ch) = 32"
  shows "R m (snd (grp_command m p ch sender body))"
proof -
  have arm: "R m (tod_arm m ch a b)" for a b
  proof -
    have "R x (x\<lparr>tod_ch := ch, tod_time_pending := c, tod_date_pending := d\<rparr>)" for x c d
      using tod_fields [OF assms(3), where m = x and mi = "tod_minute x" and a = c and b = d] by simp
    moreover have "R m (if c then (snd (mesh_time m))\<lparr>tod_minute := mi\<rparr> else m)" for c mi
    proof -
      have "wf_mesh (snd (mesh_time m))" using wf [OF clock assms(1)] .
      then have "R (snd (mesh_time m)) ((snd (mesh_time m))\<lparr>tod_minute := mi\<rparr>)"
        using tod_fields [where ch = "tod_ch (snd (mesh_time m))" and m = "snd (mesh_time m)" and mi = mi
          and a = "tod_time_pending (snd (mesh_time m))" and b = "tod_date_pending (snd (mesh_time m))"]
        by (simp add: wf_mesh_def)
      then show ?thesis using trans [OF clock] by simp
    qed
    ultimately show ?thesis unfolding tod_arm_def split_beta Let_def by (rule trans [rotated])
  qed
  have helped: "R m ((send_help (snd (mesh_millis m)) ch)\<lparr>mesh_help_next_ms := t\<rparr>)" for t
    by (rule trans [OF millis trans [OF help_line [OF assms(3)] help_field]])
  have pinged: "R m (send_pong (bump f m) ch r s)" for f r s
    by (rule trans [OF bump pong [OF assms(3)]])
  have c: "R m (snd (if b then x else y))" if "R m (snd x)" "R m (snd y)"
    for b and x y :: "bool \<times> mc_mesh" using that by simp
  have i: "R m (if b then x else y)" if "R m x" "R m y" for b x y using that by simp
  have s: "R m (snd (b, x))" if "R m x" for b :: bool and x using that by simp
  have o: "R m (snd (case q of None \<Rightarrow> z | Some y \<Rightarrow> f y))" if "R m (snd z)" "\<And>y. R m (snd (f y))"
    for q :: "(int \<times> int) option" and z :: "bool \<times> mc_mesh" and f using that by (cases q) simp_all
  show ?thesis
    unfolding grp_command_def Let_def split_beta
    by (intro c i s o refl pinged bump arm helped millis start_probe [OF assms(1,3)] handle_mbox [OF assms])
qed

lemma public_grp:
  assumes "wf_mesh m" "wf_pkt p" "length (secret ch) = 32"
  shows "R m (snd (snd (process_public_grp cs m p ch)))"
proof -
  have w: "R m (mon_emit (MonPublic a b c d) (hotspot_wake cs m p s))" for a b c d s
    by (rule trans [OF wake [OF assms(1)] mon_event]) simp
  have "R m (snd (grp_command (mon_emit (MonPublic a b c d) (hotspot_wake cs m p s)) p ch s body))"
    for a b c d s body
    by (rule trans [OF w command]) (use assms wf [OF w] in blast)+
  moreover have "R m (mon_pkt_drop (bump f m) p r)" for f r by (rule trans [OF bump drop_event])
  ultimately show ?thesis
    using w by (simp add: process_public_grp_def split_beta Let_def split: option.split)
qed

lemma relayed: "wf_pkt p \<Longrightarrow> R m (snd (relay m p dbm))"
proof -
  assume p: "wf_pkt p"
  have f: "R m (snd (enqueue (snd (flood_backoff_ms m q)) q a d dbm False))" if "wf_pkt q" for q a d
    by (rule trans [OF backoff enq [OF that]])
  have d: "R m (mon_pkt_drop (bump g m) p r)" for g r by (rule trans [OF bump drop_event])
  show ?thesis
    unfolding relay_def Let_def split_beta
    using f [OF append_hash_wf [OF p]] d enq [OF strip_hash_wf [OF p]] then_bump by simp
qed

lemma denied: "R m (deny m p d)"
  unfolding deny_def Let_def by (rule trans [OF _ drop_event]) (auto intro: then_bump bump)

lemma scoped: "wf_pkt p \<Longrightarrow> R m (snd (recv_scope m p a g))"
  by (simp add: recv_scope_def split_beta relayed drop_event)

lemma region_noted: "R m (note_region m p)"
  unfolding note_region_def Let_def
  by (auto split: option.split intro: bump trans [OF bump mon_event])

lemma forwarded:
  assumes "wf_mesh m" "wf_pkt p"
  shows "R m (snd (recv_forward cs m p aname))"
proof (cases "classify_forward m p")
  case (Pair d oc)
  have pub: "R m (snd (snd (process_public_grp cs m p ch)))" if "oc = Some ch" for ch
    using that Pair assms classify_matched(2) [OF Pair] by (intro public_grp wf_channel_secret) auto
  have ps: "R m (snd (recv_scope (bump f (snd (snd (process_public_grp cs m p ch)))) p aname s))"
    if "oc = Some ch" for ch f s
    by (rule trans [OF then_bump [OF pub [OF that]] scoped [OF assms(2)]])
  have rs: "R m (snd (recv_scope (note_region m p) p aname []))"
    by (rule trans [OF region_noted scoped [OF assms(2)]])
  show ?thesis
    unfolding recv_forward_def Pair
    by (auto simp: split_beta denied pub ps rs scoped [OF assms(2)] split: fwd_decision.split option.split)
qed

lemma accepted:
  assumes "wf_mesh m" shows "R m (advert_accept cs m p pk aname atype)"
proof -
  have "R m (neighbor_update (bump f m) pk p a b)" for f a b by (rule trans [OF bump neighbor])
  then have 1: "R m (if c then learn_affinity (neighbor_update (bump f m) pk p a b) pk
      else neighbor_update (bump f m) pk p a b)" for c f a b
    using trans [OF _ affinity] by simp
  have 2: "R m (if d then hotspot_wake cs x p aname else x)" if "R m x" for d x
    using that trans [OF that wake [OF wf [OF that assms]]] by simp
  have 3: "R m (mon_emit (MonAdvert a b c d e) x)" if "R m x" for a b c d e x
    by (rule trans [OF that mon_event]) simp
  have 4: "R m (gate_node x a b c d)" if "R m x" for x a b c d
    unfolding gate_node_def split_beta Let_def
    by (rule trans [OF that trans [OF millis event]]) simp
  have c: "R m (if b then x else y)" if "b \<Longrightarrow> R m x" "\<not> b \<Longrightarrow> R m y" for b x y using that by simp
  have o: "R m (case l of None \<Rightarrow> x | Some y \<Rightarrow> f y)" if "R m x" "\<And>y. R m (f y)" for l x f
    using that by (cases l) simp_all
  show ?thesis unfolding advert_accept_def Let_def by (intro c o 4 3 2 1 refl)
qed

lemma advert:
  assumes "wf_mesh m" shows "R m (snd (recv_advert cs co m p))"
proof -
  have d: "R m (mon_pkt_drop (bump f m) p r)" for f r by (rule trans [OF bump drop_event])
  then show ?thesis
    by (simp add: recv_advert_def split_beta accepted [OF assms] drop_event split: option.split)
qed

lemma typed:
  assumes "wf_mesh m" "wf_pkt p" shows "R m (snd (recv_typed cs co m p))"
proof -
  let ?m = "if rx_src m \<noteq> MESH_SRC_BACKBONE \<and> pkt_route_type p = ROUTE_TYPE_TRANSPORT_FLOOD
    then bump (\<lambda>s. s\<lparr>rx_transport_flood := rx_transport_flood s + 1\<rparr>) m else m"
  have r: "R m ?m" by (simp add: bump)
  have w: "wf_mesh ?m" using r assms(1) by (rule wf)
  have a: "R m (snd (recv_advert cs co ?m p))" by (rule trans [OF r advert [OF w]])
  have af: "R m (snd (recv_forward cs (snd (recv_advert cs co ?m p)) p nm))" for nm
    by (rule trans [OF a forwarded [OF wf [OF a assms(1)] assms(2)]])
  have f: "R m (snd (recv_forward cs ?m p nm))" for nm by (rule trans [OF r forwarded [OF w assms(2)]])
  have t: "R m (mon_pkt_drop (if c then bump g ?m else ?m) p x)" for c g x
    by (rule trans [OF r trans [OF _ drop_event]]) (simp add: bump)
  have o: "R m (snd (case y of (None, z) \<Rightarrow> (MESH_RX_POLICY, z) | (Some nm, z) \<Rightarrow> recv_forward cs z p nm))"
    if "y = recv_advert cs co ?m p" for y
    using that a af by (auto split: prod.split option.split)
  show ?thesis unfolding recv_typed_def Let_def using o f t by simp
qed

lemma on_recv:
  assumes "wf_mesh m" shows "R m (snd (mesh_on_recv cs co m raw rssi snr))"
proof -
  have d: "R m (mon_pkt_drop x p r)" if "R m x" for x p r by (rule trans [OF that drop_event])
  have e: "R m (mon_emit (MonDrop u v w) x)" if "R m x" for u v w x by (rule trans [OF that mon_event]) simp
  have s: "R m (snd (seen_check_and_add x h))" if "R m x" for x h by (rule trans [OF that seen])
  have t: "R m (snd (recv_typed cs co x p))" if "R m x" "wf_pkt p" for x p
    by (rule trans [OF that(1) typed [OF wf [OF that(1) assms] that(2)]])
  have p: "wf_pkt (q\<lparr>rssi_dbm := rssi, snr_q := snr\<rparr>)" if "pkt_parse raw = Inr q" for q
    using pkt_parse_wf [OF that] by (simp add: wf_pkt_def)
  show ?thesis
    unfolding mesh_on_recv_def Let_def split_beta
    by (cases "pkt_parse raw") (auto simp: p intro!: then_bump d e s t)
qed

end

section \<open>The relation the model satisfies\<close>

definition hub_allowed :: "mc_mesh \<Rightarrow> effect \<Rightarrow> bool" where
  \<comment> \<open>an event of a receive-side operation: local, or an offer of a frame that was not the hub's\<close>
  "hub_allowed m e \<longleftrightarrow> local_event e \<or>
     (\<exists>raw own. e = BackboneOffer raw own \<and> has_bb m \<and> rx_src m \<noteq> MESH_SRC_BACKBONE)"

definition queue_kept :: "mesh_tx_entry list \<Rightarrow> mesh_tx_entry list \<Rightarrow> bool" where
  "queue_kept q q' \<longleftrightarrow> length q' = length q \<and> (\<forall>i < length q. tx_used (q ! i) \<longrightarrow> q' ! i = q ! i)"

definition outs_grow :: "mc_mesh \<Rightarrow> mc_mesh \<Rightarrow> bool" where
  "outs_grow m m' \<longleftrightarrow>
     (\<exists>es. w_out (wld m') = w_out (wld m) @ es \<and> list_all (hub_allowed m) es)"

definition evolves :: "mc_mesh \<Rightarrow> mc_mesh \<Rightarrow> bool" where
  "evolves m m' \<longleftrightarrow> keeps m m' \<and> (wf_mesh m \<longrightarrow> wf_mesh m') \<and> queue_kept (txq m) (txq m') \<and> outs_grow m m'"

lemma outs_grow_same: "w_out (wld m') = w_out (wld m) \<Longrightarrow> outs_grow m m'"
  by (simp add: outs_grow_def)

lemma queue_kept_refl: "queue_kept q q"
  by (simp add: queue_kept_def)

lemma outs_grow_trans:
  assumes "keeps m m'" "outs_grow m m'" "outs_grow m' m''"
  shows "outs_grow m m''"
proof -
  obtain es es' where e: "w_out (wld m') = w_out (wld m) @ es" "list_all (hub_allowed m) es"
    "w_out (wld m'') = w_out (wld m') @ es'" "list_all (hub_allowed m') es'"
    using assms(2,3) by (auto simp: outs_grow_def)
  have "hub_allowed m' = hub_allowed m" using assms(1) by (auto simp: fun_eq_iff hub_allowed_def keeps_def)
  then have "w_out (wld m'') = w_out (wld m) @ es @ es'" "list_all (hub_allowed m) (es @ es')" using e by simp_all
  then show ?thesis unfolding outs_grow_def by blast
qed

lemma evolves_trans:
  assumes "evolves m m'" "evolves m' m''"
  shows "evolves m m''"
proof -
  have "outs_grow m m''" using assms outs_grow_trans unfolding evolves_def by blast
  moreover have "queue_kept (txq m) (txq m'')" using assms by (simp add: evolves_def queue_kept_def)
  ultimately show ?thesis using assms keeps_trans unfolding evolves_def by blast
qed

text \<open>An update of fields that neither the queue nor the effects depend on.\<close>

lemma evolves_field:
  assumes "keeps m m'" "txq m' = txq m" "w_out (wld m') = w_out (wld m)" "wf_mesh m \<Longrightarrow> wf_mesh m'"
  shows "evolves m m'"
  using assms by (simp add: evolves_def queue_kept_refl outs_grow_same)

lemma emit_evolves: "hub_allowed m e \<Longrightarrow> evolves m (mesh_emit e m)"
  by (auto simp: evolves_def keeps_def mesh_emit_def emit_def queue_kept_refl outs_grow_def wf_mesh_def)

lemma enqueue_cases:
  obtains (silent) m' where "evolves m m'" "txq m' = txq m" "enqueue m p prio d dbm own = (False, m')"
    | (queued) i where "i < length (txq m)" "\<not> tx_used (txq m ! i)" 
        "enqueue m p prio d dbm own =
          (True, offer_raw ((snd (mesh_millis m))\<lparr>txq := (txq m)[i := \<lparr>tx_used = True, tx_pkt = p,
             tx_due_ms = fst (mesh_millis m) + ucast d, tx_priority = prio, tx_power_dbm = dbm\<rparr>]\<rparr>) p own)"
    | (full) m' where "evolves m m'" "txq m' = txq m" "enqueue m p prio d dbm own = (False, m')"
        "\<forall>e \<in> set (txq m). tx_used e"
proof -
  let ?m1 = "snd (mesh_millis m)" and ?now = "fst (mesh_millis m)"
  have ev: "evolves m (bump f ?m1)" for f
    by (rule evolves_field)
       (auto simp: keeps_def mesh_millis_def hal_millis_def bump_def split_beta Let_def wf_mesh_def)
  have q: "txq ?m1 = txq m" by (simp add: mesh_millis_def split_beta)
  show thesis
  proof (cases "mesh_rf_silent ?m1 ?now")
    case True
    let ?m2 = "mon_pkt_drop (bump (\<lambda>s. s\<lparr>tx_silent := tx_silent s + 1\<rparr>) ?m1) p
      (lit ''hotspot: RF silent (no companion heard)'')"
    have "evolves (bump f ?m1) (mon_pkt_drop (bump f ?m1) p r)" for f r
      by (auto simp: mon_pkt_drop_def Let_def mon_emit_def hub_allowed_def intro!: emit_evolves evolves_field)
    then have "evolves m ?m2" using evolves_trans [OF ev] by blast
    moreover have "txq ?m2 = txq m"
      by (simp add: mon_pkt_drop_def Let_def mon_emit_def mesh_emit_def q bump_def del: lit_simps)
    moreover have "enqueue m p prio d dbm own = (False, ?m2)"
      using True by (simp add: enqueue_def split_beta Let_def del: lit_simps)
    ultimately show thesis by (rule silent)
  next
    case False
    show thesis
    proof (cases "find_index (\<lambda>e. \<not> tx_used e) (txq m)")
      case None
      then have u: "\<forall>e \<in> set (txq m). tx_used e" by (simp add: find_index_None)
      have "enqueue m p prio d dbm own = (False, bump (\<lambda>s. s\<lparr>tx_queue_full := tx_queue_full s + 1\<rparr>) ?m1)"
        using False None by (simp add: enqueue_def split_beta Let_def q)
      then show thesis by (intro full [OF ev _ _ u]) (simp_all add: q bump_def)
    next
      case (Some i)
      then have "i < length (txq m)" "\<not> tx_used (txq m ! i)" by (auto simp: find_index_Some)
      with queued [of i] False Some show thesis by (simp add: enqueue_def split_beta Let_def q)
    qed
  qed
qed

lemma offer_raw_evolves: "evolves m (offer_raw m p own)"
proof (cases "has_bb m \<and> rx_src m \<noteq> MESH_SRC_BACKBONE")
  case True
  then have "hub_allowed m (BackboneOffer raw own)" for raw by (simp add: hub_allowed_def)
  then show ?thesis
    using True by (auto simp: offer_raw_def emit_evolves intro!: evolves_field split: sum.split)
qed (auto simp: offer_raw_def intro: evolves_field)

lemma queue_entry_evolves:
  assumes "i < length (txq m)" "\<not> tx_used (txq m ! i)" "wf_pkt (tx_pkt e)"
  shows "evolves m (m\<lparr>txq := (txq m)[i := e]\<rparr>)"
proof -
  have "queue_kept (txq m) ((txq m)[i := e])"
    using assms by (auto simp: queue_kept_def nth_list_update)
  moreover have "wf_txq (txq m) \<Longrightarrow> wf_txq ((txq m)[i := e])"
    using assms(3) by (auto simp: wf_txq_def dest: set_list_update_other)
  ultimately show ?thesis by (simp add: evolves_def keeps_def outs_grow_same wf_mesh_def)
qed

lemma clocks_evolve: 
  "evolves m (snd (mesh_millis m))" "evolves m (snd (mesh_time m))" "evolves m (snd (mesh_rng lo hi m))"
  by (auto simp: mesh_millis_def mesh_time_def mesh_rng_def hal_millis_def time_now_def hal_rng_int_def
      xorshift64_def split_beta Let_def keeps_def wf_mesh_def intro!: evolves_field)

lemma enqueue_evolves:
  assumes "wf_pkt p" shows "evolves m (snd (enqueue m p prio d dbm own))"
proof (cases rule: enqueue_cases [of m p prio d dbm own])
  case (queued i)
  let ?m1 = "snd (mesh_millis m)"
  have q: "txq ?m1 = txq m" by (simp add: mesh_millis_def split_beta)
  let ?e = "\<lparr>tx_used = True, tx_pkt = p, tx_due_ms = fst (mesh_millis m) + ucast d, tx_priority = prio,
    tx_power_dbm = dbm\<rparr>"
  have "evolves ?m1 (?m1\<lparr>txq := (txq ?m1)[i := ?e]\<rparr>)"
    by (rule queue_entry_evolves) (use queued q assms in simp_all)
  then show ?thesis
    unfolding queued snd_conv
    using evolves_trans [OF clocks_evolve(1) evolves_trans [OF _ offer_raw_evolves]] q by metis
qed simp_all

lemma seen_evolves: "evolves m (snd (seen_check_and_add m h))"
proof (rule evolves_field)
  show "wf_mesh m \<Longrightarrow> wf_mesh (snd (seen_check_and_add m h))"
    using ring_admit_wf [of "(seen m, seen_idx m)" h]
    by (auto simp: wf_mesh_def seen_check_and_add_def split_beta)
qed (auto simp: seen_check_and_add_def split_beta keeps_def)

lemma neighbor_evolves: "evolves m (neighbor_update m pk p rssi snr)"
proof (rule neighbor_update_neighbors [of m pk p rssi snr])
  fix i n
  assume u: "neighbor_update m pk p rssi snr = (snd (mesh_time m))\<lparr>neighbors := (neighbors m)[i := n]\<rparr>"
  show ?thesis
  proof (rule evolves_field)
    assume "wf_mesh m"
    then have "wf_neighbors (neighbors (neighbor_update m pk p rssi snr))"
      by (intro neighbor_update_wf) (simp add: wf_mesh_def)
    with \<open>wf_mesh m\<close> show "wf_mesh (neighbor_update m pk p rssi snr)"
      unfolding u by (simp add: wf_mesh_def mesh_time_def split_beta)
  qed (simp_all add: u keeps_def mesh_time_def time_now_def split_beta)
next
  assume "neighbors m = []"
  then have "\<not> wf_mesh m" by (simp add: wf_mesh_def wf_neighbors_def)
  then show ?thesis
    by (intro evolves_field)
       (auto simp: neighbor_update_def keeps_def mesh_time_def time_now_def split_beta Let_def split: option.split)
qed

interpretation mesh: mesh_rel evolves
proof
  fix m m' m'' :: mc_mesh
  show "evolves m m" by (rule evolves_field) simp_all
  show "evolves m m' \<Longrightarrow> evolves m' m'' \<Longrightarrow> evolves m m''" by (rule evolves_trans)
  show "evolves m m' \<Longrightarrow> keeps m m'" "evolves m m' \<Longrightarrow> wf_mesh m \<Longrightarrow> wf_mesh m'" by (simp_all add: evolves_def)
  show "evolves m (bump f m)" for f by (rule evolves_field) (simp_all add: bump_def keeps_def wf_mesh_def)
  show "evolves m (mesh_emit e m)" if "local_event e" for e
    using that by (intro emit_evolves) (simp add: hub_allowed_def)
  show "evolves m (learn_affinity m pk)" for pk
    by (rule evolves_field) (auto simp: learn_affinity_def keeps_def wf_mesh_def)
qed (auto simp: clocks_evolve enqueue_evolves seen_evolves neighbor_evolves keeps_def wf_mesh_def
    intro!: evolves_field)

end
