(* ===== verification/Mesh_Facts.thy ===== *)
theory Mesh_Facts
  imports Mesh_Inv
begin

text \<open>
  The lemmas behind the properties of the mesh: what each disposition of the receive handler
  implies, what one relay puts into the queue, what a frame from the hub leaves alone, and the
  order \<open>pick_due\<close> minimises.
\<close>

section \<open>The receive metadata does not matter to the policy\<close>

lemma meta_fields [simp]:
  "pkt_payload_type (p\<lparr>rssi_dbm := a, snr_q := b\<rparr>) = pkt_payload_type p"
  "pkt_route_type (p\<lparr>rssi_dbm := a, snr_q := b\<rparr>) = pkt_route_type p"
  "pkt_path_hash_count (p\<lparr>rssi_dbm := a, snr_q := b\<rparr>) = pkt_path_hash_count p"
  "pkt_path_hash_size (p\<lparr>rssi_dbm := a, snr_q := b\<rparr>) = pkt_path_hash_size p"
  "pkt_is_route_flood (p\<lparr>rssi_dbm := a, snr_q := b\<rparr>) = pkt_is_route_flood p"
  "channel_mac_ok ch (p\<lparr>rssi_dbm := a, snr_q := b\<rparr>) = channel_mac_ok ch p"
  "wf_pkt (p\<lparr>rssi_dbm := a, snr_q := b\<rparr>) = wf_pkt p"
  "path_hashes (p\<lparr>rssi_dbm := a, snr_q := b\<rparr>) = path_hashes p"
  by (simp_all add: pkt_payload_type_def pkt_route_type_def pkt_path_hash_count_def
      pkt_path_hash_size_def pkt_is_route_flood_def channel_mac_ok_def wf_pkt_def path_hashes_def)

lemma meta_hash [simp]: "pkt_calc_hash (p\<lparr>rssi_dbm := a, snr_q := b\<rparr>) = pkt_calc_hash p"
  by (simp add: pkt_calc_hash_def Let_def)

lemma meta_public [simp]: "provably_public m (p\<lparr>rssi_dbm := a, snr_q := b\<rparr>) = provably_public m p"
  by (simp add: provably_public_def)

lemma meta_advert [simp]:
  "mc_advert_verify co (p\<lparr>rssi_dbm := a, snr_q := b\<rparr>) = mc_advert_verify co p"
  "mc_advert_extract (p\<lparr>rssi_dbm := a, snr_q := b\<rparr>) n = mc_advert_extract p n"
  by (simp_all add: mc_advert_verify_def mc_advert_extract_def advert_app_def Let_def)

lemma public_cong: "cfg m' = cfg m \<Longrightarrow> provably_public m' p = provably_public m p"
  by (simp add: provably_public_def)

section \<open>Relaying\<close>

definition relayed_copy :: "mc_mesh \<Rightarrow> mc_packet \<Rightarrow> mc_packet" where
  \<comment> \<open>what a relay transmits of \<open>p\<close>\<close>
  "relayed_copy m p = (if pkt_is_route_flood p then append_hash m p else strip_hash p)"

definition relay_ok :: "mc_mesh \<Rightarrow> mc_packet \<Rightarrow> bool" where
  \<comment> \<open>the node is a hop for \<open>p\<close>\<close>
  "relay_ok m p \<longleftrightarrow>
     (if pkt_is_route_flood p
      then \<not> marked_dnr p \<and> (pkt_path_hash_count p + 1) * pkt_path_hash_size p \<le> 64
      else 1 \<le> pkt_path_hash_count p \<and> mc_identity_hash_match (ident m) (path p) (pkt_path_hash_size p))"

lemma offer_raw_txq [simp]: "txq (offer_raw m p own) = txq m"
  by (simp add: offer_raw_def mesh_emit_def split: sum.split)

lemma drop_txq [simp]: "txq (mon_pkt_drop m p r) = txq m"
  by (simp add: mon_pkt_drop_def Let_def mon_emit_def mesh_emit_def)

lemma mon_txq [simp]: "txq (mon_emit e m) = txq m" "txq (bump f m) = txq m"
  by (simp_all add: mon_emit_def mesh_emit_def bump_def)

lemma backoff_txq [simp]: "txq (snd (flood_backoff_ms m p)) = txq m" "ident (snd (flood_backoff_ms m p)) = ident m"
  by (simp_all add: flood_backoff_ms_def mesh_rng_def split_beta Let_def)

text \<open>One enqueue fills one free slot, or leaves the queue alone.\<close>

lemma enqueue_slot:
  assumes "enqueue m p prio d dbm own = (ok, m')"
  shows "\<not> ok \<Longrightarrow> txq m' = txq m"
    and "ok \<Longrightarrow> \<exists>i due. i < length (txq m) \<and> \<not> tx_used (txq m ! i) \<and>
      txq m' = (txq m)[i := \<lparr>tx_used = True, tx_pkt = p, tx_due_ms = due, tx_priority = prio, tx_power_dbm = dbm\<rparr>]"
  using assms by (cases rule: enqueue_cases [of m p prio d dbm own]; auto)+

lemma relay_result:
  assumes "relay m p dbm = (r, m')"
  shows "r = MESH_RX_FORWARDED \<or> r = MESH_RX_LOCAL"
    and "r = MESH_RX_FORWARDED \<Longrightarrow> relay_ok m p \<and> (\<exists>i due. i < length (txq m) \<and> \<not> tx_used (txq m ! i) \<and>
      txq m' = (txq m)[i := \<lparr>tx_used = True, tx_pkt = relayed_copy m p, tx_due_ms = due,
        tx_priority = (if pkt_is_route_flood p then pkt_path_hash_count p + 1 else 0), tx_power_dbm = dbm\<rparr>])"
    and "r \<noteq> MESH_RX_FORWARDED \<Longrightarrow> txq m' = txq m"
proof -
  let ?n = "pkt_path_hash_count p"
  obtain d m1 where b: "flood_backoff_ms m (append_hash m p) = (d, m1)" by (cases "flood_backoff_ms m (append_hash m p)")
  then have m1: "txq m1 = txq m" using backoff_txq [of m "append_hash m p"] by simp
  obtain ok m2 where e: "enqueue m1 (append_hash m p) (?n + 1) d dbm False = (ok, m2)" by fastforce
  obtain ok' m3 where e': "enqueue m (strip_hash p) 0 0 dbm False = (ok', m3)" by fastforce
  note s = enqueue_slot [OF e] enqueue_slot [OF e']
  show "r = MESH_RX_FORWARDED \<or> r = MESH_RX_LOCAL"
    using assms b e e' by (auto simp: relay_def Let_def split: if_splits)
  show "r = MESH_RX_FORWARDED \<Longrightarrow> relay_ok m p \<and> (\<exists>i due. i < length (txq m) \<and> \<not> tx_used (txq m ! i) \<and>
      txq m' = (txq m)[i := \<lparr>tx_used = True, tx_pkt = relayed_copy m p, tx_due_ms = due,
        tx_priority = (if pkt_is_route_flood p then ?n + 1 else 0), tx_power_dbm = dbm\<rparr>])"
  proof (cases "pkt_is_route_flood p")
    case True
    assume r: "r = MESH_RX_FORWARDED"
    have ok: "relay_ok m p" "ok" "txq m' = txq m2"
      using True r assms b e by (auto simp: relay_def Let_def relay_ok_def split: if_splits)
    then show ?thesis using s(2) True m1 by (simp add: relayed_copy_def)
  next
    case False
    assume r: "r = MESH_RX_FORWARDED"
    have ok: "relay_ok m p" "ok'" "txq m' = txq m3"
      using False r assms e' by (auto simp: relay_def Let_def relay_ok_def split: if_splits)
    then show ?thesis using s(4) False by (simp add: relayed_copy_def)
  qed
  show "r \<noteq> MESH_RX_FORWARDED \<Longrightarrow> txq m' = txq m"
    using assms b e e' s m1 by (auto simp: relay_def Let_def split: if_splits)
qed

text \<open>A relay does not change what the packet is hashed by (a trace is never relayed).\<close>

lemma relay_keeps_hash:
  assumes "pkt_payload_type p \<noteq> PAYLOAD_TYPE_TRACE"
  shows "pkt_calc_hash (relayed_copy m p) = pkt_calc_hash p"
proof -
  have h: "header (relayed_copy m p) = header p" "payload (relayed_copy m p) = payload p"
    "payload_len (relayed_copy m p) = payload_len p"
    by (simp_all add: relayed_copy_def append_hash_frame strip_hash_frame)
  then have "pkt_payload_type (relayed_copy m p) = pkt_payload_type p" by (simp add: pkt_payload_type_def)
  with h assms show ?thesis by (simp add: pkt_calc_hash_def)
qed

section \<open>The handler's dispositions\<close>

lemma scope_forwarded:
  assumes "recv_scope m p a g = (MESH_RX_FORWARDED, m')"
  shows "\<exists>dbm. relay m p dbm = (MESH_RX_FORWARDED, m')"
  using assms by (auto simp: recv_scope_def split: if_splits prod.splits)

lemma forward_forwarded:
  assumes "recv_forward cs m p a = (MESH_RX_FORWARDED, m')"
  shows "forward (cfg m) \<and> provably_public m p"
proof -
  obtain d oc where c: "classify_forward m p = (d, oc)" by fastforce
  have "fwd_ok d"
    using assms c unfolding recv_forward_def fwd_ok_def by (cases d) (auto split: if_splits)
  then show ?thesis
    using classify_ok_iff [of m p] c assms by (auto simp: recv_forward_def split: if_splits)
qed

lemma advert_cfg: "wf_mesh m \<Longrightarrow> cfg (snd (recv_advert cs co m p)) = cfg m"
  using mesh.cfg_eq [OF mesh.advert] .

lemma advert_passes:
  assumes "recv_advert cs co m p = (Some nm, m')"
  shows "\<exists>pk. mc_advert_verify co p = Some pk \<and> \<not> config_is_key_blocked (cfg m) pk \<and>
    \<not> config_is_blacklisted (cfg m) (snd (mc_advert_extract p 32))"
proof (cases "mc_advert_verify co p")
  case None
  then show ?thesis using assms by (simp add: recv_advert_def)
next
  case (Some pk)
  obtain ty an where e: "mc_advert_extract p 32 = (ty, an)" by fastforce
  have "\<not> (config_is_blacklisted (cfg m) an \<or> config_is_key_blocked (cfg m) pk)"
  proof
    assume "config_is_blacklisted (cfg m) an \<or> config_is_key_blocked (cfg m) pk"
    then show False using assms Some e by (simp add: recv_advert_def)
  qed
  then show ?thesis using Some e by simp
qed

lemma typed_forwarded:
  assumes "wf_mesh m" "recv_typed cs co m p = (MESH_RX_FORWARDED, m')"
  shows "forward (cfg m) \<and> provably_public m p \<and> pkt_payload_type p \<noteq> PAYLOAD_TYPE_TRACE \<and>
    (pkt_payload_type p = PAYLOAD_TYPE_ADVERT \<longrightarrow>
       (\<exists>pk. mc_advert_verify co p = Some pk \<and> \<not> config_is_key_blocked (cfg m) pk \<and>
          \<not> config_is_blacklisted (cfg m) (snd (mc_advert_extract p 32))))"
proof -
  let ?m = "if rx_src m \<noteq> MESH_SRC_BACKBONE \<and> pkt_route_type p = ROUTE_TYPE_TRANSPORT_FLOOD
    then bump (\<lambda>s. s\<lparr>rx_transport_flood := rx_transport_flood s + 1\<rparr>) m else m"
  have w: "wf_mesh ?m" using assms(1) mesh.wf [OF mesh.bump] by simp
  have c: "cfg ?m = cfg m" by (simp add: bump_def)
  show ?thesis
  proof (cases "pkt_payload_type p = PAYLOAD_TYPE_ADVERT")
    case True
    obtain x m1 where a: "recv_advert cs co ?m p = (x, m1)" by fastforce
    with assms(2) True obtain nm where x: "x = Some nm" "recv_forward cs m1 p nm = (MESH_RX_FORWARDED, m')"
      by (auto simp: recv_typed_def Let_def split: option.splits)
    have "cfg m1 = cfg m" using advert_cfg [OF w, of cs co p] a c by simp
    then have "forward (cfg m) \<and> provably_public m p"
      using forward_forwarded [OF x(2)] public_cong by metis
    moreover have "\<exists>pk. mc_advert_verify co p = Some pk \<and> \<not> config_is_key_blocked (cfg m) pk \<and>
          \<not> config_is_blacklisted (cfg m) (snd (mc_advert_extract p 32))"
      using advert_passes [of cs co ?m p nm m1] a x(1) by (simp only: c)
    ultimately show ?thesis using True by simp
  next
    case False
    have t: "pkt_payload_type p \<noteq> PAYLOAD_TYPE_TRACE"
      using assms(2) by (auto simp: recv_typed_def Let_def)
    have "recv_forward cs ?m p [] = recv_typed cs co m p"
      using t False by (simp only: recv_typed_def Let_def if_False simp_thms)
    with assms(2) have "recv_forward cs ?m p [] = (MESH_RX_FORWARDED, m')" by simp
    then have "forward (cfg m) \<and> provably_public m p"
      using forward_forwarded [of cs ?m p "[]" m'] public_cong [OF c, of p] by (simp only: c)
    with t False show ?thesis by simp
  qed
qed

section \<open>From a disposition back to the relay\<close>

definition unanswered :: "mc_mesh \<Rightarrow> mc_packet \<Rightarrow> bool" where
  \<comment> \<open>no service of the node answers the packet: it came from the hub, or it is neither a text nor an
      advert that may wake a hotspot\<close>
  "unanswered m p \<longleftrightarrow> rx_src m = MESH_SRC_BACKBONE \<or>
     pkt_payload_type p \<noteq> PAYLOAD_TYPE_GRP_TXT \<and> (pkt_payload_type p \<noteq> PAYLOAD_TYPE_ADVERT \<or> role (cfg m) \<noteq> ROLE_HOTSPOT)"

lemma unanswered_cong: "rx_src m' = rx_src m \<Longrightarrow> cfg m' = cfg m \<Longrightarrow> unanswered m' p = unanswered m p"
  by (simp add: unanswered_def)

lemma unanswered_grp:
  "unanswered m p \<Longrightarrow> txq (snd (snd (process_public_grp cs m p ch))) = txq m"
  by (auto simp: unanswered_def process_public_grp_def hotspot_wake_def Let_def mon_emit_def mesh_emit_def split: option.split)

lemma neighbor_txq [simp]: "txq (neighbor_update m pk p r s) = txq m" "cfg (neighbor_update m pk p r s) = cfg m"
  by (simp_all add: neighbor_update_def mesh_time_def Let_def split_beta split: option.split)

lemma affinity_txq [simp]: "txq (learn_affinity m pk) = txq m" "cfg (learn_affinity m pk) = cfg m"
  by (simp_all add: learn_affinity_def)

lemma unanswered_advert:
  assumes "unanswered m p" "pkt_payload_type p = PAYLOAD_TYPE_ADVERT"
  shows "txq (snd (recv_advert cs co m p)) = txq m"
proof -
  have g: "txq (gate_node x an ty l k) = txq x" for x an ty l k
    by (simp add: gate_node_def mesh_millis_def mesh_emit_def split_beta Let_def)
  have r: "rx_src m = MESH_SRC_BACKBONE \<or> role (cfg m) \<noteq> ROLE_HOTSPOT" using assms by (simp add: unanswered_def)
  have "txq (advert_accept cs m p pk an ty) = txq m" for pk an ty
  proof (cases "rx_src m = MESH_SRC_BACKBONE")
    case True
    then show ?thesis by (simp add: advert_accept_def Let_def)
  next
    case False
    then have "role (cfg m) \<noteq> ROLE_HOTSPOT" using r by blast
    then show ?thesis by (simp add: advert_accept_def Let_def hotspot_wake_def bump_def g split: option.split)
  qed
  then show ?thesis by (simp add: recv_advert_def split: option.split prod.split)
qed

lemma forward_relay:
  assumes "wf_mesh m" "wf_pkt p" "recv_forward cs m p a = (MESH_RX_FORWARDED, m')"
  shows "\<exists>m3 dbm. evolves m m3 \<and> (unanswered m p \<longrightarrow> txq m3 = txq m) \<and> relay m3 p dbm = (MESH_RX_FORWARDED, m')"
proof (cases "classify_forward m p")
  case (Pair d oc)
  have f: "forward (cfg m)" using assms(3) by (auto simp: recv_forward_def split: if_splits)
  have direct: ?thesis
    if "evolves m m3" "recv_scope m3 p a g = (MESH_RX_FORWARDED, m')" "unanswered m p \<longrightarrow> txq m3 = txq m" for m3 g
    using that scope_forwarded by blast
  show ?thesis
  proof (cases oc)
    case None
    then have d: "d \<noteq> FWD_OK_GRP_PUBLIC" using classify_matched(1) [OF Pair] by simp
    have "txq (note_region m p) = txq m" by (simp add: note_region_def Let_def split: option.split)
    with d show ?thesis
      using assms(3) f Pair None direct [OF mesh.region_noted] direct [OF mesh.refl]
      by (cases d) (auto simp: recv_forward_def)
  next
    case (Some ch)
    then have d: "d = FWD_OK_GRP_PUBLIC" using classify_matched(1) [OF Pair] by simp
    obtain g s m1 where g: "process_public_grp cs m p ch = (g, s, m1)" by (cases "process_public_grp cs m p ch") auto
    have "length (secret ch) = 32"
      using classify_matched(2) [OF Pair, of ch] Some wf_channel_secret [OF assms(1)] by blast
    then have "evolves m m1" using mesh.public_grp [OF assms(1,2), of ch cs] g by simp
    then have e: "evolves m (bump h m1)" for h by (rule mesh.then_bump)
    have q: "unanswered m p \<longrightarrow> txq (bump h m1) = txq m" for h using unanswered_grp [of m p cs ch] g by simp
    have "recv_scope (bump (\<lambda>s. s\<lparr>fwd_grp_public := fwd_grp_public s + 1\<rparr>) m1) p a s = (MESH_RX_FORWARDED, m')"
      using assms(3) f Pair Some d g by (simp add: recv_forward_def split: if_splits)
    then show ?thesis using direct [OF e _ q] by blast
  qed
qed

lemma typed_relay:
  assumes "wf_mesh m" "wf_pkt p" "recv_typed cs co m p = (MESH_RX_FORWARDED, m')"
  shows "\<exists>m3 dbm. evolves m m3 \<and> (unanswered m p \<longrightarrow> txq m3 = txq m) \<and> relay m3 p dbm = (MESH_RX_FORWARDED, m')"
proof -
  let ?m = "if rx_src m \<noteq> MESH_SRC_BACKBONE \<and> pkt_route_type p = ROUTE_TYPE_TRANSPORT_FLOOD
    then bump (\<lambda>s. s\<lparr>rx_transport_flood := rx_transport_flood s + 1\<rparr>) m else m"
  have e: "evolves m ?m" by (simp add: mesh.bump)
  have w: "wf_mesh ?m" using e assms(1) by (rule mesh.wf)
  have q: "txq ?m = txq m" by simp
  have step: ?thesis
    if "evolves ?m m1" "unanswered m p \<longrightarrow> txq m1 = txq m" "recv_forward cs m1 p nm = (MESH_RX_FORWARDED, m')" for m1 nm
  proof -
    have e1: "evolves m m1" by (rule mesh.trans [OF e that(1)])
    then have "unanswered m1 p = unanswered m p" by (intro unanswered_cong) (simp_all add: evolves_def keeps_def)
    with forward_relay [OF mesh.wf [OF that(1) w] assms(2) that(3)] that(2) mesh.trans [OF e1] show ?thesis by metis
  qed
  show ?thesis
  proof (cases "pkt_payload_type p = PAYLOAD_TYPE_ADVERT")
    case True
    obtain x m1 where a: "recv_advert cs co ?m p = (x, m1)" by fastforce
    then have e1: "evolves ?m m1" using mesh.advert [OF w, of cs co p] by simp
    have u: "unanswered ?m p = unanswered m p" by (rule unanswered_cong) (simp_all add: bump_def)
    have "unanswered m p \<longrightarrow> txq m1 = txq m" using unanswered_advert [OF _ True, of ?m cs co] unfolding a u q by simp
    moreover obtain nm where "recv_forward cs m1 p nm = (MESH_RX_FORWARDED, m')"
      using a assms(3) True by (cases x) (auto simp: recv_typed_def Let_def)
    ultimately show ?thesis by (rule step [OF e1])
  next
    case False
    have t: "pkt_payload_type p \<noteq> PAYLOAD_TYPE_TRACE" using typed_forwarded [OF assms(1,3)] by blast
    have "recv_forward cs ?m p [] = recv_typed cs co m p"
      using t False by (simp only: recv_typed_def Let_def if_False simp_thms)
    with assms(3) step [OF mesh.refl] q show ?thesis by simp
  qed
qed

section \<open>The head of the handler\<close>

lemma on_recv_parsed:
  assumes "pkt_parse raw = Inr q" "p = q\<lparr>rssi_dbm := rssi, snr_q := snr\<rparr>"
  obtains (dup) "pkt_calc_hash q \<in> set (seen m)"
      "fst (mesh_on_recv cs co m raw rssi snr) = MESH_RX_DUPLICATE"
      "txq (snd (mesh_on_recv cs co m raw rssi snr)) = txq m"
      "(seen (snd (mesh_on_recv cs co m raw rssi snr)), seen_idx (snd (mesh_on_recv cs co m raw rssi snr)))
         = (seen m, seen_idx m)"
  | (fresh) m2 where "pkt_calc_hash q \<notin> set (seen m)" "evolves m m2" "txq m2 = txq m" "rx_src m2 = rx_src m"
      "pkt_calc_hash q \<in> set (seen m2) \<or> \<not> wf_mesh m"
      "mesh_on_recv cs co m raw rssi snr = recv_typed cs co m2 p"
proof -
  let ?b = "\<lambda>f x. if rx_src m \<noteq> MESH_SRC_BACKBONE then bump f x else x"
  define m1 where "m1 = ?b (\<lambda>s. s\<lparr>rx_total := rx_total s + 1\<rparr>)
    (?b (\<lambda>s. s\<lparr>rx_airtime_ms := rx_airtime_ms s + ucast (sx126x_airtime_ms (w_sx (wld m)) (length raw))\<rparr>) m)"
  have e1: "evolves m m1" unfolding m1_def by (simp add: mesh.bump mesh.then_bump)
  have f1: "seen m1 = seen m" "seen_idx m1 = seen_idx m" "txq m1 = txq m" "rx_src m1 = rx_src m"
    by (simp_all add: m1_def bump_def)
  have h: "pkt_calc_hash p = pkt_calc_hash q" unfolding assms(2) by simp
  obtain dup m2 where s: "seen_check_and_add m1 (pkt_calc_hash q) = (dup, m2)" by fastforce
  have d: "dup \<longleftrightarrow> pkt_calc_hash q \<in> set (seen m)"
    using s f1 by (auto simp: seen_check_and_add_def ring_admit_def list_ex_iff split: prod.splits if_splits)
  have m2: "m2 = m1\<lparr>seen := seen m2, seen_idx := seen_idx m2\<rparr>"
    using s by (auto simp: seen_check_and_add_def split: prod.splits)
  have w: "mesh_on_recv cs co m raw rssi snr =
      (if dup then (MESH_RX_DUPLICATE, mon_pkt_drop (?b (\<lambda>s. s\<lparr>rx_dup := rx_dup s + 1\<rparr>) m2) p
         (lit ''duplicate (already seen)''))
       else recv_typed cs co m2 p)"
    by (simp only: mesh_on_recv_def Let_def assms(1) sum.case flip: assms(2) m1_def) (simp only: h s prod.case)
  show thesis
  proof (cases dup)
    case True
    then have "m2 = m1\<lparr>seen := seen m, seen_idx := seen_idx m\<rparr>"
      using s f1 by (auto simp: seen_check_and_add_def ring_admit_def split: if_splits)
    with True d w f1 show thesis
      by (intro dup) (simp_all add: mon_pkt_drop_def mon_emit_def mesh_emit_def bump_def Let_def del: lit_simps)
  next
    case False
    have "evolves m m2" using mesh.trans [OF e1 seen_evolves [of m1 "pkt_calc_hash q"]] s by simp
    moreover have "pkt_calc_hash q \<in> set (seen m2) \<or> \<not> wf_mesh m"
      using s False f1 dedup.after_admit [of "(seen m, seen_idx m)" "pkt_calc_hash q"]
      by (auto simp: seen_check_and_add_def wf_mesh_def split: prod.splits)
    moreover have "txq m2 = txq m1" "rx_src m2 = rx_src m1" by (subst m2, simp)+
    ultimately show thesis using False d w f1 by (intro fresh [of m2]) simp_all
  qed
qed

section \<open>When a packet is relayed\<close>

lemma enqueue_free:
  assumes "role (cfg m) = ROLE_REPEATER" "\<exists>e \<in> set (txq m). \<not> tx_used e"
  shows "fst (enqueue m p prio d dbm own)"
proof -
  have "find_index (\<lambda>e. \<not> tx_used e) (txq m) \<noteq> None" using assms(2) unfolding find_index_None by simp
  moreover have "cfg (snd (mesh_millis m)) = cfg m" "txq (snd (mesh_millis m)) = txq m"
    by (simp_all add: mesh_millis_def split_beta)
  ultimately show ?thesis using assms(1) by (auto simp: enqueue_def split_beta Let_def mesh_rf_silent_def)
qed

lemma relay_done:
  assumes "role (cfg m) = ROLE_REPEATER" "\<exists>e \<in> set (txq m). \<not> tx_used e" "relay_ok m p"
  shows "fst (relay m p dbm) = MESH_RX_FORWARDED"
proof -
  have "cfg (snd (flood_backoff_ms m q)) = cfg m" for q
    by (simp add: flood_backoff_ms_def mesh_rng_def split_beta Let_def)
  then have "fst (enqueue (snd (flood_backoff_ms m q)) q' prio d dbm own)" for q q' prio d own
    using assms(1,2) by (intro enqueue_free) simp_all
  moreover have "fst (enqueue m q prio d dbm own)" for q prio d own using assms(1,2) by (rule enqueue_free)
  ultimately show ?thesis using assms(3)
    by (cases "pkt_is_route_flood p") (simp_all add: relay_def relay_ok_def Let_def split_beta)
qed

lemma relay_slot:
  assumes "relay m p dbm = (MESH_RX_FORWARDED, m')"
  shows "relay_ok m p \<and> (\<exists>i e. i < length (txq m) \<and> \<not> tx_used (txq m ! i) \<and> txq m' = (txq m)[i := e] \<and> tx_used e \<and>
    tx_pkt e = relayed_copy m p)"
  using relay_result(2) [OF assms refl] by fastforce

lemma relayed_hashes:
  assumes "wf_pkt p" "wf_identity (ident m)" "relay_ok m p" "pkt_path_hash_count p < 63"
  shows "path_hashes (relayed_copy m p) =
    (if pkt_is_route_flood p then path_hashes p @ [mc_identity_copy_hash (ident m) (pkt_path_hash_size p)]
     else tl (path_hashes p))"
  using append_hash_hashes(1) [OF assms(1,2,4)] strip_hash_hashes(1) [OF assms(1)] assms(3)
  by (simp add: relayed_copy_def relay_ok_def split: if_splits)

lemma free_slot: "0 < mesh_txq_free m \<Longrightarrow> \<exists>e \<in> set (txq m). \<not> tx_used e"
  by (auto simp: mesh_txq_free_def filter_empty_conv)

lemma relay_ok_cong: "ident m' = ident m \<Longrightarrow> relay_ok m' p = relay_ok m p"
  by (simp add: relay_ok_def)

lemma advert_accept_repeater:
  assumes "role (cfg m) = ROLE_REPEATER"
  shows "txq (advert_accept cs m p pk an ty) = txq m"
proof -
  have n: "txq (neighbor_update x pk p a b) = txq x" "role (cfg (neighbor_update x pk p a b)) = role (cfg x)" for x a b
    by (auto simp: neighbor_update_def mesh_time_def split_beta Let_def split: option.split)
  have w: "hotspot_wake cs x p an = x" if "role (cfg x) = ROLE_REPEATER" for x
    using that by (simp add: hotspot_wake_def)
  have g: "txq (gate_node x a b c d) = txq x" for x a b c d
    by (simp add: gate_node_def mesh_emit_def mesh_millis_def split_beta Let_def)
  have c: "role (cfg (bump f m)) = ROLE_REPEATER" for f using assms by (simp add: bump_def)
  show ?thesis
    using assms c by (auto simp: advert_accept_def Let_def n w g split: option.split)
qed

lemma typed_advert_relayed:
  assumes "wf_mesh m" "role (cfg m) = ROLE_REPEATER" "forward (cfg m)" "pkt_payload_type p = PAYLOAD_TYPE_ADVERT"
    "mc_advert_verify co p = Some pk" "\<not> config_is_key_blocked (cfg m) pk"
    "\<not> config_is_blacklisted (cfg m) (snd (mc_advert_extract p 32))"
    "relay_ok m p" "\<exists>e \<in> set (txq m). \<not> tx_used e"
  shows "fst (recv_typed cs co m p) = MESH_RX_FORWARDED"
proof -
  let ?m = "if rx_src m \<noteq> MESH_SRC_BACKBONE \<and> pkt_route_type p = ROUTE_TYPE_TRANSPORT_FLOOD
    then bump (\<lambda>s. s\<lparr>rx_transport_flood := rx_transport_flood s + 1\<rparr>) m else m"
  have w: "wf_mesh ?m" using assms(1) mesh.wf [OF mesh.bump] by simp
  have c: "cfg ?m = cfg m" "txq ?m = txq m" "ident ?m = ident m" by (simp_all add: bump_def)
  obtain ty an where x: "mc_advert_extract p 32 = (ty, an)" by fastforce
  let ?n = "advert_accept cs ?m p pk an (case ty of None \<Rightarrow> 0 | Some t \<Rightarrow> t)"
  have a: "recv_advert cs co ?m p = (Some an, ?n)"
    unfolding recv_advert_def assms(5) option.case x prod.case c(1) using assms(6,7) x by simp
  have e: "evolves ?m ?n" by (rule mesh.accepted [OF w])
  have n: "cfg ?n = cfg m" "ident ?n = ident m"
    using mesh.cfg_eq [OF e] mesh.keeps [OF e] c unfolding keeps_def by simp_all
  have q: "txq ?n = txq m" using advert_accept_repeater [of ?m cs p pk an] assms(2) c by simp
  have k: "classify_forward ?n p = (FWD_OK_PUBLIC, None)" using assms(4) by (simp add: classify_forward_def Let_def)
  have "fst (relay ?n p dbm) = MESH_RX_FORWARDED" for dbm
    using relay_done [of ?n p dbm] relay_ok_cong [OF n(2), of p] assms(2,8,9) n(1) q by simp
  then have f: "fst (recv_forward cs ?n p an) = MESH_RX_FORWARDED"
    unfolding recv_forward_def k using assms(2,3) n(1) by (simp add: recv_scope_def)
  have "recv_typed cs co m p = recv_forward cs ?n p an"
    unfolding recv_typed_def Let_def assms(4) using a by (simp only: if_True simp_thms prod.case option.case)
  with f show ?thesis by simp
qed

section \<open>Private traffic\<close>

lemma denied_forward:
  assumes "\<not> provably_public m p"
  shows "fst (recv_forward cs m p a) \<noteq> MESH_RX_FORWARDED" "txq (snd (recv_forward cs m p a)) = txq m"
proof -
  obtain d oc where k: "classify_forward m p = (d, oc)" by fastforce
  have d: "\<not> fwd_ok d" using classify_ok_iff [of m p] k assms by simp
  have t: "txq (deny m p d) = txq m" by (simp add: deny_def Let_def)
  show "fst (recv_forward cs m p a) \<noteq> MESH_RX_FORWARDED" "txq (snd (recv_forward cs m p a)) = txq m"
    using d t k by (cases d; simp add: recv_forward_def fwd_ok_def)+
qed

lemma private_typed:
  assumes "\<not> provably_public m p"
  shows "fst (recv_typed cs co m p) \<noteq> MESH_RX_FORWARDED" "txq (snd (recv_typed cs co m p)) = txq m"
proof -
  let ?m = "if rx_src m \<noteq> MESH_SRC_BACKBONE \<and> pkt_route_type p = ROUTE_TYPE_TRANSPORT_FLOOD
    then bump (\<lambda>s. s\<lparr>rx_transport_flood := rx_transport_flood s + 1\<rparr>) m else m"
  have t: "pkt_payload_type p \<noteq> PAYLOAD_TYPE_ADVERT" "pkt_payload_type p \<noteq> PAYLOAD_TYPE_TRACE"
    using assms by (simp_all add: provably_public_def)
  then have e: "recv_typed cs co m p = recv_forward cs ?m p []"
    by (simp only: recv_typed_def Let_def if_False simp_thms)
  have c: "cfg ?m = cfg m" "txq ?m = txq m" by (simp_all add: bump_def)
  have "\<not> provably_public ?m p" using assms public_cong [OF c(1)] by simp
  from denied_forward [OF this] show "fst (recv_typed cs co m p) \<noteq> MESH_RX_FORWARDED"
    "txq (snd (recv_typed cs co m p)) = txq m"
    unfolding e by (simp_all only: c(2) not_False_eq_True)
qed

text \<open>The whole way of a valid advert through a forwarding repeater.\<close>

lemma fresh_advert_forwarded:
  assumes "wf_mesh m" "role (cfg m) = ROLE_REPEATER" "forward (cfg m)"
    "pkt_parse raw = Inr p" "pkt_payload_type p = PAYLOAD_TYPE_ADVERT" "pkt_calc_hash p \<notin> set (seen m)"
    "mc_advert_verify co p = Some pk" "\<not> config_is_key_blocked (cfg m) pk"
    "\<not> config_is_blacklisted (cfg m) (snd (mc_advert_extract p 32))"
    "relay_ok m p" "0 < mesh_txq_free m"
  shows "fst (mesh_on_recv cs co m raw rssi snr) = MESH_RX_FORWARDED"
  using assms(4) refl
proof (cases rule: on_recv_parsed [of raw _ _ snr rssi m cs co])
  case dup
  then show ?thesis using assms(6) by simp
next
  case (fresh m2)
  have k: "cfg m2 = cfg m" "ident m2 = ident m" using mesh.keeps [OF fresh(2)] by (simp_all add: keeps_def)
  have "\<exists>e \<in> set (txq m2). \<not> tx_used e" using assms(11) fresh(3) by (auto simp: mesh_txq_free_def filter_empty_conv)
  moreover have "relay_ok m2 (p\<lparr>rssi_dbm := rssi, snr_q := snr\<rparr>)" using assms(10) k(2)
    by (cases "pkt_is_route_flood p") (simp_all add: relay_ok_def)
  ultimately have "fst (recv_typed cs co m2 (p\<lparr>rssi_dbm := rssi, snr_q := snr\<rparr>)) = MESH_RX_FORWARDED"
    using assms k by (intro typed_advert_relayed [OF mesh.wf [OF fresh(2) assms(1)], where pk = pk]) simp_all
  with fresh(6) show ?thesis by simp
qed

end
