(* ===== verification/Mesh_Hub.thy ===== *)
theory Mesh_Hub
  imports Mesh_Facts
begin

text \<open>
  What a frame from the backbone hub may touch. \<open>calm\<close> relates states that agree on everything the
  node learnt over RF or serves to RF users: neighbours, affinity, the mailbox and its gates, the
  probe, the time and date replies, the hotspot's waking. With \<open>rx_src\<close> set to the hub, every part
  of the receive handler is shown to be calm.
\<close>

definition rf_view :: "mc_mesh \<Rightarrow> mesh_neighbor list \<times> bytes \<times> mc_mbox \<times> mbox_gate_entry list \<times> (u64 \<times> bytes \<times> bool)
    \<times> (mc_pub_channel \<times> u32 \<times> int \<times> int \<times> int \<times> u64) \<times> (mc_pub_channel \<times> u32 \<times> bool \<times> bool) \<times> u64 \<times> u64" where
  \<comment> \<open>neighbours, affinity hashes, mailbox, gates, waking, probe, time and date, help, last advert\<close>
  "rf_view m = (neighbors m, affinity_hash m, mbox m, mbox_gate m,
     (hs_awake_until_ms m, hs_woken_by m, hs_silent m),
     (probe_ch m, probe_interval_ms m, probe_total m, probe_remaining m, probe_seq m, probe_next_ms m),
     (tod_ch m, tod_minute m, tod_time_pending m, tod_date_pending m), mesh_help_next_ms m, last_advert_ms m)"

definition calm :: "mc_mesh \<Rightarrow> mc_mesh \<Rightarrow> bool" where
  "calm m m' \<longleftrightarrow> rf_view m' = rf_view m \<and> rx_src m' = rx_src m"

lemma calm_refl [simp, intro]: "calm m m"
  by (simp add: calm_def)

lemma calm_trans: "calm m m' \<Longrightarrow> calm m' m'' \<Longrightarrow> calm m m''"
  by (simp add: calm_def)

lemma calm_src: "calm m m' \<Longrightarrow> rx_src m' = rx_src m"
  by (simp add: calm_def)

lemma calm_prims:
  "calm m (bump f m)" "calm m (mesh_emit e m)" "calm m (mon_emit e m)" "calm m (snd (mesh_millis m))"
  "calm m (snd (mesh_rng lo hi m))" "calm m (snd (seen_check_and_add m h))" "calm m (mon_pkt_drop m p r)"
  "calm m (m\<lparr>txq := q\<rparr>)"
  by (simp_all add: calm_def rf_view_def bump_def mesh_emit_def mon_emit_def mesh_millis_def mesh_rng_def
      seen_check_and_add_def mon_pkt_drop_def Let_def split: prod.split)

lemma calm_bump: "calm m m' \<Longrightarrow> calm m (bump f m')"
  by (rule calm_trans [OF _ calm_prims(1)])

lemma calm_drop: "calm m m' \<Longrightarrow> calm m (mon_pkt_drop m' p r)"
  by (rule calm_trans [OF _ calm_prims(7)])

lemma calm_offer: "calm m (offer_raw m p own)"
  by (simp add: offer_raw_def calm_prims split: sum.split)

lemma calm_enqueue: "calm m (snd (enqueue m p prio d dbm own))"
proof -
  let ?m = "snd (mesh_millis m)"
  have "calm m (offer_raw (?m\<lparr>txq := q\<rparr>) p own)" for q
    by (rule calm_trans [OF calm_trans [OF calm_prims(4) calm_prims(8)] calm_offer])
  then show ?thesis
    unfolding enqueue_def Let_def split_beta
    by (auto intro!: calm_bump calm_drop calm_prims split: option.split)
qed

lemma calm_relay: "calm m (snd (relay m p dbm))"
proof -
  have "calm m (snd (flood_backoff_ms m q))" for q
    by (simp add: flood_backoff_ms_def split_beta Let_def calm_prims)
  then have "calm m (snd (enqueue (snd (flood_backoff_ms m q)) q prio d dbm own))" for q prio d own
    by (rule calm_trans [OF _ calm_enqueue])
  then show ?thesis
    unfolding relay_def Let_def split_beta by (simp add: calm_bump calm_drop calm_enqueue)
qed

lemma calm_scope: "calm m (snd (recv_scope m p a g))"
  by (simp add: recv_scope_def split_beta calm_relay calm_prims)

lemma calm_region: "calm m (note_region m p)"
  unfolding note_region_def Let_def
  by (auto split: option.split intro: calm_trans [OF calm_prims(1) calm_prims(3)] calm_prims)

lemma calm_deny: "calm m (deny m p d)"
  unfolding deny_def Let_def by (rule calm_drop) (simp add: calm_bump)

lemma hub_public_grp:
  assumes "rx_src m = MESH_SRC_BACKBONE"
  shows "calm m (snd (snd (process_public_grp cs m p ch))) \<and> 0 \<noteq> fst (process_public_grp cs m p ch)"
proof -
  have wake: "hotspot_wake cs m p s = m" for s using assms by (simp add: hotspot_wake_def)
  have src: "rx_src (mon_emit e m) = MESH_SRC_BACKBONE" for e using assms by (simp add: mon_emit_def mesh_emit_def)
  show ?thesis
    by (simp add: process_public_grp_def Let_def wake src calm_prims calm_drop split: option.split)
qed

lemma calm_forward:
  assumes "rx_src m = MESH_SRC_BACKBONE"
  shows "calm m (snd (recv_forward cs m p a))"
proof (cases "classify_forward m p")
  case (Pair d oc)
  have rg: "calm m (snd (recv_scope (note_region m p) p a []))" by (rule calm_trans [OF calm_region calm_scope])
  have pg: "calm m (snd (snd (process_public_grp cs m p ch)))" for ch using hub_public_grp [OF assms] by blast
  have "calm m (snd (recv_scope (bump f (snd (snd (process_public_grp cs m p ch)))) p a s))" for ch f s
    by (rule calm_trans [OF calm_bump [OF pg] calm_scope])
  with pg rg show ?thesis
    unfolding recv_forward_def Pair
    by (auto simp: split_beta calm_deny calm_scope split: fwd_decision.split option.split)
qed

lemma calm_advert:
  assumes "rx_src m = MESH_SRC_BACKBONE"
  shows "calm m (snd (recv_advert cs co m p))"
  using assms
  by (simp add: recv_advert_def advert_accept_def split_beta Let_def calm_prims calm_drop split: option.split)

lemma calm_typed:
  assumes "rx_src m = MESH_SRC_BACKBONE"
  shows "calm m (snd (recv_typed cs co m p))"
proof -
  obtain x m1 where a: "recv_advert cs co m p = (x, m1)" by fastforce
  then have c: "calm m m1" using calm_advert [OF assms, of cs co p] by simp
  have f: "calm m (snd (recv_forward cs m1 p nm))" for nm
    by (rule calm_trans [OF c calm_forward]) (simp add: calm_src [OF c] assms)
  show ?thesis
    using assms c f a calm_forward [OF assms] by (cases x) (simp_all add: recv_typed_def calm_prims Let_def)
qed

lemma calm_on_recv:
  assumes "rx_src m = MESH_SRC_BACKBONE"
  shows "calm m (snd (mesh_on_recv cs co m raw rssi snr))"
proof -
  have "calm m (snd (recv_typed cs co (snd (seen_check_and_add m h)) p))" for h p
    by (rule calm_trans [OF calm_prims(6) calm_typed]) (simp add: calm_src [OF calm_prims(6)] assms)
  then show ?thesis
    using assms by (simp add: mesh_on_recv_def Let_def split_beta calm_prims calm_drop split: sum.split)
qed

text \<open>Of a frame from the hub, nothing is offered back to the hub.\<close>

lemma backbone_result:
  assumes "wf_mesh m" "m' = snd (mesh_on_backbone cs co m raw)"
  shows "wf_mesh m'" "rf_view m' = rf_view m" "rx_src m' = rx_src m" "queue_kept (txq m) (txq m')"
    "\<exists>es. w_out (wld m') = w_out (wld m) @ es \<and> list_all local_event es"
proof -
  let ?b = "m\<lparr>rx_src := MESH_SRC_BACKBONE\<rparr>"
  obtain r x where x: "mesh_on_recv cs co ?b raw MON_VIA_BACKBONE 0 = (r, x)" by fastforce
  then have m': "m' = x\<lparr>rx_src := rx_src m\<rparr>" by (simp add: assms(2) mesh_on_backbone_def)
  have w: "wf_mesh ?b" using assms(1) by (simp add: wf_mesh_def)
  have e: "evolves ?b x" using mesh.on_recv [OF w, of cs co raw MON_VIA_BACKBONE 0] x by simp
  have c: "calm ?b x" using calm_on_recv [of ?b cs co raw MON_VIA_BACKBONE 0] x by simp
  show "wf_mesh m'" using mesh.wf [OF e w] by (simp add: m' wf_mesh_def)
  show "rf_view m' = rf_view m" using c by (simp add: m' calm_def rf_view_def)
  show "rx_src m' = rx_src m" by (simp add: m')
  show "queue_kept (txq m) (txq m')" using e by (simp add: m' evolves_def)
  have "hub_allowed ?b = local_event" by (auto simp: fun_eq_iff hub_allowed_def)
  then show "\<exists>es. w_out (wld m') = w_out (wld m) @ es \<and> list_all local_event es"
    using e by (simp add: m' evolves_def outs_grow_def)
qed

end
