(* ===== verification/Mesh_Air.thy ===== *)
theory Mesh_Air
  imports Mesh_Inv
begin

text \<open>
  What goes on air. The order \<open>pick_due\<close> minimises is a \<open>linorder\<close> on the pair of priority and due
  time; the lemmas show that \<open>mesh_service_tx\<close> sends at most one frame, the most urgent one that
  is due, that it frees the slot, that a silent hotspot sends nothing and forgets its queue, and
  that the operation keeps the state invariant.
\<close>

section \<open>Urgency as a linear order\<close>

datatype tx_key = TxKey (key_prio: nat) (key_due: u64)

instantiation tx_key :: linorder
begin

definition less_eq_tx_key :: "tx_key \<Rightarrow> tx_key \<Rightarrow> bool" where
  "less_eq_tx_key a b \<longleftrightarrow> key_prio a < key_prio b \<or> (key_prio a = key_prio b \<and> key_due a \<le> key_due b)"

definition less_tx_key :: "tx_key \<Rightarrow> tx_key \<Rightarrow> bool" where
  "less_tx_key a b \<longleftrightarrow> key_prio a < key_prio b \<or> (key_prio a = key_prio b \<and> key_due a < key_due b)"

instance
  by standard (auto simp: less_eq_tx_key_def less_tx_key_def intro: tx_key.expand)

end

definition tx_key :: "mesh_tx_entry \<Rightarrow> tx_key" where
  "tx_key e = TxKey (tx_priority e) (tx_due_ms e)"

definition tx_due :: "mesh_tx_entry \<Rightarrow> u64 \<Rightarrow> bool" where
  "tx_due e now \<longleftrightarrow> tx_used e \<and> tx_due_ms e \<le> now"

lemma pick_from_step:
  "pick_from q now (i # is) best =
     (if \<not> tx_due (q ! i) now then pick_from q now is best
      else (case best of None \<Rightarrow> pick_from q now is (Some i)
            | Some b \<Rightarrow> pick_from q now is (if tx_key (q ! i) < tx_key (q ! b) then Some i else best)))"
  by (auto simp: tx_due_def tx_key_def less_tx_key_def not_less Let_def split: option.split)

lemma pick_from_spec:
  "case pick_from q now js best of
     None \<Rightarrow> best = None \<and> (\<forall>i \<in> set js. \<not> tx_due (q ! i) now)
   | Some j \<Rightarrow> (best = Some j \<or> j \<in> set js \<and> tx_due (q ! j) now) \<and>
       (\<forall>i \<in> set js. tx_due (q ! i) now \<longrightarrow> tx_key (q ! j) \<le> tx_key (q ! i)) \<and>
       (\<forall>b. best = Some b \<longrightarrow> tx_key (q ! j) \<le> tx_key (q ! b))"
proof (induction js arbitrary: best)
  case Nil
  show ?case by (cases best) simp_all
next
  case (Cons i js)
  show ?case
  proof (cases "tx_due (q ! i) now")
    case False
    with Cons.IH [of best] show ?thesis by (auto simp: pick_from_step simp del: pick_from.simps split: option.splits)
  next
    case True
    let ?best = "case best of None \<Rightarrow> Some i | Some b \<Rightarrow> if tx_key (q ! i) < tx_key (q ! b) then Some i else best"
    have "pick_from q now (i # js) best = pick_from q now js ?best"
      using True by (auto simp: pick_from_step simp del: pick_from.simps split: option.split)
    then show ?thesis
      using Cons.IH [of ?best] True
      by (cases best) (auto simp del: pick_from.simps split: option.splits if_splits)
  qed
qed

lemma pick_due_spec:
  "case pick_due m now of
     None \<Rightarrow> \<forall>e \<in> set (txq m). \<not> tx_due e now
   | Some i \<Rightarrow> i < length (txq m) \<and> tx_due (txq m ! i) now \<and>
       (\<forall>e \<in> set (txq m). tx_due e now \<longrightarrow> tx_key (txq m ! i) \<le> tx_key e)"
  using pick_from_spec [where q = "txq m" and now = now and js = "[0..<length (txq m)]" and best = None]
  by (auto simp: pick_due_def in_set_conv_nth split: option.splits)

lemma pick_due_SomeD:
  assumes "pick_due m now = Some i"
  shows "i < length (txq m)" "tx_due (txq m ! i) now" "tx_used (txq m ! i)"
    "e \<in> set (txq m) \<Longrightarrow> tx_due e now \<Longrightarrow> tx_key (txq m ! i) \<le> tx_key e"
  using pick_due_spec [of m now] assms by (auto simp: tx_due_def)

lemma pick_due_None: "pick_due m now = None \<longleftrightarrow> (\<forall>e \<in> set (txq m). \<not> tx_due e now)"
  using pick_due_spec [of m now] by (auto split: option.splits)

section \<open>One call of the transmit service\<close>

fun is_transmit :: "effect \<Rightarrow> bool" where
  "is_transmit (Transmit _ _) = True"
| "is_transmit _ = False"

definition on_air :: "mc_mesh \<Rightarrow> mc_mesh \<Rightarrow> effect list" where
  \<comment> \<open>the transmissions between two states, in order\<close>
  "on_air m m' = filter is_transmit (drop (length (w_out (wld m))) (w_out (wld m')))"

definition channel_clear :: "mc_mesh \<Rightarrow> bool" where
  \<comment> \<open>the answer CAD would give to the next question\<close>
  "channel_clear m \<longleftrightarrow> use_cad (radio (cfg m)) \<longrightarrow> w_busy (wld m) (w_busy_i (wld m)) \<noteq> 1"

definition after_cad :: "mc_mesh \<Rightarrow> mc_mesh" where
  "after_cad m = (if use_cad (radio (cfg m)) then m\<lparr>wld := snd (sx126x_channel_busy (wld m))\<rparr> else m)"

definition sent_entry :: "mc_mesh \<Rightarrow> mesh_tx_entry \<Rightarrow> mc_mesh" where
  \<comment> \<open>the state once the entry is serialised and transmitted\<close>
  "sent_entry m e = (case pkt_serialize (tx_pkt e) 255 of Inr raw \<Rightarrow> if 0 < length raw then transmit m e raw else m | Inl _ \<Rightarrow> m)"

lemma after_cad_frame [frame_simps, simp]:
  "txq (after_cad m) = txq m" "cfg (after_cad m) = cfg m" "w_out (wld (after_cad m)) = w_out (wld m)"
  by (simp_all add: after_cad_def sx126x_channel_busy_def)

lemma transmit_frame [frame_simps, simp]: "txq (transmit m e raw) = txq m" "cfg (transmit m e raw) = cfg m"
  by (auto simp: transmit_def mon_pkt_tx_def mesh_emit_def bump_def Let_def split: prod.splits)

lemma transmit_out:
  obtains t post where
    "w_out (wld (transmit m e raw)) = w_out (wld m) @ SetTxPower (tx_power_dbm e) # Transmit raw t # post"
    "filter is_transmit post = []"
proof -
  let ?m = "mesh_emit (SetTxPower (tx_power_dbm e)) m"
  let ?t = "sx126x_airtime_ms (w_sx (wld ?m)) (length raw) + 1000"
  obtain rc w where w: "sx126x_transmit raw ?t (wld ?m) = (rc, w)" by fastforce
  then have o: "w_out w = w_out (wld m) @ [SetTxPower (tx_power_dbm e), Transmit raw ?t]"
    by (auto simp: sx126x_transmit_def emit_def mesh_emit_def Let_def)
  show thesis
    by (rule that [of ?t "drop (length (w_out w)) (w_out (wld (transmit m e raw)))"])
       (use o w in \<open>auto simp: transmit_def mon_pkt_tx_def bump_def Let_def mesh_emit_def emit_def\<close>)
qed

lemma sent_entry_frame [frame_simps, simp]: "txq (sent_entry m e) = txq m" "cfg (sent_entry m e) = cfg m"
  by (simp_all add: sent_entry_def split: sum.split)

text \<open>The service on each of its branches.\<close>

lemma service_tx_silent: "mesh_rf_silent m now \<Longrightarrow> mesh_service_tx m now = silence m"
  by (simp add: mesh_service_tx_def)

lemma service_tx_idle: "\<not> mesh_rf_silent m now \<Longrightarrow> pick_due m now = None \<Longrightarrow> mesh_service_tx m now = m"
  by (simp add: mesh_service_tx_def)

lemma service_tx_busy:
  assumes "\<not> mesh_rf_silent m now" "pick_due m now = Some i" "\<not> channel_clear m"
  obtains r m1 where "mesh_rng 1 4 (bump (\<lambda>s. s\<lparr>tx_cad_busy := tx_cad_busy s + 1\<rparr>) (after_cad m)) = (r, m1)"
    "mesh_service_tx m now = m1\<lparr>txq := (txq m)[i := (txq m ! i)\<lparr>tx_due_ms := now + ucast (r * 120)\<rparr>]\<rparr>"
proof -
  obtain r m1 where r: "mesh_rng 1 4 (bump (\<lambda>s. s\<lparr>tx_cad_busy := tx_cad_busy s + 1\<rparr>) (after_cad m)) = (r, m1)"
    by fastforce
  moreover have "txq m1 = txq m"
    using r by (auto simp: mesh_rng_def bump_def split: prod.splits)
  moreover have "mesh_service_tx m now = m1\<lparr>txq := (txq m1)[i := (txq m ! i)\<lparr>tx_due_ms := now + ucast (r * 120)\<rparr>]\<rparr>"
    using assms r
    by (simp add: mesh_service_tx_def channel_clear_def after_cad_def sx126x_channel_busy_def Let_def)
  ultimately show thesis using that by simp
qed

lemma service_tx_sent:
  assumes "\<not> mesh_rf_silent m now" "pick_due m now = Some i" "channel_clear m"
  shows "mesh_service_tx m now =
    (sent_entry (after_cad m) (txq m ! i))\<lparr>txq := (txq m)[i := (txq m ! i)\<lparr>tx_used := False\<rparr>]\<rparr>"
proof -
  let ?s = "sent_entry (after_cad m) (txq m ! i)"
  have "mesh_service_tx m now = ?s\<lparr>txq := (txq ?s)[i := (txq m ! i)\<lparr>tx_used := False\<rparr>]\<rparr>"
    using assms
    by (cases "use_cad (radio (cfg m))")
       (simp_all add: mesh_service_tx_def channel_clear_def after_cad_def sent_entry_def sx126x_channel_busy_def Let_def)
  then show ?thesis by simp
qed

lemma silence_effects:
  "txq (silence m) = map (\<lambda>e. e\<lparr>tx_used := False\<rparr>) (txq m)" "on_air m (silence m) = []"
  by (auto simp: silence_def Let_def bump_def backbone_status_soon_def mesh_emit_def emit_def on_air_def)

section \<open>The service keeps the state well formed\<close>

lemma wf_txq_entry: "wf_mesh m \<Longrightarrow> wf_txq q \<Longrightarrow> wf_mesh (m\<lparr>txq := q\<rparr>)"
  by (simp add: wf_mesh_def)

lemma wf_txq_update:
  assumes "wf_txq q" "i < length q" "tx_used e \<Longrightarrow> wf_pkt (tx_pkt e)"
  shows "wf_txq (q[i := e])"
  using assms by (auto simp: wf_txq_def dest!: set_update_subset_insert [THEN subsetD])

lemma wf_mesh_world: "wf_mesh (m\<lparr>wld := w\<rparr>) = wf_mesh m" "wf_mesh (bump f m) = wf_mesh m"
    "wf_mesh (mesh_emit x m) = wf_mesh m" "wf_mesh (after_cad m) = wf_mesh m"
  by (simp_all add: wf_mesh_def bump_def mesh_emit_def after_cad_def)

lemma transmit_wf: "wf_mesh (transmit m e raw) = wf_mesh m"
  by (simp add: transmit_def mon_pkt_tx_def Let_def wf_mesh_world split: prod.split)

lemma service_tx_wf [wf_simps]:
  assumes "wf_mesh m" shows "wf_mesh (mesh_service_tx m now)"
proof (cases "mesh_rf_silent m now")
  case True
  have "wf_txq (map (\<lambda>e. e\<lparr>tx_used := False\<rparr>) (txq m))" using assms by (auto simp: wf_mesh_def wf_txq_def)
  then have "wf_mesh (m\<lparr>hs_silent := b, wld := w, txq := map (\<lambda>e. e\<lparr>tx_used := False\<rparr>) (txq m)\<rparr>)" for b w
    using assms by (simp add: wf_mesh_def)
  moreover have "\<exists>b w. silence m = bump (\<lambda>s. s\<lparr>tx_silent := tx_silent s + of_nat (length (filter tx_used (txq m)))\<rparr>)
      (m\<lparr>hs_silent := b, wld := w, txq := map (\<lambda>e. e\<lparr>tx_used := False\<rparr>) (txq m)\<rparr>)"
  proof -
    have q: "map (\<lambda>e. if tx_used e then e\<lparr>tx_used := False\<rparr> else e) (txq m) = map (\<lambda>e. e\<lparr>tx_used := False\<rparr>) (txq m)"
      by simp
    have "\<exists>b w. (if \<not> hs_silent m then backbone_status_soon (m\<lparr>hs_silent := True\<rparr>) else m) = m\<lparr>hs_silent := b, wld := w\<rparr>"
      by (rule exI [of _ True], rule exI [of _ "if \<not> hs_silent m \<and> has_bb m then emit BackboneStatusSoon (wld m) else wld m"])
         (simp add: backbone_status_soon_def mesh_emit_def)
    then obtain b w where e: "(if \<not> hs_silent m then backbone_status_soon (m\<lparr>hs_silent := True\<rparr>) else m) = m\<lparr>hs_silent := b, wld := w\<rparr>"
      by blast
    show ?thesis
      by (rule exI [of _ b], rule exI [of _ w], unfold silence_def Let_def e) (simp add: q)
  qed
  ultimately show ?thesis unfolding service_tx_silent [OF True] by (elim exE) (simp only: wf_mesh_world)
next
  case False
  show ?thesis
  proof (cases "pick_due m now")
    case None
    with False assms show ?thesis by (simp add: service_tx_idle)
  next
    case (Some i)
    note i = pick_due_SomeD [OF Some]
    have q: "wf_txq (txq m)" and p: "wf_pkt (tx_pkt (txq m ! i))"
      using assms i by (auto simp: wf_mesh_def wf_txq_def)
    show ?thesis
    proof (cases "channel_clear m")
      case True
      have "wf_mesh (sent_entry (after_cad m) e)" for e
        using assms by (simp add: sent_entry_def transmit_wf wf_mesh_world split: sum.split)
      then show ?thesis
        unfolding service_tx_sent [OF False Some True] by (intro wf_txq_entry wf_txq_update q i) simp_all
    next
      case busy: False
      show ?thesis
      proof (rule service_tx_busy [OF False Some busy])
        fix r m1
        assume r: "mesh_rng 1 4 (bump (\<lambda>s. s\<lparr>tx_cad_busy := tx_cad_busy s + 1\<rparr>) (after_cad m)) = (r, m1)"
          and e: "mesh_service_tx m now = m1\<lparr>txq := (txq m)[i := (txq m ! i)\<lparr>tx_due_ms := now + ucast (r * 120)\<rparr>]\<rparr>"
        have "wf_mesh m1"
          using mesh.wf [OF clocks_evolve(3) [of "bump (\<lambda>s. s\<lparr>tx_cad_busy := tx_cad_busy s + 1\<rparr>) (after_cad m)" 1 4]]
            r assms by (simp add: wf_mesh_world)
        then show ?thesis unfolding e by (intro wf_txq_entry wf_txq_update q i) (simp_all add: p)
      qed
    qed
  qed
qed

section \<open>Draining the queue\<close>

lemma service_tx_frees:
  assumes "role (cfg m) = ROLE_REPEATER" "channel_clear m" "\<exists>e \<in> set (txq m). tx_due e now"
  shows "mesh_txq_free (mesh_service_tx m now) = mesh_txq_free m + 1"
    and "set (txq (mesh_service_tx m now)) \<subseteq> set (txq m) \<union> {e. \<not> tx_used e}"
    and "cfg (mesh_service_tx m now) = cfg m"
proof -
  have s: "\<not> mesh_rf_silent m now" using assms(1) by (simp add: mesh_rf_silent_def)
  obtain i where i: "pick_due m now = Some i" using assms(3) pick_due_None [of m now] by blast
  note d = pick_due_SomeD [OF i] and t = service_tx_sent [OF s i assms(2)]
  have q: "txq (mesh_service_tx m now) = (txq m)[i := (txq m ! i)\<lparr>tx_used := False\<rparr>]" unfolding t by simp
  have "length (filter P (xs[k := x])) = length (filter P xs) + 1"
    if "k < length xs" "P x" "\<not> P (xs ! k)" for P k x and xs :: "mesh_tx_entry list"
    using that by (induction xs arbitrary: k) (auto simp: nth_Cons split: nat.splits)
  then show "mesh_txq_free (mesh_service_tx m now) = mesh_txq_free m + 1"
    using d by (simp add: mesh_txq_free_def q)
  show "set (txq (mesh_service_tx m now)) \<subseteq> set (txq m) \<union> {e. \<not> tx_used e}"
    unfolding q using set_update_subset_insert [of "txq m" i "(txq m ! i)\<lparr>tx_used := False\<rparr>"] by auto
  show "cfg (mesh_service_tx m now) = cfg m" unfolding t by simp
qed

end
