(* ===== verification/Mesh_Run.thy ===== *)
theory Mesh_Run
  imports Mesh_Hub Mesh_Air
begin

text \<open>
  The mesh as a state machine. \<open>mesh_boot\<close> is the mesh as \<^verbatim>\<open>main\<close> hands it to its loop, with the
  monitors attached and the iGate and the backbone client where they came up. \<open>mesh_step\<close> is one call
  of the main loop, of the console and the control interface or of the backbone client into the
  mesh, or a write of theirs to its fields; a step may also find the shared configuration edited.
  Every reachable state is well formed, by induction on the run.
\<close>

definition mesh_boot :: "mc_identity \<Rightarrow> mc_config \<Rightarrow> world \<Rightarrow> bool \<Rightarrow> bool \<Rightarrow> mc_mesh" where
  \<comment> \<open>\<open>mesh_init\<close> and then \<open>mesh.mon = &monitor\<close>, \<open>mesh.aprs\<close> and \<open>mesh.bb\<close>\<close>
  "mesh_boot self c w aprs_up bb_up = (mesh_init self c w)\<lparr>has_aprs := aprs_up, mon := Some 0, has_bb := bb_up\<rparr>"

inductive mesh_step :: "sign_fn \<Rightarrow> open_fn \<Rightarrow> mc_mesh \<Rightarrow> mc_mesh \<Rightarrow> bool" for cs co where
  step_recv: "mesh_step cs co m (snd (mesh_on_recv cs co m raw rssi snr))"
| step_hub: "mesh_step cs co m (snd (mesh_on_backbone cs co m raw))"
| step_error: "mesh_step cs co m (mesh_on_rx_error m crc rssi snr)"
| step_tx: "mesh_step cs co m (mesh_service_tx m now)"
| step_probe: "mesh_step cs co m (mesh_service_probe m now)"
| step_tod: "mesh_step cs co m (mesh_service_timeofday m)"
| step_advert: "mesh_step cs co m (snd (mesh_send_advert cs m))"
| step_last_advert: "mesh_step cs co m (m\<lparr>last_advert_ms := now\<rparr>)"
| step_start_probe: "ch \<in> set (public_channels (cfg m)) \<Longrightarrow> mesh_step cs co m (mesh_start_probe m ch secs count)"
| step_relearn: "mesh_step cs co m (m\<lparr>affinity_hash := []\<rparr>)"
| step_monitors: "mon m \<noteq> None \<Longrightarrow> mesh_step cs co m (m\<lparr>mon := Some k\<rparr>)"
| step_config: "wf_config c \<Longrightarrow> mesh_step cs co m (m\<lparr>cfg := c\<rparr>)"
| step_radio: "mesh_step cs co m (m\<lparr>wld := (wld m)\<lparr>w_sx := config_to_sx126x (cfg m)\<rparr>\<rparr>)"

inductive_cases mesh_stepE: "mesh_step cs co m m'"

inductive mesh_reach :: "sign_fn \<Rightarrow> open_fn \<Rightarrow> mc_mesh \<Rightarrow> mc_mesh \<Rightarrow> bool" for cs co m where
  reach_here: "mesh_reach cs co m m"
| reach_step: "mesh_reach cs co m m' \<Longrightarrow> mesh_step cs co m' m'' \<Longrightarrow> mesh_reach cs co m m''"

inductive_simps mesh_reach_simp: "mesh_reach cs co m m'"

lemma rx_error_wf: "wf_mesh (mesh_on_rx_error m crc rssi snr) = wf_mesh m"
  by (simp add: mesh_on_rx_error_def mon_emit_def wf_mesh_world)

lemma mesh_step_wf [wf_simps]: "mesh_step cs co m m' \<Longrightarrow> wf_mesh m \<Longrightarrow> wf_mesh m'"
proof (induction rule: mesh_step.induct)
  case (step_recv m raw rssi snr)
  then show ?case using mesh.wf [OF mesh.on_recv] by blast
next
  case (step_hub m raw)
  then show ?case using backbone_result(1) by blast
next
  case (step_probe m now)
  then show ?case using mesh.wf [OF mesh.service_probe] by blast
next
  case (step_tod m)
  then show ?case using mesh.wf [OF mesh.service_tod] by blast
next
  case (step_advert m)
  then show ?case using mesh.wf [OF mesh.send_advert] by blast
next
  case (step_start_probe ch m secs count)
  then show ?case using mesh.wf [OF mesh.start_probe] wf_channel_secret by blast
next
  case (step_config c m)
  then show ?case by (simp add: wf_mesh_def)
qed (simp_all add: rx_error_wf service_tx_wf wf_mesh_world, simp_all add: wf_mesh_def)

lemma mesh_boot_wf: "wf_identity self \<Longrightarrow> wf_config c \<Longrightarrow> wf_mesh (mesh_boot self c w a b)"
  using mesh_init_wf [of self c w] by (simp add: mesh_boot_def wf_mesh_def)

lemma mesh_reach_wf: "mesh_reach cs co m m' \<Longrightarrow> wf_mesh m \<Longrightarrow> wf_mesh m'"
  by (induction rule: mesh_reach.induct) (auto intro: mesh_step_wf)

end
