(* ===== verification/Mesh_Limits.thy ===== *)
theory Mesh_Limits
  imports Mesh_Inv
begin

text \<open>
  The limits on what the node says by itself: the mailbox's cooldown per base call, and the budget
  of a coverage probe.
\<close>

section \<open>The mailbox cooldown\<close>

lemma gate_oldest_lt: "\<forall>k \<in> set ks. k < n \<Longrightarrow> oldest < n \<Longrightarrow> gate_oldest g ks oldest < n"
  by (induction g ks oldest rule: gate_oldest.induct) auto

lemma find_index_update_same:
  assumes "i < length xs" "P x" "\<forall>y \<in> set xs. \<not> P y"
  shows "find_index P (xs[i := x]) = Some i"
  using assms by (auto simp: find_index_Some nth_list_update)

text \<open>Within the cooldown after an admitted request, the same base call is refused, in any spelling.\<close>

lemma rate_ok_cooldown:
  assumes "mbox_rate_ok g sender now = (True, g')" "g \<noteq> []"
    "strcaseeq (base_call sender 24) (base_call sender' 24)" "now' < now + MBOX_REPLY_COOLDOWN_MS"
  shows "\<not> fst (mbox_rate_ok g' sender' now')"
proof -
  let ?b = "base_call sender 24" and ?b' = "base_call sender' 24"
  let ?P = "\<lambda>b e. gate_call e \<noteq> [] \<and> strcaseeq (gate_call e) b"
  have b: "?b \<noteq> []" using assms(1) by (auto simp: mbox_rate_ok_def Let_def)
  have b': "?b' \<noteq> []" using b assms(3) by (auto simp: strcaseeq_def)
  have P: "?P ?b' e \<longleftrightarrow> ?P ?b e" for e using assms(3) by (auto simp: strcaseeq_def)
  have l: "snprintf_s 24 ?b = ?b" by (simp add: snprintf_s_def base_call_def)
  have "\<exists>k. find_index (?P ?b) g' = Some k \<and> gate_next_ms (g' ! k) = now + MBOX_REPLY_COOLDOWN_MS"
  proof (cases "find_index (?P ?b) g")
    case (Some k)
    then have k: "k < length g" "?P ?b (g ! k)" "\<forall>j < k. \<not> ?P ?b (g ! j)" by (auto simp: find_index_Some)
    have g': "g' = g[k := (g ! k)\<lparr>gate_next_ms := now + MBOX_REPLY_COOLDOWN_MS\<rparr>]"
      using assms(1) b Some by (auto simp: mbox_rate_ok_def Let_def split: if_splits)
    have "find_index (?P ?b) g' = Some k"
      using k unfolding g' by (simp add: find_index_Some nth_list_update)
    then show ?thesis using k(1) g' by auto
  next
    case None
    then have n: "\<forall>e \<in> set g. \<not> ?P ?b e" unfolding find_index_None .
    let ?s = "case find_index (\<lambda>e. gate_call e = []) g of Some free \<Rightarrow> free | None \<Rightarrow> gate_oldest g [0..<length g] 0"
    have s: "?s < length g"
      using gate_oldest_lt [of "[0..<length g]" "length g" 0 g] assms(2)
      by (auto split: option.split dest: find_index_lt)
    have g': "g' = g[?s := \<lparr>gate_call = ?b, gate_next_ms = now + MBOX_REPLY_COOLDOWN_MS\<rparr>]"
      using assms(1) b None by (simp add: mbox_rate_ok_def Let_def l cong: option.case_cong)
    have "find_index (?P ?b) g' = Some ?s"
      unfolding g' by (rule find_index_update_same [OF s _ n]) (use b in \<open>simp add: strcaseeq_def\<close>)
    then show ?thesis using s g' by auto
  qed
  then obtain k where "find_index (?P ?b') g' = Some k" "gate_next_ms (g' ! k) = now + MBOX_REPLY_COOLDOWN_MS"
    unfolding P by blast
  then show ?thesis using b' assms(4) by (simp add: mbox_rate_ok_def Let_def)
qed

section \<open>The probe's budget\<close>

lemma start_probe_fields:
  assumes "0 < count"
  shows "probe_remaining (mesh_start_probe m ch secs count) = min count MESH_PROBE_MAX_COUNT \<and>
    probe_total (mesh_start_probe m ch secs count) = min count MESH_PROBE_MAX_COUNT \<and>
    probe_seq (mesh_start_probe m ch secs count) = 0"
  using assms by (simp add: mesh_start_probe_def Let_def split_beta min_def)

lemma probe_seq_frame [frame_simps]:
  "probe_seq (snd (mesh_time m)) = probe_seq m"
  "probe_seq (snd (mesh_rng lo hi m)) = probe_seq m"
  "probe_seq (seen_note m p) = probe_seq m"
  "probe_seq (snd (enqueue m p prio d dbm own)) = probe_seq m"
  "probe_seq (bump f m) = probe_seq m"
proof -
  show "probe_seq (snd (mesh_time m)) = probe_seq m" "probe_seq (snd (mesh_rng lo hi m)) = probe_seq m"
    "probe_seq (seen_note m p) = probe_seq m" "probe_seq (bump f m) = probe_seq m" for m
    by (simp_all add: mesh_time_def mesh_rng_def seen_note_def seen_check_and_add_def bump_def split_beta)
  show "probe_seq (snd (enqueue m p prio d dbm own)) = probe_seq m"
    by (auto simp: enqueue_def mesh_millis_def mon_pkt_drop_def mon_emit_def mesh_emit_def bump_def offer_raw_def
        split_beta Let_def split: option.split sum.split)
qed

text \<open>A due probe takes one number off its budget and numbers the message it sends.\<close>

lemma service_probe_counts:
  assumes "0 < probe_remaining m" "probe_next_ms m \<le> now" "\<not> mesh_rf_silent m now"
  shows "probe_remaining (mesh_service_probe m now) = probe_remaining m - 1 \<and>
    probe_seq (mesh_service_probe m now) = probe_seq m + 1"
  using assms unfolding mesh_service_probe_def Let_def split_beta
  by (simp add: not_less probe_remaining_frame probe_seq_frame del: lit_simps split: option.split)

lemma service_probe_idle:
  "probe_remaining m \<le> 0 \<or> now < probe_next_ms m \<Longrightarrow> mesh_service_probe m now = m"
  by (simp add: mesh_service_probe_def)

end
