(* ===== verification/Mesh_Props.thy ===== *)
theory Mesh_Props
  imports Mesh_Run Mesh_Limits
begin

text \<open>
  The properties of the mesh. The instances that show a property's hypotheses can hold use one
  example node: the default configuration, a signature scheme that accepts everything, a clock
  that stands still and a radio that always answers.
\<close>

section \<open>The example node\<close>

definition demo_self :: mc_identity where
  "demo_self = \<lparr>pub = replicate 32 5, sec = replicate 64 5, has_secret = True\<rparr>"

definition demo_world :: world where
  "demo_world = \<lparr>w_millis = \<lambda>_. 1000, w_millis_i = 0, w_time = \<lambda>_. 0, w_time_i = 0,
     w_rng = 88172645463325252, w_busy = \<lambda>_. 0, w_busy_i = 0, w_txrc = \<lambda>_. 0, w_txrc_i = 0,
     w_sx = config_to_sx126x config_defaults, w_out = []\<rparr>"

definition demo_mesh :: mc_mesh where
  "demo_mesh = mesh_init demo_self config_defaults demo_world"

definition demo_open :: open_fn where
  "demo_open sm pk = Some (drop 64 sm)"

definition demo_advert :: bytes where
  \<comment> \<open>a flood advert without a name\<close>
  "demo_advert = [0x11, 0] @ replicate 101 0"

definition demo_packet :: mc_packet where
  "demo_packet = zero_pkt\<lparr>header := 0x11, payload_len := 101\<rparr>"

definition demo_private :: bytes where
  \<comment> \<open>a flood direct message\<close>
  "demo_private = [0x09, 0, 1, 2, 3]"

definition fresh_for :: "mc_packet \<Rightarrow> mc_mesh" where
  \<comment> \<open>the example node with a dedup ring that differs from the packet's hash everywhere\<close>
  "fresh_for p = demo_mesh\<lparr>seen := replicate 160 (map (\<lambda>b. b + 1) (pkt_calc_hash p))\<rparr>"

lemma demo_wf: "wf_mesh demo_mesh"
  unfolding demo_mesh_def by (rule mesh_init_wf) (simp_all add: demo_self_def wf_identity_def wf_defaults)

lemma fresh_wf: "wf_mesh (fresh_for p)"
  using demo_wf by (simp add: fresh_for_def wf_mesh_def wf_ring_def)

lemma demo_fields:
  "cfg demo_mesh = config_defaults" "txq demo_mesh = replicate 24 zero_tx" "rx_src demo_mesh = MESH_SRC_RF"
  "ident demo_mesh = demo_self" "forward config_defaults" "role config_defaults = ROLE_REPEATER"
  by (simp_all add: demo_mesh_def mesh_init_def hal_millis_def config_defaults_def)

lemma demo_idle: "role (cfg demo_mesh) = ROLE_REPEATER" "0 < mesh_txq_free demo_mesh" "\<exists>e \<in> set (txq demo_mesh). \<not> tx_used e"
  by (simp_all add: demo_fields mesh_txq_free_def zero_tx_def)

lemma demo_parse: "pkt_parse demo_advert = Inr demo_packet"
  by (simp add: demo_advert_def demo_packet_def pkt_parse_def parse_tail_def pkt_has_transport_codes_def
      pkt_route_type_def pkt_valid_path_len_def pkt_path_byte_len_def pkt_path_hash_count_def
      pkt_path_hash_size_def zero_pkt_def bslice_def memcpy_at_def Let_def
      flip: replicate_add)

lemma fresh_hash: "pkt_calc_hash p \<notin> set (seen (fresh_for p))"
proof -
  have "length (pkt_calc_hash p) = 8" by simp
  then obtain x xs where h: "pkt_calc_hash p = x # xs" by (cases "pkt_calc_hash p") auto
  show ?thesis unfolding fresh_for_def by (simp add: h)
qed

lemma demo_verifies: "mc_advert_verify demo_open demo_packet = Some (replicate 32 0)"
  by (simp add: demo_packet_def demo_open_def zero_pkt_def mc_advert_verify_def pkt_payload_type_def
      mc_identity_verify_def advert_msg_def advert_app_def bslice_def Let_def)

lemma demo_relayable: "relay_ok m demo_packet" "pkt_payload_type demo_packet = PAYLOAD_TYPE_ADVERT"
  by (simp_all add: relay_ok_def demo_packet_def pkt_is_route_flood_def pkt_route_type_def zero_pkt_def
      pkt_path_hash_count_def pkt_path_hash_size_def pkt_payload_type_def)

lemma fresh_ready:
  "role (cfg (fresh_for p)) = ROLE_REPEATER" "forward (cfg (fresh_for p))" "mesh_txq_free (fresh_for p) = 24"
  "\<not> config_is_key_blocked (cfg (fresh_for p)) k" "\<not> config_is_blacklisted (cfg (fresh_for p)) n"
  by (simp_all add: fresh_for_def demo_fields mesh_txq_free_def zero_tx_def)
     (simp_all add: config_is_key_blocked_def config_is_blacklisted_def config_defaults_def empty_policy_def)

lemma demo_forwarded: "fst (mesh_on_recv cs demo_open (fresh_for demo_packet) demo_advert rssi snr) = MESH_RX_FORWARDED"
  by (rule fresh_advert_forwarded [OF fresh_wf _ _ demo_parse _ fresh_hash demo_verifies])
     (simp_all add: fresh_ready demo_relayable)

section \<open>What may be relayed\<close>

text \<open>C1: A frame is relayed only if forwarding is on, its hash was not in the dedup ring, and it is
  provably public: an advert, or a group message whose MAC verifies under a configured public
  channel or which carries the code of a served region. A relayed advert carries a verified
  signature of a key and a name that are not blocked; a trace is never relayed.\<close>

theorem forwarded_is_public:
  assumes "wf_mesh m" "mesh_on_recv cs co m raw rssi snr = (MESH_RX_FORWARDED, m')"
  shows "\<exists>p. pkt_parse raw = Inr p \<and> forward (cfg m) \<and> provably_public m p \<and>
    pkt_payload_type p \<noteq> PAYLOAD_TYPE_TRACE \<and> pkt_calc_hash p \<notin> set (seen m) \<and>
    (pkt_payload_type p = PAYLOAD_TYPE_ADVERT \<longrightarrow>
       (\<exists>pk. mc_advert_verify co p = Some pk \<and> \<not> config_is_key_blocked (cfg m) pk \<and>
          \<not> config_is_blacklisted (cfg m) (snd (mc_advert_extract p 32))))"
proof -
  obtain q where q: "pkt_parse raw = Inr q"
    using assms(2) by (cases "pkt_parse raw") (auto simp: mesh_on_recv_def Let_def)
  from q refl show ?thesis
  proof (cases rule: on_recv_parsed [of raw _ _ snr rssi m cs co])
    case dup
    then show ?thesis using assms(2) by simp
  next
    case (fresh m2)
    have t: "recv_typed cs co m2 (q\<lparr>rssi_dbm := rssi, snr_q := snr\<rparr>) = (MESH_RX_FORWARDED, m')"
      using fresh(6) assms(2) by simp
    have c: "cfg m2 = cfg m" by (rule mesh.cfg_eq [OF fresh(2)])
    from typed_forwarded [OF mesh.wf [OF fresh(2) assms(1)] t] show ?thesis
      using q fresh(1) public_cong [OF c] c by simp
  qed
qed

theorem forwarded_is_public_witness: "provably_public (fresh_for demo_packet) demo_packet"
proof -
  obtain m' where "mesh_on_recv (\<lambda>m sk. sk @ m) demo_open (fresh_for demo_packet) demo_advert (- 90) 20 = (MESH_RX_FORWARDED, m')"
    using demo_forwarded by (metis prod.collapse)
  from forwarded_is_public [OF fresh_wf this] demo_parse show ?thesis by auto
qed

text \<open>Whatever is not provably public, private messages above all, is never relayed and leaves the
  transmit queue as it was.\<close>

theorem private_never_queued:
  assumes "pkt_parse raw = Inr p" "\<not> provably_public m p"
  shows "fst (mesh_on_recv cs co m raw rssi snr) \<noteq> MESH_RX_FORWARDED \<and>
    txq (snd (mesh_on_recv cs co m raw rssi snr)) = txq m"
using assms(1) refl
proof (cases rule: on_recv_parsed [of raw _ _ snr rssi m cs co])
  case dup
  then show ?thesis by simp
next
  case (fresh m2)
  have "\<not> provably_public m2 (p\<lparr>rssi_dbm := rssi, snr_q := snr\<rparr>)"
    using assms(2) public_cong [OF mesh.cfg_eq [OF fresh(2)]] by simp
  from private_typed [OF this] show ?thesis unfolding fresh(6) fresh(3) [symmetric] by blast
qed

theorem private_never_queued_witness:
  "fst (mesh_on_recv (\<lambda>m sk. sk @ m) demo_open demo_mesh demo_private (- 90) 20) \<noteq> MESH_RX_FORWARDED"
proof -
  have p: "pkt_parse demo_private = Inr (zero_pkt\<lparr>header := 0x09, payload := [1, 2, 3] @ replicate 181 0, payload_len := 3\<rparr>)"
    by (simp add: demo_private_def pkt_parse_def parse_tail_def pkt_has_transport_codes_def
      pkt_route_type_def pkt_valid_path_len_def pkt_path_byte_len_def pkt_path_hash_count_def
      pkt_path_hash_size_def zero_pkt_def bslice_def memcpy_at_def Let_def)
  have "\<not> provably_public demo_mesh (zero_pkt\<lparr>header := 0x09, payload := [1, 2, 3] @ replicate 181 0, payload_len := 3\<rparr>)"
    by (simp add: provably_public_def pkt_payload_type_def)
  from private_never_queued [OF p this] show ?thesis by blast
qed

text \<open>A frame whose hash is in the dedup ring is reported as a duplicate and neither queued nor
  recorded again.\<close>

theorem duplicate_refused:
  assumes "pkt_parse raw = Inr p" "pkt_calc_hash p \<in> set (seen m)"
  shows "fst (mesh_on_recv cs co m raw rssi snr) = MESH_RX_DUPLICATE \<and>
    txq (snd (mesh_on_recv cs co m raw rssi snr)) = txq m \<and>
    (seen (snd (mesh_on_recv cs co m raw rssi snr)), seen_idx (snd (mesh_on_recv cs co m raw rssi snr)))
      = (seen m, seen_idx m)"
  using assms(1) refl
  by (cases rule: on_recv_parsed [of raw _ _ snr rssi m cs co]) (use assms(2) in simp_all)

theorem duplicate_refused_witness:
  "fst (mesh_on_recv (\<lambda>m sk. sk @ m) demo_open (demo_mesh\<lparr>seen := replicate 160 (pkt_calc_hash demo_packet)\<rparr>)
     demo_advert (- 90) 20) = MESH_RX_DUPLICATE"
  using duplicate_refused [OF demo_parse, of "demo_mesh\<lparr>seen := replicate 160 (pkt_calc_hash demo_packet)\<rparr>"]
  by simp

text \<open>A hash the ring has just admitted is refused as long as fewer than 160 others follow it.\<close>

theorem dedup_window:
  assumes "wf_ring r" "fst (ring_admit r h)" "length hs < MESH_SEEN_SIZE"
  shows "\<not> fst (ring_admit (foldl (\<lambda>r k. snd (ring_admit r k)) (snd (ring_admit r h)) hs) h)"
  using dedup.refused_within [OF assms] by (simp add: dedup.run_foldl)

theorem dedup_window_witness:
  "\<not> fst (ring_admit (foldl (\<lambda>r k. snd (ring_admit r k)) (snd (ring_admit (replicate 160 [], 0) [7])) (replicate 159 [8])) [7])"
  by (rule dedup_window) (simp_all add: wf_ring_def ring_admit_def list_ex_iff)

text \<open>C2: Every state the running node can reach from where \<^verbatim>\<open>main\<close> enters its loop, with the monitors
  attached and with or without the iGate and the backbone client, by any interleaving of frames from
  the radio and the hub, radio errors, service calls, adverts and probes started from the console,
  monitors that come and go, and edits and reloads of the configuration, is well formed: queue,
  ring, tables and gates keep their sizes, every queued packet is well formed, there is one
  neighbour entry per key, and a running probe stays inside its bounds.\<close>

theorem reachable_wf:
  assumes "wf_identity self" "wf_config c" "mesh_reach cs co (mesh_boot self c w aprs_up bb_up) m"
  shows "wf_mesh m"
  using assms(3) mesh_boot_wf [OF assms(1,2)] by (rule mesh_reach_wf)

theorem reachable_wf_witness: "wf_mesh (mesh_service_tx (mesh_boot demo_self config_defaults demo_world False True) 5)"
proof (rule reachable_wf)
  show "mesh_reach (\<lambda>m sk. sk @ m) demo_open (mesh_boot demo_self config_defaults demo_world False True)
      (mesh_service_tx (mesh_boot demo_self config_defaults demo_world False True) 5)"
    by (rule reach_step [OF reach_here step_tx])
qed (simp_all add: demo_self_def wf_identity_def wf_defaults)

text \<open>Receiving never touches a queued packet, never replaces the node's identity or configuration,
  and hands the hub only frames that were heard on RF or originated here.\<close>

theorem receiving_keeps:
  assumes "wf_mesh m"
  shows "queue_kept (txq m) (txq (snd (mesh_on_recv cs co m raw rssi snr))) \<and>
    keeps m (snd (mesh_on_recv cs co m raw rssi snr)) \<and>
    outs_grow m (snd (mesh_on_recv cs co m raw rssi snr))"
  using mesh.on_recv [OF assms, of cs co raw rssi snr] by (simp add: evolves_def)

theorem receiving_keeps_witness:
  "queue_kept (txq demo_mesh) (txq (snd (mesh_on_recv (\<lambda>m sk. sk @ m) demo_open demo_mesh demo_advert 0 0)))"
  using receiving_keeps [OF demo_wf] by blast

text \<open>C3: A frame from the backbone hub changes nothing the node learnt on RF or serves to RF users
  (neighbours, affinity, mailbox, cooldowns, waking, probe, time and date replies), is never
  handed back to the hub, and leaves the source of the next frame as it was.\<close>

theorem hub_frames_isolated:
  assumes "wf_mesh m"
  shows "rf_view (snd (mesh_on_backbone cs co m raw)) = rf_view m \<and>
    rx_src (snd (mesh_on_backbone cs co m raw)) = rx_src m \<and>
    (\<exists>es. w_out (wld (snd (mesh_on_backbone cs co m raw))) = w_out (wld m) @ es \<and> list_all local_event es)"
  using backbone_result [OF assms refl, of cs co raw] by blast

theorem hub_frames_isolated_witness:
  "rf_view (snd (mesh_on_backbone (\<lambda>m sk. sk @ m) demo_open demo_mesh demo_advert)) = rf_view demo_mesh"
  using hub_frames_isolated [OF demo_wf] by blast

section \<open>How it is relayed\<close>

text \<open>C4: The relay of a frame fills exactly one slot of the queue, which was free: after it the queue is
  what it was before but for this slot. The slot holds the packet with the node's own hash appended
  to its path when it floods, or the front hash removed when it is directed, with a priority that
  grows with the hops already made, and with the hash the dedup ring knows it by unchanged. What the
  handler does before the relay keeps every entry, and only a service that answers the frame may
  fill free slots there; none does for a frame from the hub, nor for one that is neither a text nor
  an advert heard by a hotspot, so there the handler as a whole changes this one slot.\<close>

theorem relayed_copy_queued:
  assumes "wf_mesh m" "mesh_on_recv cs co m raw rssi snr = (MESH_RX_FORWARDED, m')"
  shows "\<exists>p q m3 i due dbm. pkt_parse raw = Inr p \<and> q = p\<lparr>rssi_dbm := rssi, snr_q := snr\<rparr> \<and> relay_ok m p \<and>
    queue_kept (txq m) (txq m3) \<and> (unanswered m p \<longrightarrow> txq m3 = txq m) \<and>
    relay m3 q dbm = (MESH_RX_FORWARDED, m') \<and>
    i < length (txq m) \<and> \<not> tx_used (txq m ! i) \<and> \<not> tx_used (txq m3 ! i) \<and>
    txq m' = (txq m3)[i := \<lparr>tx_used = True, tx_pkt = relayed_copy m q, tx_due_ms = due,
      tx_priority = (if pkt_is_route_flood p then pkt_path_hash_count p + 1 else 0), tx_power_dbm = dbm\<rparr>] \<and>
    pkt_calc_hash (relayed_copy m q) = pkt_calc_hash p"
proof -
  obtain p where p: "pkt_parse raw = Inr p"
    using assms(2) by (cases "pkt_parse raw") (auto simp: mesh_on_recv_def Let_def)
  let ?q = "p\<lparr>rssi_dbm := rssi, snr_q := snr\<rparr>"
  from p refl show ?thesis
  proof (cases rule: on_recv_parsed [of raw _ _ snr rssi m cs co])
    case dup
    then show ?thesis using assms(2) by simp
  next
    case (fresh m2)
    have t: "recv_typed cs co m2 ?q = (MESH_RX_FORWARDED, m')" using fresh(6) assms(2) by simp
    have w2: "wf_mesh m2" by (rule mesh.wf [OF fresh(2) assms(1)])
    have wq: "wf_pkt ?q" using pkt_parse_wf [OF p] by simp
    obtain m3 dbm where e: "evolves m2 m3" "unanswered m2 ?q \<longrightarrow> txq m3 = txq m2" "relay m3 ?q dbm = (MESH_RX_FORWARDED, m')"
      using typed_relay [OF w2 wq t] by blast
    have e3: "evolves m m3" by (rule mesh.trans [OF fresh(2) e(1)])
    then have k: "ident m3 = ident m" "queue_kept (txq m) (txq m3)" by (simp_all add: evolves_def keeps_def)
    have u: "unanswered m2 ?q = unanswered m p"
      using mesh.cfg_eq [OF fresh(2)] fresh(4) by (simp add: unanswered_def pkt_payload_type_def)
    have r: "relayed_copy m3 ?q = relayed_copy m ?q" "relay_ok m3 ?q = relay_ok m ?q"
      using k(1) by (simp_all add: relayed_copy_def append_hash_def relay_ok_def)
    have ok: "relay_ok m ?q = relay_ok m p" by (simp add: relay_ok_def)
    obtain i due where i: "i < length (txq m3)" "\<not> tx_used (txq m3 ! i)" "relay_ok m ?q"
      "txq m' = (txq m3)[i := \<lparr>tx_used = True, tx_pkt = relayed_copy m ?q, tx_due_ms = due,
        tx_priority = (if pkt_is_route_flood ?q then pkt_path_hash_count ?q + 1 else 0), tx_power_dbm = dbm\<rparr>]"
      using relay_result(2) [OF e(3)] r by auto
    have "i < length (txq m)" "\<not> tx_used (txq m ! i)" using i(1,2) k(2) by (auto simp: queue_kept_def)
    moreover have "pkt_calc_hash (relayed_copy m ?q) = pkt_calc_hash p"
      using relay_keeps_hash [of ?q m] typed_forwarded [OF w2 t] by simp
    moreover have "txq m' = (txq m3)[i := \<lparr>tx_used = True, tx_pkt = relayed_copy m ?q, tx_due_ms = due,
        tx_priority = (if pkt_is_route_flood p then pkt_path_hash_count p + 1 else 0), tx_power_dbm = dbm\<rparr>]"
      using i by simp
    moreover have "unanswered m p \<longrightarrow> txq m3 = txq m" using e(2) u fresh(3) by simp
    ultimately show ?thesis using p i(2,3) ok k(2) e(3) by blast
  qed
qed

theorem relayed_copy_queued_witness:
  "\<exists>i e. txq (snd (mesh_on_recv (\<lambda>m sk. sk @ m) demo_open (fresh_for demo_packet) demo_advert 0 0)) =
     (txq (fresh_for demo_packet))[i := e] \<and> tx_used e"
proof -
  obtain m' where r: "mesh_on_recv (\<lambda>m sk. sk @ m) demo_open (fresh_for demo_packet) demo_advert 0 0 = (MESH_RX_FORWARDED, m')"
    using demo_forwarded by (metis prod.collapse)
  have u: "unanswered (fresh_for demo_packet) demo_packet" using fresh_ready(1) demo_relayable(2) by (simp add: unanswered_def)
  let ?m = "fresh_for demo_packet"
  from relayed_copy_queued [OF fresh_wf r] show ?thesis
  proof (elim exE conjE)
    fix p q m3 i due dbm
    assume h: "pkt_parse demo_advert = Inr p" "unanswered ?m p \<longrightarrow> txq m3 = txq ?m"
      "txq m' = (txq m3)[i := \<lparr>tx_used = True, tx_pkt = relayed_copy ?m q, tx_due_ms = due,
        tx_priority = (if pkt_is_route_flood p then pkt_path_hash_count p + 1 else 0), tx_power_dbm = dbm\<rparr>]"
    have "p = demo_packet" using h(1) demo_parse by simp
    then have "txq m3 = txq ?m" using h(2) u by blast
    with h(3) show ?thesis unfolding r snd_conv by (intro exI conjI) (simp, simp)
  qed
qed

text \<open>C18: When a packet with fewer than 63 hops is relayed, one free slot of the queue is filled, and as a
  list of hop hashes the path of the packet in it is that of the packet received with the node's own
  hash appended to it when it floods, and without its front one when it is directed. (At 63 hops the
  count wraps: \<open>hop_count_wraps\<close>.)\<close>

theorem relay_path:
  assumes "wf_pkt p" "wf_identity (ident m)" "relay m p dbm = (MESH_RX_FORWARDED, m')" "pkt_path_hash_count p < 63"
  shows "\<exists>i e. i < length (txq m) \<and> \<not> tx_used (txq m ! i) \<and> txq m' = (txq m)[i := e] \<and> tx_used e \<and>
    path_hashes (tx_pkt e) =
      (if pkt_is_route_flood p then path_hashes p @ [mc_identity_copy_hash (ident m) (pkt_path_hash_size p)]
       else tl (path_hashes p))"
proof -
  note h = relayed_hashes [OF assms(1,2) conjunct1 [OF relay_slot [OF assms(3)]] assms(4)]
  from relay_slot [OF assms(3)] show ?thesis unfolding h [symmetric] by metis
qed

theorem relay_path_witness:
  "\<exists>i e. txq (snd (relay demo_mesh demo_packet 20)) = (txq demo_mesh)[i := e] \<and> path_hashes (tx_pkt e) = [[5]]"
proof -
  have w: "wf_pkt demo_packet" by (rule pkt_parse_wf [OF demo_parse])
  have f: "pkt_is_route_flood demo_packet" "pkt_path_hash_count demo_packet = 0" "pkt_path_hash_size demo_packet = 1"
    by (simp_all add: demo_packet_def pkt_is_route_flood_def pkt_route_type_def pkt_path_hash_count_def
        pkt_path_hash_size_def zero_pkt_def)
  obtain m' where r: "relay demo_mesh demo_packet 20 = (MESH_RX_FORWARDED, m')"
    using relay_done [OF demo_idle(1,3) demo_relayable(1)] by (metis prod.collapse)
  have "path_hashes demo_packet = []" by (simp add: path_hashes_def f)
  moreover have "mc_identity_copy_hash demo_self 1 = [5]" by (simp add: mc_identity_copy_hash_def demo_self_def)
  moreover have "wf_identity (ident demo_mesh)" by (simp add: demo_fields) (simp add: demo_self_def wf_identity_def)
  ultimately show ?thesis
    using relay_path [OF w _ r] f r by (auto simp: demo_fields)
qed

text \<open>C26: The exception to the growing path: a well-formed flood packet that has made 63 one-byte hops and
  is not marked against it passes the size test, but its 6-bit hop count wraps, so a repeater with a free slot relays it instead of dropping it as full,
  and the copy it queues carries an empty path.\<close>

theorem hop_count_wraps:
  assumes "wf_pkt p" "pkt_is_route_flood p" "\<not> marked_dnr p" "pkt_path_hash_count p = 63" "pkt_path_hash_size p = 1"
    "role (cfg m) = ROLE_REPEATER" "0 < mesh_txq_free m"
  shows "fst (relay m p dbm) = MESH_RX_FORWARDED \<and>
    (\<exists>i e. i < length (txq m) \<and> \<not> tx_used (txq m ! i) \<and> txq (snd (relay m p dbm)) = (txq m)[i := e] \<and> tx_used e \<and>
       length (path_hashes p) = 63 \<and> path_hashes (tx_pkt e) = [])"
proof -
  have ok: "relay_ok m p" using assms(2-5) by (simp add: relay_ok_def)
  obtain m' where r: "relay m p dbm = (MESH_RX_FORWARDED, m')"
    using relay_done [OF assms(6) free_slot [OF assms(7)] ok] by (metis prod.collapse)
  have "path_hashes (relayed_copy m p) = []" using append_hash_wraps [OF assms(4)] assms(2) by (simp add: relayed_copy_def)
  moreover have "length (path_hashes p) = 63" using assms(4) by (simp add: path_hashes_def)
  ultimately show ?thesis using relay_slot [OF r] unfolding r fst_conv snd_conv by metis
qed

theorem hop_count_wraps_witness:
  "\<exists>i e. txq (snd (relay demo_mesh (zero_pkt\<lparr>header := 0x11, path_len := 63\<rparr>) 20)) = (txq demo_mesh)[i := e] \<and>
     tx_used e \<and> path_hashes (tx_pkt e) = []"
proof -
  let ?p = "zero_pkt\<lparr>header := 0x11, path_len := 63\<rparr>"
  have "wf_pkt ?p" "pkt_is_route_flood ?p" "\<not> marked_dnr ?p" "pkt_path_hash_count ?p = 63" "pkt_path_hash_size ?p = 1"
    by (simp_all add: wf_pkt_def pkt_valid_path_len_def zero_pkt_def pkt_is_route_flood_def pkt_route_type_def
        pkt_path_hash_count_def pkt_path_hash_size_def)
  from hop_count_wraps [OF this demo_idle(1) demo_idle(2), of 20] show ?thesis by blast
qed

text \<open>C19: A valid advert that is new, not blocked and within its hop limit is relayed by a repeater
  that forwards and has a free slot.\<close>

theorem fresh_advert_relayed:
  assumes "wf_mesh m" "role (cfg m) = ROLE_REPEATER" "forward (cfg m)"
    "pkt_parse raw = Inr p" "pkt_payload_type p = PAYLOAD_TYPE_ADVERT" "pkt_calc_hash p \<notin> set (seen m)"
    "mc_advert_verify co p = Some pk" "\<not> config_is_key_blocked (cfg m) pk"
    "\<not> config_is_blacklisted (cfg m) (snd (mc_advert_extract p 32))"
    "relay_ok m p" "0 < mesh_txq_free m"
  shows "fst (mesh_on_recv cs co m raw rssi snr) = MESH_RX_FORWARDED"
  using assms by (rule fresh_advert_forwarded)

theorem fresh_advert_relayed_witness:
  "fst (mesh_on_recv (\<lambda>m sk. sk @ m) demo_open (fresh_for demo_packet) demo_advert (- 70) 8) = MESH_RX_FORWARDED"
  by (rule fresh_advert_relayed [OF fresh_wf _ _ demo_parse _ fresh_hash demo_verifies])
     (simp_all add: fresh_ready demo_relayable)

section \<open>What goes on air\<close>

text \<open>C17: One call of the transmit service puts at most one frame on air. If it does, the node is not a
  silent hotspot, the frame is the serialised packet of a due entry that no other due entry
  precedes in the order of priority and due time, and its slot is free afterwards.\<close>

theorem service_tx_most_urgent:
  assumes "on_air m (mesh_service_tx m now) \<noteq> []"
  shows "\<exists>i raw t. on_air m (mesh_service_tx m now) = [Transmit raw t] \<and> \<not> mesh_rf_silent m now \<and>
    i < length (txq m) \<and> tx_due (txq m ! i) now \<and> pkt_serialize (tx_pkt (txq m ! i)) 255 = Inr raw \<and>
    (\<forall>e \<in> set (txq m). tx_due e now \<longrightarrow> tx_key (txq m ! i) \<le> tx_key e) \<and>
    txq (mesh_service_tx m now) = (txq m)[i := (txq m ! i)\<lparr>tx_used := False\<rparr>]"
proof -
  have s: "\<not> mesh_rf_silent m now" using assms service_tx_silent silence_effects(2) by metis
  obtain i where i: "pick_due m now = Some i"
    using assms service_tx_idle [OF s] by (cases "pick_due m now") (auto simp: on_air_def)
  have c: "channel_clear m"
  proof (rule ccontr)
    assume "\<not> channel_clear m"
    from s i this show False
    proof (rule service_tx_busy)
      fix r m1 q
      assume r: "mesh_rng 1 4 (bump (\<lambda>s. s\<lparr>tx_cad_busy := tx_cad_busy s + 1\<rparr>) (after_cad m)) = (r, m1)"
        and e: "mesh_service_tx m now = m1\<lparr>txq := (txq m)[i := (txq m ! i)\<lparr>tx_due_ms := now + ucast (r * 120)\<rparr>]\<rparr>"
      have "w_out (wld m1) = w_out (wld m)"
        using r by (auto simp: mesh_rng_def hal_rng_int_def xorshift64_def bump_def Let_def split: prod.splits if_splits)
      then show False using assms e by (simp add: on_air_def)
    qed
  qed
  note t = service_tx_sent [OF s i c]
  have air: "on_air m (mesh_service_tx m now) = on_air (after_cad m) (sent_entry (after_cad m) (txq m ! i))"
    unfolding t by (simp add: on_air_def)
  obtain raw where raw: "pkt_serialize (tx_pkt (txq m ! i)) 255 = Inr raw" "0 < length raw"
    using assms air
    by (cases "pkt_serialize (tx_pkt (txq m ! i)) 255")
       (auto simp: sent_entry_def on_air_def split: if_splits)
  have "\<exists>t. on_air m (mesh_service_tx m now) = [Transmit raw t]"
    unfolding air
    by (rule transmit_out [of "after_cad m" "txq m ! i" raw]) (use raw in \<open>simp add: sent_entry_def on_air_def\<close>)
  then show ?thesis
    using s pick_due_SomeD [OF i] raw(1) t by auto
qed

definition demo_queue :: "mc_mesh" where
  \<comment> \<open>the example node with one frame to send\<close>
  "demo_queue = demo_mesh\<lparr>txq := \<lparr>tx_used = True, tx_pkt = demo_packet, tx_due_ms = 1000,
     tx_priority = 1, tx_power_dbm = 22\<rparr> # replicate 23 zero_tx\<rparr>"

lemma demo_queue_fields:
  "cfg demo_queue = config_defaults" "channel_clear demo_queue" "length (txq demo_queue) = 24" "\<exists>e \<in> set (txq demo_queue). tx_due e 2000" "mesh_txq_free demo_queue = 23"
  by (simp_all add: demo_queue_def demo_fields channel_clear_def tx_due_def mesh_txq_free_def zero_tx_def
      demo_mesh_def mesh_init_def hal_millis_def demo_world_def)

theorem service_tx_most_urgent_witness: "\<exists>raw t. on_air demo_queue (mesh_service_tx demo_queue 2000) = [Transmit raw t]"
proof -
  have s: "\<not> mesh_rf_silent demo_queue 2000" by (simp add: mesh_rf_silent_def demo_queue_fields demo_fields)
  obtain i where i: "pick_due demo_queue 2000 = Some i"
    using demo_queue_fields(4) pick_due_None [of demo_queue 2000] by blast
  have "tx_used e \<longrightarrow> tx_pkt e = demo_packet" if "e \<in> set (txq demo_queue)" for e
    using that by (auto simp: demo_queue_def zero_tx_def )
  then have p: "tx_pkt (txq demo_queue ! i) = demo_packet"
    using pick_due_SomeD(1,3) [OF i] nth_mem by blast
  have raw: "pkt_serialize demo_packet 255 = Inr demo_advert" using serialize_parse [OF demo_parse] .
  have l: "0 < length demo_advert" by (simp add: demo_advert_def)
  have "on_air demo_queue (mesh_service_tx demo_queue 2000) \<noteq> []"
    unfolding service_tx_sent [OF s i demo_queue_fields(2)]
    by (rule transmit_out [of "after_cad demo_queue" "txq demo_queue ! i" demo_advert])
       (use l in \<open>simp add: sent_entry_def on_air_def p raw\<close>)
  from service_tx_most_urgent [OF this] show ?thesis by blast
qed

text \<open>C21: A hotspot nobody attends puts nothing on air and empties its queue instead.\<close>

theorem silent_hotspot_mute:
  assumes "role (cfg m) = ROLE_HOTSPOT" "hotspot_awake (cfg m) \<noteq> 0" "hs_awake_until_ms m \<le> now"
  shows "on_air m (mesh_service_tx m now) = [] \<and> (\<forall>e \<in> set (txq (mesh_service_tx m now)). \<not> tx_used e)"
proof -
  have s: "mesh_rf_silent m now" using assms by (simp add: mesh_rf_silent_def)
  show ?thesis unfolding service_tx_silent [OF s] by (auto simp: silence_effects)
qed

theorem silent_hotspot_mute_witness:
  "on_air (demo_queue\<lparr>cfg := config_defaults\<lparr>role := ROLE_HOTSPOT\<rparr>\<rparr>)
     (mesh_service_tx (demo_queue\<lparr>cfg := config_defaults\<lparr>role := ROLE_HOTSPOT\<rparr>\<rparr>) 2000) = []"
  by (rule conjunct1 [OF silent_hotspot_mute])
     (simp_all add: config_defaults_def demo_queue_def demo_mesh_def mesh_init_def hal_millis_def demo_world_def)

text \<open>C20: On a clear channel the repeater drains its queue: every call of the service made while a frame
  is due frees exactly one slot, until none is due.\<close>

theorem service_tx_progress:
  assumes "role (cfg m) = ROLE_REPEATER" "channel_clear m"
  shows "mesh_txq_free (mesh_service_tx m now) =
      (if \<exists>e \<in> set (txq m). tx_due e now then mesh_txq_free m + 1 else mesh_txq_free m) \<and>
    set (txq (mesh_service_tx m now)) \<subseteq> set (txq m) \<union> {e. \<not> tx_used e}"
proof (cases "\<exists>e \<in> set (txq m). tx_due e now")
  case True
  then show ?thesis using service_tx_frees [OF assms True] by simp
next
  case False
  have "\<not> mesh_rf_silent m now" using assms(1) by (simp add: mesh_rf_silent_def)
  then have "mesh_service_tx m now = m" using False pick_due_None [of m now] by (intro service_tx_idle) blast+
  with False show ?thesis by simp
qed

theorem service_tx_progress_witness: "mesh_txq_free (mesh_service_tx demo_queue 2000) = 24"
  using service_tx_progress [OF _ demo_queue_fields(2), of 2000] demo_queue_fields by (simp add: demo_fields)

section \<open>Messages, replies and limits\<close>

text \<open>C24: A message the node builds on one of its public channels, from a sender whose name is shorter than
  32 bytes and holds neither a colon nor a NUL and with a text without NUL, passes its own policy,
  decrypts under the channel's key and splits back into the sender's name and the text. (A longer
  name is cut and one with a colon is split at it; the configuration allows both.)\<close>

theorem message_roundtrip:
  assumes "channel_build_txt ch sender txt ts route = Some p" "length (secret ch) = 32"
    "ch \<in> set (public_channels (cfg m))" "0 \<notin> set sender" "58 \<notin> set sender" "0 \<notin> set txt" "length sender < 32"
  shows "fst (classify_forward m p) = FWD_OK_GRP_PUBLIC \<and>
    (\<exists>plain. channel_decrypt ch p MC_MAX_PACKET_PAYLOAD = Some plain \<and>
       grp_sender_name plain 32 = sender \<and> grp_message_body plain = Some txt)"
  using build_txt_public [OF assms(1-3)] build_txt_decrypt [OF assms(1,2)] build_plain_read [OF assms(4,6,5)] assms(7)
  by blast

theorem message_roundtrip_witness:
  "\<exists>p. channel_build_txt (zero_channel\<lparr>secret_len := 16\<rparr>) (lit ''ON0RPT'') (lit ''pong'') 9 ROUTE_TYPE_FLOOD = Some p \<and>
     fst (classify_forward (demo_mesh\<lparr>cfg := config_defaults\<lparr>public_channels := [zero_channel\<lparr>secret_len := 16\<rparr>]\<rparr>\<rparr>) p)
       = FWD_OK_GRP_PUBLIC"
proof -
  let ?ch = "zero_channel\<lparr>secret_len := 16\<rparr>"
  obtain p where p: "channel_build_txt ?ch (lit ''ON0RPT'') (lit ''pong'') 9 ROUTE_TYPE_FLOOD = Some p"
    by (simp add: channel_build_txt_def Let_def)
  have "fst (classify_forward (demo_mesh\<lparr>cfg := config_defaults\<lparr>public_channels := [?ch]\<rparr>\<rparr>) p) = FWD_OK_GRP_PUBLIC"
    by (rule conjunct1 [OF message_roundtrip [OF p]]) (simp_all add: zero_channel_def)
  with p show ?thesis by blast
qed

text \<open>A routed reply retraces the path of the request: the hop hashes in reverse order, in a
  well-formed packet.\<close>

theorem routed_reply_retraces:
  assumes "wf_pkt p" "wf_pkt rx" "path_len p = 0"
  shows "wf_pkt (route_back rx p) \<and> path_hashes (route_back rx p) = rev (path_hashes rx)"
  using assms by (rule route_back_wf_hashes)

theorem routed_reply_retraces_witness:
  "path_hashes (route_back (zero_pkt\<lparr>path_len := 2, path := [7, 9] @ replicate 62 0\<rparr>) zero_pkt) = [[9], [7]]"
proof -
  let ?rx = "zero_pkt\<lparr>path_len := 2, path := [7, 9] @ replicate 62 0\<rparr>"
  have w: "wf_pkt zero_pkt" "wf_pkt ?rx" by (simp_all add: wf_pkt_def pkt_valid_path_len_def zero_pkt_def)
  have "path_hashes ?rx = [[7], [9]]"
    by (simp add: path_hashes_def pkt_path_hash_size_def pkt_path_hash_count_def bslice_def upt_rec)
  with routed_reply_retraces [OF w] show ?thesis by (simp add: zero_pkt_def)
qed

text \<open>After a mailbox request that is answered, the same base call gets no other answer before the
  cooldown ends, however it spells its call.\<close>

theorem mbox_cooldown:
  assumes "mbox_rate_ok g sender now = (True, g')" "g \<noteq> []"
    "strcaseeq (base_call sender MC_MBOX_CALL) (base_call sender' MC_MBOX_CALL)" "now' < now + MBOX_REPLY_COOLDOWN_MS"
  shows "\<not> fst (mbox_rate_ok g' sender' now')"
  using assms by (rule rate_ok_cooldown)

theorem mbox_cooldown_witness:
  "\<not> fst (mbox_rate_ok (snd (mbox_rate_ok (mbox_gate demo_mesh) (lit ''ON1ABC-7'') 5000)) (lit ''on1abc'') 12999)"
proof -
  have g: "mbox_gate demo_mesh = replicate 8 \<lparr>gate_call = [], gate_next_ms = 0\<rparr>"
    by (simp add: demo_mesh_def mesh_init_def hal_millis_def)
  have "fst (mbox_rate_ok (mbox_gate demo_mesh) (lit ''ON1ABC-7'') 5000)" unfolding g by code_simp
  then have r: "mbox_rate_ok (mbox_gate demo_mesh) (lit ''ON1ABC-7'') 5000 =
      (True, snd (mbox_rate_ok (mbox_gate demo_mesh) (lit ''ON1ABC-7'') 5000))"
    by (metis prod.collapse)
  have e: "strcaseeq (base_call (lit ''ON1ABC-7'') 24) (base_call (lit ''on1abc'') 24)" by code_simp
  show ?thesis by (rule mbox_cooldown [OF r _ e]) (simp_all add: g)
qed

text \<open>A probe command starts a run of at most 100 messages; every service call made when the next
  one is due takes one off the budget and numbers it, and calls made earlier change nothing.\<close>

theorem probe_budget:
  assumes "0 < count" "m' = mesh_start_probe m ch secs count"
  shows "probe_remaining m' = min count MESH_PROBE_MAX_COUNT \<and> probe_total m' = probe_remaining m' \<and> probe_seq m' = 0 \<and>
    (now < probe_next_ms m' \<longrightarrow> mesh_service_probe m' now = m') \<and>
    (probe_next_ms m' \<le> now \<and> \<not> mesh_rf_silent m' now \<longrightarrow>
       probe_remaining (mesh_service_probe m' now) = probe_remaining m' - 1 \<and>
       probe_seq (mesh_service_probe m' now) = 1)"
  using start_probe_fields [OF assms(1), of m ch secs] service_probe_idle [of m' now]
    service_probe_counts [of m' now] assms
  by (simp add: min_def)

theorem probe_budget_witness:
  "probe_remaining (mesh_service_probe (mesh_start_probe demo_mesh zero_channel 60 1000) 5000) = 99"
proof -
  have n: "probe_next_ms (mesh_start_probe demo_mesh zero_channel 60 1000) = 1300"
    "\<not> mesh_rf_silent (mesh_start_probe demo_mesh zero_channel 60 1000) 5000"
    by (simp_all add: mesh_start_probe_def mesh_millis_def hal_millis_def mesh_rf_silent_def Let_def split_beta
        demo_fields) (simp add: demo_mesh_def mesh_init_def hal_millis_def demo_world_def)
  show ?thesis
    using probe_budget [of 1000 _ demo_mesh zero_channel 60 5000] n by simp
qed

end
