(* ===== verification/Core_Props.thy ===== *)
theory Core_Props
  imports Aes128 Hmac Advert Config Mbox
begin

text \<open>
  The properties of the components that keep no mesh state: the digest, the block cipher, the
  packet and advert codecs, the key file, the configuration's lists and the mailbox. Each is
  stated over the component's own definitions and rests on the lemmas of its theory; a property
  with hypotheses is followed by an instance at concrete values.
\<close>

definition padded_advert :: "bytes \<Rightarrow> mc_packet" where
  \<comment> \<open>an advert with 32 signed bytes of application data, all optional fields announced, and more bytes behind\<close>
  "padded_advert tail = zero_pkt\<lparr>header := 0x11,
     payload := replicate 100 0 @ [0xf2] @ replicate 31 65 @ tail @ replicate (52 - length tail) 0,
     payload_len := 132 + length tail\<rparr>"

section \<open>Digest and cipher\<close>

text \<open>C29: The streaming SHA-256 of the code, fed in two pieces and started from any stack
  contents, gives the digest of the padded whole message, folded block by block.\<close>

theorem sha256_streaming:
  assumes "length garbage = 64"
  shows "sha256_final (sha256_update (sha256_update (sha256_init garbage) xs) ys) = sha256_ref (xs @ ys)"
  using assms by (rule sha256_stream_ref)

theorem sha256_streaming_witness:
  "sha256_final (sha256_update (sha256_update (sha256_init (replicate 64 7)) [97]) [98, 99]) = sha256_ref [97, 98, 99]"
  using sha256_streaming [of "replicate 64 7" "[97]" "[98, 99]"] by simp

text \<open>C30: Decrypting with the round keys of a key undoes encrypting with them, for every buffer of
  whole blocks, and neither changes the buffer's length.\<close>

theorem aes_ecb_inverse:
  assumes "16 \<le> length key" "length buf mod 16 = 0"
  shows "aes128_ecb_decrypt (aes128_init key) (aes128_ecb_encrypt (aes128_init key) buf) = buf \<and>
    length (aes128_ecb_encrypt (aes128_init key) buf) = length buf"
  using assms by (simp add: aes128_ecb_decrypt_encrypt)

theorem aes_ecb_inverse_witness:
  "aes128_ecb_decrypt (aes128_init (replicate 16 0x2b)) (aes128_ecb_encrypt (aes128_init (replicate 16 0x2b)) (replicate 32 9))
     = replicate 32 9"
  using aes_ecb_inverse [of "replicate 16 0x2b" "replicate 32 9"] by simp

section \<open>The packet codec\<close>

text \<open>C27: A frame that parses is reproduced byte for byte by serialising the packet, and the packet
  is well formed: the path length byte is valid and both lengths stay inside their arrays.\<close>

theorem parse_then_serialize:
  assumes "pkt_parse src = Inr p"
  shows "pkt_serialize p 255 = Inr src \<and> wf_pkt p"
  using assms by (simp add: serialize_parse pkt_parse_wf)

theorem parse_then_serialize_witness:
  "\<exists>p. pkt_parse [0x11, 0x02, 0xaa, 0xbb, 1, 2, 3] = Inr p \<and>
       pkt_serialize p 255 = Inr [0x11, 0x02, 0xaa, 0xbb, 1, 2, 3] \<and> path_len p = 2"
proof -
  obtain p where p: "pkt_parse [0x11, 0x02, 0xaa, 0xbb, 1, 2, 3] = Inr p" "path_len p = 2"
    by (simp add: pkt_parse_def parse_tail_def pkt_has_transport_codes_def pkt_route_type_def Let_def
        pkt_valid_path_len_def pkt_path_byte_len_def pkt_path_hash_count_def pkt_path_hash_size_def)
  with parse_then_serialize [OF p(1)] show ?thesis by blast
qed

text \<open>C28: A well-formed packet that serialises parses back to the same wire fields, with the bytes
  beyond its lengths zero and no transport codes unless its route type carries them.\<close>

theorem serialize_then_parse:
  assumes "wf_pkt p" "pkt_serialize p sz = Inr w"
  shows "pkt_parse w = Inr (wire_view p)"
  using assms by (rule parse_serialize)

theorem serialize_then_parse_witness:
  "pkt_parse [0x11, 0, 7, 8] = Inr (wire_view (zero_pkt\<lparr>header := 0x11, payload := [7, 8] @ replicate 182 0,
     payload_len := 2\<rparr>))"
proof (rule serialize_then_parse)
  let ?p = "zero_pkt\<lparr>header := 0x11, payload := [7, 8] @ replicate 182 0, payload_len := 2\<rparr>"
  show "wf_pkt ?p" by (simp add: wf_pkt_def pkt_valid_path_len_def zero_pkt_def)
  show "pkt_serialize ?p 255 = Inr [0x11, 0, 7, 8]"
    by (simp add: pkt_serialize_def pkt_raw_length_def pkt_has_transport_codes_def pkt_route_type_def
        pkt_path_byte_len_def pkt_path_hash_count_def pkt_path_hash_size_def pkt_valid_path_len_def zero_pkt_def
        Let_def)
qed

section \<open>Keys and adverts\<close>

text \<open>A key pair written to the key file is the key pair read back from it.\<close>

theorem identity_file_roundtrip:
  assumes "wf_identity self" "has_secret self"
  shows "mc_identity_load (Some (mc_identity_save self)) = Inr self"
  using assms by (rule load_save)

theorem identity_file_roundtrip_witness:
  "mc_identity_load (Some (mc_identity_save \<lparr>pub = replicate 32 0xa5, sec = replicate 64 0x3c, has_secret = True\<rparr>))
     = Inr \<lparr>pub = replicate 32 0xa5, sec = replicate 64 0x3c, has_secret = True\<rparr>"
  by (rule identity_file_roundtrip) (simp_all add: wf_identity_def)

text \<open>An advert the node builds verifies under its own public key wherever the signature scheme
  is correct for the key pair, and a receiver reads back the type, and the name and the location
  as far as the 32 bytes of application data carry them.\<close>

theorem advert_roundtrip:
  assumes "wf_identity self" "sign_correct cs co self" "mc_advert_build cs self info ts = Inr p"
    "0 \<notin> set (sent_name info)"
  shows "mc_advert_verify co p = Some (pub self) \<and>
    mc_advert_extract p 32 = (Some (adv_type info AND 0xF), sent_name info) \<and> wf_pkt p"
proof -
  have "length (sent_name info) \<le> 31" by (auto simp: sent_name_def min_def)
  then show ?thesis
    using build_verify [OF assms(1-3)] build_extract [OF assms(1-3), of 32] assms(4) build_wf [OF assms(1,3)]
    by simp
qed

theorem advert_roundtrip_witness:
  "\<exists>p. mc_advert_build (\<lambda>m sk. sk @ m) \<lparr>pub = replicate 32 5, sec = replicate 64 5, has_secret = True\<rparr>
         \<lparr>adv_type = 2, adv_has_location = True, adv_lat = 51000000, adv_lon = 4500000, adv_name = Some (lit ''ON0RPT'')\<rparr>
         7 = Inr p \<and>
       mc_advert_verify (\<lambda>sm pk. if take 32 sm = pk then Some (drop 64 sm) else None) p = Some (replicate 32 5) \<and>
       mc_advert_extract p 32 = (Some 2, lit ''ON0RPT'')"
proof -
  let ?cs = "\<lambda>m sk. sk @ m" and ?self = "\<lparr>pub = replicate 32 5, sec = replicate 64 5, has_secret = True\<rparr>"
  let ?co = "\<lambda>sm pk :: bytes. if take 32 sm = pk then Some (drop 64 sm) else None"
  let ?info = "\<lparr>adv_type = 2, adv_has_location = True, adv_lat = 51000000, adv_lon = 4500000,
    adv_name = Some (lit ''ON0RPT'')\<rparr>"
  have l: "length (advert_msg (pub ?self) 7 (encode_app_data ?info)) + 64 \<le> 192"
    using length_advert_msg [of "replicate 32 5" "encode_app_data ?info" 7] length_encode_app_data [of ?info] by simp
  then obtain p where p: "mc_advert_build ?cs ?self ?info 7 = Inr p"
    by (simp add: mc_advert_build_def mc_identity_sign_def Let_def)
  have n: "sent_name ?info = lit ''ON0RPT''" by (simp add: sent_name_def)
  have "sign_correct ?cs ?co ?self" by (simp add: sign_correct_def)
  from advert_roundtrip [OF _ this p] p n show ?thesis by (simp add: wf_identity_def)
qed

text \<open>C36: Two adverts that agree on the first 132 payload bytes verify alike, whatever follows: the
  signature check covers 32 bytes of application data, while the name is read up to the end of
  the payload. The instance is a verified advert whose name a relay can extend.\<close>

theorem advert_tail_unsigned:
  assumes "header p' = header p" "132 \<le> payload_len p" "132 \<le> payload_len p'"
    "take 132 (payload p') = take 132 (payload p)"
  shows "mc_advert_verify co p' = mc_advert_verify co p"
  using assms by (rule verify_covers_prefix)

theorem advert_tail_unsigned_witness:
  "mc_advert_verify (\<lambda>sm pk. Some (drop 64 sm)) (padded_advert [66]) = Some (replicate 32 0) \<and>
   mc_advert_verify (\<lambda>sm pk. Some (drop 64 sm)) (padded_advert []) = Some (replicate 32 0) \<and>
   snd (mc_advert_extract (padded_advert [66]) 32) \<noteq> snd (mc_advert_extract (padded_advert []) 32)"
proof -
  let ?co = "\<lambda>sm pk. Some (drop 64 sm)"
  have v: "mc_advert_verify ?co (padded_advert []) = Some (replicate 32 0)"
    by (simp add: padded_advert_def zero_pkt_def mc_advert_verify_def pkt_payload_type_def mc_identity_verify_def
        advert_msg_def advert_app_def bslice_def Let_def)
  have "mc_advert_verify ?co (padded_advert [66]) = mc_advert_verify ?co (padded_advert [])"
    by (rule advert_tail_unsigned) (simp_all add: padded_advert_def zero_pkt_def)
  moreover have "snd (mc_advert_extract (padded_advert []) 32) = replicate 19 65"
    "snd (mc_advert_extract (padded_advert [66]) 32) = replicate 19 65 @ [66]"
    by (simp_all add: padded_advert_def zero_pkt_def mc_advert_extract_def advert_app_def bslice_def c_str_def
        Let_def)
  moreover have "replicate 19 65 @ [66] \<noteq> replicate 19 (65 :: byte)" by simp
  ultimately show ?thesis using v by metis
qed

section \<open>Configuration\<close>

text \<open>Every list of the configuration stays inside its array, every channel keeps the hash of its
  own key and every room the key of its own name, whatever the operator adds or removes and
  whatever policy the hub sends.\<close>

theorem config_operations_wf:
  assumes "wf_config c"
  shows "wf_config (snd (add_public_channel c v)) \<and> wf_config (snd (add_room_ex c v hb)) \<and>
    wf_config (snd (config_blacklist_add c v)) \<and> wf_config (snd (config_blacklist_remove c v)) \<and>
    wf_config (config_ensure_ping_channel c) \<and> wf_config (config_set_policy c p own)"
  using assms by (simp add: wf_simps)

theorem config_operations_wf_witness:
  "wf_config (config_set_policy config_defaults (empty_policy\<lparr>pol_rooms := [lit ''#be'']\<rparr>) None)"
  using config_operations_wf [OF wf_defaults] by blast

text \<open>A policy pushed by the hub never blocks the node's own key, and adds its own name to no
  block list: the name is refused only where the operator's own blacklist names it.\<close>

theorem policy_spares_own_node:
  "\<not> config_is_key_blocked (config_set_policy c p (Some own)) own \<and>
   (config_is_blacklisted (config_set_policy c p own') (cfg_name c) \<longleftrightarrow>
      cfg_name c \<noteq> [] \<and> list_ex (\<lambda>x. strcaseeq x (cfg_name c)) (blacklist c))"
  using set_policy_own by blast

text \<open>Merging the hub's rooms is idempotent and leaves the operator's rooms and channels, and
  their order, as they were.\<close>

theorem policy_merge_stable:
  "config_policy_merge (config_policy_merge c) = config_policy_merge c \<and>
   local_part (config_policy_merge c) = local_part c"
  by (simp add: policy_merge_again policy_merge_local)

text \<open>A name the blacklist accepts is refused from then on; removing a name removes every
  spelling of it; and no name is ever listed twice.\<close>

theorem blacklist_edits:
  assumes "uniq_names (blacklist c)"
  shows "(0 \<le> fst (config_blacklist_add c v) \<longrightarrow>
      config_is_blacklisted (snd (config_blacklist_add c v)) (trim_name v 32)) \<and>
    uniq_names (blacklist (snd (config_blacklist_add c v))) \<and>
    \<not> list_ex (\<lambda>x. strcaseeq x (trim_name v 32)) (blacklist (snd (config_blacklist_remove c v))) \<and>
    uniq_names (blacklist (snd (config_blacklist_remove c v)))"
  using blacklist_add_listed [of c v] blacklist_add_uniq [OF assms] blacklist_remove_gone [OF assms]
  by (metis prod.collapse)

theorem blacklist_edits_witness:
  "config_is_blacklisted (snd (config_blacklist_add config_defaults (lit '' N0BAD ''))) (trim_name (lit '' N0BAD '') 32)"
proof -
  have "fst (config_blacklist_add config_defaults (lit '' N0BAD '')) = 0" by code_simp
  moreover have "uniq_names (blacklist config_defaults)" by (simp add: uniq_names_def config_defaults_def)
  ultimately show ?thesis using blacklist_edits [of config_defaults "lit '' N0BAD ''"] by simp
qed

section \<open>The mailbox\<close>

text \<open>C40: The ring of 32 slots is a bounded queue: storing appends the message at the end and, when
  the mailbox is full, drops the oldest one.\<close>

theorem mbox_store_is_bounded_queue:
  assumes "wf_mbox mb"
  shows "wf_mbox (mbox_store mb to from text ts) \<and>
    mbox_list (mbox_store mb to from text ts) =
      (if mb_count mb < 32 then mbox_list mb else tl (mbox_list mb)) @ [new_entry to from text ts]"
  using assms by (simp add: mbox_store_list mbox_store_wf)

theorem mbox_store_is_bounded_queue_witness:
  "mbox_list (mbox_store \<lparr>mb_e = replicate 32 zero_entry, mb_head = 5, mb_count = 32\<rparr> (lit ''A'') (lit ''B'') (lit ''hi'') 9)
     = replicate 31 zero_entry @ [new_entry (lit ''A'') (lit ''B'') (lit ''hi'') 9]"
proof -
  let ?mb = "\<lparr>mb_e = replicate 32 zero_entry, mb_head = 5, mb_count = 32\<rparr>"
  have w: "wf_mbox ?mb" by (simp add: wf_mbox_def)
  have "mbox_list ?mb = replicate 32 zero_entry"
    by (rule nth_equalityI) (simp_all add: mbox_list_def mbox_nth_def Let_def)
  then show ?thesis using mbox_store_is_bounded_queue [OF w, of "lit ''A''" "lit ''B''" "lit ''hi''" 9]
    by simp
qed

text \<open>A fetch reports how many stored messages are addressed to the caller's base call, and
  returns the oldest of them, whole, in order, separated and inside the buffer; it leaves some
  out only once one did not fit.\<close>

theorem mbox_fetch_oldest_first:
  assumes "0 < sz"
  shows "let st = mbox_format_fetch mb call sz; ms = filter (addressed call) (mbox_list mb) in
    fs_matches st = length ms \<and> fs_shown st \<le> length ms \<and> fs_out st = fetch_text (take (fs_shown st) ms) \<and>
    length (fs_out st) < sz \<and> (fs_full st \<or> fs_shown st = length ms)"
  using mbox_fetch_spec [OF assms, of call mb] by (auto simp: fetch_inv_def Let_def)

theorem mbox_fetch_oldest_first_witness:
  "fs_matches (mbox_format_fetch (mbox_store \<lparr>mb_e = replicate 32 zero_entry, mb_head = 0, mb_count = 0\<rparr>
     (lit ''on1abc-7'') (lit ''B'') (lit ''hi'') 9) (lit ''ON1ABC'') 100) = 1"
proof -
  let ?mb = "mbox_store \<lparr>mb_e = replicate 32 zero_entry, mb_head = 0, mb_count = 0\<rparr>
     (lit ''on1abc-7'') (lit ''B'') (lit ''hi'') 9"
  have "length (filter (addressed (lit ''ON1ABC'')) (mbox_list ?mb)) = 1" by code_simp
  then show ?thesis using mbox_fetch_oldest_first [of 100 ?mb "lit ''ON1ABC''"] by (simp add: Let_def)
qed

end
