(* ===== verification/Bb_Codec.thy ===== *)
theory Bb_Codec
  imports Identity Hmac Once
begin

text \<open>
  The datagrams of the backbone (\<^verbatim>\<open>backbone.h\<close> and the codec part of \<^verbatim>\<open>backbone.c\<close>): the signed
  HELLO, WELCOME and RESET, the session keys, the authenticated session datagrams and the
  replay window. A builder returns \<open>None\<close> where the C function returns length 0; a checker
  returns the error code of the C function or the fields it fills. The replay window is an
  instance of the interface \<open>once_forever\<close> and refines the set of accepted numbers.
\<close>

section \<open>Constants\<close>

abbreviation (input) "BB_VERSION \<equiv> 1 :: byte"
abbreviation (input) "BB_MAX_DGRAM \<equiv> 1200 :: nat"
abbreviation (input) "BB_MAX_FRAME \<equiv> 255 :: nat"
abbreviation (input) "BB_HDR \<equiv> 12 :: nat"
abbreviation (input) "BB_MAC \<equiv> 16 :: nat"
abbreviation (input) "BB_HELLO_FIXED \<equiv> 75 :: nat"
abbreviation (input) "BB_WELCOME_LEN \<equiv> 148 :: nat"
abbreviation (input) "BB_RESET_LEN \<equiv> 80 :: nat"
abbreviation (input) "BB_NAME_MAX \<equiv> 32 :: nat"

abbreviation (input) "BB_T_HELLO \<equiv> 0x01 :: byte"
abbreviation (input) "BB_T_WELCOME \<equiv> 0x02 :: byte"
abbreviation (input) "BB_T_RESET \<equiv> 0x03 :: byte"
abbreviation (input) "BB_T_KEEPALIVE \<equiv> 0x10 :: byte"
abbreviation (input) "BB_T_OBSERVE \<equiv> 0x11 :: byte"
abbreviation (input) "BB_T_BRIDGE \<equiv> 0x12 :: byte"
abbreviation (input) "BB_T_STATUS \<equiv> 0x13 :: byte"
abbreviation (input) "BB_T_NEIGHBOURS \<equiv> 0x14 :: byte"
abbreviation (input) "BB_T_BYE \<equiv> 0x1F :: byte"
abbreviation (input) "BB_T_KEEPALIVE_ACK \<equiv> 0x20 :: byte"
abbreviation (input) "BB_T_FRAME \<equiv> 0x21 :: byte"
abbreviation (input) "BB_T_POLICY \<equiv> 0x22 :: byte"
abbreviation (input) "BB_T_BYE_DOWN \<equiv> 0x2F :: byte"

abbreviation (input) "BB_ROLE_OBSERVE \<equiv> 0x01 :: byte"
abbreviation (input) "BB_ROLE_BRIDGE \<equiv> 0x02 :: byte"

abbreviation (input) "BB_CTX_HELLO \<equiv> lit ''MCBB1 HELLO''"
abbreviation (input) "BB_CTX_WELCOME \<equiv> lit ''MCBB1 WELCOME''"
abbreviation (input) "BB_CTX_RESET \<equiv> lit ''MCBB1 RESET''"
abbreviation (input) "BB_LBL_UP \<equiv> lit ''MCBB1 up''"
abbreviation (input) "BB_LBL_DOWN \<equiv> lit ''MCBB1 down''"

record bb_welcome =
  wl_roles :: byte
  wl_ts :: u32
  wl_sid :: u32
  wl_eph_pub :: bytes
  wl_keepalive_s :: u16
  wl_status_s :: u16
  wl_neighbours_s :: u16

record bb_replay =
  rp_top :: u32
  rp_bits :: u64

section \<open>Headers and signatures\<close>

definition put_hdr :: "byte \<Rightarrow> bytes" where
  "put_hdr t = [77, 66, BB_VERSION, t]"

definition hdr_ok :: "bytes \<Rightarrow> byte \<Rightarrow> bool" where
  "hdr_ok d t = (4 \<le> length d \<and> d ! 0 = 77 \<and> d ! 1 = 66 \<and> d ! 2 = BB_VERSION \<and> d ! 3 = t)"

definition sign_ctx :: "sign_fn \<Rightarrow> mc_identity \<Rightarrow> bytes \<Rightarrow> bytes \<Rightarrow> int + bytes" where
  "sign_ctx crypto_sign self ctx msg =
     (if 160 < length ctx + length msg then Inl (-1)
      else mc_identity_sign crypto_sign self (ctx @ msg))"

definition verify_ctx :: "open_fn \<Rightarrow> bytes \<Rightarrow> bytes \<Rightarrow> bytes \<Rightarrow> bytes \<Rightarrow> bool" where
  "verify_ctx crypto_sign_open pk ctx msg sig =
     (if 160 < length ctx + length msg then False
      else mc_identity_verify crypto_sign_open pk sig (ctx @ msg))"

definition sha256_buf :: "bytes \<Rightarrow> bytes \<Rightarrow> bytes" where
  "sha256_buf a b =
     (let c = sha256_update (sha256_init (replicate 64 0)) a
      in sha256_final (if b \<noteq> [] then sha256_update c b else c))"

section \<open>HELLO, WELCOME and RESET\<close>

definition bb_build_hello ::
    "sign_fn \<Rightarrow> nat \<Rightarrow> mc_identity \<Rightarrow> byte \<Rightarrow> u32 \<Rightarrow> bytes \<Rightarrow> bytes \<Rightarrow> bytes option" where
  "bb_build_hello crypto_sign cap self asked ts eph nm =
     (let nl = min (length nm) BB_NAME_MAX in
      if cap < BB_HELLO_FIXED + nl + 64 then None
      else
        let msg = put_hdr BB_T_HELLO @ [asked, 0] @ wr_u32le ts @ take 32 (pub self) @ take 32 eph
                    @ [of_nat nl] @ take nl nm in
        case sign_ctx crypto_sign self BB_CTX_HELLO msg of
          Inl _ \<Rightarrow> None
        | Inr sig \<Rightarrow> Some (msg @ sig))"

definition welcome_msg :: "bb_welcome \<Rightarrow> bytes \<Rightarrow> bytes" where
  "welcome_msg w hello_hash =
     put_hdr BB_T_WELCOME @ [wl_roles w, 0] @ wr_u32le (wl_ts w) @ wr_u32le (wl_sid w)
       @ take 32 (wl_eph_pub w) @ take 32 hello_hash @ wr_u16le (wl_keepalive_s w)
       @ wr_u16le (wl_status_s w) @ wr_u16le (wl_neighbours_s w)"

definition bb_build_welcome ::
    "sign_fn \<Rightarrow> nat \<Rightarrow> mc_identity \<Rightarrow> bb_welcome \<Rightarrow> bytes \<Rightarrow> bytes option" where
  "bb_build_welcome crypto_sign cap self w hello_hash =
     (if cap < BB_WELCOME_LEN then None
      else (case sign_ctx crypto_sign self BB_CTX_WELCOME (welcome_msg w hello_hash) of
              Inl _ \<Rightarrow> None
            | Inr sig \<Rightarrow> Some (welcome_msg w hello_hash @ sig)))"

definition welcome_fields :: "bytes \<Rightarrow> bb_welcome" where
  "welcome_fields d =
     \<lparr>wl_roles = d ! 4, wl_ts = rd_u32le (drop 6 d), wl_sid = rd_u32le (drop 10 d),
      wl_eph_pub = bslice 14 32 d, wl_keepalive_s = rd_u16le (drop 78 d),
      wl_status_s = rd_u16le (drop 80 d), wl_neighbours_s = rd_u16le (drop 82 d)\<rparr>"

definition bb_check_welcome ::
    "open_fn \<Rightarrow> bytes \<Rightarrow> bytes \<Rightarrow> bytes \<Rightarrow> byte \<Rightarrow> int + bb_welcome" where
  "bb_check_welcome crypto_sign_open d hub_key hello_hash asked =
     (if length d \<noteq> BB_WELCOME_LEN \<or> \<not> hdr_ok d BB_T_WELCOME then Inl (-1)
      else if bslice 46 32 d \<noteq> take 32 hello_hash then Inl (-2)
      else if \<not> verify_ctx crypto_sign_open hub_key BB_CTX_WELCOME (take 84 d) (bslice 84 64 d) then Inl (-3)
      else let w = welcome_fields d in
           if wl_sid w = 0 \<or> wl_roles w AND NOT asked \<noteq> 0 then Inl (-4) else Inr w)"

definition reset_msg :: "u32 \<Rightarrow> u32 \<Rightarrow> u32 \<Rightarrow> bytes" where
  "reset_msg s q ts = put_hdr BB_T_RESET @ wr_u32le s @ wr_u32le q @ wr_u32le ts"

definition bb_build_reset ::
    "sign_fn \<Rightarrow> nat \<Rightarrow> mc_identity \<Rightarrow> u32 \<Rightarrow> u32 \<Rightarrow> u32 \<Rightarrow> bytes option" where
  "bb_build_reset crypto_sign cap self s q ts =
     (if cap < BB_RESET_LEN then None
      else (case sign_ctx crypto_sign self BB_CTX_RESET (reset_msg s q ts) of
              Inl _ \<Rightarrow> None
            | Inr sig \<Rightarrow> Some (reset_msg s q ts @ sig)))"

definition bb_check_reset :: "open_fn \<Rightarrow> bytes \<Rightarrow> bytes \<Rightarrow> int + (u32 \<times> u32 \<times> u32)" where
  "bb_check_reset crypto_sign_open d hub_key =
     (if length d \<noteq> BB_RESET_LEN \<or> \<not> hdr_ok d BB_T_RESET then Inl (-1)
      else if \<not> verify_ctx crypto_sign_open hub_key BB_CTX_RESET (take 16 d) (bslice 16 64 d) then Inl (-3)
      else Inr (rd_u32le (drop 4 d), rd_u32le (drop 8 d), rd_u32le (drop 12 d)))"

section \<open>Session keys and session datagrams\<close>

definition bb_derive_keys :: "bytes \<Rightarrow> bytes \<Rightarrow> bytes \<Rightarrow> (bytes \<times> bytes) option" where
  \<comment> \<open>\<open>None\<close> is the return code \<open>-1\<close>, the all-zero shared secret\<close>
  "bb_derive_keys shared hello welcome =
     (if foldl (\<lambda>acc b. acc OR b) 0 (take 32 shared) = 0 then None
      else let th = sha256_buf hello welcome
           in Some (hmac_sha256 (take 32 shared) (BB_LBL_UP @ th),
                    hmac_sha256 (take 32 shared) (BB_LBL_DOWN @ th)))"

definition session_msg :: "byte \<Rightarrow> u32 \<Rightarrow> u32 \<Rightarrow> bytes \<Rightarrow> bytes" where
  "session_msg t s q body = put_hdr t @ wr_u32le s @ wr_u32le q @ body"

definition bb_seal :: "nat \<Rightarrow> byte \<Rightarrow> u32 \<Rightarrow> u32 \<Rightarrow> bytes \<Rightarrow> bytes \<Rightarrow> bytes option" where
  "bb_seal cap t s q body key =
     (let n = BB_HDR + length body + BB_MAC in
      if cap < n \<or> BB_MAX_DGRAM < n then None
      else Some (session_msg t s q body @ take BB_MAC (hmac_sha256 key (session_msg t s q body))))"

definition ct_diff :: "bytes \<Rightarrow> bytes \<Rightarrow> byte" where
  \<comment> \<open>the constant-time comparison: the OR of the differences\<close>
  "ct_diff a b = foldl (\<lambda>acc (x, y). acc OR (x XOR y)) 0 (zip a b)"

definition bb_open :: "bytes \<Rightarrow> bytes \<Rightarrow> int + (byte \<times> u32 \<times> u32 \<times> bytes)" where
  "bb_open d key =
     (if length d < BB_HDR + BB_MAC \<or> d ! 0 \<noteq> 77 \<or> d ! 1 \<noteq> 66 \<or> d ! 2 \<noteq> BB_VERSION then Inl (-1)
      else
        let n = length d - BB_MAC;
            tag = hmac_sha256 key (take n d) in
        if ct_diff (take BB_MAC tag) (bslice n BB_MAC d) \<noteq> 0 then Inl (-2)
        else Inr (d ! 3, rd_u32le (drop 4 d), rd_u32le (drop 8 d), bslice BB_HDR (length d - BB_HDR - BB_MAC) d))"

section \<open>The replay window\<close>

definition bb_replay_check :: "bb_replay \<Rightarrow> u32 \<Rightarrow> bool \<times> bb_replay" where
  "bb_replay_check w q =
     (if q = 0 then (False, w)
      else if rp_top w < q then
        (let shift = q - rp_top w;
             bits = (if 64 \<le> shift then 0 else push_bit (unat shift) (rp_bits w))
         in (True, \<lparr>rp_top = q, rp_bits = bits OR 1\<rparr>))
      else
        let back = rp_top w - q in
        if 64 \<le> back then (False, w)
        else if rp_bits w AND push_bit (unat back) 1 \<noteq> 0 then (False, w)
        else (True, w\<lparr>rp_bits := rp_bits w OR push_bit (unat back) 1\<rparr>))"

definition zero_replay :: bb_replay where
  "zero_replay = \<lparr>rp_top = 0, rp_bits = 0\<rparr>"

section \<open>Sealing and opening\<close>

lemma or_eq_0_byte: "(a :: byte) OR b = 0 \<longleftrightarrow> a = 0 \<and> b = 0"
  by (auto simp: bit_eq_iff bit_or_iff)

lemma xor_eq_0_byte: "(a :: byte) XOR b = 0 \<longleftrightarrow> a = b"
  by (metis xor.assoc xor_self_eq xor.right_neutral xor.left_neutral)

lemma foldl_or_zero: "foldl (\<lambda>acc b. acc OR f b) (a :: byte) xs = 0 \<longleftrightarrow> a = 0 \<and> (\<forall>x \<in> set xs. f x = 0)"
  by (induction xs arbitrary: a) (auto simp: or_eq_0_byte)

lemma ct_diff_zero: "length a = length b \<Longrightarrow> ct_diff a b = 0 \<longleftrightarrow> a = b"
proof (induction a b rule: list_induct2)
  case (Cons x xs y ys)
  then show ?case
    using foldl_or_zero [of "\<lambda>(x, y). x XOR y" "x XOR y" "zip xs ys"]
      foldl_or_zero [of "\<lambda>(x, y). x XOR y" 0 "zip xs ys"]
    by (simp add: ct_diff_def case_prod_unfold xor_eq_0_byte)
qed (simp add: ct_diff_def)

lemma length_put_hdr [simp]: "length (put_hdr t) = 4"
  by (simp add: put_hdr_def)

lemma length_session_msg [simp]: "length (session_msg t s q body) = 12 + length body"
  by (simp add: session_msg_def)

lemma session_fields:
  "session_msg t s q body ! 0 = 77" "session_msg t s q body ! 1 = 66" "session_msg t s q body ! Suc 0 = 66"
  "session_msg t s q body ! 2 = 1" "session_msg t s q body ! 3 = t"
  "drop 4 (session_msg t s q body) = wr_u32le s @ wr_u32le q @ body"
  "drop 8 (session_msg t s q body) = wr_u32le q @ body"
  "drop 12 (session_msg t s q body) = body"
  by (simp_all add: session_msg_def put_hdr_def nth_Cons' drop_Cons')

lemma open_seal:
  assumes "bb_seal cap t s q body key = Some d"
  shows "bb_open d key = Inr (t, s, q, body)"
proof -
  let ?m = "session_msg t s q body" and ?tag = "hmac_sha256 key (session_msg t s q body)"
  have d: "d = ?m @ take 16 ?tag"
    using assms by (simp add: bb_seal_def Let_def split: if_splits)
  then have len: "length d = 28 + length body" by simp
  have "take (length d - 16) d = ?m" unfolding d by (rule hmac.tagged_split) simp
  moreover have "bslice (length d - 16) 16 d = take 16 ?tag"
    unfolding d using hmac.tag_at_end [of 16 ?m key] by simp
  moreover have "d ! i = ?m ! i" if "i < 12" for i using that by (simp add: d nth_append)
  moreover have "drop i d = drop i ?m @ take 16 ?tag" if "i \<le> 12" for i using that by (simp add: d)
  ultimately show ?thesis
    using len by (simp add: bb_open_def Let_def session_fields ct_diff_zero bslice_def)
qed

lemma split_header12:
  assumes "12 \<le> length (d :: bytes)"
  shows "d = [d ! 0, d ! 1, d ! 2, d ! 3] @ wr_u32le (rd_u32le (drop 4 d)) @ wr_u32le (rd_u32le (drop 8 d)) @ drop 12 d"
proof -
  have "take 4 d = [d ! 0, d ! 1, d ! 2, d ! 3]"
    using assms by (intro nth_equalityI) (auto simp: less_Suc_eq numeral_eq_Suc)
  then have "d = [d ! 0, d ! 1, d ! 2, d ! 3] @ drop 4 d" by (metis append_take_drop_id)
  also have "drop 4 d = bslice 4 4 d @ drop 8 d" using slice_drop_join [of 4 4 d] by simp
  also have "drop 8 d = bslice 8 4 d @ drop 12 d" using slice_drop_join [of 8 4 d] by simp
  finally show ?thesis using assms by (simp add: wr_rd_at32)
qed

lemma seal_open:
  assumes "bb_open d key = Inr (t, s, q, body)" "length d \<le> cap" "length d \<le> BB_MAX_DGRAM"
  shows "bb_seal cap t s q body key = Some d"
proof -
  obtain n where n: "length d = n + 28" and b: "d ! 0 = 77" "d ! 1 = 66" "d ! 2 = 1"
    using assms(1) le_Suc_ex [of 28 "length d"] by (auto simp: bb_open_def Let_def add.commute split: if_splits)
  have tag: "take 16 (hmac_sha256 key (take (n + 12) d)) = bslice (n + 12) 16 d"
    using assms(1) n b by (simp add: bb_open_def Let_def ct_diff_zero add.commute split: if_splits)
  have f: "t = d ! 3" "s = rd_u32le (drop 4 d)" "q = rd_u32le (drop 8 d)" "body = bslice 12 n d"
    using assms(1) n b by (auto simp: bb_open_def Let_def split: if_splits)
  have "take (n + 12) d = take (n + 12) ([d ! 0, d ! 1, d ! 2, d ! 3] @ wr_u32le (rd_u32le (drop 4 d))
      @ wr_u32le (rd_u32le (drop 8 d)) @ drop 12 d)"
    by (rule arg_cong [OF split_header12]) (simp add: n)
  also have "\<dots> = session_msg t s q body"
    using b by (simp add: session_msg_def put_hdr_def f bslice_def take_Cons')
  finally have m: "take (n + 12) d = session_msg t s q body" .
  have "d = take (n + 12) d @ bslice (n + 12) 16 d" using n by (simp add: bslice_def)
  then have "d = session_msg t s q body @ take 16 (hmac_sha256 key (session_msg t s q body))"
    unfolding tag [symmetric] m .
  moreover have "length body = n" using f(4) n by simp
  ultimately show ?thesis using assms(2,3) n by (simp add: bb_seal_def Let_def)
qed

lemma seal_length: "bb_seal cap t s q body key = Some d \<Longrightarrow> length d = 28 + length body \<and> length d \<le> 1200"
  by (auto simp: bb_seal_def Let_def split: if_splits)

section \<open>What a checked handshake datagram says\<close>

lemma derive_keys_None: "bb_derive_keys shared h w = None \<longleftrightarrow> (\<forall>b \<in> set (take 32 shared). b = 0)"
  using foldl_or_zero [of "\<lambda>b. b" 0 "take 32 shared"] by (simp add: bb_derive_keys_def Let_def)

lemma length_derived: "bb_derive_keys shared h w = Some (ku, kd) \<Longrightarrow> length ku = 32 \<and> length kd = 32"
  by (auto simp: bb_derive_keys_def Let_def split: if_splits)

lemma sha256_buf_ref: "sha256_buf a b = sha256 (a @ b)"
  using sha256_stream_ref [of "replicate 64 0" a b]
  by (cases "b = []") (simp_all add: sha256_buf_def Let_def sha256_ref_eq sha256_update_def)

lemma length_sha256_buf [simp]: "length (sha256_buf a b) = 32"
  by (simp add: sha256_buf_ref)

lemma length_welcome_msg:
  "length (wl_eph_pub w) = 32 \<Longrightarrow> length hh = 32 \<Longrightarrow> length (welcome_msg w hh) = 84"
  by (simp add: welcome_msg_def)

lemma welcome_msg_fields:
  assumes "length (wl_eph_pub w) = 32" "length hh = 32"
  shows "hdr_ok (welcome_msg w hh @ sig) BB_T_WELCOME"
    "bslice 46 32 (welcome_msg w hh @ sig) = hh"
    "welcome_fields (welcome_msg w hh @ sig) = w"
  using assms
  by (simp_all add: hdr_ok_def welcome_msg_def put_hdr_def bslice_def welcome_fields_def drop_Cons' nth_Cons' nth_append)

lemma sign_ctx_verifies:
  assumes "sign_correct cs co self" "sign_ctx cs self ctx msg = Inr sig"
  shows "length sig = 64" "verify_ctx co (pub self) ctx msg sig"
  using assms verify_sign [OF assms(1), of "ctx @ msg" sig]
  by (auto simp: sign_ctx_def verify_ctx_def split: if_splits)

lemma check_welcome_build:
  assumes "sign_correct cs co self" "bb_build_welcome cs cap self w hh = Some d"
    "length (wl_eph_pub w) = 32" "length hh = 32" "wl_sid w \<noteq> 0" "wl_roles w AND NOT asked = 0"
  shows "bb_check_welcome co d (pub self) hh asked = Inr w"
proof -
  obtain sig where s: "sign_ctx cs self BB_CTX_WELCOME (welcome_msg w hh) = Inr sig"
    and d: "d = welcome_msg w hh @ sig"
    using assms(2) by (auto simp: bb_build_welcome_def split: if_splits sum.splits)
  note v = sign_ctx_verifies [OF assms(1) s]
  show ?thesis
    using welcome_msg_fields [OF assms(3,4), of sig] length_welcome_msg [OF assms(3,4)] v assms(4-6)
    by (simp add: bb_check_welcome_def Let_def d bslice_def)
qed

lemma check_reset_build:
  assumes "sign_correct cs co self" "bb_build_reset cs cap self s q ts = Some d"
  shows "bb_check_reset co d (pub self) = Inr (s, q, ts)"
proof -
  obtain sig where g: "sign_ctx cs self BB_CTX_RESET (reset_msg s q ts) = Inr sig"
    and d: "d = reset_msg s q ts @ sig"
    using assms(2) by (auto simp: bb_build_reset_def split: if_splits sum.splits)
  note v = sign_ctx_verifies [OF assms(1) g]
  have "length (reset_msg s q ts) = 16" "hdr_ok d BB_T_RESET"
    "rd_u32le (drop 4 d) = s" "rd_u32le (drop 8 d) = q" "rd_u32le (drop 12 d) = ts"
    by (simp_all add: d reset_msg_def put_hdr_def hdr_ok_def nth_Cons' drop_Cons')
  then show ?thesis using v by (simp add: bb_check_reset_def d bslice_def)
qed

text \<open>What a node may conclude from a WELCOME it accepted.\<close>

lemma check_welcome_only:
  assumes "bb_check_welcome co d hk hh asked = Inr w"
  shows "length d = 148" "verify_ctx co hk BB_CTX_WELCOME (take 84 d) (bslice 84 64 d)"
    "bslice 46 32 d = take 32 hh" "wl_sid w \<noteq> 0" "wl_roles w AND NOT asked = 0" "w = welcome_fields d"
  using assms by (auto simp: bb_check_welcome_def Let_def split: if_splits)

lemma hello_layout:
  assumes "bb_build_hello cs cap self asked ts eph nm = Some d" "length (pub self) = 32" "length eph = 32"
    "sign_correct cs co self"
  shows "length d = 139 + min (length nm) 32" "hdr_ok d BB_T_HELLO" "d ! 4 = asked" "rd_u32le (drop 6 d) = ts"
    "bslice 10 32 d = pub self" "bslice 42 32 d = eph"
    "verify_ctx co (pub self) BB_CTX_HELLO (take (75 + min (length nm) 32) d) (drop (75 + min (length nm) 32) d)"
proof -
  let ?nl = "min (length nm) 32"
  let ?msg = "put_hdr BB_T_HELLO @ [asked, 0] @ wr_u32le ts @ take 32 (pub self) @ take 32 eph @ [of_nat ?nl] @ take ?nl nm"
  obtain sig where g: "sign_ctx cs self BB_CTX_HELLO ?msg = Inr sig" and d: "d = ?msg @ sig"
    using assms(1) by (auto simp: bb_build_hello_def Let_def split: if_splits sum.splits)
  note v = sign_ctx_verifies [OF assms(4) g]
  have n: "length ?msg = 75 + ?nl" using assms by simp
  show "length d = 139 + ?nl" using n v(1) unfolding d length_append [of ?msg] by simp
  show "hdr_ok d BB_T_HELLO" "d ! 4 = asked" "rd_u32le (drop 6 d) = ts" "bslice 10 32 d = pub self" "bslice 42 32 d = eph"
    using assms(2,3) by (simp_all add: d hdr_ok_def put_hdr_def nth_Cons' drop_Cons' bslice_def)
  have "take (75 + ?nl) d = ?msg" "drop (75 + ?nl) d = sig"
    unfolding n [symmetric] using iffD1 [OF append_eq_conv_conj d [symmetric]] by (elim conjE sym)+
  with v(2) show "verify_ctx co (pub self) BB_CTX_HELLO (take (75 + ?nl) d) (drop (75 + ?nl) d)" by simp
qed

section \<open>The replay window admits a number at most once\<close>

definition rp_taken :: "bb_replay \<Rightarrow> u32 \<Rightarrow> bool" where
  "rp_taken w q \<longleftrightarrow>
     q = 0 \<or> (q \<le> rp_top w \<and> (64 \<le> rp_top w - q \<or> bit (rp_bits w) (unat (rp_top w - q))))"

lemma replay_new: "fst (bb_replay_check w q) \<longleftrightarrow> \<not> rp_taken w q"
  by (auto simp: bb_replay_check_def rp_taken_def Let_def and_exp_eq_0_iff_not_bit word_le_nat_alt word_less_nat_alt)

lemma replay_fresh_top:
  assumes "rp_top w < q"
  shows "bb_replay_check w q =
    (True, \<lparr>rp_top = q, rp_bits = (if 64 \<le> q - rp_top w then 0 else push_bit (unat (q - rp_top w)) (rp_bits w)) OR 1\<rparr>)"
  using assms by (auto simp: bb_replay_check_def Let_def)

lemma replay_bit_new:
  assumes "rp_top w < q" "n < 64"
  shows "bit (rp_bits (snd (bb_replay_check w q))) n \<longleftrightarrow>
           n = 0 \<or> (unat (q - rp_top w) \<le> n \<and> bit (rp_bits w) (n - unat (q - rp_top w)))"
  using assms(2) unfolding replay_fresh_top [OF assms(1)]
  by (auto simp: bit_simps word_le_nat_alt)

lemma replay_below:
  assumes "fst (bb_replay_check w q)" "q \<le> rp_top w"
  shows "bb_replay_check w q = (True, w\<lparr>rp_bits := rp_bits w OR push_bit (unat (rp_top w - q)) 1\<rparr>)"
    "rp_top w - q < 64" "\<not> bit (rp_bits w) (unat (rp_top w - q))"
  using assms by (auto simp: bb_replay_check_def Let_def and_exp_eq_0_iff_not_bit not_le split: if_splits)

lemma replay_same: "\<not> fst (bb_replay_check w q) \<Longrightarrow> snd (bb_replay_check w q) = w"
  by (auto simp: bb_replay_check_def Let_def split: if_splits)

lemma replay_keeps: "rp_taken w j \<Longrightarrow> rp_taken (snd (bb_replay_check w q)) j"
proof -
  assume t: "rp_taken w j"
  consider "\<not> fst (bb_replay_check w q)" | "rp_top w < q" | "fst (bb_replay_check w q)" "q \<le> rp_top w" by fastforce
  then show ?thesis
  proof cases
    case 1
    with t show ?thesis by (simp add: replay_same)
  next
    case 2
    show ?thesis
    proof (cases "j = 0 \<or> 64 \<le> q - j")
      case True
      with 2 t show ?thesis by (auto simp: rp_taken_def replay_fresh_top)
    next
      case False
      have jt: "j \<le> rp_top w" using t False by (auto simp: rp_taken_def)
      have d: "unat (q - j) = unat (rp_top w - j) + unat (q - rp_top w)"
        using 2 jt by (simp add: unat_sub word_le_nat_alt word_less_nat_alt)
      have "bit (rp_bits w) (unat (rp_top w - j))"
        using t False d by (auto simp: rp_taken_def word_le_nat_alt)
      then have "bit (rp_bits (snd (bb_replay_check w q))) (unat (q - j))"
        using False d by (subst replay_bit_new [OF 2]) (auto simp: word_le_nat_alt)
      then show ?thesis using 2 jt by (auto simp: rp_taken_def replay_fresh_top)
    qed
  next
    case 3
    show ?thesis
      using t by (auto simp: rp_taken_def replay_below [OF 3] bit_simps)
  qed
qed

interpretation replay: once_forever bb_replay_check rp_taken "\<lambda>_. True"
proof unfold_locales
  fix w q assume a: "fst (bb_replay_check w q)"
  show "rp_taken (snd (bb_replay_check w q)) q"
  proof (cases "rp_top w < q")
    case True
    then show ?thesis by (simp add: rp_taken_def replay_fresh_top bit_simps)
  next
    case False
    then have le: "q \<le> rp_top w" by simp
    then show ?thesis
      using replay_below(2) [OF a le] by (simp add: replay_below(1) [OF a le] rp_taken_def bit_simps word_less_nat_alt)
  qed
qed (simp_all add: replay_new replay_same replay_keeps)

section \<open>The replay window refines a set of numbers\<close>

definition window_spec :: "u32 set \<Rightarrow> u32 \<Rightarrow> bool" where
  \<comment> \<open>new, and less than 64 behind everything accepted so far\<close>
  "window_spec A q \<longleftrightarrow> q \<noteq> 0 \<and> q \<notin> A \<and> (\<forall>a \<in> A. unat a < unat q + 64)"

definition window_rel :: "bb_replay \<Rightarrow> u32 set \<Rightarrow> bool" where
  "window_rel w A \<longleftrightarrow>
     0 \<notin> A \<and> (\<forall>a \<in> A. a \<le> rp_top w) \<and> (rp_top w \<noteq> 0 \<longrightarrow> rp_top w \<in> A) \<and>
     (\<forall>a. a \<noteq> 0 \<longrightarrow> a \<le> rp_top w \<longrightarrow> rp_top w - a < 64 \<longrightarrow>
        (bit (rp_bits w) (unat (rp_top w - a)) \<longleftrightarrow> a \<in> A)) \<and>
     (\<forall>n < 64. bit (rp_bits w) n \<longrightarrow> n < unat (rp_top w))"

lemma window_rel_init: "window_rel zero_replay {}"
  by (simp add: window_rel_def zero_replay_def)

lemma window_spec_taken:
  assumes "window_rel w A"
  shows "window_spec A q \<longleftrightarrow> \<not> rp_taken w q"
proof (cases "q = 0 \<or> rp_top w < q")
  case True
  have "q \<notin> A \<and> (\<forall>a \<in> A. unat a < unat q + 64)" if "rp_top w < q"
  proof -
    have "a < q" if "a \<in> A" for a using assms that \<open>rp_top w < q\<close> by (auto simp: window_rel_def)
    then show ?thesis by (auto simp: word_less_nat_alt intro: trans_less_add1)
  qed
  with True show ?thesis by (auto simp: window_spec_def rp_taken_def)
next
  case False
  then have q: "q \<noteq> 0" "q \<le> rp_top w" by auto
  then have d: "unat (rp_top w - q) = unat (rp_top w) - unat q" by (simp add: unat_sub)
  have "rp_top w \<in> A" using assms q by (auto simp: window_rel_def)
  then have "(\<forall>a \<in> A. unat a < unat q + 64) \<longleftrightarrow> rp_top w - q < 64"
    using assms q d by (auto simp: window_rel_def word_le_nat_alt word_less_nat_alt)
  with assms q show ?thesis
    by (auto simp: window_spec_def window_rel_def rp_taken_def not_le [symmetric])
qed

lemma window_step_above:
  assumes r: "window_rel w A" and q: "rp_top w < q"
  shows "window_rel (snd (bb_replay_check w q)) (insert q A)"
proof -
  let ?w = "snd (bb_replay_check w q)" and ?s = "unat (q - rp_top w)"
  have le: "a \<le> rp_top w" if "a \<in> A" for a using r that by (simp add: window_rel_def)
  have top: "rp_top ?w = q" and q0: "q \<noteq> 0" using q by (auto simp: replay_fresh_top)
  have s: "?s = unat q - unat (rp_top w)" using q by (simp add: unat_sub)
  have old: "bit (rp_bits ?w) (unat (q - a)) \<longleftrightarrow> a \<in> insert q A"
    if a: "a \<noteq> 0" "a \<le> q" "q - a < 64" for a
  proof -
    have d: "unat (q - a) = unat q - unat a" "unat (q - a) < 64"
      using a by (simp_all add: unat_sub word_less_nat_alt)
    consider "a = q" | "rp_top w < a" "a < q" | "a \<le> rp_top w"
      using a(2) by fastforce
    then show ?thesis
    proof cases
      case 2
      then have "a \<notin> insert q A" "unat (q - a) \<noteq> 0" "\<not> ?s \<le> unat (q - a)"
        using le [of a] d s a(2) by (auto simp: word_less_nat_alt word_le_nat_alt)
      then show ?thesis using d by (simp add: replay_bit_new [OF q])
    next
      case 3
      have t: "unat (rp_top w - a) = unat (rp_top w) - unat a" using 3 by (simp add: unat_sub)
      have "unat (q - a) - ?s = unat (rp_top w - a)" "?s \<le> unat (q - a)" "unat (q - a) \<noteq> 0"
        using 3 q d s t by (auto simp: word_less_nat_alt word_le_nat_alt)
      moreover have "rp_top w - a < 64" using d t 3 q by (auto simp: word_less_nat_alt word_le_nat_alt)
      moreover have "a \<noteq> q" using 3 q by auto
      ultimately show ?thesis
        using r a(1) 3 d(2) by (auto simp: replay_bit_new [OF q] window_rel_def)
    qed (use d in \<open>simp add: replay_bit_new [OF q]\<close>)
  qed
  have low: "n < unat q" if "n < 64" "bit (rp_bits ?w) n" for n
  proof (cases "n = 0")
    case False
    then have b: "?s \<le> n" "bit (rp_bits w) (n - ?s)" using that by (auto simp: replay_bit_new [OF q])
    then have "n - ?s < unat (rp_top w)" using r that(1) by (auto simp: window_rel_def)
    with b(1) s q show ?thesis by (simp add: word_less_nat_alt)
  qed (use q0 in \<open>simp add: unat_gt_0\<close>)
  show ?thesis
    using r q0 old low le q unfolding window_rel_def top by (force intro: less_imp_le)
qed

lemma window_step_below:
  assumes r: "window_rel w A" and a: "fst (bb_replay_check w q)" "q \<le> rp_top w"
  shows "window_rel (snd (bb_replay_check w q)) (insert q A)"
proof -
  note b = replay_below [OF a]
  have q0: "q \<noteq> 0" using a(1) by (auto simp: bb_replay_check_def)
  have d: "unat (rp_top w - x) = unat (rp_top w) - unat x" if "x \<le> rp_top w" for x
    using that by (simp add: unat_sub)
  have eq: "unat (rp_top w - x) = unat (rp_top w - q) \<longleftrightarrow> x = q" if "x \<le> rp_top w" for x
    using d [OF that] d [OF a(2)] that a(2) by (auto simp: word_le_nat_alt word_unat_eq_iff)
  have sm: "unat (rp_top w - q) < 64" using b(2) by (simp add: word_less_nat_alt)
  have ne: "rp_top w \<noteq> 0" using a(2) q0 by auto
  then have top: "rp_top w \<in> A" using r by (simp add: window_rel_def)
  have bits: "bit (rp_bits (snd (bb_replay_check w q))) n \<longleftrightarrow> bit (rp_bits w) n \<or> (n < 64 \<and> n = unat (rp_top w - q))" for n
    by (auto simp: b(1) bit_simps)
  have low: "n < unat (rp_top w)" if "n < 64" "bit (rp_bits w) n \<or> n = unat (rp_top w - q)" for n
    using that r d [OF a(2)] q0 ne by (auto simp: window_rel_def unat_gt_0)
  show ?thesis
    using r q0 a(2) eq sm top low unfolding window_rel_def bits by (auto simp: b(1) word_less_nat_alt)
qed

lemma window_step:
  assumes "window_rel w A"
  shows "fst (bb_replay_check w q) \<longleftrightarrow> window_spec A q"
    and "window_rel (snd (bb_replay_check w q)) (if window_spec A q then insert q A else A)"
proof -
  show f: "fst (bb_replay_check w q) \<longleftrightarrow> window_spec A q"
    using window_spec_taken [OF assms] by (simp add: replay_new)
  show "window_rel (snd (bb_replay_check w q)) (if window_spec A q then insert q A else A)"
  proof (cases "window_spec A q")
    case True
    then show ?thesis
      using window_step_above [OF assms] window_step_below [OF assms] f by (cases "rp_top w < q") auto
  qed (use f assms in \<open>simp add: replay_same\<close>)
qed

primrec window_run :: "u32 set \<Rightarrow> u32 list \<Rightarrow> bool list" where
  "window_run A [] = []"
| "window_run A (q # qs) =
     window_spec A q # window_run (if window_spec A q then insert q A else A) qs"

lemma replay_run_spec: "window_rel w A \<Longrightarrow> fst (replay.run w qs) = window_run A qs"
proof (induction qs arbitrary: w A)
  case (Cons q qs)
  show ?case
    using Cons.IH [OF window_step(2) [OF Cons.prems, of q]] window_step(1) [OF Cons.prems, of q]
    by (simp add: split_beta Let_def)
qed simp

end
