(* ===== verification/Net.thy ===== *)
theory Net
  imports World
begin

text \<open>
  What the network code sees of the operating system: the datagrams the sockets will deliver,
  the outcome of every \<^verbatim>\<open>send\<close>, the return codes of the other socket and resolver calls in
  the order they are made, and the bytes of the system's random source; and what it does to
  it, as the list of calls that leave the process. Like \<open>world\<close>, the readings still to come
  are sequences indexed by a counter.
\<close>

datatype net_effect = Sent int bytes | Closed int | Bound int nat | Connected int bytes | KeptFile bytes bytes

record net =
  n_recv :: "nat \<Rightarrow> int + bytes"
  n_recv_i :: nat
  n_send :: "nat \<Rightarrow> bool"
  n_send_i :: nat
  n_ret :: "nat \<Rightarrow> int"
  n_ret_i :: nat
  n_addr :: "nat \<Rightarrow> bytes option"
  n_addr_i :: nat
  n_rand :: "nat \<Rightarrow> bytes"
  n_rand_i :: nat
  n_out :: "net_effect list"

definition net_do :: "net_effect \<Rightarrow> net \<Rightarrow> net" where
  "net_do e n = n\<lparr>n_out := n_out n @ [e]\<rparr>"

definition net_recv :: "nat \<Rightarrow> net \<Rightarrow> (int + bytes) \<times> net" where
  \<comment> \<open>\<open>recv\<close> into a buffer of \<open>cap\<close> bytes: \<open>errno\<close>, or the datagram cut to the buffer\<close>
  "net_recv cap n =
     ((case n_recv n (n_recv_i n) of Inl e \<Rightarrow> Inl e | Inr d \<Rightarrow> Inr (take cap d)),
      n\<lparr>n_recv_i := n_recv_i n + 1\<rparr>)"

definition net_send :: "int \<Rightarrow> bytes \<Rightarrow> net \<Rightarrow> bool \<times> net" where
  \<comment> \<open>\<open>send\<close>: whether the whole datagram was taken\<close>
  "net_send fd d n = (n_send n (n_send_i n), net_do (Sent fd d) (n\<lparr>n_send_i := n_send_i n + 1\<rparr>))"

definition net_ret :: "net \<Rightarrow> int \<times> net" where
  \<comment> \<open>the return code of a socket or resolver call\<close>
  "net_ret n = (n_ret n (n_ret_i n), n\<lparr>n_ret_i := n_ret_i n + 1\<rparr>)"

definition net_addr :: "net \<Rightarrow> bytes option \<times> net" where
  \<comment> \<open>the first address of a resolver answer, if it has one\<close>
  "net_addr n = (n_addr n (n_addr_i n), n\<lparr>n_addr_i := n_addr_i n + 1\<rparr>)"

definition net_random :: "nat \<Rightarrow> net \<Rightarrow> bytes \<times> net" where
  \<comment> \<open>\<open>randombytes\<close>\<close>
  "net_random k n = (take k (n_rand n (n_rand_i n) @ replicate k 0), n\<lparr>n_rand_i := n_rand_i n + 1\<rparr>)"

lemma length_net_random [simp]: "length (fst (net_random k n)) = k"
  by (simp add: net_random_def)

lemma net_recv_short: "net_recv cap n = (Inr d, n') \<Longrightarrow> length d \<le> cap"
  by (auto simp: net_recv_def split: sum.splits)

end
