(* ===== verification/Bb_State.thy ===== *)
theory Bb_State
  imports Bb_Codec Mesh_Recv Net
begin

text \<open>
  The state of the backbone client (\<^verbatim>\<open>mc_backbone\<close> in \<^verbatim>\<open>backbone.h\<close>) and the functions of
  \<^verbatim>\<open>backbone.c\<close> that send: \<open>send_raw\<close>, \<open>send_session\<close>, \<open>forget_session\<close>, \<open>retry_later\<close>,
  \<open>send_hello\<close>, \<open>start_attempt\<close>, \<open>check_resolved\<close>. The pointers of the C struct to the
  configuration, the identity and the mesh are one shared object there: every function takes the
  client and the mesh record together, \<open>bb_mesh\<close> says whether the mesh pointer is set. The socket
  side is the record \<open>net\<close>. A buffer with its length field is the list of its valid bytes. The
  token count, a \<^verbatim>\<open>double\<close>, is the rational it stands for.
\<close>

datatype bb_phase = BB_OFF | BB_IDLE | BB_RESOLVING | BB_HELLO_SENT | BB_UP

record mc_backbone =
  bb_mesh :: bool
  hub_pub :: bytes
  roles_asked :: byte
  bb_state :: bb_phase
  bb_fd :: int
  bb_addr :: bytes
  have_addr :: bool
  gai_host :: bytes
  gai_port :: bytes
  gai_busy :: bool
  next_try_ms :: u64
  deadline_ms :: u64
  backoff_s :: int
  hello_tries :: int
  eph_sec :: bytes
  hello :: bytes
  hello_hash :: bytes
  last_hello_ts :: u32
  bb_sid :: u32
  bb_roles :: byte
  k_up :: bytes
  k_down :: bytes
  seq_out :: u32
  rwin :: bb_replay
  keepalive_s :: u16
  status_s :: u16
  neighbours_s :: u16
  up_since_ms :: u64
  last_rx_ms :: u64
  next_keepalive_ms :: u64
  next_status_ms :: u64
  next_neighbours_ms :: u64
  last_reset_ms :: u64
  tokens :: rat
  tokens_ms :: u64
  pol :: mc_policy
  pol_pages :: byte
  pol_have :: u16
  pol_min_seq :: u32
  pol_max_seq :: u32
  pol_applied_seq :: u32
  sessions :: u64
  dgrams_out :: u64
  dgrams_in :: u64
  observed :: u64
  offered :: u64
  injected :: u64
  limited :: u64
  rejected :: u64
  bb_net :: net

text \<open>The functions of TweetNaCl the client calls, and the version string of the build.\<close>

record bb_env =
  e_sign :: sign_fn
  e_open :: open_fn
  e_base :: "bytes \<Rightarrow> bytes"
  e_mult :: "bytes \<Rightarrow> bytes \<Rightarrow> bytes"
  e_version :: bytes

abbreviation (input) "BB_TS_WINDOW \<equiv> 120 :: u32"
abbreviation (input) "BB_WELCOME_WAIT_MS \<equiv> 5000 :: u64"
abbreviation (input) "BB_HELLO_TRIES \<equiv> 3 :: int"
abbreviation (input) "BB_BACKOFF_MAX \<equiv> 300 :: int"
abbreviation (input) "BB_TXQ_HEADROOM \<equiv> 8 :: nat"
abbreviation (input) "BB_RX_BURST \<equiv> 16 :: nat"
abbreviation (input) "BB_STATUS_JSON \<equiv> 1100 :: nat"
abbreviation (input) "EAI_INPROGRESS \<equiv> -100 :: int"
abbreviation (input) "EAI_CANCELED \<equiv> -101 :: int"

definition bb_reject :: "mc_backbone \<Rightarrow> mc_backbone" where
  "bb_reject b = b\<lparr>rejected := rejected b + 1\<rparr>"

definition bb_do :: "net_effect \<Rightarrow> mc_backbone \<Rightarrow> mc_backbone" where
  "bb_do e b = b\<lparr>bb_net := net_do e (bb_net b)\<rparr>"

definition bb_ret :: "mc_backbone \<Rightarrow> int \<times> mc_backbone" where
  "bb_ret b = (let (r, n) = net_ret (bb_net b) in (r, b\<lparr>bb_net := n\<rparr>))"

section \<open>Sending\<close>

definition state_names :: "bb_phase \<Rightarrow> bytes" where
  "state_names s = (case s of BB_OFF \<Rightarrow> lit ''off'' | BB_IDLE \<Rightarrow> lit ''idle''
     | BB_RESOLVING \<Rightarrow> lit ''resolving'' | BB_HELLO_SENT \<Rightarrow> lit ''hello-sent'' | BB_UP \<Rightarrow> lit ''up'')"

definition backbone_state_name :: "mc_backbone \<Rightarrow> bytes" where
  "backbone_state_name b = state_names (bb_state b)"

definition backbone_up :: "mc_backbone \<Rightarrow> bool" where
  "backbone_up b = (bb_state b = BB_UP)"

definition sock_close :: "mc_backbone \<Rightarrow> mc_backbone" where
  "sock_close b = (if 0 \<le> bb_fd b then bb_do (Closed (bb_fd b)) b else b)\<lparr>bb_fd := -1\<rparr>"

definition send_raw :: "mc_backbone \<Rightarrow> bytes \<Rightarrow> mc_backbone" where
  "send_raw b d =
     (if 0 \<le> bb_fd b then
        (let (ok, n) = net_send (bb_fd b) d (bb_net b); b = b\<lparr>bb_net := n\<rparr>
         in if ok then b\<lparr>dgrams_out := dgrams_out b + 1\<rparr> else b)
      else b)"

definition send_session :: "mc_backbone \<Rightarrow> byte \<Rightarrow> bytes \<Rightarrow> mc_backbone" where
  "send_session b t body =
     (let b = b\<lparr>seq_out := seq_out b + 1\<rparr> in
      case bb_seal BB_MAX_DGRAM t (bb_sid b) (seq_out b) body (k_up b) of
        None \<Rightarrow> b
      | Some d \<Rightarrow> send_raw b d)"

definition forget_session :: "mc_backbone \<Rightarrow> mc_backbone" where
  "forget_session b =
     (sock_close (b\<lparr>k_up := replicate 32 0, k_down := replicate 32 0, eph_sec := replicate 32 0,
        bb_sid := 0, bb_roles := 0, seq_out := 0, rwin := zero_replay\<rparr>))\<lparr>bb_state := BB_IDLE\<rparr>"

section \<open>Connecting\<close>

definition retry_later :: "mc_backbone \<Rightarrow> mc_mesh \<Rightarrow> u64 \<Rightarrow> mc_backbone \<times> mc_mesh" where
  "retry_later b m now =
     (let b = forget_session b;
          w = backoff_s b;
          (r, m) = mesh_rng 0 (word_of_int w * 250) m
      in (b\<lparr>next_try_ms := now + word_of_int w * 1000 + ucast r,
            backoff_s := (if BB_BACKOFF_MAX < w * 2 then BB_BACKOFF_MAX else w * 2)\<rparr>, m))"

definition hello_ts :: "u32 \<Rightarrow> nat \<Rightarrow> u32" where
  \<comment> \<open>the clock, moved on where it would not increase\<close>
  "hello_ts prev t = (if of_nat t \<le> prev then prev + 1 else of_nat t)"

definition send_hello :: "bb_env \<Rightarrow> mc_backbone \<Rightarrow> mc_mesh \<Rightarrow> u64 \<Rightarrow> mc_backbone \<times> mc_mesh" where
  "send_hello e b m now =
     (let (sec_key, n) = net_random 32 (bb_net b);
          b = b\<lparr>bb_net := n, eph_sec := sec_key\<rparr>;
          eph = e_base e sec_key;
          (t, m) = mesh_time m;
          ts = hello_ts (last_hello_ts b) t;
          b = b\<lparr>last_hello_ts := ts\<rparr> in
      case bb_build_hello (e_sign e) (BB_HELLO_FIXED + BB_NAME_MAX + 64) (ident m) (roles_asked b) ts eph
             (cfg_name (cfg m)) of
        None \<Rightarrow> retry_later (b\<lparr>hello := []\<rparr>) m now
      | Some h \<Rightarrow>
          let b = send_raw (b\<lparr>hello := h, hello_hash := sha256_buf h []\<rparr>) h
          in (b\<lparr>hello_tries := hello_tries b + 1, bb_state := BB_HELLO_SENT,
                deadline_ms := now + BB_WELCOME_WAIT_MS\<rparr>, m))"

definition start_attempt :: "mc_backbone \<Rightarrow> mc_mesh \<Rightarrow> u64 \<Rightarrow> mc_backbone \<times> mc_mesh" where
  "start_attempt b m now =
     (let b = (forget_session b)\<lparr>hello_tries := 0, have_addr := False,
                gai_host := snprintf_s 96 (backbone_host (backbone (cfg m))),
                gai_port := snprintf_s 8 (dec_nat (unat (backbone_port (backbone (cfg m)))))\<rparr>;
          (rc, b) = bb_ret b in
      if rc \<noteq> 0 then retry_later b m now
      else (b\<lparr>gai_busy := True, bb_state := BB_RESOLVING\<rparr>, m))"

definition check_resolved :: "bb_env \<Rightarrow> mc_backbone \<Rightarrow> mc_mesh \<Rightarrow> u64 \<Rightarrow> mc_backbone \<times> mc_mesh" where
  "check_resolved e b m now =
     (let (err, b) = bb_ret b in
      if err = EAI_INPROGRESS then (b, m)
      else
        let b = b\<lparr>gai_busy := False\<rparr>;
            (a, n) = net_addr (bb_net b);
            b = b\<lparr>bb_net := n\<rparr> in
        case (if err \<noteq> 0 then None else a) of
          None \<Rightarrow> retry_later b m now
        | Some sa \<Rightarrow>
            let b = b\<lparr>bb_addr := sa, have_addr := True\<rparr>;
                (fd, b) = bb_ret b;
                b = b\<lparr>bb_fd := fd\<rparr> in
            if fd < 0 then retry_later b m now
            else
              let (rc, b) = bb_ret (bb_do (Connected fd sa) b) in
              if rc \<noteq> 0 then retry_later b m now
              else send_hello e b m now)"

end
