(* ===== verification/Format.thy ===== *)
theory Format
  imports Prelude Complex_Main
begin

text \<open>
  The conversions of \<^verbatim>\<open>printf\<close> the program applies to floating-point values, on the rational
  the \<^verbatim>\<open>double\<close> denotes: \<open>fmt_f n\<close> is \<^verbatim>\<open>%.nf\<close> and \<open>fmt_g\<close> is \<^verbatim>\<open>%g\<close>, both rounding to nearest
  with ties to even, as glibc does in its default mode. Also \<^verbatim>\<open>%04x\<close>.
\<close>

definition round_even :: "rat \<Rightarrow> int" where
  "round_even x =
     (let f = \<lfloor>x\<rfloor>; d = x - of_int f in
      if d < 1 / 2 then f else if 1 / 2 < d then f + 1 else if even f then f else f + 1)"

lemma round_even_int [simp]: "round_even (of_int n) = n"
  by (simp add: round_even_def)

definition fixed_digits :: "nat \<Rightarrow> nat \<Rightarrow> bytes" where
  \<comment> \<open>the decimal number with \<open>n\<close> digits after the point whose digits are \<open>m\<close>\<close>
  "fixed_digits n m =
     (if n = 0 then dec_nat m else dec_nat (m div 10 ^ n) @ [46] @ dec_pad n (m mod 10 ^ n))"

definition fmt_f :: "nat \<Rightarrow> rat \<Rightarrow> bytes" where
  "fmt_f n x = (if x < 0 then [45] else []) @ fixed_digits n (nat (round_even (\<bar>x\<bar> * 10 ^ n)))"

definition exp10 :: "rat \<Rightarrow> int" where
  \<comment> \<open>the decimal exponent of a positive number\<close>
  "exp10 x =
     (if 1 \<le> x then int (length (dec_nat (nat \<lfloor>x\<rfloor>))) - 1
      else - int (length (dec_nat (nat (\<lceil>1 / x\<rceil> - 1)))))"

definition strip_fraction :: "bytes \<Rightarrow> bytes" where
  \<comment> \<open>the trailing zeros of a fraction, and a bare point, are not printed\<close>
  "strip_fraction s = (if 46 \<in> set s then strip_end (\<lambda>c. c = 46) (strip_end (\<lambda>c. c = 48) s) else s)"

definition pow10 :: "int \<Rightarrow> rat" where
  "pow10 k = (if 0 \<le> k then 10 ^ nat k else 1 / 10 ^ nat (- k))"

definition fmt_g :: "rat \<Rightarrow> bytes" where
  "fmt_g x =
     (if x = 0 then [48]
      else
        let a = \<bar>x\<bar>;
            e = exp10 a;
            m = round_even (a * pow10 (5 - e));
            (m, e) = (if m = 1000000 then (100000, e + 1) else (m, e));
            body = (if -4 \<le> e \<and> e < 6 then
                      strip_fraction (fixed_digits (nat (5 - e)) (nat m))
                    else
                      strip_fraction (fixed_digits 5 (nat m)) @ [101, if e < 0 then 45 else 43]
                      @ dec_pad 2 (nat \<bar>e\<bar>))
        in (if x < 0 then [45] else []) @ body)"

definition hex_digit :: "bool \<Rightarrow> nat \<Rightarrow> byte" where
  "hex_digit upper n = (if n < 10 then 48 + of_nat n else (if upper then 55 else 87) + of_nat n)"

fun hex_fixed :: "bool \<Rightarrow> nat \<Rightarrow> nat \<Rightarrow> bytes" where
  \<comment> \<open>\<open>%0wx\<close> and \<open>%0wX\<close> of a value below \<open>16 ^ w\<close>\<close>
  "hex_fixed upper 0 n = []"
| "hex_fixed upper (Suc w) n = hex_fixed upper w (n div 16) @ [hex_digit upper (n mod 16)]"

lemma length_hex_fixed [simp]: "length (hex_fixed upper w n) = w"
  by (induction w arbitrary: n) simp_all

end
