(* ===== verification/Bb_Json.thy ===== *)
theory Bb_Json
  imports Bb_State Format
begin

text \<open>
  The status and neighbour reports of \<^verbatim>\<open>backbone.c\<close>: the bounded writer \<open>jb_add\<close>, the JSON string
  with escapes and UTF-8 repair, \<open>send_status\<close>, \<open>neighbour_json\<close> and the paging of
  \<open>send_neighbours\<close>. The lemmas show that the strings written are well-formed JSON and UTF-8
  whatever bytes a node's name holds, and that as many pages are sent as were announced.
\<close>

section \<open>The writer\<close>

record jbuf =
  jb_text :: bytes
  jb_cap :: nat
  jb_full :: bool

definition jb_new :: "nat \<Rightarrow> jbuf" where
  "jb_new cap = \<lparr>jb_text = [], jb_cap = cap, jb_full = False\<rparr>"

definition jb_add :: "jbuf \<Rightarrow> bytes \<Rightarrow> jbuf" where
  \<comment> \<open>the second argument is the formatted text\<close>
  "jb_add j s =
     (if jb_full j then j
      else if jb_cap j - length (jb_text j) \<le> length s then j\<lparr>jb_full := True\<rparr>
      else j\<lparr>jb_text := jb_text j @ s\<rparr>)"

definition c_at :: "bytes \<Rightarrow> nat \<Rightarrow> byte" where
  \<comment> \<open>a byte of a C string, up to its NUL\<close>
  "c_at s i = (if i < length s then s ! i else 0)"

fun utf8_tail :: "nat \<Rightarrow> bytes \<Rightarrow> u32 \<Rightarrow> u32 option" where
  \<comment> \<open>the loop over the continuation bytes\<close>
  "utf8_tail 0 s cp = Some cp"
| "utf8_tail (Suc n) s cp =
     (if c_at s 0 AND 0xC0 \<noteq> 0x80 then None
      else utf8_tail n (drop 1 s) (push_bit 6 cp OR ucast (c_at s 0 AND 0x3F)))"

definition utf8_lead :: "byte \<Rightarrow> (nat \<times> u32 \<times> u32) option" where
  \<comment> \<open>length, first bits and least code point of a multi-byte sequence\<close>
  "utf8_lead c =
     (if c AND 0xE0 = 0xC0 then Some (2, ucast (c AND 0x1F), 0x80)
      else if c AND 0xF0 = 0xE0 then Some (3, ucast (c AND 0x0F), 0x800)
      else if c AND 0xF8 = 0xF0 then Some (4, ucast (c AND 0x07), 0x10000)
      else None)"

definition utf8_bad :: "u32 \<Rightarrow> u32 \<Rightarrow> bool" where
  \<comment> \<open>overlong, out of range, or a surrogate\<close>
  "utf8_bad cp mn = (cp < mn \<or> 0x10FFFF < cp \<or> (0xD800 \<le> cp \<and> cp \<le> 0xDFFF))"

definition utf8_seq :: "bytes \<Rightarrow> nat" where
  "utf8_seq s =
     (if c_at s 0 < 0x80 then 1
      else (case utf8_lead (c_at s 0) of
              None \<Rightarrow> 0
            | Some (n, cp, mn) \<Rightarrow>
                (case utf8_tail (n - 1) (drop 1 s) cp of
                   None \<Rightarrow> 0
                 | Some cp \<Rightarrow> if utf8_bad cp mn then 0 else n)))"

function jb_chunks :: "bytes \<Rightarrow> bytes list" where
  \<comment> \<open>the pieces \<open>jb_str\<close> appends for the bytes of a string\<close>
  "jb_chunks u =
     (if u = [] then []
      else let n = utf8_seq u; c = hd u in
        if n = 0 then [63] # jb_chunks (drop 1 u)
        else (if c = 34 \<or> c = 92 then [92, c]
              else if c < 0x20 then lit [CHR 92, CHR ''u''] @ hex_fixed False 4 (unat c)
              else take n u) # jb_chunks (drop n u))"
  by auto
termination
  by (relation "measure length") auto

declare jb_chunks.simps [simp del]

definition jb_str :: "jbuf \<Rightarrow> bytes \<Rightarrow> jbuf" where
  "jb_str j s = jb_add (foldl jb_add (jb_add j [34]) (jb_chunks s)) [34]"

section \<open>The status report\<close>

definition u64_s :: "u64 \<Rightarrow> bytes" where "u64_s v = dec_nat (unat v)"

definition bool_s :: "bool \<Rightarrow> bytes" where "bool_s v = (if v then lit ''true'' else lit ''false'')"

definition jkey :: "string \<Rightarrow> bytes \<Rightarrow> bytes" where
  \<comment> \<open>\<open>"key":value\<close>\<close>
  "jkey k v = [34] @ lit k @ [34, 58] @ v"

fun jobject :: "bytes list \<Rightarrow> bytes" where
  \<comment> \<open>the members, separated by commas\<close>
  "jobject [] = []"
| "jobject [x] = x"
| "jobject (x # y # r) = x @ [44] @ jobject (y # r)"

definition braces :: "bytes \<Rightarrow> bytes" where "braces v = [123] @ v @ [125]"

definition status_json :: "bytes \<Rightarrow> mc_backbone \<Rightarrow> mc_mesh \<Rightarrow> u64 \<Rightarrow> jbuf" where
  "status_json ver b m now =
     (let c = cfg m; s = stats m; r = radio c;
          j = jb_str (jb_add (jb_new (BB_STATUS_JSON + 1)) ([123] @ jkey ''name'' [])) (cfg_name c);
          j = jb_str (jb_add j ([44] @ jkey ''fw'' [])) ver;
          j = jb_add j ([44] @ jkey ''uptime'' (u64_s ((now - start_ms m) div 1000)) @ [44]
                @ jkey ''role'' ([34] @ (if role c = ROLE_HOTSPOT then lit ''hotspot'' else lit ''repeater'') @ [34]));
          j = (if role c = ROLE_HOTSPOT then jb_add j ([44] @ jkey ''rf_silent'' (bool_s (mesh_rf_silent m now))) else j);
          j = (if has_location c then jb_add j ([44] @ jkey ''lat'' (fmt_f 6 (latitude c)) @ [44]
                 @ jkey ''lon'' (fmt_f 6 (longitude c))) else j);
          j = jb_add j ([44] @ jkey ''radio'' (braces (jobject
                [jkey ''freq'' (fmt_f 3 (frequency r)), jkey ''bw'' (fmt_g (bandwidth r)),
                 jkey ''sf'' (dec_nat (unat (spreading_factor r))), jkey ''cr'' (dec_nat (unat (coding_rate r))),
                 jkey ''tx_power'' (dec_int (tx_power r))])));
          j = jb_add j ([44] @ jkey ''rx'' (braces (jobject
                [jkey ''total'' (u64_s (rx_total s)), jkey ''dup'' (u64_s (rx_dup s)),
                 jkey ''bad'' (u64_s (rx_bad_parse s)), jkey ''crc_err'' (u64_s (rx_crc_err s)),
                 jkey ''hdr_err'' (u64_s (rx_hdr_err s)), jkey ''adverts'' (u64_s (rx_advert s)),
                 jkey ''adverts_bad'' (u64_s (rx_advert_bad s))])));
          j = jb_add j ([44] @ jkey ''fwd'' (braces (jobject
                [jkey ''flood'' (u64_s (fwd_flood s)), jkey ''direct'' (u64_s (fwd_direct s)),
                 jkey ''dropped'' (u64_s (fwd_dropped s)), jkey ''denied'' (u64_s (fwd_denied s)),
                 jkey ''grp_public'' (u64_s (fwd_grp_public s)), jkey ''region'' (u64_s (fwd_region s))])));
          j = jb_add j ([44] @ jkey ''tx'' (braces (jobject
                [jkey ''total'' (u64_s (tx_total s)), jkey ''failed'' (u64_s (tx_failed s)),
                 jkey ''cad_busy'' (u64_s (tx_cad_busy s)), jkey ''queue_full'' (u64_s (tx_queue_full s)),
                 jkey ''radio_resets'' (u64_s (radio_resets s)), jkey ''adverts'' (u64_s (adverts_sent s))])));
          j = jb_add j ([44] @ jkey ''airtime_ms'' (braces (jobject
                [jkey ''tx'' (u64_s (tx_airtime_ms s)), jkey ''rx'' (u64_s (rx_airtime_ms s))])));
          j = jb_add j ([44] @ jkey ''neighbours'' (dec_nat (mesh_neighbor_count m)));
          j = jb_add j ([44] @ jkey ''backbone'' (braces (jobject
                [jkey ''observed'' (u64_s (observed b)), jkey ''offered'' (u64_s (offered b)),
                 jkey ''injected'' (u64_s (injected b)), jkey ''limited'' (u64_s (limited b)),
                 jkey ''rejected'' (u64_s (rejected b))])));
          j = (if backbone_policy c then jb_add j ([44] @ jkey ''policy'' (braces (jobject
                [jkey ''version'' (dec_nat (unat (version (policy c)))), jkey ''rooms'' (dec_nat (policy_rooms c)),
                 jkey ''blocks'' (dec_nat (length (pol_names (policy c)) + length (pol_keys (policy c)))),
                 jkey ''skipped'' (dec_int (policy_skipped c))])))
               else j)
      in jb_add j [125])"

definition send_status :: "bb_env \<Rightarrow> mc_backbone \<Rightarrow> mc_mesh \<Rightarrow> u64 \<Rightarrow> mc_backbone" where
  "send_status e b m now =
     (if \<not> bb_mesh b then b
      else let j = status_json (e_version e) b m now in
           if jb_full j then b else send_session b BB_T_STATUS (jb_text j))"

section \<open>The neighbour report\<close>

definition neighbour_json :: "mesh_neighbor \<Rightarrow> u32 \<Rightarrow> nat \<Rightarrow> bytes" where
  \<comment> \<open>the empty list where the object does not fit\<close>
  "neighbour_json n now_s cap =
     (let j = jb_add (jb_new cap) ([123] @ jkey ''pub'' ([34] @ bin2hex (nb_pub n) 65 @ [34, 44]) @ jkey ''name'' []);
          j = jb_str j (nb_name n);
          j = jb_add j ([44] @ jobject
                [jkey ''type'' (dec_nat (unat (nb_type n))), jkey ''hops'' (dec_nat (nb_hops n)),
                 jkey ''rssi'' (dec_int (nb_rssi n)), jkey ''snr'' (fmt_f 2 (of_int (nb_snr_q n) / 4)),
                 jkey ''age'' (dec_nat (unat (if nb_last_seen n < now_s then now_s - nb_last_seen n else 0))),
                 jkey ''count'' (dec_nat (unat (nb_count n)))] @ [125])
      in if jb_full j then [] else jb_text j)"

abbreviation (input) "BB_PAGE_BUDGET \<equiv> 1052 :: nat"

definition neighbour_list :: "mc_mesh \<Rightarrow> u32 \<Rightarrow> bytes list" where
  \<comment> \<open>the entries both passes go over\<close>
  "neighbour_list m now_s =
     filter (\<lambda>s. s \<noteq> []) (map (\<lambda>n. neighbour_json n now_s 512) (filter nb_used (neighbors m)))"

definition page_full :: "nat \<Rightarrow> bytes \<Rightarrow> bool" where
  "page_full used ent = (used \<noteq> 0 \<and> BB_PAGE_BUDGET < used + 1 + length ent)"

definition count_step :: "nat \<times> nat \<Rightarrow> bytes \<Rightarrow> nat \<times> nat" where
  "count_step st ent =
     (let (pages, used) = st;
          (pages, used) = (if page_full used ent then (pages + 1, 0) else (pages, used))
      in (pages, used + (if used \<noteq> 0 then 1 else 0) + length ent))"

definition page_head :: "nat \<Rightarrow> nat \<Rightarrow> bytes" where
  "page_head page pages =
     [123] @ jkey ''page'' (dec_nat page) @ [44] @ jkey ''pages'' (dec_nat pages) @ [44] @ jkey ''list'' [91]"

definition page_step ::
    "nat \<Rightarrow> mc_backbone \<times> jbuf \<times> nat \<times> nat \<Rightarrow> bytes \<Rightarrow> mc_backbone \<times> jbuf \<times> nat \<times> nat" where
  "page_step pages st ent =
     (let (b, j, used, page) = st;
          (b, j, used, page) =
            (if page_full used ent then
               (let j = jb_add j [93, 125]
                in (send_session b BB_T_NEIGHBOURS (jb_text j),
                    jb_add (j\<lparr>jb_text := []\<rparr>) (page_head (page + 1) pages), 0, page + 1))
             else (b, j, used, page))
      in (b, jb_add j ((if used \<noteq> 0 then [44] else []) @ ent),
          used + (if used \<noteq> 0 then 1 else 0) + length ent, page))"

definition send_neighbours :: "mc_backbone \<Rightarrow> mc_mesh \<Rightarrow> mc_backbone \<times> mc_mesh" where
  "send_neighbours b m =
     (if \<not> bb_mesh b then (b, m)
      else
        let (t, m) = mesh_time m;
            es = neighbour_list m (of_nat t);
            pages = fst (foldl count_step (1, 0) es);
            j = jb_add (jb_new (BB_STATUS_JSON + 1)) (page_head 1 pages);
            (b, j, used, page) = foldl (page_step pages) (b, j, 0, 1) es;
            j = jb_add j [93, 125]
        in (if jb_full j then b else send_session b BB_T_NEIGHBOURS (jb_text j), m))"

section \<open>The strings are well formed\<close>

fun json_body :: "bytes \<Rightarrow> bool" where
  \<comment> \<open>the text between the quotes of a JSON string\<close>
  "json_body [] = True"
| "json_body (c # r) =
     (if c = 92 then
        r \<noteq> [] \<and>
        (if hd r = 34 \<or> hd r = 92 then json_body (tl r)
         else hd r = 117 \<and> 5 \<le> length r \<and> list_all (\<lambda>h. hexval h \<noteq> None) (bslice 1 4 r) \<and> json_body (drop 5 r))
      else c \<noteq> 34 \<and> 0x20 \<le> c \<and> json_body r)"

lemma json_plain_append:
  "list_all (\<lambda>c. c \<noteq> 92 \<and> c \<noteq> 34 \<and> 0x20 \<le> c) xs \<Longrightarrow> json_body (xs @ ys) \<longleftrightarrow> json_body ys"
  by (induction xs) simp_all

lemma high_byte: "c AND 0xC0 = (0x80 :: byte) \<Longrightarrow> 0x80 \<le> c"
  using word_and_le2 [of c "0xC0"] by metis

lemma utf8_tail_high:
  "utf8_tail n s cp = Some r \<Longrightarrow> n \<le> length s \<and> list_all (\<lambda>c. 0x80 \<le> c) (take n s)"
proof (induction n s cp rule: utf8_tail.induct)
  case (2 n s cp)
  then have h: "c_at s 0 AND 0xC0 = 0x80" and t: "n \<le> length (drop 1 s) \<and> list_all (\<lambda>c. 0x80 \<le> c) (take n (drop 1 s))"
    by (auto split: if_splits)
  from h have "s \<noteq> []" by (auto simp: c_at_def)
  with high_byte [OF h] t show ?case by (cases s) (auto simp: c_at_def)
qed simp

lemma utf8_tail_local: "n \<le> length s \<Longrightarrow> utf8_tail n (s @ r) cp = utf8_tail n s cp"
  by (induction n s cp rule: utf8_tail.induct) (auto simp: c_at_def nth_append)

lemma utf8_lead_len: "utf8_lead c = Some (n, cp, mn) \<Longrightarrow> 2 \<le> n"
  by (auto simp: utf8_lead_def split: if_splits)

lemma utf8_seq_multi:
  assumes "utf8_seq (c # s) = n" "n \<noteq> 0" "\<not> c < 0x80"
  obtains cp mn r where "utf8_lead c = Some (n, cp, mn)" "utf8_tail (n - 1) s cp = Some r"
    "\<not> utf8_bad r mn"
  using assms by (auto simp: utf8_seq_def c_at_def split: option.splits if_splits)

lemma utf8_seq_cases:
  assumes "utf8_seq (c # s) = n" "n \<noteq> 0"
  obtains "c < 0x80" "n = 1"
  | "0x80 \<le> c" "n \<le> length (c # s)" "list_all (\<lambda>b. 0x80 \<le> b) (take n (c # s))"
proof (cases "c < 0x80")
  case True
  with assms show thesis by (intro that(1)) (auto simp: utf8_seq_def c_at_def)
next
  case False
  obtain cp mn r where l: "utf8_lead c = Some (n, cp, mn)" and t: "utf8_tail (n - 1) s cp = Some r"
    by (rule utf8_seq_multi [OF assms False])
  obtain k where "n = Suc k" using utf8_lead_len [OF l] by (cases n) auto
  with utf8_tail_high [OF t] False show thesis by (intro that(2)) auto
qed

lemma utf8_seq_take:
  assumes "utf8_seq (c # s) = n" "n \<noteq> 0"
  shows "utf8_seq (take n (c # s)) = n"
proof (cases "c < 0x80")
  case True
  with assms show ?thesis by (auto simp: utf8_seq_def c_at_def split: if_splits)
next
  case False
  obtain cp mn v where l: "utf8_lead c = Some (n, cp, mn)" and t: "utf8_tail (n - 1) s cp = Some v"
    and ok: "\<not> utf8_bad v mn"
    by (rule utf8_seq_multi [OF assms False])
  obtain k where k: "n = Suc k" using utf8_lead_len [OF l] by (cases n) auto
  have "utf8_tail k (take k s) cp = utf8_tail k (take k s @ drop k s) cp"
    using utf8_tail_high [OF t] k by (intro utf8_tail_local [symmetric]) simp
  then have "utf8_tail k (take k s) cp = Some v" using t k by simp
  with False l ok k show ?thesis by (simp add: utf8_seq_def c_at_def)
qed

inductive utf8 :: "bytes \<Rightarrow> bool" where
  utf8_nil: "utf8 []"
| utf8_char: "u \<noteq> [] \<Longrightarrow> utf8_seq u = length u \<Longrightarrow> utf8 s \<Longrightarrow> utf8 (u @ s)"

lemma utf8_append: "utf8 x \<Longrightarrow> utf8 y \<Longrightarrow> utf8 (x @ y)"
  by (induction rule: utf8.induct) (auto intro: utf8_char)

lemma utf8_one: "u \<noteq> [] \<Longrightarrow> utf8_seq u = length u \<Longrightarrow> utf8 u"
  using utf8_char [OF _ _ utf8_nil, of u] by simp

lemma utf8_ascii: "list_all (\<lambda>c. c < 0x80) s \<Longrightarrow> utf8 s"
proof (induction s)
  case (Cons c s)
  have "utf8 ([c] @ s)" using Cons by (intro utf8_char) (auto simp: utf8_seq_def c_at_def)
  then show ?case by simp
qed (rule utf8_nil)

lemma hex_fixed_4:
  "hex_fixed up 4 n = [hex_digit up (n div 4096 mod 16), hex_digit up (n div 256 mod 16),
     hex_digit up (n div 16 mod 16), hex_digit up (n mod 16)]"
proof -
  have "(4 :: nat) = Suc (Suc (Suc (Suc 0)))" by simp
  then show ?thesis by (simp only: hex_fixed.simps append.simps div_mult2_eq [symmetric]) simp
qed

lemma hex_digit_hex: "hexval (hex_digit up (n mod 16)) \<noteq> None \<and> hex_digit up (n mod 16) < 0x80"
proof -
  have "n mod 16 = 0 \<or> n mod 16 = 1 \<or> n mod 16 = 2 \<or> n mod 16 = 3 \<or> n mod 16 = 4 \<or> n mod 16 = 5
      \<or> n mod 16 = 6 \<or> n mod 16 = 7 \<or> n mod 16 = 8 \<or> n mod 16 = 9 \<or> n mod 16 = 10 \<or> n mod 16 = 11
      \<or> n mod 16 = 12 \<or> n mod 16 = 13 \<or> n mod 16 = 14 \<or> n mod 16 = 15"
    by presburger
  then show ?thesis by (elim disjE) (simp_all add: hex_digit_def hexval_def)
qed

definition jb_good :: "bytes \<Rightarrow> bool" where
  "jb_good x \<longleftrightarrow> utf8 x \<and> (\<forall>y. json_body (x @ y) \<longleftrightarrow> json_body y)"

lemma good_plain: "list_all (\<lambda>c. c \<noteq> 92 \<and> c \<noteq> 34 \<and> 0x20 \<le> c \<and> c < 0x80) x \<Longrightarrow> jb_good x"
proof -
  assume a: "list_all (\<lambda>c. c \<noteq> 92 \<and> c \<noteq> 34 \<and> 0x20 \<le> c \<and> c < 0x80) x"
  then have "list_all (\<lambda>c. c < 0x80) x" "list_all (\<lambda>c. c \<noteq> 92 \<and> c \<noteq> 34 \<and> 0x20 \<le> c) x"
    by (auto simp: list_all_iff)
  then show ?thesis by (simp add: jb_good_def utf8_ascii json_plain_append)
qed

lemma good_escape: "c = 34 \<or> c = 92 \<Longrightarrow> jb_good [92, c]"
  by (auto simp: jb_good_def intro!: utf8_ascii)

lemma good_control: "jb_good ([92, 117] @ hex_fixed False 4 n)"
proof -
  note h = hex_digit_hex [of False]
  have "json_body ([92, 117] @ hex_fixed False 4 n @ y) \<longleftrightarrow> json_body y" for y
    using h by (simp add: hex_fixed_4 bslice_def)
  moreover have "utf8 ([92, 117] @ hex_fixed False 4 n)"
    using h by (intro utf8_ascii) (simp add: hex_fixed_4)
  ultimately show ?thesis by (simp add: jb_good_def)
qed

lemma good_sequence:
  assumes n: "utf8_seq (c # s) = n" "n \<noteq> 0" and c: "c \<noteq> 34" "c \<noteq> 92" "\<not> c < 0x20"
  shows "jb_good (take n (c # s))"
  using utf8_seq_cases [OF n]
proof cases
  case 1
  then show ?thesis using c by (intro good_plain) (simp add: not_less)
next
  case 2
  let ?u = "take n (c # s)"
  have "\<forall>b \<in> set ?u. b \<noteq> 92 \<and> b \<noteq> 34 \<and> 0x20 \<le> b"
    using 2(3) by (force simp: list_all_iff word_le_nat_alt)
  then have "json_body (?u @ y) \<longleftrightarrow> json_body y" for y
    by (intro json_plain_append) (simp add: list_all_iff)
  moreover have "utf8 ?u"
    using utf8_seq_take [OF n] 2(2) n(2) by (intro utf8_one) (auto simp: take_Cons' simp del: take_Suc_Cons)
  ultimately show ?thesis by (simp add: jb_good_def)
qed

lemma jb_chunks_good: "x \<in> set (jb_chunks u) \<Longrightarrow> jb_good x"
proof (induction u rule: jb_chunks.induct)
  case (1 u)
  show ?case
  proof (cases u)
    case Nil
    with 1 show ?thesis by (simp add: jb_chunks.simps)
  next
    case (Cons c s)
    let ?n = "utf8_seq u"
    show ?thesis
    proof (cases "?n = 0")
      case True
      with 1 Cons have "x = [63] \<or> x \<in> set (jb_chunks (drop 1 u))" by (subst (asm) jb_chunks.simps) (auto simp: Let_def)
      then show ?thesis using 1(1) Cons True by (auto intro: good_plain)
    next
      case False
      let ?h = "if c = 34 \<or> c = 92 then [92, c] else if c < 0x20 then lit [CHR 92, CHR ''u''] @ hex_fixed False 4 (unat c)
        else take ?n u"
      have "x = ?h \<or> x \<in> set (jb_chunks (drop ?n u))"
        using 1(3) Cons False by (subst (asm) jb_chunks.simps) (auto simp: Let_def)
      moreover have "jb_good ?h"
        using good_escape [of c] good_control [of "unat c"] good_sequence [of c s ?n] False Cons by auto
      ultimately show ?thesis using 1(2) [OF _ refl refl False] Cons by auto
    qed
  qed
qed

lemma jb_add_cases: "jb_text (jb_add j s) = jb_text j @ s \<and> jb_full (jb_add j s) = jb_full j \<or> jb_full (jb_add j s)"
  by (simp add: jb_add_def)

lemma jb_add_full: "\<not> jb_full (jb_add j s) \<Longrightarrow> jb_text (jb_add j s) = jb_text j @ s \<and> \<not> jb_full j"
  by (auto simp: jb_add_def split: if_splits)

lemma jb_adds_full:
  "\<not> jb_full (foldl jb_add j ss) \<Longrightarrow> jb_text (foldl jb_add j ss) = jb_text j @ concat ss \<and> \<not> jb_full j"
  by (induction ss arbitrary: j) (auto dest: jb_add_full)

lemma jb_good_concat: "\<forall>x \<in> set xs. jb_good x \<Longrightarrow> jb_good (concat xs)"
  by (induction xs) (auto simp: jb_good_def utf8_append intro: utf8_nil)

text \<open>A string that fits is written between quotes as text a JSON reader accepts.\<close>

lemma jb_str_text:
  assumes "\<not> jb_full (jb_str j s)"
  shows "jb_text (jb_str j s) = jb_text j @ [34] @ concat (jb_chunks s) @ [34]"
    "jb_good (concat (jb_chunks s))"
  using assms jb_chunks_good jb_good_concat [of "jb_chunks s"]
  by (auto simp: jb_str_def dest!: jb_add_full jb_adds_full)

lemma jb_add_bound: "length (jb_text j) < jb_cap j \<Longrightarrow> length (jb_text (jb_add j s)) < jb_cap (jb_add j s)"
  by (auto simp: jb_add_def)

lemma jb_add_cap [simp]: "jb_cap (jb_add j s) = jb_cap j"
  by (simp add: jb_add_def)

lemma jb_adds_bound:
  "length (jb_text j) < jb_cap j \<Longrightarrow> length (jb_text (foldl jb_add j ss)) < jb_cap j \<and> jb_cap (foldl jb_add j ss) = jb_cap j"
proof (induction ss arbitrary: j)
  case (Cons a ss)
  show ?case using Cons.IH [of "jb_add j a"] jb_add_bound [OF Cons.prems, of a] by simp
qed simp

lemma jb_str_bound: "length (jb_text j) < jb_cap j \<Longrightarrow> length (jb_text (jb_str j s)) < jb_cap j \<and> jb_cap (jb_str j s) = jb_cap j"
  using jb_adds_bound [of j "[[34]] @ jb_chunks s @ [[34]]"] by (simp add: jb_str_def)

lemma neighbour_json_bound: "0 < cap \<Longrightarrow> length (neighbour_json n t cap) < cap"
proof -
  assume c: "0 < cap"
  let ?a = "jb_add (jb_new cap) ([123] @ jkey ''pub'' ([34] @ bin2hex (nb_pub n) 65 @ [34, 44]) @ jkey ''name'' [])"
  have a: "length (jb_text ?a) < jb_cap ?a" using jb_add_bound [of "jb_new cap"] c by (simp add: jb_new_def)
  have "jb_cap ?a = cap" by (simp add: jb_new_def)
  with jb_str_bound [OF a, of "nb_name n"] jb_add_bound [of "jb_str ?a (nb_name n)"] c
  show ?thesis by (simp add: neighbour_json_def Let_def)
qed

section \<open>The pages of the neighbour report\<close>

fun paginate :: "bytes list \<Rightarrow> bytes list \<Rightarrow> bytes list list" where
  \<comment> \<open>the entries of each page; the first argument is the page being filled\<close>
  "paginate g [] = [g]"
| "paginate g (e # es) =
     (if page_full (length (jobject g)) e then g # paginate [e] es else paginate (g @ [e]) es)"

definition page_body :: "nat \<Rightarrow> nat \<Rightarrow> bytes list \<Rightarrow> bytes" where
  "page_body pages k g = page_head k pages @ jobject g @ [93, 125]"

fun send_pages :: "nat \<Rightarrow> nat \<Rightarrow> bytes list list \<Rightarrow> mc_backbone \<Rightarrow> mc_backbone" where
  "send_pages pages k [] b = b"
| "send_pages pages k (g # gs) b =
     send_pages pages (k + 1) gs (send_session b BB_T_NEIGHBOURS (page_body pages k g))"

lemma concat_paginate: "concat (paginate g es) = g @ es"
  by (induction g es rule: paginate.induct) auto

lemma paginate_ne [simp]: "paginate g es \<noteq> []"
  by (induction g es rule: paginate.induct) auto

lemma length_paginate: "length (paginate g es) \<le> Suc (length es)"
  by (induction g es rule: paginate.induct) auto

lemma jobject_snoc: "jobject (g @ [e]) = (if g = [] then e else jobject g @ [44] @ e)"
  by (induction g rule: jobject.induct) auto

lemma jobject_0: "\<forall>x \<in> set g. x \<noteq> [] \<Longrightarrow> jobject g = [] \<longleftrightarrow> g = []"
  by (cases g rule: jobject.cases) auto

lemma page_full_step:
  assumes "\<forall>x \<in> set (g @ [e]). x \<noteq> []"
  shows "length (jobject (g @ [e])) = length (jobject g) + (if length (jobject g) \<noteq> 0 then 1 else 0) + length e"
  using assms jobject_0 [of g] by (auto simp: jobject_snoc)

lemma count_pages:
  "\<forall>x \<in> set (g @ es). x \<noteq> [] \<Longrightarrow>
   fst (foldl count_step (p, length (jobject g)) es) + 1 = p + length (paginate g es)"
proof (induction g es arbitrary: p rule: paginate.induct)
  case (2 g e es)
  show ?case
  proof (cases "page_full (length (jobject g)) e")
    case True
    with 2(1) [OF True, of "p + 1"] 2(3) show ?thesis by (simp add: count_step_def)
  next
    case False
    then have "count_step (p, length (jobject g)) e = (p, length (jobject (g @ [e])))"
      using page_full_step [of g e] 2(3) by (simp add: count_step_def)
    with 2(2) [OF False, of p] 2(3) False show ?thesis by simp
  qed
qed simp

lemma dec_nat_short: "n < 100 \<Longrightarrow> length (dec_nat n) \<le> 2"
  by (subst dec_nat.simps, simp, subst dec_nat.simps, auto)

lemma page_head_short: "k < 100 \<Longrightarrow> pages < 100 \<Longrightarrow> length (page_head k pages) \<le> 30"
  using dec_nat_short [of k] dec_nat_short [of pages] by (simp add: page_head_def jkey_def)

lemma send_pages_snoc:
  "send_pages P k (gs @ [g]) b = send_session (send_pages P k gs b) BB_T_NEIGHBOURS (page_body P (k + length gs) g)"
  by (induction gs arbitrary: k b) simp_all

lemma jb_add_fits:
  "\<not> jb_full j \<Longrightarrow> length (jb_text j) + length s < jb_cap j \<Longrightarrow> jb_add j s = j\<lparr>jb_text := jb_text j @ s\<rparr>"
  by (simp add: jb_add_def)

definition page_ok :: "nat \<Rightarrow> jbuf \<Rightarrow> nat \<Rightarrow> bytes list \<Rightarrow> bool" where
  \<comment> \<open>the buffer holds the head of page \<open>k\<close> and the entries \<open>g\<close>\<close>
  "page_ok P j k g \<longleftrightarrow> \<not> jb_full j \<and> jb_cap j = BB_STATUS_JSON + 1
     \<and> jb_text j = page_head k P @ jobject g \<and> length (jobject g) \<le> BB_PAGE_BUDGET"

lemma page_ok_add:
  assumes "page_ok P j k g" "k < 100" "P < 100" "\<not> page_full (length (jobject g)) e" "e \<noteq> []"
    "length e \<le> 511" "\<forall>x \<in> set g. x \<noteq> []"
  shows "page_step P (b, j, length (jobject g), k) e
           = (b, jb_add j ((if g = [] then [] else [44]) @ e), length (jobject (g @ [e])), k)"
    "page_ok P (jb_add j ((if g = [] then [] else [44]) @ e)) k (g @ [e])"
proof -
  have n: "length (jobject (g @ [e])) \<le> BB_PAGE_BUDGET"
    using assms jobject_0 [of g] by (auto simp: page_full_def jobject_snoc)
  show "page_step P (b, j, length (jobject g), k) e
           = (b, jb_add j ((if g = [] then [] else [44]) @ e), length (jobject (g @ [e])), k)"
    using assms(4,5,7) page_full_step [of g e] jobject_0 [of g] by (auto simp: page_step_def)
  have "jb_add j ((if g = [] then [] else [44]) @ e) = j\<lparr>jb_text := jb_text j @ (if g = [] then [] else [44]) @ e\<rparr>"
    using assms(1) n page_head_short [OF assms(2,3)] by (intro jb_add_fits) (auto simp: page_ok_def jobject_snoc)
  then show "page_ok P (jb_add j ((if g = [] then [] else [44]) @ e)) k (g @ [e])"
    using assms(1) n by (auto simp: page_ok_def jobject_snoc)
qed

lemma page_ok_turn:
  assumes "page_ok P j k g" "k + 1 < 100" "P < 100" "page_full (length (jobject g)) e" "length e \<le> 511"
  shows "page_step P (b, j, length (jobject g), k) e
           = (send_session b BB_T_NEIGHBOURS (page_body P k g),
              j\<lparr>jb_text := page_head (k + 1) P @ e\<rparr>, length (jobject [e]), k + 1)"
    "page_ok P (j\<lparr>jb_text := page_head (k + 1) P @ e\<rparr>) (k + 1) [e]"
proof -
  have "jb_add j [93, 125] = j\<lparr>jb_text := page_body P k g\<rparr>"
    using assms(1) page_head_short [of k P] assms(2,3)
    by (subst jb_add_fits) (auto simp: page_ok_def page_body_def)
  moreover have "jb_add (j\<lparr>jb_text := []\<rparr>) (page_head (k + 1) P) = j\<lparr>jb_text := page_head (k + 1) P\<rparr>"
    using assms(1) page_head_short [OF assms(2,3)] by (subst jb_add_fits) (auto simp: page_ok_def)
  moreover have "jb_add (j\<lparr>jb_text := page_head (k + 1) P\<rparr>) e = j\<lparr>jb_text := page_head (k + 1) P @ e\<rparr>"
    using assms(1,5) page_head_short [OF assms(2,3)] by (subst jb_add_fits) (auto simp: page_ok_def)
  ultimately show "page_step P (b, j, length (jobject g), k) e
           = (send_session b BB_T_NEIGHBOURS (page_body P k g),
              j\<lparr>jb_text := page_head (k + 1) P @ e\<rparr>, length (jobject [e]), k + 1)"
    using assms(4) by (simp add: page_step_def)
  show "page_ok P (j\<lparr>jb_text := page_head (k + 1) P @ e\<rparr>) (k + 1) [e]"
    using assms(1,5) by (simp add: page_ok_def)
qed

lemma page_fold:
  assumes "page_ok P j k g" "\<forall>x \<in> set (g @ es). x \<noteq> [] \<and> length x \<le> 511" "P < 100"
    "k + length (paginate g es) \<le> 100"
  shows "\<exists>j'. foldl (page_step P) (b, j, length (jobject g), k) es =
      (send_pages P k (butlast (paginate g es)) b, j', length (jobject (last (paginate g es))),
       k + length (paginate g es) - 1)
    \<and> page_ok P j' (k + length (paginate g es) - 1) (last (paginate g es))"
  using assms
proof (induction g es arbitrary: j k b rule: paginate.induct)
  case (2 g e es)
  show ?case
  proof (cases "page_full (length (jobject g)) e")
    case True
    have k: "k + 1 < 100" using 2(6) True length_paginate [of "[e]" es] by (cases "paginate [e] es") auto
    note t = page_ok_turn [OF 2(3) k 2(5) True]
    show ?thesis
      using 2(1) [OF True t(2), of "send_session b BB_T_NEIGHBOURS (page_body P k g)"] 2(4-6) True t(1) [of b]
      by simp
  next
    case False
    have k: "k < 100" using 2(6) paginate_ne [of g "e # es"] by (cases "paginate g (e # es)") (auto simp del: paginate.simps)
    note t = page_ok_add [OF 2(3) k 2(5) False]
    show ?thesis using 2(2) [OF False t(2), of b] 2(4-6) False t(1) [of b] by simp
  qed
qed simp

lemma paginate_budget:
  assumes "length (jobject g) \<le> BB_PAGE_BUDGET" "\<forall>x \<in> set (g @ es). x \<noteq> [] \<and> length x \<le> 511"
  shows "\<forall>h \<in> set (paginate g es). length (jobject h) \<le> BB_PAGE_BUDGET"
  using assms
proof (induction g es rule: paginate.induct)
  case (2 g e es)
  show ?case
  proof (cases "page_full (length (jobject g)) e")
    case True
    with 2(1) [OF True] 2(3,4) show ?thesis by simp
  next
    case False
    then have "length (jobject (g @ [e])) \<le> BB_PAGE_BUDGET"
      using 2(4) jobject_0 [of g] by (auto simp: page_full_def jobject_snoc)
    with 2(2) [OF False] 2(4) False show ?thesis by simp
  qed
qed simp

lemma neighbour_list_entries:
  assumes "length (neighbors m) \<le> MESH_MAX_NEIGHBORS"
  shows "\<forall>x \<in> set (neighbour_list m t). x \<noteq> [] \<and> length x \<le> 511"
    and "length (neighbour_list m t) \<le> MESH_MAX_NEIGHBORS"
proof -
  have "length (neighbour_json n t 512) \<le> 511" for n using neighbour_json_bound [of 512 n t] by simp
  then show "\<forall>x \<in> set (neighbour_list m t). x \<noteq> [] \<and> length x \<le> 511" by (auto simp: neighbour_list_def)
  have "length (neighbour_list m t) \<le> length (map (\<lambda>n. neighbour_json n t 512) (filter nb_used (neighbors m)))"
    unfolding neighbour_list_def by (rule length_filter_le)
  also have "\<dots> \<le> length (neighbors m)" by simp
  finally show "length (neighbour_list m t) \<le> MESH_MAX_NEIGHBORS" using assms by simp
qed

text \<open>The report is exactly the announced pages, with every entry once and in order.\<close>

lemma send_neighbours_pages:
  assumes "bb_mesh b" "mesh_time m = (t, m')" "length (neighbors m') \<le> MESH_MAX_NEIGHBORS"
    and gs: "gs = paginate [] (neighbour_list m' (of_nat t))"
  shows "send_neighbours b m = (send_pages (length gs) 1 gs b, m')"
    and "k \<le> length gs \<Longrightarrow> g \<in> set gs \<Longrightarrow> length (page_body (length gs) k g) \<le> BB_STATUS_JSON"
proof -
  let ?es = "neighbour_list m' (of_nat t)" and ?P = "length gs"
  note es = neighbour_list_entries [OF assms(3), of "of_nat t"]
  have P: "?P < 100" "1 + length (paginate [] ?es) \<le> 100" using length_paginate [of "[]" ?es] es(2) gs by auto
  have ne: "gs \<noteq> []" using gs by simp
  have cnt: "fst (foldl count_step (1, 0) ?es) = ?P"
    using count_pages [of "[]" ?es 1] es(1) gs by simp
  let ?j = "jb_add (jb_new (BB_STATUS_JSON + 1)) (page_head 1 ?P)"
  have head: "page_ok ?P ?j 1 []"
    using page_head_short [of 1 ?P] P(1) by (subst jb_add_fits) (auto simp: page_ok_def jb_new_def)
  obtain j' where f: "foldl (page_step ?P) (b, ?j, 0, 1) ?es =
      (send_pages ?P 1 (butlast gs) b, j', length (jobject (last gs)), ?P)" and ok: "page_ok ?P j' ?P (last gs)"
    using page_fold [OF head _ P(1) P(2), of b] es(1) gs by auto
  have "jb_add j' [93, 125] = j'\<lparr>jb_text := page_body ?P ?P (last gs)\<rparr>"
    using ok page_head_short [OF P(1) P(1)] by (subst jb_add_fits) (auto simp: page_ok_def page_body_def)
  then have "send_neighbours b m =
      (send_session (send_pages ?P 1 (butlast gs) b) BB_T_NEIGHBOURS (page_body ?P ?P (last gs)), m')"
    using ok assms(1,2) f cnt by (simp add: send_neighbours_def Let_def page_ok_def del: jb_add_cap)
  also have "\<dots> = (send_pages ?P 1 gs b, m')"
    using send_pages_snoc [of ?P 1 "butlast gs" "last gs" b] ne by simp
  finally show "send_neighbours b m = (send_pages (length gs) 1 gs b, m')" .
  have "\<forall>g \<in> set gs. length (jobject g) \<le> BB_PAGE_BUDGET"
    using paginate_budget [of "[]" ?es] es(1) gs by simp
  then show "length (page_body ?P k g) \<le> BB_STATUS_JSON" if "k \<le> length gs" "g \<in> set gs"
    using that page_head_short [of k ?P] P(1) by (auto simp: page_body_def)
qed

end
