(* ===== verification/Policy_File.thy ===== *)
theory Policy_File
  imports Config Identity
begin

text \<open>
  The value parsers of \<^verbatim>\<open>config.c\<close> for booleans and unsigned numbers, and the file in which the
  hub's policy survives a restart: \<open>config_policy_save\<close> and \<open>config_policy_load\<close>. \<open>strtoul\<close> is the
  C library's function as the code uses it, with its sign, base prefix and saturation. The file is
  the list of its bytes; a failing \<^verbatim>\<open>fopen\<close> is \<open>None\<close>. The lemmas show that a set kept by the node
  is read back as it was, less the names that could not stand on a line of their own.
\<close>

section \<open>Numbers and booleans\<close>

definition is_space_c :: "byte \<Rightarrow> bool" where
  "is_space_c c = (c = 32 \<or> (9 \<le> c \<and> c \<le> 13))"

definition digit_in :: "nat \<Rightarrow> byte \<Rightarrow> nat option" where
  "digit_in base c =
     (case hexval c of Some d \<Rightarrow> if unat d < base then Some (unat d) else None | None \<Rightarrow> None)"

fun digits_run :: "nat \<Rightarrow> nat \<Rightarrow> bytes \<Rightarrow> nat \<times> bytes" where
  \<comment> \<open>the value of the leading digits, and what follows them\<close>
  "digits_run base acc [] = (acc, [])"
| "digits_run base acc (c # s) =
     (case digit_in base c of Some d \<Rightarrow> digits_run base (acc * base + d) s | None \<Rightarrow> (acc, c # s))"

definition strtoul :: "nat \<Rightarrow> bytes \<Rightarrow> (u64 \<times> bytes) option" where
  \<comment> \<open>\<open>None\<close> where no digit is found and \<open>end\<close> stays at the start\<close>
  "strtoul base s =
     (let s = dropWhile is_space_c s;
          neg = (take 1 s = [45]);
          s = (if take 1 s = [45] \<or> take 1 s = [43] then drop 1 s else s);
          s = (if base = 16 \<and> 2 < length s \<and> s ! 0 = 48 \<and> (s ! 1 = 120 \<or> s ! 1 = 88)
                  \<and> digit_in 16 (s ! 2) \<noteq> None then drop 2 s else s) in
      case s of
        [] \<Rightarrow> None
      | c # _ \<Rightarrow>
          if digit_in base c = None then None
          else let (v, r) = digits_run base 0 s
               in Some (if 2 ^ 64 \<le> v then -1 else if neg then - of_nat v else of_nat v, r))"

definition parse_u32 :: "bytes \<Rightarrow> u32 option" where
  "parse_u32 v =
     (let base = (if take 2 v = lit ''0x'' \<or> take 2 v = lit ''0X'' then 16 else 10) in
      case strtoul base v of
        None \<Rightarrow> None
      | Some (x, r) \<Rightarrow> if r \<noteq> [] then None else Some (ucast x))"

definition parse_bool :: "bytes \<Rightarrow> bool option" where
  "parse_bool v =
     (if strcaseeq v (lit ''true'') \<or> strcaseeq v (lit ''1'') \<or> strcaseeq v (lit ''yes'') \<or> strcaseeq v (lit ''on'')
      then Some True
      else if strcaseeq v (lit ''false'') \<or> strcaseeq v (lit ''0'') \<or> strcaseeq v (lit ''no'') \<or> strcaseeq v (lit ''off'')
      then Some False else None)"

section \<open>The policy file\<close>

definition config_policy_save :: "mc_config \<Rightarrow> bytes" where
  \<comment> \<open>the contents written; the renaming into place is left to the caller\<close>
  "config_policy_save c =
     (let p = policy c in
      lit ''# Rooms and blocks from the backbone hub (POLICY). Written by meshcore-repeater - don'' @ [39]
        @ lit ''t edit.'' @ [10]
      @ lit ''version = '' @ dec_nat (unat (version p)) @ [10] @ lit ''skipped = '' @ dec_int (skipped p) @ [10]
      @ concat (map (\<lambda>r. lit ''room = '' @ r @ [10]) (pol_rooms p))
      @ concat (map (\<lambda>n. if 13 \<notin> set n \<and> 10 \<notin> set n then lit ''block = '' @ n @ [10] else []) (pol_names p))
      @ concat (map (\<lambda>k. lit ''block_key = '' @ bin2hex k 65 @ [10]) (pol_keys p)))"

definition policy_entry :: "mc_policy \<Rightarrow> bytes \<Rightarrow> bytes \<Rightarrow> mc_policy" where
  "policy_entry p k v =
     (if k = lit ''version'' \<and> parse_u32 v \<noteq> None then p\<lparr>version := the (parse_u32 v)\<rparr>
      else if k = lit ''skipped'' \<and> parse_u32 v \<noteq> None then p\<lparr>skipped := sint (the (parse_u32 v))\<rparr>
      else if k = lit ''room'' \<and> length (pol_rooms p) < MC_POLICY_MAX_ROOMS \<and> length v < MC_ROOM_NAME_LEN
      then p\<lparr>pol_rooms := pol_rooms p @ [v]\<rparr>
      else if k = lit ''block'' \<and> length (pol_names p) < MC_POLICY_MAX_BLOCKS \<and> v \<noteq> []
             \<and> length v < MC_BLACKLIST_NAME_LEN
      then p\<lparr>pol_names := pol_names p @ [v]\<rparr>
      else if k = lit ''block_key'' \<and> length (pol_keys p) < MC_POLICY_MAX_BLOCKS
             \<and> map_option length (hex2bin v 32) = Some 32
      then p\<lparr>pol_keys := pol_keys p @ [the (hex2bin v 32)]\<rparr>
      else p)"

definition policy_line :: "mc_policy \<Rightarrow> bytes \<Rightarrow> mc_policy" where
  \<comment> \<open>one iteration of the loop of \<open>config_policy_load\<close>\<close>
  "policy_line p raw =
     (let line = takeWhile (\<lambda>c. c \<noteq> 13 \<and> c \<noteq> 10) (c_str raw) in
      if take 1 line = [35] then p
      else (case strstr line (lit '' = '') of
              None \<Rightarrow> p
            | Some n \<Rightarrow> policy_entry p (take n line) (drop (n + 3) line)))"

definition config_policy_load :: "mc_config \<Rightarrow> bytes option \<Rightarrow> bytes option \<Rightarrow> int \<times> mc_config" where
  "config_policy_load c own_pub file =
     (case file of
        None \<Rightarrow> (-1, c)
      | Some s \<Rightarrow>
          let p = foldl policy_line empty_policy (fgets_lines 256 s) in
          if version p = 0 then (-1, c) else (0, config_set_policy c p own_pub))"

section \<open>Reading back a number\<close>

lemma unat_u32_less: "unat (v :: u32) < 4294967296"
  using unsigned_less [of v] by simp

lemma digit_in_digit: "n < 10 \<Longrightarrow> digit_in 10 (48 + of_nat n) = Some n"
proof -
  assume "n < 10"
  then have "n = 0 \<or> n = 1 \<or> n = 2 \<or> n = 3 \<or> n = 4 \<or> n = 5 \<or> n = 6 \<or> n = 7 \<or> n = 8 \<or> n = 9" by presburger
  then show ?thesis by (elim disjE) (simp_all add: digit_in_def hexval_def)
qed

lemma dec_nat_ne [simp]: "dec_nat n \<noteq> []"
  by (subst dec_nat.simps) simp

lemma digits_run_dec: "digits_run 10 a (dec_nat n @ r) = digits_run 10 (a * 10 ^ length (dec_nat n) + n) r"
proof (induction n arbitrary: a r rule: dec_nat.induct)
  case (1 n)
  show ?case
  proof (cases "n < 10")
    case True
    then show ?thesis by (subst dec_nat.simps, subst (2) dec_nat.simps) (simp add: digit_in_digit)
  next
    case False
    have d: "dec_nat n = dec_nat (n div 10) @ [48 + of_nat (n mod 10)]"
      using False by (subst dec_nat.simps) simp
    have "digits_run 10 a (dec_nat n @ r) =
        digits_run 10 (a * 10 ^ length (dec_nat (n div 10)) + n div 10) ((48 + of_nat (n mod 10)) # r)"
      using 1 [OF False, of a "(48 + of_nat (n mod 10)) # r"] unfolding d by simp
    also have "\<dots> = digits_run 10 (a * 10 ^ length (dec_nat n) + n) r"
      unfolding d by (simp add: digit_in_digit algebra_simps)
    finally show ?thesis .
  qed
qed

lemma dec_nat_chars: "c \<in> set (dec_nat n) \<Longrightarrow> 48 \<le> c \<and> c \<le> 57"
proof (induction n rule: dec_nat.induct)
  case (1 n)
  have d: "48 + of_nat k = (48 + of_nat k :: byte) \<and> 48 \<le> (48 + of_nat k :: byte) \<and> (48 + of_nat k :: byte) \<le> 57" if "k < 10" for k :: nat
  proof -
    from that have "k = 0 \<or> k = 1 \<or> k = 2 \<or> k = 3 \<or> k = 4 \<or> k = 5 \<or> k = 6 \<or> k = 7 \<or> k = 8 \<or> k = 9" by presburger
    then show ?thesis by (elim disjE) simp_all
  qed
  from 1 show ?case
    using d [of n] d [of "n mod 10"] by (subst (asm) (2) dec_nat.simps) (auto split: if_splits)
qed

lemma parse_u32_dec: "n < 2 ^ 32 \<Longrightarrow> parse_u32 (dec_nat n) = Some (of_nat n)"
proof -
  assume n: "n < 2 ^ 32"
  obtain c s where s: "dec_nat n = c # s" by (cases "dec_nat n") auto
  have c: "48 \<le> c" "c \<le> 57" using dec_nat_chars [of c n] s by auto
  have x: "c' \<noteq> 120 \<and> c' \<noteq> 88" if "c' \<in> set (dec_nat n)" for c'
    using dec_nat_chars [OF that] by (auto simp: word_le_nat_alt)
  have b: "take 2 (dec_nat n) \<noteq> lit ''0x'' \<and> take 2 (dec_nat n) \<noteq> lit ''0X''"
    using x s by (cases s) auto
  have "digit_in 10 c \<noteq> None"
    using c by (auto simp: digit_in_def hexval_def word_le_nat_alt unat_sub)
  moreover have "\<not> is_space_c c" "c \<noteq> 45" "c \<noteq> 43" using c by (auto simp: is_space_c_def word_le_nat_alt)
  moreover have "digits_run 10 0 (c # s) = (n, [])" using digits_run_dec [of 0 n "[]"] s by simp
  ultimately have "strtoul 10 (dec_nat n) = Some (of_nat n, [])"
    using n by (simp add: strtoul_def s Let_def del: digits_run.simps)
  then show ?thesis
    using b n by (simp add: parse_u32_def word_unat_eq_iff unsigned_ucast_eq unat_of_nat take_bit_eq_mod)
qed

section \<open>The file is read back\<close>

definition line_text :: "bytes \<Rightarrow> bool" where
  \<comment> \<open>no NUL, CR or LF\<close>
  "line_text s \<longleftrightarrow> 0 \<notin> set s \<and> 10 \<notin> set s \<and> 13 \<notin> set s"

definition wf_policy :: "mc_policy \<Rightarrow> bool" where
  \<comment> \<open>what a set collected from the hub satisfies\<close>
  "wf_policy p \<longleftrightarrow>
     length (pol_rooms p) \<le> MC_POLICY_MAX_ROOMS \<and> list_all (\<lambda>r. line_text r \<and> length r < MC_ROOM_NAME_LEN) (pol_rooms p) \<and>
     length (pol_names p) \<le> MC_POLICY_MAX_BLOCKS \<and>
     list_all (\<lambda>n. n \<noteq> [] \<and> 0 \<notin> set n \<and> length n < MC_BLACKLIST_NAME_LEN) (pol_names p) \<and>
     length (pol_keys p) \<le> MC_POLICY_MAX_BLOCKS \<and> list_all (\<lambda>k. length k = 32) (pol_keys p) \<and>
     skipped p \<in> {0 ..< 2 ^ 31}"

definition one_line :: "bytes \<Rightarrow> bool" where
  "one_line n \<longleftrightarrow> 13 \<notin> set n \<and> 10 \<notin> set n"

definition kv :: "bytes \<Rightarrow> bytes \<Rightarrow> bytes" where
  "kv k v = k @ lit '' = '' @ v"

lemma policy_line_kv:
  assumes "line_text k" "line_text v" "32 \<notin> set k" "take 1 k \<noteq> [35]" "k \<noteq> []"
  shows "policy_line p (kv k v @ [10]) = policy_entry p k v"
proof -
  have pt: "line_text (kv k v)" using assms(1,2) by (auto simp: line_text_def kv_def)
  then have c: "c_str (kv k v @ [10]) = kv k v @ [10]" by (intro c_str_plain) (auto simp: line_text_def)
  have l: "takeWhile (\<lambda>c. c \<noteq> 13 \<and> c \<noteq> 10) (kv k v @ [10]) = kv k v"
    using pt by (subst takeWhile_append2) (auto simp: line_text_def)
  have n: "strstr (kv k v) (lit '' = '') = Some (length k)"
    unfolding kv_def
  proof (rule strstr_found)
    fix i assume i: "i < length k"
    then have "hd (take (length (lit '' = '')) (drop i (k @ lit '' = '' @ v))) = k ! i"
      by (simp add: hd_drop_conv_nth)
    moreover have "k ! i \<noteq> 32" using assms(3) nth_mem [OF i] by metis
    ultimately show "take (length (lit '' = '')) (drop i (k @ lit '' = '' @ v)) \<noteq> lit '' = ''" by force
  qed
  have h: "take 1 (kv k v) \<noteq> [35]" using assms(4,5) by (cases k) (auto simp: kv_def)
  show ?thesis unfolding policy_line_def Let_def c l n using h by (simp add: kv_def)
qed

lemma fgets_lines_concat:
  "\<forall>l \<in> set ls. 10 \<notin> set l \<and> length l + 1 < sz \<Longrightarrow>
   fgets_lines sz (concat (map (\<lambda>l. l @ [10]) ls)) = map (\<lambda>l. l @ [10]) ls"
  by (induction ls) auto

definition policy_lines :: "mc_policy \<Rightarrow> bytes list" where
  "policy_lines p =
     [lit ''# Rooms and blocks from the backbone hub (POLICY). Written by meshcore-repeater - don'' @ [39] @ lit ''t edit.'',
      kv (lit ''version'') (dec_nat (unat (version p))), kv (lit ''skipped'') (dec_int (skipped p))]
     @ map (kv (lit ''room'')) (pol_rooms p) @ map (kv (lit ''block'')) (filter one_line (pol_names p))
     @ map (\<lambda>k. kv (lit ''block_key'') (hex_digits k)) (pol_keys p)"

lemma save_lines:
  assumes "wf_policy (policy c)"
  shows "config_policy_save c = concat (map (\<lambda>l. l @ [10]) (policy_lines (policy c)))"
proof -
  have n: "concat (map (\<lambda>n. if 13 \<notin> set n \<and> 10 \<notin> set n then lit ''block = '' @ n @ [10] else []) ns)
      = concat (map (\<lambda>l. l @ [10]) (map (kv (lit ''block'')) (filter one_line ns)))" for ns
    by (induction ns) (auto simp: one_line_def kv_def)
  have r: "concat (map (\<lambda>r. lit ''room = '' @ r @ [10]) rs) = concat (map (\<lambda>l. l @ [10]) (map (kv (lit ''room'')) rs))" for rs
    by (induction rs) (auto simp: kv_def)
  have k: "concat (map (\<lambda>k. lit ''block_key = '' @ bin2hex k 65 @ [10]) ks)
      = concat (map (\<lambda>l. l @ [10]) (map (\<lambda>k. kv (lit ''block_key'') (hex_digits k)) ks))"
    if "list_all (\<lambda>k. length k = 32) ks" for ks
    using that by (induction ks) (auto simp: kv_def bin2hex_def)
  have kk: "list_all (\<lambda>k. length k = 32) (pol_keys (policy c))" using assms by (simp add: wf_policy_def)
  show ?thesis
    unfolding config_policy_save_def policy_lines_def Let_def n r k [OF kk] by (simp add: kv_def)
qed

lemma dec_nat_plain: "line_text (dec_nat n)"
  using dec_nat_chars [of 0 n] dec_nat_chars [of 10 n] dec_nat_chars [of 13 n] by (auto simp: line_text_def)

lemma dec_nat_length: "n < 10 ^ k \<Longrightarrow> 0 < k \<Longrightarrow> length (dec_nat n) \<le> k"
proof (induction k arbitrary: n)
  case (Suc k)
  show ?case
  proof (cases "n < 10")
    case True
    then show ?thesis by (subst dec_nat.simps) simp
  next
    case False
    then have "n div 10 < 10 ^ k" "0 < k" using Suc.prems by (cases k; auto)+
    with Suc.IH [of "n div 10"] False show ?thesis by (subst dec_nat.simps) simp
  qed
qed simp

lemma hex_plain: "line_text (hex_digits k)"
  using hex_digits_plain [of 0 k] hex_digits_plain [of 10 k] hex_digits_plain [of 13 k] by (auto simp: line_text_def)

lemma kv_short:
  "line_text k \<Longrightarrow> line_text v \<Longrightarrow> length k + length v < 252 \<Longrightarrow> 10 \<notin> set (kv k v) \<and> length (kv k v) + 1 < 256"
  by (auto simp: kv_def line_text_def)

lemma policy_lines_short:
  assumes "wf_policy p" "l \<in> set (policy_lines p)"
  shows "10 \<notin> set l \<and> length l + 1 < 256"
proof -
  have d: "length (dec_nat n) \<le> 10" if "n < 10 ^ 10" for n
    using dec_nat_length [OF that] by simp
  have v: "length (dec_nat (unat (version p))) \<le> 10"
    using unat_u32_less [of "version p"] by (intro d) simp
  have s: "dec_int (skipped p) = dec_nat (nat (skipped p))" "length (dec_nat (nat (skipped p))) \<le> 10"
    using assms(1) by (auto simp: dec_int_def wf_policy_def intro!: d)
  have t: "line_text (lit ''version'')" "line_text (lit ''skipped'')" "line_text (lit ''room'')"
    "line_text (lit ''block'')" "line_text (lit ''block_key'')" by (simp_all add: line_text_def)
  consider "l = hd (policy_lines p)" | "l = kv (lit ''version'') (dec_nat (unat (version p)))"
    | "l = kv (lit ''skipped'') (dec_int (skipped p))"
    | r where "r \<in> set (pol_rooms p)" "l = kv (lit ''room'') r"
    | n where "n \<in> set (pol_names p)" "one_line n" "l = kv (lit ''block'') n"
    | k where "k \<in> set (pol_keys p)" "l = kv (lit ''block_key'') (hex_digits k)"
    using assms(2) by (auto simp: policy_lines_def simp del: lit_simps)
  then show ?thesis
  proof cases
    case 1
    then show ?thesis by (simp add: policy_lines_def)
  next
    case 2
    then show ?thesis using v t dec_nat_plain by (simp only: kv_short length_lit) (intro kv_short, auto)
  next
    case 3
    then show ?thesis unfolding 3 s(1) using s(2) t dec_nat_plain by (intro kv_short) auto
  next
    case 4
    then show ?thesis using assms(1) t unfolding 4(2) by (intro kv_short) (auto simp: wf_policy_def list_all_iff)
  next
    case 5
    then show ?thesis using assms(1) t unfolding 5(3)
      by (intro kv_short) (auto simp: wf_policy_def list_all_iff one_line_def line_text_def)
  next
    case 6
    then show ?thesis using assms(1) t hex_plain unfolding 6(2) by (intro kv_short) (auto simp: wf_policy_def list_all_iff)
  qed
qed

lemma add_rooms:
  "length (pol_rooms p) + length rs \<le> MC_POLICY_MAX_ROOMS \<Longrightarrow> list_all (\<lambda>r. line_text r \<and> length r < MC_ROOM_NAME_LEN) rs \<Longrightarrow>
   foldl policy_line p (map (\<lambda>l. l @ [10]) (map (kv (lit ''room'')) rs)) = p\<lparr>pol_rooms := pol_rooms p @ rs\<rparr>"
proof (induction rs arbitrary: p)
  case (Cons r rs)
  have "policy_line p (kv (lit ''room'') r @ [10]) = policy_entry p (lit ''room'') r"
    using Cons.prems by (intro policy_line_kv) (auto simp: line_text_def)
  also have "\<dots> = p\<lparr>pol_rooms := pol_rooms p @ [r]\<rparr>"
    using Cons.prems by (simp add: policy_entry_def)
  finally show ?case using Cons by simp
qed simp

lemma add_names:
  "length (pol_names p) + length ns \<le> MC_POLICY_MAX_BLOCKS \<Longrightarrow>
   list_all (\<lambda>n. n \<noteq> [] \<and> line_text n \<and> length n < MC_BLACKLIST_NAME_LEN) ns \<Longrightarrow>
   foldl policy_line p (map (\<lambda>l. l @ [10]) (map (kv (lit ''block'')) ns)) = p\<lparr>pol_names := pol_names p @ ns\<rparr>"
proof (induction ns arbitrary: p)
  case (Cons n ns)
  have "policy_line p (kv (lit ''block'') n @ [10]) = policy_entry p (lit ''block'') n"
    using Cons.prems by (intro policy_line_kv) (auto simp: line_text_def)
  also have "\<dots> = p\<lparr>pol_names := pol_names p @ [n]\<rparr>"
    using Cons.prems by (simp add: policy_entry_def)
  finally show ?case using Cons by simp
qed simp

lemma add_keys:
  "length (pol_keys p) + length ks \<le> MC_POLICY_MAX_BLOCKS \<Longrightarrow> list_all (\<lambda>k. length k = 32) ks \<Longrightarrow>
   foldl policy_line p (map (\<lambda>l. l @ [10]) (map (\<lambda>k. kv (lit ''block_key'') (hex_digits k)) ks))
     = p\<lparr>pol_keys := pol_keys p @ ks\<rparr>"
proof (induction ks arbitrary: p)
  case (Cons k ks)
  have "policy_line p (kv (lit ''block_key'') (hex_digits k) @ [10]) = policy_entry p (lit ''block_key'') (hex_digits k)"
    by (intro policy_line_kv hex_plain) (auto simp: line_text_def)
  also have "\<dots> = p\<lparr>pol_keys := pol_keys p @ [k]\<rparr>"
    using Cons.prems by (simp add: policy_entry_def hex2bin_def unhex_hex_digits)
  finally show ?case using Cons by simp
qed simp

text \<open>The set read back is the set kept, without the names that hold a line break.\<close>

lemma load_saved_policy:
  assumes "wf_policy (policy c)" "version (policy c) \<noteq> 0"
  shows "config_policy_load c' own (Some (config_policy_save c)) =
    (0, config_set_policy c' ((policy c)\<lparr>pol_names := filter one_line (pol_names (policy c))\<rparr>) own)"
proof -
  let ?p = "policy c"
  let ?h = "lit ''# Rooms and blocks from the backbone hub (POLICY). Written by meshcore-repeater - don'' @ [39] @ lit ''t edit.''"
  have lines: "fgets_lines 256 (config_policy_save c) = map (\<lambda>l. l @ [10]) (policy_lines ?p)"
    unfolding save_lines [OF assms(1)] using policy_lines_short [OF assms(1)] by (intro fgets_lines_concat) blast
  have h: "policy_line empty_policy (?h @ [10]) = empty_policy" by (simp add: policy_line_def c_str_def)
  have v: "policy_line p (kv (lit ''version'') (dec_nat (unat (version ?p))) @ [10]) = p\<lparr>version := version ?p\<rparr>" for p
  proof -
    have "policy_line p (kv (lit ''version'') (dec_nat (unat (version ?p))) @ [10]) =
        policy_entry p (lit ''version'') (dec_nat (unat (version ?p)))"
      by (intro policy_line_kv dec_nat_plain) (auto simp: line_text_def)
    then show ?thesis using parse_u32_dec [of "unat (version ?p)"] unat_u32_less [of "version ?p"]
      by (simp add: policy_entry_def)
  qed
  have sk: "policy_line p (kv (lit ''skipped'') (dec_int (skipped ?p)) @ [10]) = p\<lparr>skipped := skipped ?p\<rparr>" for p
  proof -
    have r: "0 \<le> skipped ?p" "skipped ?p < 2 ^ 31" using assms(1) by (auto simp: wf_policy_def)
    then have "dec_int (skipped ?p) = dec_nat (nat (skipped ?p))" by (simp add: dec_int_def)
    then have "policy_line p (kv (lit ''skipped'') (dec_int (skipped ?p)) @ [10]) =
        policy_entry p (lit ''skipped'') (dec_nat (nat (skipped ?p)))"
      by (simp only:) (intro policy_line_kv dec_nat_plain, auto simp: line_text_def)
    also have "\<dots> = p\<lparr>skipped := sint (of_nat (nat (skipped ?p)) :: u32)\<rparr>"
      using parse_u32_dec [of "nat (skipped ?p)"] r by (simp add: policy_entry_def)
    also have "sint (of_nat (nat (skipped ?p)) :: u32) = skipped ?p"
      using r by (simp add: sint_sbintrunc' signed_take_bit_int_eq_self)
    finally show ?thesis .
  qed
  have f: "list_all (\<lambda>n. n \<noteq> [] \<and> line_text n \<and> length n < MC_BLACKLIST_NAME_LEN) (filter one_line (pol_names ?p))"
    "length (filter one_line (pol_names ?p)) \<le> MC_POLICY_MAX_BLOCKS"
    using assms(1) le_trans [OF length_filter_le [of one_line "pol_names ?p"]]
    by (auto simp: wf_policy_def list_all_iff one_line_def line_text_def)
  let ?q = "\<lparr>version = version ?p, pol_rooms = [], pol_names = [], pol_keys = [], skipped = skipped ?p\<rparr>"
  have q: "(empty_policy\<lparr>version := version ?p\<rparr>)\<lparr>skipped := skipped ?p\<rparr> = ?q" by (simp add: empty_policy_def)
  have 1: "foldl policy_line ?q (map (\<lambda>l. l @ [10]) (map (kv (lit ''room'')) (pol_rooms ?p))) = ?q\<lparr>pol_rooms := pol_rooms ?p\<rparr>"
    using add_rooms [of ?q "pol_rooms ?p"] assms(1) by (simp add: wf_policy_def del: map_map)
  have 2: "foldl policy_line (?q\<lparr>pol_rooms := pol_rooms ?p\<rparr>) (map (\<lambda>l. l @ [10]) (map (kv (lit ''block'')) (filter one_line (pol_names ?p))))
      = ?q\<lparr>pol_rooms := pol_rooms ?p, pol_names := filter one_line (pol_names ?p)\<rparr>"
    using add_names [of "?q\<lparr>pol_rooms := pol_rooms ?p\<rparr>" "filter one_line (pol_names ?p)"] f by (simp del: map_map)
  have 3: "foldl policy_line (?q\<lparr>pol_rooms := pol_rooms ?p, pol_names := filter one_line (pol_names ?p)\<rparr>)
        (map (\<lambda>l. l @ [10]) (map (\<lambda>k. kv (lit ''block_key'') (hex_digits k)) (pol_keys ?p)))
      = ?q\<lparr>pol_rooms := pol_rooms ?p, pol_names := filter one_line (pol_names ?p), pol_keys := pol_keys ?p\<rparr>"
    using add_keys [of "?q\<lparr>pol_rooms := pol_rooms ?p, pol_names := filter one_line (pol_names ?p)\<rparr>" "pol_keys ?p"] assms(1)
    by (simp add: wf_policy_def del: map_map)
  have "foldl policy_line empty_policy (map (\<lambda>l. l @ [10]) (policy_lines ?p)) =
      ?q\<lparr>pol_rooms := pol_rooms ?p, pol_names := filter one_line (pol_names ?p), pol_keys := pol_keys ?p\<rparr>"
    unfolding policy_lines_def map_append foldl_append list.map foldl.simps h v sk q
    using 1 2 3 by (simp only: list.map)
  also have "\<dots> = ?p\<lparr>pol_names := filter one_line (pol_names ?p)\<rparr>" by simp
  finally show ?thesis using assms(2) by (simp add: config_policy_load_def lines Let_def)
qed

end
