(* ===== verification/Double.thy ===== *)
theory Double
  imports Format
begin

text \<open>
  The arithmetic of \<^verbatim>\<open>double\<close>. A value is the rational it denotes, and an operation of C is the exact
  one followed by \<open>dbl\<close>, which rounds to a number of 53 bits, to nearest with ties to even. The
  exponent is not bounded: the program's values lie far inside the range of normal numbers (or are
  zero). The lemmas give the rounding error, that the sign is kept and that integers up to 53 bits
  are exact.
\<close>

section \<open>Rounding\<close>

function ilog2 :: "int \<Rightarrow> nat" where
  \<comment> \<open>the binary logarithm of a positive integer, rounded down\<close>
  "ilog2 n = (if n \<le> 1 then 0 else Suc (ilog2 (n div 2)))"
  by auto
termination
  by (relation "measure nat") auto

declare ilog2.simps [simp del]

definition exp2 :: "rat \<Rightarrow> int" where
  \<comment> \<open>the binary exponent of a positive number\<close>
  "exp2 x = (if 1 \<le> x then int (ilog2 \<lfloor>x\<rfloor>) else - int (ilog2 (\<lceil>1 / x\<rceil> - 1)) - 1)"

definition pow2 :: "int \<Rightarrow> rat" where
  "pow2 k = (if 0 \<le> k then 2 ^ nat k else 1 / 2 ^ nat (- k))"

definition dbl :: "rat \<Rightarrow> rat" where
  "dbl x = (if x = 0 then 0 else let u = pow2 (exp2 \<bar>x\<bar> - 52) in of_int (round_even (x / u)) * u)"

section \<open>The exponent\<close>

lemma ilog2_bounds: "0 < n \<Longrightarrow> 2 ^ ilog2 n \<le> n \<and> n < 2 ^ Suc (ilog2 n)"
proof (induction n rule: ilog2.induct)
  case (1 n)
  show ?case
  proof (cases "n \<le> 1")
    case True
    then show ?thesis using 1(2) by (simp add: ilog2.simps)
  next
    case False
    then have "2 ^ ilog2 (n div 2) \<le> n div 2 \<and> n div 2 < 2 ^ Suc (ilog2 (n div 2))" using 1(1) by simp
    moreover have "ilog2 n = Suc (ilog2 (n div 2))" using False by (simp add: ilog2.simps [of n])
    ultimately show ?thesis by simp linarith
  qed
qed

lemma pow2_pos [simp]: "0 < pow2 k"
  by (simp add: pow2_def)

lemma pow2_nonneg [simp]: "0 \<le> pow2 k"
  by (simp add: pow2_def)

lemma pow2_add: "pow2 (a + b) = pow2 a * pow2 b"
proof -
  have "pow2 k = 2 powi k" for k by (simp add: pow2_def power_int_def field_simps)
  then show ?thesis by (simp add: power_int_add)
qed

lemma exp2_le:
  assumes "0 < x"
  shows "pow2 (exp2 x) \<le> x"
proof (cases "1 \<le> x")
  case True
  then have "2 ^ ilog2 \<lfloor>x\<rfloor> \<le> \<lfloor>x\<rfloor>" using ilog2_bounds [of "\<lfloor>x\<rfloor>"] by simp
  then have "of_int (2 ^ ilog2 \<lfloor>x\<rfloor>) \<le> x" by (simp only: le_floor_iff)
  then show ?thesis using True by (simp add: exp2_def pow2_def)
next
  case False
  then have i: "1 < 1 / x" using assms by simp
  then have "1 < \<lceil>1 / x\<rceil>" by (simp add: less_ceiling_iff)
  then have "\<lceil>1 / x\<rceil> - 1 < 2 ^ Suc (ilog2 (\<lceil>1 / x\<rceil> - 1))" using ilog2_bounds [of "\<lceil>1 / x\<rceil> - 1"] by simp
  then have "\<lceil>1 / x\<rceil> \<le> 2 ^ Suc (ilog2 (\<lceil>1 / x\<rceil> - 1))" by linarith
  then have "1 / x \<le> of_int (2 ^ Suc (ilog2 (\<lceil>1 / x\<rceil> - 1)))" by (simp only: ceiling_le_iff)
  then have "1 / of_int (2 ^ Suc (ilog2 (\<lceil>1 / x\<rceil> - 1))) \<le> x" using assms by (simp add: field_simps)
  moreover have "nat (1 + int k) = Suc k" for k by simp
  ultimately show ?thesis using False by (simp add: exp2_def pow2_def)
qed

lemma exp2_less:
  assumes "0 < x"
  shows "x < 2 * pow2 (exp2 x)"
proof (cases "1 \<le> x")
  case True
  then have "\<lfloor>x\<rfloor> < 2 ^ Suc (ilog2 \<lfloor>x\<rfloor>)" using ilog2_bounds [of "\<lfloor>x\<rfloor>"] by simp
  then have "x < of_int (2 ^ Suc (ilog2 \<lfloor>x\<rfloor>))" by (simp only: floor_less_iff)
  then show ?thesis using True by (simp add: exp2_def pow2_def)
next
  case False
  then have i: "1 < 1 / x" using assms by simp
  then have "1 < \<lceil>1 / x\<rceil>" by (simp add: less_ceiling_iff)
  then have "2 ^ ilog2 (\<lceil>1 / x\<rceil> - 1) \<le> \<lceil>1 / x\<rceil> - 1" using ilog2_bounds [of "\<lceil>1 / x\<rceil> - 1"] by simp
  then have "2 ^ ilog2 (\<lceil>1 / x\<rceil> - 1) < \<lceil>1 / x\<rceil>" by linarith
  then have "of_int (2 ^ ilog2 (\<lceil>1 / x\<rceil> - 1)) < 1 / x" by (simp only: less_ceiling_iff)
  then have "x < 1 / of_int (2 ^ ilog2 (\<lceil>1 / x\<rceil> - 1))" using assms by (simp add: field_simps)
  moreover have "nat (1 + int k) = Suc k" for k by simp
  ultimately show ?thesis using False by (simp add: exp2_def pow2_def)
qed

section \<open>The error\<close>

lemma round_even_err: "\<bar>of_int (round_even x) - x\<bar> \<le> 1 / 2"
  using floor_correct [of x] by (auto simp: round_even_def Let_def abs_le_iff)

lemma round_even_nonneg: "0 \<le> x \<Longrightarrow> 0 \<le> round_even x"
  by (auto simp: round_even_def Let_def)

lemma dbl_err: "\<bar>dbl x - x\<bar> \<le> \<bar>x\<bar> / 2 ^ 53"
proof (cases "x = 0")
  case False
  let ?u = "pow2 (exp2 \<bar>x\<bar> - 52)"
  have "dbl x - x = (of_int (round_even (x / ?u)) - x / ?u) * ?u"
    using False pow2_pos [of "exp2 \<bar>x\<bar> - 52"] by (simp add: dbl_def Let_def left_diff_distrib del: pow2_pos)
  then have "\<bar>dbl x - x\<bar> = \<bar>of_int (round_even (x / ?u)) - x / ?u\<bar> * ?u"
    by (simp only: abs_mult abs_of_pos [OF pow2_pos])
  also have "\<dots> \<le> 1 / 2 * ?u" by (rule mult_right_mono [OF round_even_err]) simp
  also have "\<dots> = pow2 (exp2 \<bar>x\<bar>) / 2 ^ 53"
    using pow2_add [of "exp2 \<bar>x\<bar>" "-52"] by (simp add: pow2_def [of "-52"])
  also have "\<dots> \<le> \<bar>x\<bar> / 2 ^ 53" using exp2_le [of "\<bar>x\<bar>"] False by (intro divide_right_mono) simp_all
  finally show ?thesis .
qed (simp add: dbl_def)

lemma dbl_0 [simp]: "dbl 0 = 0"
  by (simp add: dbl_def)

lemma dbl_nonneg: "0 \<le> x \<Longrightarrow> 0 \<le> dbl x"
  by (simp add: dbl_def Let_def round_even_nonneg less_imp_le)

text \<open>The result has 53 bits, and a number that has them is not rounded.\<close>

lemma dbl_mantissa: "\<exists>n e. dbl x = of_int n * pow2 e \<and> \<bar>n\<bar> \<le> 2 ^ 53"
proof (cases "x = 0")
  case False
  let ?u = "pow2 (exp2 \<bar>x\<bar> - 52)"
  have u: "2 ^ 52 * ?u = pow2 (exp2 \<bar>x\<bar>)" using pow2_add [of 52 "exp2 \<bar>x\<bar> - 52"] by (simp add: pow2_def [of 52])
  have "\<bar>x / ?u\<bar> < 2 ^ 53"
    using exp2_less [of "\<bar>x\<bar>"] False u pow2_pos [of "exp2 \<bar>x\<bar> - 52"] by (simp add: abs_divide pos_divide_less_eq)
  with round_even_err [of "x / ?u"] have "\<bar>of_int (round_even (x / ?u)) :: rat\<bar> < 2 ^ 53 + 1" by linarith
  then have "of_int \<bar>round_even (x / ?u)\<bar> < (of_int (2 ^ 53 + 1) :: rat)" by simp
  then have "\<bar>round_even (x / ?u)\<bar> \<le> 2 ^ 53" by (simp only: of_int_less_iff)
  then show ?thesis using False by (auto simp: dbl_def Let_def)
qed (auto intro: exI [of _ 0])

lemma dbl_int:
  assumes "\<bar>n\<bar> < 2 ^ 53"
  shows "dbl (of_int n) = of_int n"
proof (cases "n = 0")
  case False
  let ?x = "\<bar>of_int n\<bar> :: rat"
  have one: "1 \<le> \<bar>n\<bar>" using False by simp
  then have x: "1 \<le> ?x" by (metis of_int_1_le_iff of_int_abs)
  have "ilog2 \<bar>n\<bar> \<le> 52"
  proof (rule ccontr)
    assume "\<not> ilog2 \<bar>n\<bar> \<le> 52"
    then have "(2 :: int) ^ 53 \<le> 2 ^ ilog2 \<bar>n\<bar>" by (intro power_increasing) simp_all
    then show False using ilog2_bounds [of "\<bar>n\<bar>"] one assms by linarith
  qed
  moreover have "exp2 ?x = int (ilog2 \<bar>n\<bar>)" using x by (simp add: exp2_def flip: of_int_abs)
  ultimately obtain k where k: "exp2 ?x - 52 = - int k" using zle_iff_zadd [of "exp2 ?x" 52] by fastforce
  have p: "pow2 (- int k) = 1 / 2 ^ k" by (simp add: pow2_def)
  then have "of_int n / pow2 (- int k) = (of_int (n * 2 ^ k) :: rat)" by simp
  then have "round_even (of_int n / pow2 (- int k)) = n * 2 ^ k" by (simp only: round_even_int)
  then show ?thesis using False by (simp add: dbl_def Let_def k p)
qed simp

lemma dbl_upper: "0 \<le> x \<Longrightarrow> dbl x \<le> x * (1 + 1 / 2 ^ 53)"
proof -
  assume "0 \<le> x"
  then have "dbl x - x \<le> x / 2 ^ 53" using dbl_err [of x] by linarith
  then show ?thesis by (simp only: distrib_left) simp
qed

section \<open>Decimals\<close>

lemma round_even_near: "\<bar>y - of_int i\<bar> < 1 / 2 \<Longrightarrow> round_even y = i"
proof -
  assume a: "\<bar>y - of_int i\<bar> < 1 / 2"
  consider "of_int i \<le> y" | "y < of_int i" by linarith
  then show ?thesis
  proof cases
    case 1
    then have "\<lfloor>y\<rfloor> = i" using a by (intro floor_unique) linarith+
    moreover have "y - of_int i < 1 / 2" using a by linarith
    ultimately show ?thesis unfolding round_even_def Let_def by simp
  next
    case 2
    then have "of_int (i - 1) \<le> y" "y < of_int (i - 1) + 1" using a unfolding of_int_diff of_int_1 by linarith+
    then have f: "\<lfloor>y\<rfloor> = i - 1" by (rule floor_unique)
    have "1 / 2 < y - of_int (i - 1)" using a unfolding of_int_diff of_int_1 by linarith
    then show ?thesis unfolding round_even_def Let_def f by simp
  qed
qed

text \<open>
  The configuration keeps its numbers as the decimals of its file. The \<^verbatim>\<open>double\<close> next to a decimal
  of \<open>n\<close> places prints as that decimal, so the file tells nothing apart that the decimals do not.
\<close>

lemma fmt_f_dbl:
  assumes "x * 10 ^ n = of_int i" "\<bar>x\<bar> < 10 ^ 9" "n \<le> 6"
  shows "fmt_f n (dbl x) = fmt_f n x"
proof -
  have e: "\<bar>dbl x - x\<bar> \<le> \<bar>x\<bar> / 2 ^ 53" by (rule dbl_err)
  have i: "\<bar>x\<bar> * 10 ^ n = of_int \<bar>i\<bar>" using assms(1) by (metis abs_mult abs_of_nonneg of_int_abs zero_le_numeral zero_le_power)
  have s: "(dbl x < 0) = (x < 0)"
  proof (cases "x < 0")
    case True
    then have "x / 2 ^ 53 < 0" "x < x / 2 ^ 53" by (simp_all add: divide_simps)
    then show ?thesis using e True by (simp add: abs_of_neg)
  qed (simp add: dbl_nonneg not_less)
  have "\<bar>\<bar>dbl x\<bar> - \<bar>x\<bar>\<bar> * 10 ^ n \<le> \<bar>x\<bar> / 2 ^ 53 * 10 ^ 6"
    using order_trans [OF abs_triangle_ineq3 e] assms(3) by (intro mult_mono power_increasing) simp_all
  also have "\<dots> < 1 / 2" using assms(2) by simp
  finally have "\<bar>\<bar>dbl x\<bar> * 10 ^ n - of_int \<bar>i\<bar>\<bar> < 1 / 2"
    unfolding i [symmetric] using abs_mult_pos [of "10 ^ n" "\<bar>dbl x\<bar> - \<bar>x\<bar>"] by (simp add: left_diff_distrib)
  then have "round_even (\<bar>dbl x\<bar> * 10 ^ n) = \<bar>i\<bar>" by (rule round_even_near)
  moreover have "round_even (\<bar>x\<bar> * 10 ^ n) = \<bar>i\<bar>" unfolding i by (rule round_even_int)
  ultimately show ?thesis by (simp only: fmt_f_def s)
qed

end
