(* ===== verification/Bb_Client.thy ===== *)
theory Bb_Client
  imports Bb_Json Policy_File Double
begin

text \<open>
  The backbone client of \<^verbatim>\<open>backbone.c\<close>: the handlers of the datagrams from the hub (WELCOME,
  RESET, FRAME, POLICY and the session dispatch), the hooks the mesh calls, and
  \<open>backbone_service\<close>, which runs the connection's timers. The configuration the hub's policy is
  merged into is the mesh's own (\<open>cfg m\<close>), as the two C structs share one.
\<close>

section \<open>Hooks of the mesh\<close>

definition bb_observe :: "mc_backbone \<Rightarrow> bytes \<Rightarrow> int \<Rightarrow> int \<Rightarrow> byte \<Rightarrow> int \<Rightarrow> mc_backbone" where
  \<comment> \<open>the function \<open>backbone_observe\<close>\<close>
  "bb_observe b frame rssi snr flags disp =
     (if bb_state b \<noteq> BB_UP \<or> bb_roles b AND BB_ROLE_OBSERVE = 0 then b
      else if disp < 0 \<or> 4 < disp \<or> frame = [] \<or> BB_MAX_FRAME < length frame then b
      else (case pkt_parse frame of
              Inl _ \<Rightarrow> b
            | Inr p \<Rightarrow>
                let body = [flags, word_of_int disp] @ wr_u16le (word_of_int rssi)
                             @ [word_of_int snr, of_nat (length frame)] @ pkt_calc_hash p @ frame;
                    b = send_session b BB_T_OBSERVE body
                in b\<lparr>observed := observed b + 1\<rparr>))"

definition bb_offer :: "mc_backbone \<Rightarrow> bytes \<Rightarrow> bool \<Rightarrow> mc_backbone" where
  \<comment> \<open>the function \<open>backbone_offer\<close>\<close>
  "bb_offer b frame own =
     (if bb_state b \<noteq> BB_UP \<or> bb_roles b AND BB_ROLE_BRIDGE = 0 then b
      else if frame = [] \<or> BB_MAX_FRAME < length frame then b
      else (case pkt_parse frame of
              Inl _ \<Rightarrow> b
            | Inr p \<Rightarrow>
                if pkt_is_route_direct p \<and> pkt_path_hash_count p = 0 then b
                else
                  let body = [if own then 1 else 0, of_nat (length frame)] @ pkt_calc_hash p @ frame;
                      b = send_session b BB_T_BRIDGE body
                  in b\<lparr>offered := offered b + 1\<rparr>))"

definition bb_status_soon :: "mc_backbone \<Rightarrow> mc_backbone" where
  \<comment> \<open>\<open>backbone_status_soon\<close>\<close>
  "bb_status_soon b = (if bb_state b = BB_UP then b\<lparr>next_status_ms := 0\<rparr> else b)"

section \<open>The handshake\<close>

definition clamp_iv :: "u16 \<Rightarrow> u16 \<Rightarrow> u16 \<Rightarrow> u16 \<Rightarrow> u16" where
  "clamp_iv v lo hi d = (if v = 0 then d else if v < lo then lo else if hi < v then hi else v)"

definition begin_session :: "bb_welcome \<Rightarrow> bytes \<Rightarrow> bytes \<Rightarrow> u64 \<Rightarrow> mc_backbone \<Rightarrow> mc_backbone" where
  \<comment> \<open>the assignments of an accepted WELCOME\<close>
  "begin_session w ku kd now b =
     b\<lparr>eph_sec := replicate 32 0, k_up := ku, k_down := kd, bb_sid := wl_sid w, bb_roles := wl_roles w,
       seq_out := 0, pol_pages := 0, pol_applied_seq := 0, rwin := zero_replay,
       keepalive_s := clamp_iv (wl_keepalive_s w) 10 120 25,
       status_s := clamp_iv (wl_status_s w) 30 3600 60,
       neighbours_s := clamp_iv (wl_neighbours_s w) 60 65535 300,
       bb_state := BB_UP, sessions := sessions b + 1, backoff_s := 5,
       up_since_ms := now, last_rx_ms := now, dgrams_in := dgrams_in b + 1\<rparr>"

definition on_welcome :: "bb_env \<Rightarrow> mc_backbone \<Rightarrow> mc_mesh \<Rightarrow> u64 \<Rightarrow> bytes \<Rightarrow> mc_backbone" where
  "on_welcome e b m now d =
     (if bb_state b \<noteq> BB_HELLO_SENT then bb_reject b
      else (case bb_check_welcome (e_open e) d (hub_pub b) (hello_hash b) (roles_asked b) of
              Inl _ \<Rightarrow> bb_reject b
            | Inr w \<Rightarrow>
                (case bb_derive_keys (e_mult e (eph_sec b) (wl_eph_pub w)) (hello b) d of
                   None \<Rightarrow> bb_reject (b\<lparr>eph_sec := replicate 32 0\<rparr>)
                 | Some (ku, kd) \<Rightarrow>
                     let b = send_session (begin_session w ku kd now b) BB_T_KEEPALIVE [];
                         b = b\<lparr>next_keepalive_ms := now + ucast (keepalive_s b) * 1000\<rparr> in
                     if bb_roles b AND BB_ROLE_OBSERVE \<noteq> 0 then
                       let b = send_status e b m now
                       in b\<lparr>next_status_ms := now + ucast (status_s b) * 1000, next_neighbours_ms := now + 5000\<rparr>
                     else b)))"

definition u32_dist :: "u32 \<Rightarrow> u32 \<Rightarrow> u32" where
  "u32_dist a b = (if b < a then a - b else b - a)"

definition on_reset :: "bb_env \<Rightarrow> mc_backbone \<Rightarrow> mc_mesh \<Rightarrow> u64 \<Rightarrow> bytes \<Rightarrow> mc_backbone \<times> mc_mesh" where
  "on_reset e b m now d =
     (if bb_state b \<noteq> BB_UP \<or> length d \<noteq> BB_RESET_LEN then (bb_reject b, m)
      else
        let s = rd_u32le (drop 4 d); q = rd_u32le (drop 8 d); ts = rd_u32le (drop 12 d);
            (t, m) = mesh_time m in
        if s \<noteq> bb_sid b \<or> q = 0 \<or> seq_out b < q \<or> 64 \<le> seq_out b - q
           \<or> BB_TS_WINDOW < u32_dist (of_nat t) ts \<or> isl (bb_check_reset (e_open e) d (hub_pub b))
        then (bb_reject b, m)
        else
          let b = forget_session b;
              earliest = (if last_reset_ms b \<noteq> 0 then last_reset_ms b + 5000 else now)
          in (b\<lparr>next_try_ms := (if now < earliest then earliest else now), last_reset_ms := now\<rparr>, m))"

section \<open>Frames from the hub\<close>

definition rx_code :: "mesh_rx \<Rightarrow> int" where
  \<comment> \<open>the values of the \<open>MESH_RX\<close> enumeration\<close>
  "rx_code r = (case r of MESH_RX_FORWARDED \<Rightarrow> 0 | MESH_RX_DUPLICATE \<Rightarrow> 1 | MESH_RX_POLICY \<Rightarrow> 2
     | MESH_RX_LOCAL \<Rightarrow> 3 | MESH_RX_MALFORMED \<Rightarrow> 5)"

definition bucket_cap :: "u32 \<Rightarrow> rat" where
  "bucket_cap rate = (if rate div 3 \<noteq> 0 then of_nat (unat (rate div 3)) else 1)"

definition refill :: "u32 \<Rightarrow> mc_backbone \<Rightarrow> u64 \<Rightarrow> mc_backbone" where
  \<comment> \<open>the token bucket brought up to \<open>now\<close>\<close>
  "refill rate b now =
     (let cap = bucket_cap rate;
          t = (if tokens_ms b = 0 then cap
               else min cap (dbl (tokens b + dbl (dbl (dbl (of_nat (unat (now - tokens_ms b))) * of_nat (unat rate)) / 60000))))
      in b\<lparr>tokens := t, tokens_ms := now\<rparr>)"

definition bridge_rate :: "mc_mesh \<Rightarrow> u32" where
  "bridge_rate m = (let r = backbone_rate (backbone (cfg m)) in if r \<noteq> 0 then r else 1)"

definition on_frame :: "bb_env \<Rightarrow> mc_backbone \<Rightarrow> mc_mesh \<Rightarrow> u64 \<Rightarrow> bytes \<Rightarrow> mc_backbone \<times> mc_mesh" where
  "on_frame e b m now body =
     (if bb_roles b AND BB_ROLE_BRIDGE = 0 \<or> length body < 10 \<or> body ! 1 = 0
         \<or> length body < 10 + unat (body ! 1) then (bb_reject b, m)
      else
        let frame = bslice 10 (unat (body ! 1)) body;
            b = refill (bridge_rate m) b now;
            room = (\<not> bb_mesh b \<or> BB_TXQ_HEADROOM \<le> mesh_txq_free m) in
        if tokens b < 1 \<or> \<not> room then
          (bb_observe (b\<lparr>limited := limited b + 1\<rparr>) frame 0 0 1 4, m)
        else
          let b = b\<lparr>tokens := dbl (tokens b - 1)\<rparr>;
              (disp, m) = (if bb_mesh b then mesh_on_backbone (e_sign e) (e_open e) m frame
                           else (MESH_RX_LOCAL, m)) in
          if disp = MESH_RX_MALFORMED then (bb_reject b, m)
          else (bb_observe (b\<lparr>injected := injected b + 1\<rparr>) frame 0 0 1 (rx_code disp), m))"

section \<open>The hub's policy\<close>

definition policy_add :: "mc_policy \<Rightarrow> byte \<Rightarrow> bytes \<Rightarrow> mc_policy" where
  "policy_add p kind v =
     (let l = length v in
      if kind = 1 then
        if l < 2 \<or> MC_ROOM_NAME_LEN \<le> l \<or> v ! 0 \<noteq> 35 \<or> v ! 1 = 35 then p
        else if list_ex (\<lambda>c. c \<le> 32 \<or> c = 0x7F) v then p
        else if MC_POLICY_MAX_ROOMS \<le> length (pol_rooms p) then p\<lparr>skipped := skipped p + 1\<rparr>
        else p\<lparr>pol_rooms := pol_rooms p @ [v]\<rparr>
      else if kind = 2 then
        if l < 1 \<or> MC_BLACKLIST_NAME_LEN \<le> l \<or> 0 \<in> set v then p
        else if MC_POLICY_MAX_BLOCKS \<le> length (pol_names p) then p\<lparr>skipped := skipped p + 1\<rparr>
        else p\<lparr>pol_names := pol_names p @ [v]\<rparr>
      else if kind = 3 then
        if l \<noteq> 32 then p
        else if MC_POLICY_MAX_BLOCKS \<le> length (pol_keys p) then p\<lparr>skipped := skipped p + 1\<rparr>
        else p\<lparr>pol_keys := pol_keys p @ [v]\<rparr>
      else p)"

function policy_walk :: "bytes \<Rightarrow> mc_policy option \<Rightarrow> int \<times> mc_policy option" where
  "policy_walk en p =
     (if en = [] then (0, p)
      else if length en < 2 \<or> length en - 2 < unat (en ! 1) then (-1, p)
      else policy_walk (drop (2 + unat (en ! 1)) en)
             (map_option (\<lambda>p. policy_add p (en ! 0) (bslice 2 (unat (en ! 1)) en)) p))"
  by auto
termination
  by (relation "measure (\<lambda>(en, p). length en)") auto

declare policy_walk.simps [simp del]

definition pages_all :: "byte \<Rightarrow> u16" where
  \<comment> \<open>a bit per page, all set\<close>
  "pages_all n = ucast (push_bit (unat n) 1 - 1 :: u32)"

definition page_bit :: "byte \<Rightarrow> u16" where
  "page_bit page = ucast (push_bit (unat page - 1) 1 :: u32)"

definition policy_done :: "mc_backbone \<Rightarrow> mc_mesh \<Rightarrow> mc_backbone \<times> mc_mesh" where
  \<comment> \<open>all pages are held: apply the set, unless it is the one in force\<close>
  "policy_done b m =
     (let b = b\<lparr>pol_applied_seq := pol_min_seq b, pol_pages := 0\<rparr>;
          (b, m) =
            (if version (pol b) \<noteq> version (policy (cfg m)) then
               let c = config_set_policy (cfg m) (pol b) (Some (pub (ident m)))
               in (bb_do (KeptFile (backbone_policy_file c) (config_policy_save c)) b, m\<lparr>cfg := c\<rparr>)
             else (b, m))
      in (bb_status_soon b, m))"

definition policy_begin :: "u32 \<Rightarrow> byte \<Rightarrow> u32 \<Rightarrow> mc_backbone \<Rightarrow> mc_backbone" where
  \<comment> \<open>a new set starts to be collected, unless one is\<close>
  "policy_begin ver pages q b =
     (if pol_pages b = 0 then
        b\<lparr>pol := empty_policy\<lparr>version := ver\<rparr>, pol_pages := pages, pol_have := 0,
          pol_min_seq := q, pol_max_seq := q\<rparr>
      else b)"

definition policy_page :: "u32 \<Rightarrow> byte \<Rightarrow> bytes \<Rightarrow> mc_backbone \<Rightarrow> mc_backbone" where
  \<comment> \<open>a new page is added to the set\<close>
  "policy_page q page en b =
     b\<lparr>pol := the (snd (policy_walk en (Some (pol b)))), pol_have := pol_have b OR page_bit page,
       pol_min_seq := min q (pol_min_seq b), pol_max_seq := max q (pol_max_seq b)\<rparr>"

definition on_policy :: "mc_backbone \<Rightarrow> mc_mesh \<Rightarrow> u32 \<Rightarrow> bytes \<Rightarrow> mc_backbone \<times> mc_mesh" where
  "on_policy b m q body =
     (if \<not> backbone_policy (cfg m) then (b, m)
      else if length body < 6 then (bb_reject b, m)
      else
        let ver = rd_u32le body; page = body ! 4; pages = body ! 5; en = drop 6 body in
        if ver = 0 \<or> pages = 0 \<or> 16 < pages \<or> page = 0 \<or> pages < page \<or> fst (policy_walk en None) \<noteq> 0
        then (bb_reject b, m)
        else if pol_applied_seq b \<noteq> 0 \<and> q < pol_applied_seq b then (b, m)
        else
          let other = (pol_pages b \<noteq> 0 \<and> (ver \<noteq> version (pol b) \<or> pages \<noteq> pol_pages b)) in
          if other \<and> q \<le> pol_max_seq b then (b, m)
          else
            let b = policy_begin ver pages q (if other then b\<lparr>pol_pages := 0\<rparr> else b) in
            if pol_have b AND page_bit page \<noteq> 0 then (b, m)
            else
              let b = policy_page q page en b in
              if pol_have b \<noteq> pages_all pages then (b, m) else policy_done b m)"

section \<open>Session datagrams\<close>

definition on_bye :: "mc_backbone \<Rightarrow> mc_mesh \<Rightarrow> u64 \<Rightarrow> bytes \<Rightarrow> mc_backbone \<times> mc_mesh" where
  "on_bye b m now body =
     (if (if body \<noteq> [] then body ! 0 else 0) = 3 then
        ((forget_session b)\<lparr>backoff_s := BB_BACKOFF_MAX,
            next_try_ms := now + word_of_int BB_BACKOFF_MAX * 1000\<rparr>, m)
      else retry_later b m now)"

definition on_session :: "bb_env \<Rightarrow> mc_backbone \<Rightarrow> mc_mesh \<Rightarrow> u64 \<Rightarrow> bytes \<Rightarrow> mc_backbone \<times> mc_mesh" where
  "on_session e b m now d =
     (if bb_state b \<noteq> BB_UP \<or> length d < BB_HDR + BB_MAC \<or> rd_u32le (drop 4 d) \<noteq> bb_sid b then (bb_reject b, m)
      else (case bb_open d (k_down b) of
              Inl _ \<Rightarrow> (bb_reject b, m)
            | Inr (t, s, q, body) \<Rightarrow>
                (case bb_replay_check (rwin b) q of
                   (False, _) \<Rightarrow> (bb_reject b, m)
                 | (True, w) \<Rightarrow>
                     let b = b\<lparr>rwin := w, dgrams_in := dgrams_in b + 1, last_rx_ms := now\<rparr> in
                     if t = BB_T_KEEPALIVE_ACK then (b, m)
                     else if t = BB_T_FRAME then on_frame e b m now body
                     else if t = BB_T_POLICY then on_policy b m q body
                     else if t = BB_T_BYE_DOWN then on_bye b m now body
                     else (bb_reject b, m))))"

definition on_datagram :: "bb_env \<Rightarrow> mc_backbone \<Rightarrow> mc_mesh \<Rightarrow> u64 \<Rightarrow> bytes \<Rightarrow> mc_backbone \<times> mc_mesh" where
  \<comment> \<open>the body of the loop of \<open>read_datagrams\<close>\<close>
  "on_datagram e b m now d =
     (if BB_MAX_DGRAM < length d \<or> length d < 4 \<or> d ! 0 \<noteq> 77 \<or> d ! 1 \<noteq> 66 \<or> d ! 2 \<noteq> BB_VERSION then (bb_reject b, m)
      else if d ! 3 = BB_T_WELCOME then (on_welcome e b m now d, m)
      else if d ! 3 = BB_T_RESET then on_reset e b m now d
      else if 0x20 \<le> d ! 3 \<and> d ! 3 \<le> 0x2F then on_session e b m now d
      else (bb_reject b, m))"

fun read_datagrams :: "nat \<Rightarrow> bb_env \<Rightarrow> mc_backbone \<Rightarrow> mc_mesh \<Rightarrow> u64 \<Rightarrow> mc_backbone \<times> mc_mesh" where
  \<comment> \<open>the first argument counts the iterations left\<close>
  "read_datagrams 0 e b m now = (b, m)"
| "read_datagrams (Suc i) e b m now =
     (if bb_fd b < 0 then (b, m)
      else (case net_recv (BB_MAX_DGRAM + 1) (bb_net b) of
              (Inl _, n) \<Rightarrow> (b\<lparr>bb_net := n\<rparr>, m)
            | (Inr d, n) \<Rightarrow>
                let (b, m) = on_datagram e (b\<lparr>bb_net := n\<rparr>) m now d
                in read_datagrams i e b m now))"

section \<open>The public functions\<close>

definition zero_backbone :: "bool \<Rightarrow> net \<Rightarrow> mc_backbone" where
  \<comment> \<open>after the \<open>memset\<close> and the assignments before the first test\<close>
  "zero_backbone has_mesh n = \<lparr>bb_mesh = has_mesh, hub_pub = replicate 32 0, roles_asked = 0, bb_state = BB_OFF,
     bb_fd = -1, bb_addr = replicate 16 0, have_addr = False, gai_host = [], gai_port = [], gai_busy = False,
     next_try_ms = 0, deadline_ms = 0, backoff_s = 5, hello_tries = 0, eph_sec = replicate 32 0, hello = [],
     hello_hash = replicate 32 0, last_hello_ts = 0, bb_sid = 0, bb_roles = 0, k_up = replicate 32 0,
     k_down = replicate 32 0, seq_out = 0, rwin = zero_replay, keepalive_s = 0, status_s = 0, neighbours_s = 0,
     up_since_ms = 0, last_rx_ms = 0, next_keepalive_ms = 0, next_status_ms = 0, next_neighbours_ms = 0,
     last_reset_ms = 0, tokens = 0, tokens_ms = 0, pol = empty_policy, pol_pages = 0, pol_have = 0,
     pol_min_seq = 0, pol_max_seq = 0, pol_applied_seq = 0, sessions = 0, dgrams_out = 0, dgrams_in = 0,
     observed = 0, offered = 0, injected = 0, limited = 0, rejected = 0, bb_net = n\<rparr>"

definition backbone_init :: "bool \<Rightarrow> mc_mesh \<Rightarrow> net \<Rightarrow> int \<times> mc_backbone \<times> mc_mesh" where
  "backbone_init has_mesh m n =
     (let b = zero_backbone has_mesh n; c = backbone (cfg m) in
      if \<not> backbone_enable c then (0, b, m)
      else if \<not> backbone_have_hub_key c then (-1, b, m)
      else if backbone_host c = [] \<or> backbone_port c = 0 then (-1, b, m)
      else
        let b = b\<lparr>hub_pub := take 32 (backbone_hub_key c),
                  roles_asked := (if backbone_observe c then BB_ROLE_OBSERVE else 0)
                                   OR (if backbone_bridge c then BB_ROLE_BRIDGE else 0)\<rparr>;
            (now, m) = mesh_millis m
        in (0, b\<lparr>bb_state := BB_IDLE, next_try_ms := now\<rparr>, m))"

definition backbone_close :: "mc_backbone \<Rightarrow> mc_backbone" where
  "backbone_close b =
     (let b = (if bb_state b = BB_UP then send_session b BB_T_BYE [0] else b);
          b = (if gai_busy b then
                 (let (rc, b) = bb_ret b in if rc = EAI_CANCELED then b\<lparr>gai_busy := False\<rparr> else b)
               else b)
      in (forget_session b)\<lparr>bb_state := BB_OFF\<rparr>)"

definition backbone_pollfd :: "mc_backbone \<Rightarrow> int" where
  "backbone_pollfd b = (if bb_state b = BB_HELLO_SENT \<or> bb_state b = BB_UP then bb_fd b else -1)"

definition service_connect :: "bb_env \<Rightarrow> mc_backbone \<Rightarrow> mc_mesh \<Rightarrow> u64 \<Rightarrow> mc_backbone \<times> mc_mesh" where
  "service_connect e b m now =
     (case bb_state b of
        BB_IDLE \<Rightarrow> if next_try_ms b \<le> now then start_attempt b m now else (b, m)
      | BB_RESOLVING \<Rightarrow> check_resolved e b m now
      | _ \<Rightarrow> (b, m))"

definition service_hello :: "bb_env \<Rightarrow> mc_backbone \<Rightarrow> mc_mesh \<Rightarrow> u64 \<Rightarrow> mc_backbone \<times> mc_mesh" where
  "service_hello e b m now =
     (if bb_state b = BB_HELLO_SENT \<and> deadline_ms b \<le> now then
        if hello_tries b < BB_HELLO_TRIES then send_hello e b m now else retry_later b m now
      else (b, m))"

definition service_up :: "bb_env \<Rightarrow> mc_backbone \<Rightarrow> mc_mesh \<Rightarrow> u64 \<Rightarrow> mc_backbone \<times> mc_mesh" where
  \<comment> \<open>the timers of an established session\<close>
  "service_up e b m now =
     (if bb_state b \<noteq> BB_UP then (b, m)
      else if word_of_int (3 * uint (keepalive_s b) + 5) * 1000 < now - last_rx_ms b then
        ((forget_session b)\<lparr>next_try_ms := now\<rparr>, m)
      else if 0x80000000 \<le> seq_out b then
        ((forget_session (send_session b BB_T_BYE [1]))\<lparr>next_try_ms := now\<rparr>, m)
      else
        let b = (if next_keepalive_ms b \<le> now then
                   (send_session b BB_T_KEEPALIVE [])\<lparr>next_keepalive_ms := now + ucast (keepalive_s b) * 1000\<rparr>
                 else b) in
        if bb_roles b AND BB_ROLE_OBSERVE = 0 then (b, m)
        else
          let b = (if next_status_ms b \<le> now then
                     (send_status e b m now)\<lparr>next_status_ms := now + ucast (status_s b) * 1000\<rparr>
                   else b) in
          if next_neighbours_ms b \<le> now then
            (let (b, m) = send_neighbours b m
             in (b\<lparr>next_neighbours_ms := now + ucast (neighbours_s b) * 1000\<rparr>, m))
          else (b, m))"

definition backbone_service :: "bb_env \<Rightarrow> mc_backbone \<Rightarrow> mc_mesh \<Rightarrow> u64 \<Rightarrow> mc_backbone \<times> mc_mesh" where
  "backbone_service e b m now =
     (if bb_state b = BB_OFF then (b, m)
      else
        let (b, m) = service_connect e b m now;
            (b, m) = (if 0 \<le> bb_fd b then read_datagrams BB_RX_BURST e b m now else (b, m));
            (b, m) = service_hello e b m now
        in service_up e b m now)"

end
