(* ===== verification/Bb_Inv.thy ===== *)
theory Bb_Inv
  imports Bb_Client Mesh_Run
begin

text \<open>
  The invariant of the backbone client and its preservation by every operation. \<open>phase_ok\<close> says,
  for each state of the connection, which secrets and which socket exist in it; \<open>bb_inv\<close> adds the
  bounds of the backoff, the token bucket and the policy being collected. \<open>sends\<close> relates two
  client states that differ only by datagrams sent.
\<close>

section \<open>Sending changes the counters only\<close>

definition sends :: "mc_backbone \<Rightarrow> mc_backbone \<Rightarrow> bool" where
  "sends b b' \<longleftrightarrow> (\<exists>s k n. b' = b\<lparr>seq_out := s, dgrams_out := k, bb_net := n\<rparr>)"

lemma sends_refl [simp, intro]: "sends b b"
proof -
  have "b = b\<lparr>seq_out := seq_out b, dgrams_out := dgrams_out b, bb_net := bb_net b\<rparr>" by simp
  then show ?thesis unfolding sends_def by blast
qed

lemma sends_trans: "sends b b' \<Longrightarrow> sends b' b'' \<Longrightarrow> sends b b''"
  unfolding sends_def by (elim exE, simp, intro exI, rule refl)

lemma sends_raw: "sends b (send_raw b d)"
proof -
  have "\<exists>k n. send_raw b d = b\<lparr>dgrams_out := k, bb_net := n\<rparr>"
    by (cases b) (simp add: send_raw_def split_beta Let_def)
  then obtain k n where "send_raw b d = b\<lparr>dgrams_out := k, bb_net := n\<rparr>" by blast
  then have "send_raw b d = b\<lparr>seq_out := seq_out b, dgrams_out := k, bb_net := n\<rparr>" by simp
  then show ?thesis unfolding sends_def by blast
qed

lemma sends_session: "sends b (send_session b t body)"
proof -
  have "sends b (b\<lparr>seq_out := seq_out b + 1\<rparr>)"
    unfolding sends_def by (rule exI [of _ "seq_out b + 1"], rule exI [of _ "dgrams_out b"], rule exI [of _ "bb_net b"]) simp
  then show ?thesis
    using sends_trans [OF _ sends_raw] by (auto simp: send_session_def Let_def split: option.split)
qed

lemma sends_status: "sends b (send_status e b m now)"
  by (simp add: send_status_def Let_def sends_session)

lemma sends_pages: "sends b (send_pages P k gs b)"
proof (induction P k gs b rule: send_pages.induct)
  case (2 P k g gs b)
  show ?case using sends_trans [OF sends_session 2] by simp
qed simp

lemma sends_neighbours:
  assumes "length (neighbors m) \<le> MESH_MAX_NEIGHBORS"
  shows "sends b (fst (send_neighbours b m))"
proof (cases "bb_mesh b")
  case True
  obtain t m' where t: "mesh_time m = (t, m')" by fastforce
  then have "neighbors m' = neighbors m" by (auto simp: mesh_time_def time_now_def)
  with send_neighbours_pages(1) [OF True t _ refl] assms show ?thesis by (simp add: sends_pages)
qed (simp add: send_neighbours_def)

section \<open>The invariant\<close>

definition quiet :: "mc_backbone \<Rightarrow> bool" where
  \<comment> \<open>no socket, no session and no secret\<close>
  "quiet b \<longleftrightarrow> bb_fd b = -1 \<and> bb_sid b = 0 \<and> bb_roles b = 0 \<and> seq_out b = 0
     \<and> k_up b = replicate 32 0 \<and> k_down b = replicate 32 0 \<and> eph_sec b = replicate 32 0"

definition session_ok :: "mc_backbone \<Rightarrow> bool" where
  \<comment> \<open>an established session: authenticated keys, roles within those asked for, clamped timers\<close>
  "session_ok b \<longleftrightarrow> 0 \<le> bb_fd b \<and> bb_sid b \<noteq> 0 \<and> bb_roles b AND NOT (roles_asked b) = 0
     \<and> length (k_up b) = 32 \<and> length (k_down b) = 32 \<and> eph_sec b = replicate 32 0
     \<and> 10 \<le> keepalive_s b \<and> keepalive_s b \<le> 120 \<and> 30 \<le> status_s b \<and> status_s b \<le> 3600 \<and> 60 \<le> neighbours_s b"

definition phase_ok :: "mc_backbone \<Rightarrow> bool" where
  "phase_ok b \<longleftrightarrow> (case bb_state b of
     BB_HELLO_SENT \<Rightarrow> 0 \<le> bb_fd b \<and> bb_sid b = 0 \<and> bb_roles b = 0 \<and> length (hello_hash b) = 32
       \<and> length (eph_sec b) = 32 \<and> hello_tries b \<le> BB_HELLO_TRIES
   | BB_UP \<Rightarrow> session_ok b
   | BB_OFF \<Rightarrow> quiet b
   | BB_IDLE \<Rightarrow> quiet b
   | BB_RESOLVING \<Rightarrow> quiet b \<and> hello_tries b = 0)"

definition pol_bounded :: "mc_policy \<Rightarrow> bool" where
  \<comment> \<open>a set that could be kept; only the count of skipped entries has no bound\<close>
  "pol_bounded p \<longleftrightarrow> wf_policy (p\<lparr>skipped := 0\<rparr>) \<and> 0 \<le> skipped p"

definition bb_inv :: "mc_backbone \<Rightarrow> bool" where
  "bb_inv b \<longleftrightarrow> phase_ok b \<and> 5 \<le> backoff_s b \<and> backoff_s b \<le> BB_BACKOFF_MAX \<and> 0 \<le> tokens b
     \<and> pol_bounded (pol b) \<and> (\<exists>A. window_rel (rwin b) A)"

lemma sends_inv:
  assumes "sends b b'" "bb_state b \<noteq> BB_OFF" "bb_state b \<noteq> BB_IDLE" "bb_state b \<noteq> BB_RESOLVING" "bb_inv b"
  shows "bb_inv b'"
  using assms by (auto simp: sends_def bb_inv_def phase_ok_def session_ok_def split: bb_phase.splits)

lemma forget_simps [simp]:
  "bb_state (forget_session b) = BB_IDLE" "bb_fd (forget_session b) = -1" "bb_sid (forget_session b) = 0"
  "bb_roles (forget_session b) = 0" "seq_out (forget_session b) = 0" "k_up (forget_session b) = replicate 32 0"
  "k_down (forget_session b) = replicate 32 0" "eph_sec (forget_session b) = replicate 32 0"
  "rwin (forget_session b) = zero_replay" "backoff_s (forget_session b) = backoff_s b"
  "tokens (forget_session b) = tokens b" "pol (forget_session b) = pol b" "hello_tries (forget_session b) = hello_tries b"
  "roles_asked (forget_session b) = roles_asked b"
  by (simp_all add: forget_session_def sock_close_def bb_do_def Let_def)

lemma quiet_forget [simp]: "quiet (forget_session b)"
  by (simp add: quiet_def)

definition base_ok :: "mc_backbone \<Rightarrow> bool" where
  "base_ok b \<longleftrightarrow> 5 \<le> backoff_s b \<and> backoff_s b \<le> BB_BACKOFF_MAX \<and> 0 \<le> tokens b \<and> pol_bounded (pol b)"

lemma inv_base: "bb_inv b \<longleftrightarrow> phase_ok b \<and> base_ok b \<and> (\<exists>A. window_rel (rwin b) A)"
  by (auto simp: bb_inv_def base_ok_def)

lemma forget_inv: "base_ok b \<Longrightarrow> bb_inv (forget_session b)"
  using window_rel_init by (auto simp: inv_base phase_ok_def base_ok_def)

lemma retry_inv: "base_ok b \<Longrightarrow> bb_inv (fst (retry_later b m now))"
  using window_rel_init
  by (auto simp: retry_later_def split_beta Let_def inv_base phase_ok_def base_ok_def quiet_def)

lemma retry_mesh: "snd (retry_later b m now) = snd (mesh_rng 0 (word_of_int (backoff_s b) * 250) m)"
  by (simp add: retry_later_def split_beta Let_def)

section \<open>Connecting\<close>

definition connecting :: "mc_backbone \<Rightarrow> bool" where
  \<comment> \<open>a socket, but no session: what \<open>send_hello\<close> needs\<close>
  "connecting b \<longleftrightarrow> 0 \<le> bb_fd b \<and> bb_sid b = 0 \<and> bb_roles b = 0 \<and> hello_tries b < BB_HELLO_TRIES \<and> base_ok b
     \<and> (\<exists>A. window_rel (rwin b) A)"

lemma send_hello_inv:
  assumes "connecting b"
  shows "bb_inv (fst (send_hello e b m now))"
proof -
  obtain k n where r: "net_random 32 (bb_net b) = (k, n)" by fastforce
  then have k: "length k = 32" using length_net_random [of 32 "bb_net b"] by simp
  obtain t m' where t: "mesh_time m = (t, m')" by fastforce
  let ?ts = "hello_ts (last_hello_ts b) t"
  let ?b = "b\<lparr>bb_net := n, eph_sec := k, last_hello_ts := ?ts\<rparr>"
  have base: "base_ok ?b" using assms by (simp add: connecting_def base_ok_def)
  show ?thesis
  proof (cases "bb_build_hello (e_sign e) (BB_HELLO_FIXED + BB_NAME_MAX + 64) (ident m') (roles_asked b) ?ts (e_base e k) (cfg_name (cfg m'))")
    case None
    have "fst (send_hello e b m now) = fst (retry_later (?b\<lparr>hello := []\<rparr>) m' now)"
      using None by (simp add: send_hello_def r t Let_def)
    then show ?thesis using base by (auto simp: base_ok_def intro!: retry_inv)
  next
    case (Some h)
    let ?c = "?b\<lparr>hello := h, hello_hash := sha256_buf h []\<rparr>"
    have eq: "fst (send_hello e b m now) = (send_raw ?c h)\<lparr>hello_tries := hello_tries (send_raw ?c h) + 1,
        bb_state := BB_HELLO_SENT, deadline_ms := now + BB_WELCOME_WAIT_MS\<rparr>"
      using Some by (simp add: send_hello_def r t Let_def)
    obtain s d n' where "send_raw ?c h = ?c\<lparr>seq_out := s, dgrams_out := d, bb_net := n'\<rparr>"
      using sends_raw [of ?c h] by (auto simp: sends_def)
    with assms k show ?thesis unfolding eq by (simp add: inv_base phase_ok_def connecting_def base_ok_def)
  qed
qed

lemma bb_ret_frame:
  assumes "bb_ret b = (r, b')"
  shows "\<exists>n. b' = b\<lparr>bb_net := n\<rparr>"
  using assms by (auto simp: bb_ret_def split_beta Let_def)

lemma start_attempt_inv:
  assumes "base_ok b"
  shows "bb_inv (fst (start_attempt b m now))"
proof -
  let ?b = "(forget_session b)\<lparr>hello_tries := 0, have_addr := False,
     gai_host := snprintf_s 96 (backbone_host (backbone (cfg m))),
     gai_port := snprintf_s 8 (dec_nat (unat (backbone_port (backbone (cfg m)))))\<rparr>"
  obtain r b' where r: "bb_ret ?b = (r, b')" by fastforce
  obtain n where b': "b' = ?b\<lparr>bb_net := n\<rparr>" using bb_ret_frame [OF r] by blast
  have base: "base_ok b'" using assms by (simp add: b' base_ok_def)
  show ?thesis
  proof (cases "r = 0")
    case True
    then have "fst (start_attempt b m now) = b'\<lparr>gai_busy := True, bb_state := BB_RESOLVING\<rparr>"
      using r by (simp add: start_attempt_def)
    with base show ?thesis using window_rel_init
      by (auto simp: b' inv_base phase_ok_def quiet_def base_ok_def)
  next
    case False
    then have "fst (start_attempt b m now) = fst (retry_later b' m now)"
      using r by (simp add: start_attempt_def)
    with base show ?thesis by (simp add: retry_inv)
  qed
qed

lemma check_resolved_inv:
  assumes "bb_inv b" "bb_state b = BB_RESOLVING"
  shows "bb_inv (fst (check_resolved e b m now))"
proof -
  obtain err b1 where r1: "bb_ret b = (err, b1)" by fastforce
  obtain n1 where b1: "b1 = b\<lparr>bb_net := n1\<rparr>" using bb_ret_frame [OF r1] by blast
  obtain a n2 where a: "net_addr n1 = (a, n2)" by fastforce
  have base: "base_ok b" and q: "quiet b" "hello_tries b = 0" and w: "\<exists>A. window_rel (rwin b) A"
    using assms by (simp_all add: inv_base phase_ok_def)
  show ?thesis
  proof (cases "err = EAI_INPROGRESS")
    case True
    then have "fst (check_resolved e b m now) = b1" using r1 by (simp add: check_resolved_def)
    with assms show ?thesis by (simp add: b1 inv_base phase_ok_def quiet_def base_ok_def)
  next
    case False
    show ?thesis
    proof (cases "if err \<noteq> 0 then None else a")
      case None
      then have "fst (check_resolved e b m now) = fst (retry_later (b\<lparr>gai_busy := False, bb_net := n2\<rparr>) m now)"
        using r1 a False by (simp add: check_resolved_def b1 Let_def)
      moreover have "base_ok (b\<lparr>gai_busy := False, bb_net := n2\<rparr>)" using base by (simp add: base_ok_def)
      ultimately show ?thesis by (simp add: retry_inv)
    next
      case (Some sa)
      let ?b = "b\<lparr>gai_busy := False, bb_net := n2, bb_addr := sa, have_addr := True\<rparr>"
      obtain fd b2 where r2: "bb_ret ?b = (fd, b2)" by fastforce
      obtain n3 where b2: "b2 = ?b\<lparr>bb_net := n3\<rparr>" using bb_ret_frame [OF r2] by blast
      obtain rc b3 where r3: "bb_ret (bb_do (Connected fd sa) (b2\<lparr>bb_fd := fd\<rparr>)) = (rc, b3)" by fastforce
      obtain n4 where b3: "b3 = (b2\<lparr>bb_fd := fd\<rparr>)\<lparr>bb_net := n4\<rparr>"
        using bb_ret_frame [OF r3] by (auto simp: bb_do_def)
      have ok: "base_ok (b2\<lparr>bb_fd := fd\<rparr>)" "base_ok b3" using base by (simp_all add: b2 b3 base_ok_def)
      have c: "connecting b3" if "0 \<le> fd"
        using that base q w by (simp add: b2 b3 connecting_def quiet_def base_ok_def)
      have "fst (check_resolved e b m now) =
          (if fd < 0 then fst (retry_later (b2\<lparr>bb_fd := fd\<rparr>) m now)
           else if rc \<noteq> 0 then fst (retry_later b3 m now) else fst (send_hello e b3 m now))"
        using r1 a False Some r2 r3 by (simp add: check_resolved_def b1 Let_def)
      then show ?thesis
        using ok send_hello_inv [OF c] by (simp add: retry_inv not_less)
    qed
  qed
qed

section \<open>Handlers\<close>

lemmas inv_defs = inv_base phase_ok_def session_ok_def quiet_def base_ok_def connecting_def

lemma inv_timers [simp]:
  "bb_inv (b\<lparr>next_try_ms := t\<rparr>) = bb_inv b" "bb_inv (b\<lparr>next_keepalive_ms := t\<rparr>) = bb_inv b"
  "bb_inv (b\<lparr>next_status_ms := t\<rparr>) = bb_inv b" "bb_inv (b\<lparr>next_neighbours_ms := t\<rparr>) = bb_inv b"
  "bb_inv (b\<lparr>last_reset_ms := t\<rparr>) = bb_inv b" "bb_inv (b\<lparr>last_rx_ms := t\<rparr>) = bb_inv b"
  "bb_inv (b\<lparr>observed := c\<rparr>) = bb_inv b" "bb_inv (b\<lparr>offered := c\<rparr>) = bb_inv b" "bb_inv (b\<lparr>injected := c\<rparr>) = bb_inv b"
  "bb_inv (b\<lparr>limited := c\<rparr>) = bb_inv b" "bb_inv (b\<lparr>rejected := c\<rparr>) = bb_inv b" "bb_inv (b\<lparr>dgrams_in := c\<rparr>) = bb_inv b"
  "bb_inv (b\<lparr>bb_net := n\<rparr>) = bb_inv b" "bb_inv (b\<lparr>gai_busy := g\<rparr>) = bb_inv b"
  "bb_inv (b\<lparr>pol_pages := x\<rparr>) = bb_inv b" "bb_inv (b\<lparr>pol_have := y\<rparr>) = bb_inv b" "bb_inv (b\<lparr>pol_applied_seq := z\<rparr>) = bb_inv b"
  "bb_inv (b\<lparr>pol_min_seq := z\<rparr>) = bb_inv b" "bb_inv (b\<lparr>pol_max_seq := z\<rparr>) = bb_inv b" "bb_inv (b\<lparr>tokens_ms := t\<rparr>) = bb_inv b"
  by (simp_all add: inv_defs cong: bb_phase.case_cong)

lemma reject_inv [simp]: "bb_inv (bb_reject b) = bb_inv b"
  by (simp add: bb_reject_def)

lemma do_inv [simp]: "bb_inv (bb_do x b) = bb_inv b"
  by (simp add: bb_do_def)

lemma session_frame:
  assumes "sends b b'"
  shows "bb_state b' = bb_state b" "bb_roles b' = bb_roles b" "keepalive_s b' = keepalive_s b"
    "status_s b' = status_s b" "neighbours_s b' = neighbours_s b" "bb_fd b' = bb_fd b" "bb_sid b' = bb_sid b"
    "tokens b' = tokens b" "tokens_ms b' = tokens_ms b" "injected b' = injected b" "limited b' = limited b"
    "rejected b' = rejected b" "bb_mesh b' = bb_mesh b" "rwin b' = rwin b" "k_down b' = k_down b" "k_up b' = k_up b"
    "pol b' = pol b" "pol_pages b' = pol_pages b" "pol_have b' = pol_have b" "roles_asked b' = roles_asked b"
  using assms by (auto simp: sends_def)

lemma up_inv: "sends b b' \<Longrightarrow> bb_state b = BB_UP \<Longrightarrow> bb_inv b \<Longrightarrow> bb_inv b'"
  by (rule sends_inv) auto

lemma up_session [simp]: "bb_state b = BB_UP \<Longrightarrow> bb_inv b \<Longrightarrow> bb_inv (send_session b t body)"
  by (rule up_inv [OF sends_session])

lemma observe_inv: "bb_inv b \<Longrightarrow> bb_inv (bb_observe b frame rssi snr flags disp)"
  by (auto simp: bb_observe_def Let_def split: sum.split)

lemma offer_inv: "bb_inv b \<Longrightarrow> bb_inv (bb_offer b frame own)"
  by (auto simp: bb_offer_def Let_def split: sum.split)

lemma status_soon_inv [simp]: "bb_inv (bb_status_soon b) = bb_inv b"
  by (simp add: bb_status_soon_def)

lemma clamp_bounds: "lo \<le> d \<Longrightarrow> d \<le> hi \<Longrightarrow> lo \<le> hi \<Longrightarrow> lo \<le> clamp_iv v lo hi d \<and> clamp_iv v lo hi d \<le> hi"
  by (auto simp: clamp_iv_def)

lemma begin_fields:
  "bb_state (begin_session w ku kd now b) = BB_UP" "bb_sid (begin_session w ku kd now b) = wl_sid w"
  "bb_roles (begin_session w ku kd now b) = wl_roles w" "k_up (begin_session w ku kd now b) = ku"
  "k_down (begin_session w ku kd now b) = kd" "rwin (begin_session w ku kd now b) = zero_replay"
  "seq_out (begin_session w ku kd now b) = 0" "bb_fd (begin_session w ku kd now b) = bb_fd b"
  "bb_net (begin_session w ku kd now b) = bb_net b"
  by (simp_all add: begin_session_def)

text \<open>After an accepted WELCOME the client has sent a KEEPALIVE in the new session, and perhaps a report.\<close>

lemma welcome_session:
  assumes w: "bb_check_welcome (e_open e) d (hub_pub b) (hello_hash b) (roles_asked b) = Inr w"
    and k: "bb_derive_keys (e_mult e (eph_sec b) (wl_eph_pub w)) (hello b) d = Some (ku, kd)"
    and b: "bb_inv b" "bb_state b = BB_HELLO_SENT"
  obtains c x y z where "c = (send_session (begin_session w ku kd now b) BB_T_KEEPALIVE [])\<lparr>next_keepalive_ms := x\<rparr>"
    "on_welcome e b m now d = c \<or> on_welcome e b m now d = (send_status e c m now)\<lparr>next_status_ms := y, next_neighbours_ms := z\<rparr>"
    "bb_inv (on_welcome e b m now d)" "bb_state (on_welcome e b m now d) = BB_UP"
    "bb_sid (on_welcome e b m now d) = wl_sid w" "bb_roles (on_welcome e b m now d) = wl_roles w"
    "k_up (on_welcome e b m now d) = ku" "k_down (on_welcome e b m now d) = kd" "rwin (on_welcome e b m now d) = zero_replay"
proof -
  let ?b1 = "begin_session w ku kd now b"
  have i1: "bb_inv ?b1"
    using b check_welcome_only [OF w] length_derived [OF k] window_rel_init
      clamp_bounds [of 10 25 120 "wl_keepalive_s w"] clamp_bounds [of 30 60 3600 "wl_status_s w"]
      clamp_bounds [of 60 300 65535 "wl_neighbours_s w"]
    by (auto simp: begin_session_def inv_defs)
  define c where "c = (send_session ?b1 BB_T_KEEPALIVE [])\<lparr>next_keepalive_ms := now + ucast (keepalive_s (send_session ?b1 BB_T_KEEPALIVE [])) * 1000\<rparr>"
  note f = session_frame [OF sends_session [of ?b1 BB_T_KEEPALIVE "[]"]]
  have i2: "bb_inv c" and s2: "bb_state c = BB_UP" "bb_sid c = wl_sid w" "bb_roles c = wl_roles w" "k_up c = ku"
    "k_down c = kd" "rwin c = zero_replay" using i1 f begin_fields [of w ku kd now b] by (simp_all add: c_def)
  have eq: "on_welcome e b m now d = (if bb_roles c AND BB_ROLE_OBSERVE \<noteq> 0 then
      (send_status e c m now)\<lparr>next_status_ms := now + ucast (status_s (send_status e c m now)) * 1000,
        next_neighbours_ms := now + 5000\<rparr> else c)"
    unfolding c_def using w k b(2) by (simp add: on_welcome_def Let_def)
  have "bb_inv (send_status e c m now)" by (rule up_inv [OF sends_status s2(1) i2])
  then have r: "bb_inv (on_welcome e b m now d)" "bb_state (on_welcome e b m now d) = BB_UP"
    "bb_sid (on_welcome e b m now d) = wl_sid w" "bb_roles (on_welcome e b m now d) = wl_roles w"
    "k_up (on_welcome e b m now d) = ku" "k_down (on_welcome e b m now d) = kd" "rwin (on_welcome e b m now d) = zero_replay"
    unfolding eq using i2 s2 session_frame [OF sends_status [of c e m now]] by simp_all
  have "on_welcome e b m now d = c \<or> on_welcome e b m now d = (send_status e c m now)\<lparr>next_status_ms := now +
      ucast (status_s (send_status e c m now)) * 1000, next_neighbours_ms := now + 5000\<rparr>"
    unfolding eq by simp
  then show thesis by (rule that [OF c_def _ r])
qed

lemma welcome_inv:
  assumes "bb_inv b"
  shows "bb_inv (on_welcome e b m now d)"
proof (cases "bb_state b = BB_HELLO_SENT")
  case True
  show ?thesis
  proof (cases "bb_check_welcome (e_open e) d (hub_pub b) (hello_hash b) (roles_asked b)")
    case (Inl x)
    then show ?thesis using assms by (simp add: on_welcome_def)
  next
    case (Inr w)
    show ?thesis
    proof (cases "bb_derive_keys (e_mult e (eph_sec b) (wl_eph_pub w)) (hello b) d")
      case None
      with Inr True assms show ?thesis by (simp add: on_welcome_def inv_defs bb_reject_def)
    next
      case (Some k)
      obtain ku kd where "k = (ku, kd)" by fastforce
      with Some have "bb_derive_keys (e_mult e (eph_sec b) (wl_eph_pub w)) (hello b) d = Some (ku, kd)" by simp
      from welcome_session [OF Inr this assms True, of now m] show ?thesis by blast
    qed
  qed
qed (use assms in \<open>simp add: on_welcome_def\<close>)

lemma mesh_time_frame: "mesh_time m = (t, m') \<Longrightarrow> wf_mesh m' = wf_mesh m \<and> cfg m' = cfg m \<and> ident m' = ident m"
  by (auto simp: mesh_time_def split_beta Let_def wf_mesh_world)

text \<open>A RESET has an effect only when the hub signed it for this session and a recent number.\<close>

definition reset_genuine :: "bb_env \<Rightarrow> mc_backbone \<Rightarrow> nat \<Rightarrow> bytes \<Rightarrow> bool" where
  "reset_genuine e b t d \<longleftrightarrow> bb_state b = BB_UP \<and>
     (\<exists>q ts. bb_check_reset (e_open e) d (hub_pub b) = Inr (bb_sid b, q, ts) \<and> q \<noteq> 0 \<and> q \<le> seq_out b \<and>
        seq_out b - q < 64 \<and> u32_dist (of_nat t) ts \<le> BB_TS_WINDOW)"

lemma check_reset_fields:
  "bb_check_reset co d hk = Inr r \<Longrightarrow> r = (rd_u32le (drop 4 d), rd_u32le (drop 8 d), rd_u32le (drop 12 d)) \<and> length d = BB_RESET_LEN"
  by (auto simp: bb_check_reset_def split: if_splits)

lemma reset_cases:
  assumes "on_reset e b m now d = (b', m')"
  obtains "b' = bb_reject b" "m' = m \<or> m' = snd (mesh_time m)"
  | x where "reset_genuine e b (fst (mesh_time m)) d" "m' = snd (mesh_time m)"
      "b' = (forget_session b)\<lparr>next_try_ms := x, last_reset_ms := now\<rparr>"
proof -
  obtain t m1 where t: "mesh_time m = (t, m1)" by fastforce
  let ?bad = "rd_u32le (drop 4 d) \<noteq> bb_sid b \<or> rd_u32le (drop 8 d) = 0 \<or> seq_out b < rd_u32le (drop 8 d) \<or>
     64 \<le> seq_out b - rd_u32le (drop 8 d) \<or> BB_TS_WINDOW < u32_dist (of_nat t) (rd_u32le (drop 12 d)) \<or>
     isl (bb_check_reset (e_open e) d (hub_pub b))"
  consider "bb_state b \<noteq> BB_UP \<or> length d \<noteq> BB_RESET_LEN"
    | "bb_state b = BB_UP" "length d = BB_RESET_LEN" ?bad | "bb_state b = BB_UP" "length d = BB_RESET_LEN" "\<not> ?bad"
    by blast
  then show thesis
  proof cases
    case 1
    then have "(b', m') = (bb_reject b, m)" using assms unfolding on_reset_def by (simp split: if_splits)
    then show thesis by (intro that(1)) auto
  next
    case 2
    then have "(b', m') = (bb_reject b, m1)"
      using assms t unfolding on_reset_def Let_def t prod.case by (simp only: if_True if_False not_True_eq_False simp_thms)
    then show thesis using t by (intro that(1)) auto
  next
    case 3
    then have eq: "b' = (forget_session b)\<lparr>next_try_ms := (let earliest = if last_reset_ms (forget_session b) \<noteq> 0
        then last_reset_ms (forget_session b) + 5000 else now in if now < earliest then earliest else now), last_reset_ms := now\<rparr>"
      "m' = m1"
      using assms unfolding on_reset_def Let_def t prod.case by (simp_all only: if_False simp_thms prod.inject)
    obtain r where r: "bb_check_reset (e_open e) d (hub_pub b) = Inr r"
      using 3(3) by (cases "bb_check_reset (e_open e) d (hub_pub b)") auto
    have "reset_genuine e b t d"
      using 3 r check_reset_fields [OF r] by (auto simp: reset_genuine_def not_less not_le)
    with eq t show thesis by (intro that(2)) auto
  qed
qed

lemma reset_inv:
  assumes "bb_inv b" "on_reset e b m now d = (b', m')"
  shows "bb_inv b'"
proof -
  have f: "bb_inv (forget_session b)" using assms(1) by (intro forget_inv) (simp add: inv_base)
  from assms(2) show ?thesis by (rule reset_cases) (use assms(1) f in simp_all)
qed

section \<open>Frames and policies\<close>

lemma bucket_cap_pos: "1 \<le> bucket_cap rate"
proof (cases "rate div 3 = 0")
  case False
  then have "1 \<le> unat (rate div 3)" by (simp add: Suc_le_eq unat_gt_0)
  then have "(of_nat 1 :: rat) \<le> of_nat (unat (rate div 3))" by (simp only: of_nat_le_iff)
  with False show ?thesis by (simp add: bucket_cap_def)
qed (simp add: bucket_cap_def)

lemma refill_fields:
  "tokens_ms (refill rate b now) = now" "bb_state (refill rate b now) = bb_state b" "injected (refill rate b now) = injected b"
  "bb_mesh (refill rate b now) = bb_mesh b" "bb_roles (refill rate b now) = bb_roles b" "limited (refill rate b now) = limited b"
  by (simp_all add: refill_def Let_def)

lemma refill_bounds: "0 \<le> tokens b \<Longrightarrow> 0 \<le> tokens (refill rate b now) \<and> tokens (refill rate b now) \<le> bucket_cap rate"
  using bucket_cap_pos [of rate]
  by (auto simp: refill_def Let_def simp del: of_nat_unat
      intro!: dbl_nonneg add_nonneg_nonneg divide_nonneg_nonneg mult_nonneg_nonneg)

lemma tokens_inv: "bb_inv b \<Longrightarrow> 0 \<le> t \<Longrightarrow> bb_inv (b\<lparr>tokens := t\<rparr>)"
  by (simp add: inv_defs cong: bb_phase.case_cong)

lemma refill_inv:
  assumes "bb_inv b"
  shows "bb_inv (refill rate b now)"
proof -
  have "refill rate b now = (b\<lparr>tokens := tokens (refill rate b now)\<rparr>)\<lparr>tokens_ms := now\<rparr>"
    by (simp add: refill_def Let_def)
  moreover have "bb_inv (b\<lparr>tokens := tokens (refill rate b now)\<rparr>)"
    using assms refill_bounds [of b rate now] by (intro tokens_inv) (simp_all add: inv_base base_ok_def)
  ultimately show ?thesis by (metis inv_timers(20))
qed

lemma frame_ok:
  assumes "bb_inv b" "wf_mesh m" "on_frame e b m now body = (b', m')"
  shows "bb_inv b' \<and> wf_mesh m'"
proof -
  let ?r = "refill (bridge_rate m) b now"
  obtain disp m2 where d: "(if bb_mesh ?r then mesh_on_backbone (e_sign e) (e_open e) m (bslice 10 (unat (body ! 1)) body)
      else (MESH_RX_LOCAL, m)) = (disp, m2)" by fastforce
  then have w: "wf_mesh m2"
    using backbone_result(1) [OF assms(2) refl, of "e_sign e" "e_open e" "bslice 10 (unat (body ! 1)) body"] assms(2)
    by (auto split: if_splits)
  have r: "bb_inv ?r" by (rule refill_inv [OF assms(1)])
  have t: "bb_inv (?r\<lparr>tokens := dbl (tokens ?r - 1)\<rparr>)" if "1 \<le> tokens ?r"
    using that r by (intro tokens_inv dbl_nonneg) auto
  show ?thesis
    using assms d w r t observe_inv by (auto simp: on_frame_def Let_def refill_fields split: if_splits prod.splits)
qed

lemma policy_add_bounded: "pol_bounded p \<Longrightarrow> pol_bounded (policy_add p kind v)"
  by (auto simp: pol_bounded_def wf_policy_def policy_add_def Let_def line_text_def list_ex_iff)

lemma policy_walk_bounded:
  "(case p of None \<Rightarrow> True | Some x \<Rightarrow> pol_bounded x) \<Longrightarrow>
   (case snd (policy_walk en p) of None \<Rightarrow> p = None | Some x \<Rightarrow> p \<noteq> None \<and> pol_bounded x)"
proof (induction en p rule: policy_walk.induct)
  case (1 en p)
  show ?case
  proof (cases "en = [] \<or> length en < 2 \<or> length en - 2 < unat (en ! 1)")
    case True
    with 1(2) show ?thesis by (subst policy_walk.simps) (auto split: option.splits)
  next
    case False
    have "(case map_option (\<lambda>p. policy_add p (en ! 0) (bslice 2 (unat (en ! 1)) en)) p of None \<Rightarrow> True | Some x \<Rightarrow> pol_bounded x)"
      using 1(2) policy_add_bounded by (auto split: option.splits)
    from 1(1) [OF _ _ this] False show ?thesis by (subst policy_walk.simps) (auto split: option.splits)
  qed
qed

lemma walk_some: "pol_bounded p \<Longrightarrow> pol_bounded (the (snd (policy_walk en (Some p))))"
  using policy_walk_bounded [of "Some p" en] by (auto split: option.splits)

lemma pol_inv: "bb_inv b \<Longrightarrow> pol_bounded p \<Longrightarrow> bb_inv (b\<lparr>pol := p\<rparr>)"
  by (simp add: inv_defs cong: bb_phase.case_cong)

lemma inv_pol: "bb_inv b \<Longrightarrow> pol_bounded (pol b)"
  by (simp add: inv_defs)

lemma empty_bounded: "pol_bounded (empty_policy\<lparr>version := v\<rparr>)"
  by (simp add: pol_bounded_def wf_policy_def empty_policy_def)

lemma begin_inv: "bb_inv b \<Longrightarrow> bb_inv (policy_begin v pages q b)"
  using pol_inv [OF _ empty_bounded, of b v] by (simp add: policy_begin_def)

lemma done_ok:
  assumes "bb_inv b" "wf_mesh m" "policy_done b m = (b', m')"
  shows "bb_inv b' \<and> wf_mesh m'"
  using assms set_policy_wf by (auto simp: policy_done_def Let_def wf_mesh_def split: if_splits)

lemma policy_ok:
  assumes "bb_inv b" "wf_mesh m" "on_policy b m q body = (b', m')"
  shows "bb_inv b' \<and> wf_mesh m'"
proof -
  let ?other = "pol_pages b \<noteq> 0 \<and> (rd_u32le body \<noteq> version (pol b) \<or> body ! 5 \<noteq> pol_pages b)"
  define b1 where "b1 = policy_begin (rd_u32le body) (body ! 5) q (if ?other then b\<lparr>pol_pages := 0\<rparr> else b)"
  define b2 where "b2 = policy_page q (body ! 4) (drop 6 body) b1"
  have i1: "bb_inv b1" using assms(1) by (auto simp: b1_def intro!: begin_inv)
  have i2: "bb_inv b2" using pol_inv [OF i1 walk_some [OF inv_pol [OF i1]]] by (simp add: b2_def policy_page_def)
  have "(b', m') \<in> {(b, m), (bb_reject b, m), (b1, m), (b2, m), policy_done b2 m}"
    using assms(3) unfolding on_policy_def Let_def b1_def [symmetric] b2_def [symmetric] by (auto split: if_splits)
  then show ?thesis using assms(1,2) i1 i2 done_ok [OF i2 assms(2), of b' m'] by auto
qed

section \<open>Datagrams\<close>

lemma bye_ok:
  assumes "bb_inv b" "wf_mesh m" "on_bye b m now body = (b', m')"
  shows "bb_inv b' \<and> wf_mesh m'"
proof -
  have base: "base_ok b" using assms(1) by (simp add: inv_base)
  have "bb_inv ((forget_session b)\<lparr>backoff_s := BB_BACKOFF_MAX, next_try_ms := t\<rparr>)" for t
    using base window_rel_init by (auto simp: inv_defs)
  moreover have "bb_inv (fst (retry_later b m now))" by (rule retry_inv [OF base])
  moreover have "wf_mesh (snd (retry_later b m now))"
    using assms(2) by (simp add: retry_mesh mesh_rng_def split_beta wf_mesh_world)
  ultimately show ?thesis using assms(2,3) by (auto simp: on_bye_def split: if_splits)
qed

definition session_genuine :: "mc_backbone \<Rightarrow> bytes \<Rightarrow> bool" where
  \<comment> \<open>a datagram sealed with the session's key under a number not used before\<close>
  "session_genuine b d \<longleftrightarrow> bb_state b = BB_UP \<and>
     (\<exists>t q body. bb_seal BB_MAX_DGRAM t (bb_sid b) q body (k_down b) = Some d \<and> \<not> rp_taken (rwin b) q)"

lemma session_cases:
  assumes "on_session e b m now d = (b', m')" "length d \<le> BB_MAX_DGRAM"
  obtains "b' = bb_reject b" "m' = m"
  | t q body c where "session_genuine b d" "bb_open d (k_down b) = Inr (t, bb_sid b, q, body)"
      "c = b\<lparr>rwin := snd (bb_replay_check (rwin b) q), dgrams_in := dgrams_in b + 1, last_rx_ms := now\<rparr>"
      "(b', m') \<in> {(c, m), (bb_reject c, m), on_frame e c m now body, on_policy c m q body, on_bye c m now body}"
proof (cases "bb_state b \<noteq> BB_UP \<or> length d < BB_HDR + BB_MAC \<or> rd_u32le (drop 4 d) \<noteq> bb_sid b")
  case True
  with assms(1) show thesis by (intro that(1)) (auto simp: on_session_def)
next
  case False
  show thesis
  proof (cases "bb_open d (k_down b)")
    case (Inl x)
    with assms(1) False show thesis by (intro that(1)) (auto simp: on_session_def)
  next
    case (Inr r)
    obtain t s q body where r: "r = (t, s, q, body)" by (cases r) auto
    have s: "s = bb_sid b" using Inr False by (auto simp: r bb_open_def Let_def split: if_splits)
    obtain ok w where c: "bb_replay_check (rwin b) q = (ok, w)" by fastforce
    show thesis
    proof (cases ok)
      case False
      then show thesis using assms(1) \<open>\<not> (bb_state b \<noteq> BB_UP \<or> _)\<close> Inr c by (intro that(1)) (auto simp: on_session_def r)
    next
      case True
      let ?c = "b\<lparr>rwin := w, dgrams_in := dgrams_in b + 1, last_rx_ms := now\<rparr>"
      have g: "session_genuine b d"
        using seal_open [OF Inr [unfolded r s] assms(2,2)] replay_new [of "rwin b" q] c True False
        by (auto simp: session_genuine_def)
      have "(b', m') \<in> {(?c, m), (bb_reject ?c, m), on_frame e ?c m now body, on_policy ?c m q body, on_bye ?c m now body}"
        using assms(1) False Inr c True unfolding on_session_def r by (auto simp: Let_def split: if_splits)
      with g Inr r s c show thesis by (intro that(2)) auto
    qed
  qed
qed

lemma rwin_inv: "bb_inv b \<Longrightarrow> \<exists>A. window_rel w A \<Longrightarrow> bb_inv (b\<lparr>rwin := w\<rparr>)"
  by (simp add: inv_defs cong: bb_phase.case_cong)

lemma session_ok:
  assumes "bb_inv b" "wf_mesh m" "on_session e b m now d = (b', m')" "length d \<le> BB_MAX_DGRAM"
  shows "bb_inv b' \<and> wf_mesh m'"
  using assms(3,4)
proof (cases rule: session_cases)
  case 1
  with assms(1,2) show ?thesis by simp
next
  case (2 t q body c)
  have "\<exists>A. window_rel (snd (bb_replay_check (rwin b) q)) A"
    using assms(1) window_step(2) by (fastforce simp: inv_base)
  then have "bb_inv c" unfolding 2(3) by (simp add: rwin_inv assms(1))
  with 2(4) assms(2) show ?thesis
    using frame_ok [of c m e now body b' m'] policy_ok [of c m q body b' m'] bye_ok [of c m now body b' m'] by auto
qed

definition welcome_genuine :: "bb_env \<Rightarrow> mc_backbone \<Rightarrow> bytes \<Rightarrow> bool" where
  \<comment> \<open>signed by the pinned hub key, for the HELLO in flight, with no more roles than asked for\<close>
  "welcome_genuine e b d \<longleftrightarrow> bb_state b = BB_HELLO_SENT \<and>
     (\<exists>w. bb_check_welcome (e_open e) d (hub_pub b) (hello_hash b) (roles_asked b) = Inr w)"

lemma datagram_cases:
  assumes "on_datagram e b m now d = (b', m')"
  obtains "b' = bb_reject b" "m' = m"
  | "length d \<le> BB_MAX_DGRAM" "on_welcome e b m now d = b'" "m' = m"
  | "length d \<le> BB_MAX_DGRAM" "on_reset e b m now d = (b', m')"
  | "length d \<le> BB_MAX_DGRAM" "on_session e b m now d = (b', m')"
proof -
  let ?bad = "BB_MAX_DGRAM < length d \<or> length d < 4 \<or> d ! 0 \<noteq> 77 \<or> d ! 1 \<noteq> 66 \<or> d ! 2 \<noteq> BB_VERSION"
  note a = assms [unfolded on_datagram_def]
  consider "?bad" | "\<not> ?bad" "d ! 3 = BB_T_WELCOME" | "\<not> ?bad" "d ! 3 \<noteq> BB_T_WELCOME" "d ! 3 = BB_T_RESET"
    | "\<not> ?bad" "d ! 3 \<noteq> BB_T_WELCOME" "d ! 3 \<noteq> BB_T_RESET" "0x20 \<le> d ! 3 \<and> d ! 3 \<le> 0x2F"
    | "\<not> ?bad" "d ! 3 \<noteq> BB_T_WELCOME" "d ! 3 \<noteq> BB_T_RESET" "\<not> (0x20 \<le> d ! 3 \<and> d ! 3 \<le> 0x2F)"
    by blast
  then show thesis
  proof cases
    case 1
    with a show thesis by (simp only: if_True prod.inject) (rule that(1), simp_all)
  next
    case 2
    then have "length d \<le> BB_MAX_DGRAM" by linarith
    moreover have "(on_welcome e b m now d, m) = (b', m')" using a unfolding if_not_P [OF 2(1)] if_P [OF 2(2)] .
    ultimately show thesis by (intro that(2)) auto
  next
    case 3
    then have "length d \<le> BB_MAX_DGRAM" by linarith
    moreover have "on_reset e b m now d = (b', m')" using a unfolding if_not_P [OF 3(1)] if_not_P [OF 3(2)] if_P [OF 3(3)] .
    ultimately show thesis by (rule that(3))
  next
    case 4
    then have "length d \<le> BB_MAX_DGRAM" by linarith
    moreover have "on_session e b m now d = (b', m')"
      using a unfolding if_not_P [OF 4(1)] if_not_P [OF 4(2)] if_not_P [OF 4(3)] if_P [OF 4(4)] .
    ultimately show thesis by (rule that(4))
  next
    case 5
    have "(bb_reject b, m) = (b', m')"
      using a unfolding if_not_P [OF 5(1)] if_not_P [OF 5(2)] if_not_P [OF 5(3)] if_not_P [OF 5(4)] .
    then show thesis by (intro that(1)) auto
  qed
qed

lemma datagram_ok:
  assumes "bb_inv b" "wf_mesh m" "on_datagram e b m now d = (b', m')"
  shows "bb_inv b' \<and> wf_mesh m'"
  using assms(3)
proof (cases rule: datagram_cases)
  case 2
  with assms welcome_inv show ?thesis by auto
next
  case 3
  have "wf_mesh m'"
    using 3(2) by (rule reset_cases) (use assms(2) in \<open>auto simp: mesh_time_def split_beta Let_def wf_mesh_world\<close>)
  with 3 assms(1) reset_inv show ?thesis by blast
next
  case 4
  with assms session_ok show ?thesis by blast
qed (use assms in simp)

lemma read_ok:
  "bb_inv b \<Longrightarrow> wf_mesh m \<Longrightarrow> read_datagrams i e b m now = (b', m') \<Longrightarrow> bb_inv b' \<and> wf_mesh m'"
proof (induction i arbitrary: b m)
  case (Suc i)
  show ?case
  proof (cases "bb_fd b < 0")
    case False
    obtain r n where r: "net_recv (BB_MAX_DGRAM + 1) (bb_net b) = (r, n)" by fastforce
    show ?thesis
    proof (cases r)
      case (Inr d)
      obtain b1 m1 where d: "on_datagram e (b\<lparr>bb_net := n\<rparr>) m now d = (b1, m1)" by fastforce
      then have "bb_inv b1 \<and> wf_mesh m1" using datagram_ok [OF _ Suc.prems(2) d] Suc.prems(1) by simp
      with Suc.IH [of b1 m1] Suc.prems False r Inr d show ?thesis by simp
    qed (use Suc False r in auto)
  qed (use Suc in auto)
qed simp

section \<open>The service loop\<close>

lemma retry_ok: "bb_inv b \<Longrightarrow> wf_mesh m \<Longrightarrow> retry_later b m now = (b', m') \<Longrightarrow> bb_inv b' \<and> wf_mesh m'"
  using retry_inv [of b m now] retry_mesh [of b m now]
  by (auto simp: inv_base mesh_rng_def split_beta wf_mesh_world)

definition only_world :: "mc_mesh \<Rightarrow> mc_mesh \<Rightarrow> bool" where
  \<comment> \<open>the mesh's clock or random numbers may have been read\<close>
  "only_world m m' \<longleftrightarrow> (\<exists>w. m' = m\<lparr>wld := w\<rparr>)"

lemma only_world_refl [simp, intro]: "only_world m m"
  unfolding only_world_def by (rule exI [of _ "wld m"]) simp

lemma only_world_trans: "only_world m m' \<Longrightarrow> only_world m' m'' \<Longrightarrow> only_world m m''"
  by (auto simp: only_world_def)

lemma only_world_wf: "only_world m m' \<Longrightarrow> wf_mesh m' = wf_mesh m"
  by (auto simp: only_world_def wf_mesh_world)

lemma only_world_prims:
  "only_world m (snd (mesh_rng a b m))" "only_world m (snd (mesh_time m))" "only_world m (snd (mesh_millis m))"
  by (auto simp: only_world_def mesh_rng_def mesh_time_def mesh_millis_def split_beta Let_def)

lemma retry_world: "only_world m (snd (retry_later b m now))"
  by (simp add: retry_mesh only_world_prims)

lemma hello_world: "only_world m (snd (send_hello e b m now))"
proof -
  obtain t m' where t: "mesh_time m = (t, m')" by fastforce
  then have w: "only_world m m'" using only_world_prims(2) [of m] by simp
  show ?thesis
    using only_world_trans [OF w retry_world] w
    by (auto simp: send_hello_def t Let_def split: prod.split option.split)
qed

lemma attempt_world: "only_world m (snd (start_attempt b m now))"
  by (auto simp: start_attempt_def Let_def retry_world split: prod.split)

lemma resolved_world: "only_world m (snd (check_resolved e b m now))"
  using retry_world hello_world by (simp add: check_resolved_def Let_def split: prod.split option.split)

lemma connect_ok:
  assumes "bb_inv b" "wf_mesh m" "service_connect e b m now = (b', m')"
  shows "bb_inv b' \<and> wf_mesh m'"
proof -
  have base: "base_ok b" using assms(1) by (simp add: inv_base)
  have "bb_inv b' \<and> only_world m m'"
    using assms(1,3) start_attempt_inv [OF base, of m now] check_resolved_inv [OF assms(1), of e m now]
      attempt_world [of m b now] resolved_world [of m e b now]
    by (auto simp: service_connect_def split: bb_phase.splits if_splits)
  with assms(2) only_world_wf show ?thesis by blast
qed

lemma hello_ok:
  assumes "bb_inv b" "wf_mesh m" "service_hello e b m now = (b', m')"
  shows "bb_inv b' \<and> wf_mesh m'"
proof (cases "bb_state b = BB_HELLO_SENT \<and> deadline_ms b \<le> now")
  case True
  show ?thesis
  proof (cases "hello_tries b < BB_HELLO_TRIES")
    case tries: True
    then have "connecting b" using assms(1) True by (auto simp: inv_defs)
    with True tries assms show ?thesis
      using send_hello_inv [of b e m now] hello_world [of m e b now] only_world_wf [of m m']
      by (auto simp: service_hello_def)
  next
    case False
    with True assms show ?thesis using retry_ok [OF assms(1,2)] by (auto simp: service_hello_def)
  qed
qed (use assms in \<open>auto simp: service_hello_def\<close>)

lemma up_ok:
  assumes "bb_inv b" "wf_mesh m" "service_up e b m now = (b', m')"
  shows "bb_inv b' \<and> wf_mesh m'"
proof (cases "bb_state b = BB_UP")
  case True
  have f: "bb_inv (forget_session c)" if "bb_inv c" for c using that by (intro forget_inv) (simp add: inv_base)
  define b1 where "b1 = (if next_keepalive_ms b \<le> now then (send_session b BB_T_KEEPALIVE [])\<lparr>next_keepalive_ms :=
      now + ucast (keepalive_s b) * 1000\<rparr> else b)"
  have b1: "bb_inv b1" "bb_state b1 = BB_UP"
    using assms(1) True session_frame(1) [OF sends_session [of b BB_T_KEEPALIVE "[]"]] by (simp_all add: b1_def)
  define b2 where "b2 = (if next_status_ms b1 \<le> now then (send_status e b1 m now)\<lparr>next_status_ms :=
      now + ucast (status_s b1) * 1000\<rparr> else b1)"
  have b2: "bb_inv b2" "bb_state b2 = BB_UP"
    using b1 up_inv [OF sends_status b1(2,1), of e m now] session_frame(1) [OF sends_status [of b1 e m now]]
    by (simp_all add: b2_def)
  obtain b3 m3 where n: "send_neighbours b2 m = (b3, m3)" by fastforce
  have nb: "length (neighbors m) \<le> MESH_MAX_NEIGHBORS" using assms(2) by (simp add: wf_mesh_def wf_neighbors_def)
  have "sends b2 b3" using sends_neighbours [OF nb, of b2] n by simp
  then have b3: "bb_inv b3" using up_inv b2 by blast
  have m3: "wf_mesh m3"
    using n assms(2) by (auto simp: send_neighbours_def mesh_time_def split_beta Let_def wf_mesh_world split: if_splits)
  have "bb_inv (fst (service_up e b m now)) \<and> wf_mesh (snd (service_up e b m now))"
    unfolding service_up_def Let_def b1_def [symmetric] b2_def [symmetric] n prod.case
    using f [OF assms(1)] f [OF up_session [OF True assms(1)], of BB_T_BYE "[1]"] b1(1) b2(1) b3 m3 assms(1,2)
    by (simp del: up_session)
  with assms(3) show ?thesis by simp
qed (use assms in \<open>simp add: service_up_def\<close>)

lemma service_ok:
  assumes "bb_inv b" "wf_mesh m" "backbone_service e b m now = (b', m')"
  shows "bb_inv b' \<and> wf_mesh m'"
proof (cases "bb_state b = BB_OFF")
  case False
  obtain b1 m1 where 1: "service_connect e b m now = (b1, m1)" by fastforce
  obtain b2 m2 where 2: "(if 0 \<le> bb_fd b1 then read_datagrams BB_RX_BURST e b1 m1 now else (b1, m1)) = (b2, m2)" by fastforce
  obtain b3 m3 where 3: "service_hello e b2 m2 now = (b3, m3)" by fastforce
  have eq: "service_up e b3 m3 now = (b', m')" using assms(3) False 1 2 3 by (simp add: backbone_service_def)
  have o1: "bb_inv b1" "wf_mesh m1" using connect_ok [OF assms(1,2) 1] by auto
  have o2: "bb_inv b2" "wf_mesh m2" using read_ok [OF o1] 2 o1 by (auto split: if_splits)
  have o3: "bb_inv b3" "wf_mesh m3" using hello_ok [OF o2 3] by auto
  show ?thesis by (rule up_ok [OF o3 eq])
qed (use assms in \<open>simp add: backbone_service_def\<close>)

lemma empty_pol: "pol_bounded empty_policy"
  using empty_bounded [of 0] by (simp add: empty_policy_def)

lemma zero_inv: "bb_inv (zero_backbone has n)"
  using window_rel_init empty_pol by (auto simp: zero_backbone_def inv_defs)

lemma enabled_inv:
  "bb_inv ((zero_backbone has n)\<lparr>hub_pub := h, roles_asked := r, bb_state := BB_IDLE, next_try_ms := t\<rparr>)"
  using window_rel_init empty_pol by (auto simp: zero_backbone_def inv_defs)

lemma init_ok:
  assumes "wf_mesh m" "backbone_init has m n = (rc, b, m')"
  shows "bb_inv b \<and> wf_mesh m'"
proof -
  obtain now m1 where t: "mesh_millis m = (now, m1)" by fastforce
  then have w: "wf_mesh m1" using assms(1) only_world_wf [OF only_world_prims(3) [of m]] by simp
  show ?thesis
    using assms w zero_inv [of has n] enabled_inv unfolding backbone_init_def Let_def t prod.case
    by (auto split: if_splits)
qed

lemma close_inv: "bb_inv b \<Longrightarrow> bb_inv (backbone_close b)"
proof -
  assume i: "bb_inv b"
  define c where "c = (if bb_state b = BB_UP then send_session b BB_T_BYE [0] else b)"
  have c: "bb_inv c" using i by (simp add: c_def)
  obtain r d where r: "bb_ret c = (r, d)" by fastforce
  then obtain n where d: "d = c\<lparr>bb_net := n\<rparr>" using bb_ret_frame [OF r] by blast
  define x where "x = (if gai_busy c then (if r = EAI_CANCELED then d\<lparr>gai_busy := False\<rparr> else d) else c)"
  have x: "bb_inv x" using c by (simp add: x_def d)
  have "backbone_close b = (forget_session x)\<lparr>bb_state := BB_OFF\<rparr>"
    by (simp add: backbone_close_def c_def [symmetric] x_def r Let_def)
  then show ?thesis using x window_rel_init by (auto simp: inv_defs)
qed

end
