(* ===== verification/Bb_Run.thy ===== *)
theory Bb_Run
  imports Bb_Inv
begin

text \<open>
  The client and the mesh running together, and the lemmas behind the properties of the backbone:
  what a datagram may change, the account of the token bucket, the pages of a policy, what leaves
  the process. A system step is a step of the mesh or a call into the client.
\<close>

section \<open>The system\<close>

inductive sys_step :: "bb_env \<Rightarrow> mc_backbone \<times> mc_mesh \<Rightarrow> mc_backbone \<times> mc_mesh \<Rightarrow> bool" for e where
  sys_mesh: "mesh_step (e_sign e) (e_open e) m m' \<Longrightarrow> sys_step e (b, m) (b, m')"
| sys_service: "sys_step e (b, m) (backbone_service e b m now)"
| sys_observe: "sys_step e (b, m) (bb_observe b frame rssi snr flags disp, m)"
| sys_offer: "sys_step e (b, m) (bb_offer b frame own, m)"
| sys_soon: "sys_step e (b, m) (bb_status_soon b, m)"
| sys_close: "sys_step e (b, m) (backbone_close b, m)"

inductive_cases sys_stepE: "sys_step e (b, m) s"

inductive sys_reach :: "bb_env \<Rightarrow> mc_backbone \<times> mc_mesh \<Rightarrow> mc_backbone \<times> mc_mesh \<Rightarrow> bool" for e s where
  sys_here: "sys_reach e s s"
| sys_next: "sys_reach e s t \<Longrightarrow> sys_step e t u \<Longrightarrow> sys_reach e s u"

definition sys_ok :: "mc_backbone \<times> mc_mesh \<Rightarrow> bool" where
  "sys_ok s \<longleftrightarrow> bb_inv (fst s) \<and> wf_mesh (snd s)"

lemma sys_step_ok: "sys_step e s t \<Longrightarrow> sys_ok s \<Longrightarrow> sys_ok t"
proof (induction rule: sys_step.induct)
  case (sys_mesh m m' b)
  then show ?case using mesh_step_wf by (auto simp: sys_ok_def)
next
  case (sys_service b m now)
  then show ?case using service_ok [of b m e now] by (cases "backbone_service e b m now") (auto simp: sys_ok_def)
qed (auto simp: sys_ok_def observe_inv offer_inv close_inv)

lemma sys_reach_ok: "sys_reach e s t \<Longrightarrow> sys_ok s \<Longrightarrow> sys_ok t"
  by (induction rule: sys_reach.induct) (auto intro: sys_step_ok)

section \<open>What leaves the process\<close>

definition out_grows :: "mc_backbone \<Rightarrow> mc_backbone \<Rightarrow> bool" where
  "out_grows b b' \<longleftrightarrow> (\<exists>es. n_out (bb_net b') = n_out (bb_net b) @ es)"

lemma out_grows_refl [simp, intro]: "out_grows b b"
  by (simp add: out_grows_def)

lemma out_grows_trans: "out_grows b b' \<Longrightarrow> out_grows b' b'' \<Longrightarrow> out_grows b b''"
  by (auto simp: out_grows_def)

lemma raw_out:
  "0 \<le> bb_fd b \<Longrightarrow> n_out (bb_net (send_raw b d)) = n_out (bb_net b) @ [Sent (bb_fd b) d]"
  by (simp add: send_raw_def net_send_def net_do_def Let_def)

lemma session_out: "out_grows b (send_session b t body)"
  by (cases "0 \<le> bb_fd b")
    (auto simp: out_grows_def send_session_def Let_def raw_out send_raw_def net_send_def net_do_def split: option.split)

lemma session_sent:
  assumes "0 \<le> bb_fd b" "length body \<le> 1172"
  obtains d where "bb_seal BB_MAX_DGRAM t (bb_sid b) (seq_out b + 1) body (k_up b) = Some d"
    "n_out (bb_net (send_session b t body)) = n_out (bb_net b) @ [Sent (bb_fd b) d]"
proof -
  obtain d where d: "bb_seal BB_MAX_DGRAM t (bb_sid b) (seq_out b + 1) body (k_up b) = Some d"
    using assms(2) by (simp add: bb_seal_def Let_def)
  moreover have "n_out (bb_net (send_session b t body)) = n_out (bb_net b) @ [Sent (bb_fd b) d]"
    using raw_out [of "b\<lparr>seq_out := seq_out b + 1\<rparr>" d] assms(1) d by (simp add: send_session_def)
  ultimately show thesis by (rule that)
qed

section \<open>The handshake\<close>

lemma hello_eph:
  assumes "bb_build_hello cs cap self asked ts eph nm = Some d" "length (pub self) = 32" "length eph = 32"
  shows "bslice 42 32 d = eph"
  using assms by (auto simp: bb_build_hello_def Let_def put_hdr_def drop_Cons' bslice_def split: if_splits sum.splits)

lemma hello_sent:
  assumes "connecting b0" "send_hello e b0 m now = (b, m')" "bb_state b = BB_HELLO_SENT"
    "length (pub (ident m)) = 32" "\<And>x. length (e_base e x) = 32"
  shows "bb_inv b" "hello_hash b = sha256_buf (hello b) []" "bslice 42 32 (hello b) = e_base e (eph_sec b)"
    "hub_pub b = hub_pub b0" "roles_asked b = roles_asked b0"
proof -
  show "bb_inv b" using send_hello_inv [OF assms(1), of e m now] assms(2) by simp
  obtain k n where r: "net_random 32 (bb_net b0) = (k, n)" by fastforce
  obtain t m1 where t: "mesh_time m = (t, m1)" by fastforce
  let ?ts = "hello_ts (last_hello_ts b0) t"
  obtain h where h: "bb_build_hello (e_sign e) (BB_HELLO_FIXED + BB_NAME_MAX + 64) (ident m1) (roles_asked b0) ?ts
      (e_base e k) (cfg_name (cfg m1)) = Some h"
    using assms(2,3) by (cases "bb_build_hello (e_sign e) (BB_HELLO_FIXED + BB_NAME_MAX + 64) (ident m1) (roles_asked b0) ?ts
      (e_base e k) (cfg_name (cfg m1))") (auto simp: send_hello_def r t Let_def retry_later_def split: prod.splits)
  define c where "c = b0\<lparr>bb_net := n, eph_sec := k, last_hello_ts := ?ts, hello := h, hello_hash := sha256_buf h []\<rparr>"
  have b: "b = (send_raw c h)\<lparr>hello_tries := hello_tries (send_raw c h) + 1, bb_state := BB_HELLO_SENT,
      deadline_ms := now + BB_WELCOME_WAIT_MS\<rparr>"
    using assms(2) h by (simp add: send_hello_def r t Let_def c_def)
  obtain i j l where s: "send_raw c h = c\<lparr>seq_out := i, dgrams_out := j, bb_net := l\<rparr>"
    using sends_raw unfolding sends_def by blast
  show "hello_hash b = sha256_buf (hello b) []" "hub_pub b = hub_pub b0" "roles_asked b = roles_asked b0"
    unfolding b s by (simp_all add: c_def)
  show "bslice 42 32 (hello b) = e_base e (eph_sec b)"
    unfolding b s using hello_eph [OF h] assms(4,5) mesh_time_frame [OF t] by (simp add: c_def)
qed

lemma status_out: "out_grows b (send_status e b m now)"
  using session_out by (auto simp: send_status_def Let_def)

lemma welcome_sends:
  assumes w: "bb_check_welcome (e_open e) d (hub_pub b) (hello_hash b) (roles_asked b) = Inr w"
    and k: "bb_derive_keys (e_mult e (eph_sec b) (wl_eph_pub w)) (hello b) d = Some (ku, kd)"
    and b: "bb_inv b" "bb_state b = BB_HELLO_SENT"
  shows "\<exists>f es. n_out (bb_net (on_welcome e b m now d)) = n_out (bb_net b) @ Sent (bb_fd b) f # es \<and>
    bb_open f ku = Inr (BB_T_KEEPALIVE, wl_sid w, 1, [])"
proof -
  have fd: "0 \<le> bb_fd b" using b by (simp add: inv_base phase_ok_def)
  obtain f where f: "bb_seal BB_MAX_DGRAM BB_T_KEEPALIVE (wl_sid w) (0 + 1) [] ku = Some f"
    "n_out (bb_net (send_session (begin_session w ku kd now b) BB_T_KEEPALIVE [])) = n_out (bb_net b) @ [Sent (bb_fd b) f]"
    by (rule session_sent [of "begin_session w ku kd now b" "[]" BB_T_KEEPALIVE]) (simp_all add: begin_fields fd)
  obtain c x y z where c: "c = (send_session (begin_session w ku kd now b) BB_T_KEEPALIVE [])\<lparr>next_keepalive_ms := x\<rparr>"
    and o: "on_welcome e b m now d = c \<or> on_welcome e b m now d = (send_status e c m now)\<lparr>next_status_ms := y, next_neighbours_ms := z\<rparr>"
    using welcome_session [OF assms, of now m] by metis
  obtain es where "n_out (bb_net (send_status e c m now)) = n_out (bb_net c) @ es"
    using status_out unfolding out_grows_def by blast
  with o have "\<exists>es. n_out (bb_net (on_welcome e b m now d)) = n_out (bb_net c) @ es" by auto
  then show ?thesis using open_seal [OF f(1)] f(2) by (auto simp: c)
qed

lemma welcome_datagram:
  assumes "bb_build_welcome cs cap srv w hh = Some d" "sign_correct cs co srv" "length (wl_eph_pub w) = 32" "length hh = 32"
  shows "on_datagram e b m now d = (on_welcome e b m now d, m)"
proof -
  obtain sig where s: "sign_ctx cs srv BB_CTX_WELCOME (welcome_msg w hh) = Inr sig" and d: "d = welcome_msg w hh @ sig"
    using assms(1) by (auto simp: bb_build_welcome_def split: if_splits sum.splits)
  have "length d = 148" using sign_ctx_verifies(1) [OF assms(2) s] length_welcome_msg [OF assms(3,4)] d by simp
  moreover have "hdr_ok d BB_T_WELCOME" unfolding d by (rule welcome_msg_fields(1) [OF assms(3,4)])
  ultimately show ?thesis by (simp add: on_datagram_def hdr_ok_def)
qed

section \<open>The token bucket\<close>

fun bridge_run :: "bb_env \<Rightarrow> mc_backbone \<Rightarrow> mc_mesh \<Rightarrow> (u64 \<times> bytes) list \<Rightarrow> nat \<times> mc_backbone \<times> mc_mesh" where
  \<comment> \<open>a run of frames from the hub, counting those that the client counts as injected or that leave the
      mesh other than it was\<close>
  "bridge_run e b m [] = (0, b, m)"
| "bridge_run e b m ((now, body) # fs) =
     (let (b', m') = on_frame e b m now body;
          (k, s) = bridge_run e b' m' fs
      in ((if injected b' \<noteq> injected b \<or> m' \<noteq> m then 1 else 0) + k, s))"

lemma backbone_cfg:
  assumes "wf_mesh m"
  shows "cfg (snd (mesh_on_backbone cs co m raw)) = cfg m"
proof -
  have w: "wf_mesh (m\<lparr>rx_src := MESH_SRC_BACKBONE\<rparr>)" using assms by (simp add: wf_mesh_def)
  show ?thesis
    using mesh.on_recv [OF w, of cs co raw MON_VIA_BACKBONE 0]
    by (auto simp: mesh_on_backbone_def evolves_def keeps_def split: prod.split)
qed

lemma observe_frame:
  "tokens (bb_observe b f r s fl d) = tokens b" "tokens_ms (bb_observe b f r s fl d) = tokens_ms b"
  "bb_state (bb_observe b f r s fl d) = bb_state b" "bb_roles (bb_observe b f r s fl d) = bb_roles b"
  "injected (bb_observe b f r s fl d) = injected b" "limited (bb_observe b f r s fl d) = limited b"
  "rejected (bb_observe b f r s fl d) = rejected b"
  using session_frame [OF sends_session [of b BB_T_OBSERVE]]
  by (auto simp: bb_observe_def Let_def split: sum.split)

text \<open>What becomes of a frame: it is malformed for the client, limited, or costs a token.\<close>

lemma frame_cases:
  assumes "wf_mesh m" "on_frame e b m now body = (b', m')"
  obtains (bad) "b' = bb_reject b" "m' = m"
  | (limited) "tokens_ms b' = now" "tokens b' = tokens (refill (bridge_rate m) b now)" "m' = m"
      "injected b' = injected b" "limited b' = limited b + 1" "rejected b' = rejected b"
  | (taken) "1 \<le> tokens (refill (bridge_rate m) b now)" "cfg m' = cfg m" "tokens_ms b' = now"
      "tokens b' = dbl (tokens (refill (bridge_rate m) b now) - 1)" "limited b' = limited b"
      "injected b' = injected b + 1 \<and> rejected b' = rejected b \<or> injected b' = injected b \<and> rejected b' = rejected b + 1"
proof -
  let ?r = "refill (bridge_rate m) b now" and ?f = "bslice 10 (unat (body ! 1)) body"
  let ?bad = "bb_roles b AND BB_ROLE_BRIDGE = 0 \<or> length body < 10 \<or> body ! 1 = 0 \<or> length body < 10 + unat (body ! 1)"
  let ?lim = "tokens ?r < 1 \<or> \<not> (\<not> bb_mesh ?r \<or> BB_TXQ_HEADROOM \<le> mesh_txq_free m)"
  obtain disp m2 where d: "(if bb_mesh ?r then mesh_on_backbone (e_sign e) (e_open e) m ?f else (MESH_RX_LOCAL, m)) = (disp, m2)"
    by fastforce
  have c: "cfg m2 = cfg m"
    using d backbone_cfg [OF assms(1), of "e_sign e" "e_open e" ?f] by (auto split: if_splits)
  have r: "rejected ?r = rejected b" by (simp add: refill_def Let_def)
  consider "?bad" | "\<not> ?bad" "?lim" | "\<not> ?bad" "\<not> ?lim" by blast
  then show thesis
  proof cases
    case 1
    then have "(b', m') = (bb_reject b, m)" using assms(2) unfolding on_frame_def by (simp only: if_True)
    then show thesis using bad by simp
  next
    case 2
    have "(b', m') = (bb_observe (?r\<lparr>limited := limited ?r + 1\<rparr>) ?f 0 0 1 4, m)"
      using assms(2) 2 unfolding on_frame_def Let_def by (simp only: if_False if_True)
    then show thesis using limited r by (simp add: observe_frame refill_fields)
  next
    case 3
    let ?t = "?r\<lparr>tokens := dbl (tokens ?r - 1)\<rparr>"
    have "(b', m') = (if disp = MESH_RX_MALFORMED then (bb_reject ?t, m2)
        else (bb_observe (?t\<lparr>injected := injected ?t + 1\<rparr>) ?f 0 0 1 (rx_code disp), m2))"
      using assms(2) 3 d unfolding on_frame_def Let_def
      by (simp only: if_False mc_backbone.simps) simp
    moreover have "1 \<le> tokens ?r" using 3(2) by (simp add: not_less)
    ultimately show thesis using taken c r
      by (cases "disp = MESH_RX_MALFORMED") (simp_all add: observe_frame refill_fields bb_reject_def)
  qed
qed

definition earned :: "u32 \<Rightarrow> u64 \<Rightarrow> u64 \<Rightarrow> rat" where
  \<comment> \<open>the tokens that accrue between two readings of the clock\<close>
  "earned rate t0 t = of_nat (unat t - unat t0) * of_nat (unat rate) / 60000"

lemma earned_nonneg: "0 \<le> earned rate t0 t"
  by (simp add: earned_def del: of_nat_unat of_nat_diff)

lemma earned_add: "t0 \<le> t1 \<Longrightarrow> t1 \<le> t2 \<Longrightarrow> earned rate t0 t1 + earned rate t1 t2 = earned rate t0 t2"
proof -
  assume "t0 \<le> t1" "t1 \<le> t2"
  then have "unat t2 - unat t0 = (unat t1 - unat t0) + (unat t2 - unat t1)" by (simp add: word_le_nat_alt)
  then show ?thesis unfolding earned_def by (simp only: of_nat_add add_divide_distrib distrib_right)
qed

text \<open>The roundings of a turn of the bucket: three for what accrues, one for the sum.\<close>

lemma accrued_upper:
  assumes "0 \<le> a" "0 \<le> r"
  shows "dbl (dbl (dbl a * r) / 60000) \<le> a * r / 60000 * (1 + 1 / 2 ^ 51)"
proof -
  let ?u = "1 + 1 / 2 ^ 53 :: rat"
  have "dbl a * r \<le> a * ?u * r" using assms by (intro mult_right_mono dbl_upper)
  then have "dbl a * r * ?u \<le> a * ?u * r * ?u" by (rule mult_right_mono) simp
  moreover have "dbl (dbl a * r) \<le> dbl a * r * ?u" using assms by (intro dbl_upper mult_nonneg_nonneg dbl_nonneg)
  ultimately have "dbl (dbl a * r) \<le> a * ?u * r * ?u" by (rule order_trans [rotated])
  then have "dbl (dbl a * r) / 60000 * ?u \<le> a * ?u * r * ?u / 60000 * ?u"
    by (intro mult_right_mono divide_right_mono) simp_all
  moreover have "dbl (dbl (dbl a * r) / 60000) \<le> dbl (dbl a * r) / 60000 * ?u"
    using assms by (intro dbl_upper divide_nonneg_nonneg dbl_nonneg mult_nonneg_nonneg) simp_all
  moreover have "a * ?u * r * ?u / 60000 * ?u = a * r / 60000 * (?u * ?u * ?u)" by simp
  moreover have "a * r / 60000 * (?u * ?u * ?u) \<le> a * r / 60000 * (1 + 1 / 2 ^ 51)"
    using assms by (intro mult_left_mono divide_nonneg_nonneg mult_nonneg_nonneg) simp_all
  ultimately show ?thesis by linarith
qed

lemma capped_upper:
  fixes x c :: rat
  assumes "0 \<le> x" "0 \<le> c"
  shows "min c (dbl x) \<le> x + c / 2 ^ 52"
proof (cases "x \<le> 2 * c")
  case True
  then have "x / 2 ^ 53 \<le> 2 * c / 2 ^ 53" by (rule divide_right_mono) simp
  moreover have "2 * c / 2 ^ 53 = c / 2 ^ 52" by simp
  moreover have "dbl x \<le> x + x / 2 ^ 53" using dbl_upper [OF assms(1)] by (simp only: distrib_left) simp
  ultimately show ?thesis by linarith
next
  case False
  moreover have "0 \<le> c / 2 ^ 52" using assms(2) by simp
  ultimately show ?thesis using assms by linarith
qed

lemma refill_earned:
  assumes "tokens_ms b \<noteq> 0" "tokens_ms b \<le> now" "0 \<le> tokens b"
  shows "tokens (refill rate b now) \<le>
    tokens b + earned rate (tokens_ms b) now * (1 + 1 / 2 ^ 51) + bucket_cap rate / 2 ^ 52"
proof -
  let ?a = "dbl (dbl (dbl (of_nat (unat (now - tokens_ms b))) * of_nat (unat rate)) / 60000)"
  have n: "unat (now - tokens_ms b) = unat now - unat (tokens_ms b)" using assms(2) by (simp add: unat_sub)
  have "?a \<le> earned rate (tokens_ms b) now * (1 + 1 / 2 ^ 51)"
    using accrued_upper [of "of_nat (unat (now - tokens_ms b))" "of_nat (unat rate)"]
    unfolding earned_def n by (simp only: of_nat_0_le_iff simp_thms)
  moreover have "0 \<le> ?a" by (intro dbl_nonneg divide_nonneg_nonneg mult_nonneg_nonneg) (simp_all del: of_nat_unat)
  moreover have "min (bucket_cap rate) (dbl (tokens b + ?a)) \<le> tokens b + ?a + bucket_cap rate / 2 ^ 52"
    using \<open>0 \<le> ?a\<close> assms(3) bucket_cap_pos [of rate] by (intro capped_upper) linarith+
  ultimately show ?thesis using assms(1) unfolding refill_def Let_def by (simp del: of_nat_unat)
qed

definition allowed :: "u32 \<Rightarrow> nat \<Rightarrow> rat \<Rightarrow> rat" where
  \<comment> \<open>what a bucket earns, with the rounding errors of \<open>n\<close> turns\<close>
  "allowed rate n x = x + (bucket_cap rate * of_nat n + x) / 2 ^ 50"

lemma allowed_add: "allowed rate n x + allowed rate k y = allowed rate (n + k) (x + y)"
  by (simp add: allowed_def algebra_simps add_divide_distrib)

lemma allowed_mono: "x \<le> y \<Longrightarrow> n \<le> k \<Longrightarrow> allowed rate n x \<le> allowed rate k y"
proof -
  assume "x \<le> y" "n \<le> k"
  then have "bucket_cap rate * of_nat n \<le> bucket_cap rate * of_nat k"
    using bucket_cap_pos [of rate] by (intro mult_left_mono) simp_all
  with \<open>x \<le> y\<close> show ?thesis unfolding allowed_def by (intro add_mono divide_right_mono) simp_all
qed

lemma allowed_nonneg: "0 \<le> x \<Longrightarrow> 0 \<le> allowed rate n x"
  using allowed_mono [of 0 x 0 n rate] by (simp add: allowed_def)

lemma taken_left:
  assumes "1 \<le> t" "t \<le> bucket_cap rate"
  shows "dbl (t - 1) \<le> t - 1 + bucket_cap rate / 2 ^ 53"
proof -
  have "dbl (t - 1) \<le> (t - 1) * (1 + 1 / 2 ^ 53)" using assms(1) by (intro dbl_upper) simp
  moreover have "(t - 1) * (1 + 1 / 2 ^ 53) = t - 1 + (t - 1) / 2 ^ 53" by (simp only: distrib_left) simp
  moreover have "(t - 1) / 2 ^ 53 \<le> bucket_cap rate / 2 ^ 53" using assms(2) by (intro divide_right_mono) simp_all
  ultimately show ?thesis by linarith
qed

text \<open>The account of one frame, when the bucket has been filled before and when it has not.\<close>

lemma frame_account:
  assumes "wf_mesh m" "0 \<le> tokens b" "on_frame e b m now body = (b', m')"
    "j = (if injected b' \<noteq> injected b \<or> m' \<noteq> m then 1 else 0)"
  shows "bridge_rate m' = bridge_rate m"
    and "(b' = bb_reject b \<and> j = 0) \<or> (tokens_ms b' = now \<and>
      of_nat j + tokens b' \<le> bucket_cap (bridge_rate m) + bucket_cap (bridge_rate m) / 2 ^ 53 \<and>
      (tokens_ms b \<noteq> 0 \<and> tokens_ms b \<le> now \<longrightarrow>
         of_nat j + tokens b' \<le> tokens b + allowed (bridge_rate m) 1 (earned (bridge_rate m) (tokens_ms b) now)))"
proof -
  let ?c = "bucket_cap (bridge_rate m)" and ?r = "refill (bridge_rate m) b now"
  let ?e = "earned (bridge_rate m) (tokens_ms b) now"
  have c: "0 \<le> ?c" using bucket_cap_pos [of "bridge_rate m"] by simp
  have top: "tokens ?r \<le> ?c" using refill_bounds [OF assms(2)] by blast
  have small: "?e * (1 + 1 / 2 ^ 51) + ?c / 2 ^ 52 + ?c / 2 ^ 53 \<le> allowed (bridge_rate m) 1 ?e"
  proof -
    have "?e * (1 + 1 / 2 ^ 51) = ?e + ?e / 2 ^ 51" by (simp only: distrib_left) simp
    moreover have "?e / 2 ^ 51 \<le> ?e / 2 ^ 50" "?c / 2 ^ 52 + ?c / 2 ^ 53 \<le> ?c / 2 ^ 50"
      using earned_nonneg [of "bridge_rate m" "tokens_ms b" now] c by simp_all
    moreover have "allowed (bridge_rate m) 1 ?e = ?e + ?e / 2 ^ 50 + ?c / 2 ^ 50"
      by (simp add: allowed_def add_divide_distrib)
    ultimately show ?thesis by linarith
  qed
  have p: "0 \<le> ?c / 2 ^ 53" using c by simp
  have warm: "tokens ?r \<le> tokens b + ?e * (1 + 1 / 2 ^ 51) + ?c / 2 ^ 52"
    if "tokens_ms b \<noteq> 0 \<and> tokens_ms b \<le> now"
    using refill_earned [OF _ _ assms(2)] that by blast
  from assms(1,3) show "bridge_rate m' = bridge_rate m"
    by (cases rule: frame_cases) (simp_all add: bridge_rate_def)
  from assms(1,3) show "(b' = bb_reject b \<and> j = 0) \<or> (tokens_ms b' = now \<and>
      of_nat j + tokens b' \<le> ?c + ?c / 2 ^ 53 \<and>
      (tokens_ms b \<noteq> 0 \<and> tokens_ms b \<le> now \<longrightarrow> of_nat j + tokens b' \<le> tokens b + allowed (bridge_rate m) 1 ?e))"
  proof (cases rule: frame_cases)
    case bad
    then show ?thesis by (simp add: assms(4) bb_reject_def)
  next
    case limited
    then have "j = 0" by (simp add: assms(4))
    then show ?thesis using limited(1,2) top warm small p by auto
  next
    case taken
    have j: "of_nat j \<le> (1 :: rat)" by (simp add: assms(4))
    have "of_nat j + tokens b' \<le> tokens ?r + ?c / 2 ^ 53"
      unfolding taken(4) using taken_left [OF taken(1) top] j by linarith
    then show ?thesis using taken(3) top warm small by (intro disjI2 conjI impI) linarith+
  qed
qed

lemma bridge_warm:
  assumes "wf_mesh m" "bb_inv b" "tokens_ms b \<noteq> 0" "sorted (map fst fs)" "\<forall>f \<in> set fs. tokens_ms b \<le> fst f"
    "\<forall>f \<in> set fs. fst f \<le> T" "tokens_ms b \<le> T" "bridge_run e b m fs = (k, b', m')"
  shows "of_nat k \<le> tokens b + allowed (bridge_rate m) (length fs) (earned (bridge_rate m) (tokens_ms b) T)"
  using assms
proof (induction fs arbitrary: b m k)
  case Nil
  then show ?case using allowed_nonneg [OF earned_nonneg] by (simp add: inv_base base_ok_def)
next
  case (Cons f fs)
  obtain now body where f: "f = (now, body)" by (cases f)
  obtain b1 m1 where 1: "on_frame e b m now body = (b1, m1)" by fastforce
  define j :: nat where "j = (if injected b1 \<noteq> injected b \<or> m1 \<noteq> m then 1 else 0)"
  obtain k1 where r: "bridge_run e b1 m1 fs = (k1, b', m')" and k: "k = j + k1"
    using Cons.prems(8) 1 by (auto simp: f j_def split: prod.splits)
  have ok: "bb_inv b1" "wf_mesh m1" using frame_ok [OF Cons.prems(2,1) 1] by auto
  have "0 \<le> tokens b" using Cons.prems(2) by (simp add: inv_base base_ok_def)
  note a = frame_account [OF Cons.prems(1) this 1 j_def]
  have t: "tokens_ms b \<le> now" "now \<le> T" using Cons.prems(5,6) by (auto simp: f)
  let ?rate = "bridge_rate m" and ?n = "length fs"
  from a(2) show ?case
  proof
    assume z: "b1 = bb_reject b \<and> j = 0"
    have "of_nat k1 \<le> tokens b1 + allowed (bridge_rate m1) ?n (earned (bridge_rate m1) (tokens_ms b1) T)"
      using Cons.prems z by (intro Cons.IH [OF ok(2,1) _ _ _ _ _ r]) (auto simp: bb_reject_def f)
    moreover have "allowed ?rate ?n (earned ?rate (tokens_ms b) T) \<le> allowed ?rate (length (f # fs)) (earned ?rate (tokens_ms b) T)"
      by (rule allowed_mono) simp_all
    ultimately show ?thesis using z k a(1) by (simp add: bb_reject_def)
  next
    assume z: "tokens_ms b1 = now \<and> of_nat j + tokens b1 \<le> bucket_cap ?rate + bucket_cap ?rate / 2 ^ 53 \<and>
      (tokens_ms b \<noteq> 0 \<and> tokens_ms b \<le> now \<longrightarrow> of_nat j + tokens b1 \<le> tokens b + allowed ?rate 1 (earned ?rate (tokens_ms b) now))"
    then have n: "of_nat j + tokens b1 \<le> tokens b + allowed ?rate 1 (earned ?rate (tokens_ms b) now)"
      using t(1) Cons.prems(3) by blast
    have "now \<noteq> 0" using t(1) Cons.prems(3) by (metis word_le_0_iff)
    then have "of_nat k1 \<le> tokens b1 + allowed (bridge_rate m1) ?n (earned (bridge_rate m1) (tokens_ms b1) T)"
      using Cons.prems z t by (intro Cons.IH [OF ok(2,1) _ _ _ _ _ r]) (auto simp: f)
    then have "of_nat k \<le> tokens b + (allowed ?rate 1 (earned ?rate (tokens_ms b) now) + allowed ?rate ?n (earned ?rate now T))"
      using n z k a(1) by simp
    then show ?thesis unfolding allowed_add earned_add [OF t] by simp
  qed
qed

text \<open>From any state, a run hands over at most a full bucket and what accrues while it lasts.\<close>

lemma bridge_bound:
  assumes "wf_mesh m" "bb_inv b" "sorted (map fst fs)" "\<forall>f \<in> set fs. t0 \<le> fst f \<and> fst f \<le> T" "t0 \<noteq> 0" "t0 \<le> T"
    "bridge_run e b m fs = (k, b', m')"
  shows "of_nat k \<le> bucket_cap (bridge_rate m) + allowed (bridge_rate m) (length fs) (earned (bridge_rate m) t0 T)"
  using assms
proof (induction fs arbitrary: b m k)
  case Nil
  then show ?case
    using allowed_nonneg [OF earned_nonneg, of "bridge_rate m" 0 "bridge_rate m" t0 T] bucket_cap_pos [of "bridge_rate m"] by simp
next
  case (Cons f fs)
  obtain now body where f: "f = (now, body)" by (cases f)
  obtain b1 m1 where 1: "on_frame e b m now body = (b1, m1)" by fastforce
  define j :: nat where "j = (if injected b1 \<noteq> injected b \<or> m1 \<noteq> m then 1 else 0)"
  obtain k1 where r: "bridge_run e b1 m1 fs = (k1, b', m')" and k: "k = j + k1"
    using Cons.prems(7) 1 by (auto simp: f j_def split: prod.splits)
  have ok: "bb_inv b1" "wf_mesh m1" using frame_ok [OF Cons.prems(2,1) 1] by auto
  have "0 \<le> tokens b" using Cons.prems(2) by (simp add: inv_base base_ok_def)
  note a = frame_account [OF Cons.prems(1) this 1 j_def]
  have t: "t0 \<le> now" "now \<le> T" using Cons.prems(4) by (auto simp: f)
  let ?rate = "bridge_rate m" and ?n = "length fs"
  from a(2) show ?case
  proof
    assume z: "b1 = bb_reject b \<and> j = 0"
    have "of_nat k1 \<le> bucket_cap (bridge_rate m1) + allowed (bridge_rate m1) ?n (earned (bridge_rate m1) t0 T)"
      using Cons.prems by (intro Cons.IH [OF ok(2,1) _ _ _ _ r]) (auto simp: f)
    moreover have "allowed ?rate ?n (earned ?rate t0 T) \<le> allowed ?rate (length (f # fs)) (earned ?rate t0 T)"
      by (rule allowed_mono) simp_all
    ultimately show ?thesis using z k a(1) by simp
  next
    assume z: "tokens_ms b1 = now \<and> of_nat j + tokens b1 \<le> bucket_cap ?rate + bucket_cap ?rate / 2 ^ 53 \<and>
      (tokens_ms b \<noteq> 0 \<and> tokens_ms b \<le> now \<longrightarrow> of_nat j + tokens b1 \<le> tokens b + allowed ?rate 1 (earned ?rate (tokens_ms b) now))"
    have "now \<noteq> 0" using t(1) Cons.prems(5) by (metis word_le_0_iff)
    then have "of_nat k1 \<le> tokens b1 + allowed (bridge_rate m1) ?n (earned (bridge_rate m1) (tokens_ms b1) T)"
      using Cons.prems z t by (intro bridge_warm [OF ok(2,1) _ _ _ _ _ r]) (auto simp: f)
    moreover have "earned ?rate now T \<le> earned ?rate t0 T"
      using earned_add [OF t, of ?rate] earned_nonneg [of ?rate t0 now] by linarith
    then have "bucket_cap ?rate / 2 ^ 53 + allowed ?rate ?n (earned ?rate now T) \<le> allowed ?rate (length (f # fs)) (earned ?rate t0 T)"
    proof -
      have "bucket_cap ?rate / 2 ^ 53 \<le> allowed ?rate 1 0" using bucket_cap_pos [of ?rate] by (simp add: allowed_def)
      then have "bucket_cap ?rate / 2 ^ 53 + allowed ?rate ?n (earned ?rate now T) \<le> allowed ?rate (1 + ?n) (0 + earned ?rate now T)"
        unfolding allowed_add [symmetric] by simp
      also have "\<dots> \<le> allowed ?rate (length (f # fs)) (earned ?rate t0 T)"
        by (rule allowed_mono) (simp_all add: \<open>earned ?rate now T \<le> earned ?rate t0 T\<close>)
      finally show ?thesis .
    qed
    ultimately show ?thesis using z k a(1) by simp
  qed
qed

text \<open>Every frame of a run is counted once by the client, and what it did not limit bounds what the mesh saw.\<close>

lemma bridge_counts:
  assumes "wf_mesh m" "bb_inv b" "bridge_run e b m fs = (k, b', m')"
  shows "\<exists>i l r. i + l + r = length fs \<and> i \<le> k \<and> k \<le> i + r \<and> injected b' = injected b + of_nat i \<and>
    limited b' = limited b + of_nat l \<and> rejected b' = rejected b + of_nat r"
  using assms
proof (induction fs arbitrary: b m k)
  case Nil
  then show ?case by simp
next
  case (Cons f fs)
  obtain now body where f: "f = (now, body)" by (cases f)
  obtain b1 m1 where 1: "on_frame e b m now body = (b1, m1)" by fastforce
  define j :: nat where "j = (if injected b1 \<noteq> injected b \<or> m1 \<noteq> m then 1 else 0)"
  obtain k1 where r: "bridge_run e b1 m1 fs = (k1, b', m')" and k: "k = j + k1"
    using Cons.prems(3) 1 by (auto simp: f j_def split: prod.splits)
  have "bb_inv b1" "wf_mesh m1" using frame_ok [OF Cons.prems(2,1) 1] by auto
  from Cons.IH [OF this(2,1) r] obtain i l x where h: "i + l + x = length fs" "i \<le> k1" "k1 \<le> i + x"
    "injected b' = injected b1 + of_nat i" "limited b' = limited b1 + of_nat l" "rejected b' = rejected b1 + of_nat x" by blast
  from Cons.prems(1) 1 show ?case
  proof (cases rule: frame_cases)
    case bad
    then have "j = 0" by (simp add: j_def bb_reject_def)
    then show ?thesis using h k bad
      by (intro exI [of _ i] exI [of _ l] exI [of _ "x + 1"]) (simp add: bb_reject_def)
  next
    case limited
    then have "j = 0" by (simp add: j_def)
    then show ?thesis using h k limited by (intro exI [of _ i] exI [of _ "l + 1"] exI [of _ x]) simp
  next
    case taken
    from taken(6) show ?thesis
    proof (elim disjE conjE)
      assume z: "injected b1 = injected b + 1" "rejected b1 = rejected b"
      then have "j = 1" by (simp add: j_def)
      then show ?thesis using h k z taken(5) by (intro exI [of _ "i + 1"] exI [of _ l] exI [of _ x]) simp
    next
      assume z: "injected b1 = injected b" "rejected b1 = rejected b + 1"
      have "j \<le> 1" by (simp add: j_def)
      then show ?thesis using h k z taken(5) by (intro exI [of _ i] exI [of _ l] exI [of _ "x + 1"]) simp
    qed
  qed
qed

section \<open>Timers\<close>

lemma retry_timer:
  assumes "base_ok b" "retry_later b m now = (b', m')"
  obtains k d where "backoff_s b = int k" "next_try_ms b' = now + of_nat d" "k * 1000 \<le> d" "d \<le> k * 1250"
    "backoff_s b' = min BB_BACKOFF_MAX (2 * backoff_s b)" "bb_state b' = BB_IDLE" "quiet b'"
proof -
  have w: "5 \<le> backoff_s b" "backoff_s b \<le> 300" using assms(1) by (simp_all add: base_ok_def)
  obtain k where k: "backoff_s b = int k" using w(1) zero_le_imp_eq_int [of "backoff_s b"] by auto
  obtain r m1 where r: "mesh_rng 0 (of_nat k * 250) m = (r, m1)" by fastforce
  then have "r = fst (hal_rng_int 0 (of_nat k * 250) (wld m))" by (auto simp: mesh_rng_def split: prod.splits)
  moreover have u: "unat (of_nat k * 250 :: u32) = k * 250"
    using w k by (simp add: unat_word_ariths unat_of_nat)
  ultimately have "r \<le> of_nat k * 250"
    using hal_rng_int_range(2) [of 0 "of_nat k * 250" "wld m"] w k by simp
  with u have rk: "unat r \<le> k * 250" by (simp add: word_le_nat_alt)
  have n: "next_try_ms b' = now + of_nat (k * 1000 + unat r)"
    using assms(2) r k by (auto simp: retry_later_def Let_def add.assoc)
  show thesis
    using assms(2) r k w by (intro that [OF k n]) (use rk in \<open>auto simp: retry_later_def Let_def quiet_def min_def\<close>)
qed

end
