(* ===== verification/Bb_Policy.thy ===== *)
theory Bb_Policy
  imports Bb_Run
begin

text \<open>
  How the client assembles the hub's policy (\<open>on_policy\<close>). The specification forgets the bit mask
  and the sequence numbers: pages of one set arrive in any order and any number of times, the
  first arrival of each counts, and the set is applied when all pages are held. The lemmas are a
  simulation of this by the pages held in \<open>pol_have\<close>.
\<close>

definition page_no :: "bytes \<Rightarrow> nat" where
  "page_no x = unat (x ! 4)"

definition valid_page :: "u32 \<Rightarrow> byte \<Rightarrow> bytes \<Rightarrow> bool" where
  \<comment> \<open>a page of the set \<open>ver\<close> of \<open>n\<close> pages whose entries end where the datagram does\<close>
  "valid_page ver n x \<longleftrightarrow> 6 \<le> length x \<and> rd_u32le x = ver \<and> x ! 5 = n \<and> page_no x \<in> {1..unat n}
     \<and> fst (policy_walk (drop 6 x) None) = 0"

definition add_page :: "mc_policy \<Rightarrow> bytes \<Rightarrow> mc_policy" where
  "add_page p x = the (snd (policy_walk (drop 6 x) (Some p)))"

fun first_pages :: "nat set \<Rightarrow> bytes list \<Rightarrow> bytes list" where
  \<comment> \<open>the first arrival of each page not held yet\<close>
  "first_pages S [] = []"
| "first_pages S (x # xs) =
     (if page_no x \<in> S then first_pages S xs else x # first_pages (insert (page_no x) S) xs)"

fun policy_run :: "mc_backbone \<Rightarrow> mc_mesh \<Rightarrow> (u32 \<times> bytes) list \<Rightarrow> mc_backbone \<times> mc_mesh" where
  "policy_run b m [] = (b, m)"
| "policy_run b m ((q, x) # ps) = (let (b, m) = on_policy b m q x in policy_run b m ps)"

section \<open>The pages held\<close>

lemma bit_page_bit: "bit (page_bit page) i \<longleftrightarrow> i < 16 \<and> i = unat page - 1"
  by (auto simp: page_bit_def bit_simps)

lemma page_bit_exp: "page_bit page = push_bit (unat page - 1) 1"
  by (rule bit_eqI) (auto simp: bit_page_bit bit_simps)

lemma bit_pages_all: "unat n \<le> 16 \<Longrightarrow> bit (pages_all n) i \<longleftrightarrow> i < unat n"
proof -
  assume "unat n \<le> 16"
  moreover have "(push_bit (unat n) 1 - 1 :: u32) = mask (unat n)" by (simp add: mask_eq_exp_minus_1 push_bit_eq_mult)
  ultimately show ?thesis by (auto simp: pages_all_def bit_simps)
qed

definition holds :: "u16 \<Rightarrow> nat set \<Rightarrow> bool" where
  "holds h S \<longleftrightarrow> (\<forall>i. bit h i \<longleftrightarrow> Suc i \<in> S)"

lemma holds_bit: "holds h S \<Longrightarrow> 1 \<le> unat page \<Longrightarrow> unat page \<le> 16 \<Longrightarrow> h AND page_bit page \<noteq> 0 \<longleftrightarrow> unat page \<in> S"
  by (simp add: page_bit_exp and_exp_eq_0_iff_not_bit holds_def)

lemma holds_insert:
  "holds h S \<Longrightarrow> 1 \<le> unat page \<Longrightarrow> unat page \<le> 16 \<Longrightarrow> holds (h OR page_bit page) (insert (unat page) S)"
proof -
  assume "holds h S" and p: "1 \<le> unat page" "unat page \<le> 16"
  moreover have "i < 16 \<and> i = unat page - 1 \<longleftrightarrow> Suc i = unat page" for i using p by arith
  ultimately show ?thesis unfolding holds_def bit_or_iff bit_page_bit insert_iff by metis
qed

lemma holds_all: "holds h S \<Longrightarrow> S \<subseteq> {1..unat n} \<Longrightarrow> unat n \<le> 16 \<Longrightarrow> h = pages_all n \<longleftrightarrow> S = {1..unat n}"
proof -
  assume a: "holds h S" "S \<subseteq> {1..unat n}" "unat n \<le> 16"
  have "h = pages_all n \<longleftrightarrow> (\<forall>i. Suc i \<in> S \<longleftrightarrow> i < unat n)"
    using a(1,3) bit_imp_le_length [of h] by (auto simp: bit_eq_iff bit_pages_all holds_def)
  also have "\<dots> \<longleftrightarrow> S = {1..unat n}" using a(2) by (auto simp: set_eq_iff) (metis Suc_le_D Suc_le_lessD le_zero_eq not_less_eq_eq)
  finally show ?thesis .
qed

lemma policy_add_version: "version (policy_add p k v) = version p"
  by (simp add: policy_add_def Let_def)

lemma walk_version: "p = Some r \<Longrightarrow> version (the (snd (policy_walk en p))) = version r"
proof (induction en p arbitrary: r rule: policy_walk.induct)
  case (1 en p)
  then show ?case by (subst policy_walk.simps) (auto simp: policy_add_version)
qed

lemma add_page_version [simp]: "version (add_page p x) = version p"
  by (simp add: add_page_def walk_version)

section \<open>One page\<close>

definition collecting :: "mc_backbone \<Rightarrow> byte \<Rightarrow> nat set \<Rightarrow> mc_policy \<Rightarrow> bool" where
  \<comment> \<open>the pages \<open>S\<close> of a set are held in \<open>p\<close>\<close>
  "collecting b n S p \<longleftrightarrow> (if S = {} then pol_pages b = 0 else pol_pages b = n \<and> pol b = p \<and> holds (pol_have b) S)"

definition page_in :: "mc_backbone \<Rightarrow> u32 \<Rightarrow> byte \<Rightarrow> u32 \<Rightarrow> bytes \<Rightarrow> mc_backbone" where
  \<comment> \<open>the state after a new page was added\<close>
  "page_in b ver n q x = policy_page q (x ! 4) (drop 6 x) (policy_begin ver n q b)"

lemma policy_page_fields:
  "pol_have (policy_page q k en b) = pol_have b OR page_bit k" "pol_pages (policy_page q k en b) = pol_pages b"
  "pol (policy_page q k en b) = the (snd (policy_walk en (Some (pol b))))"
  by (simp_all add: policy_page_def)

lemma page_step:
  assumes "backbone_policy (cfg m)" "ver \<noteq> 0" "unat n \<le> 16" "valid_page ver n x" "pol_applied_seq b = 0 \<or> pol_applied_seq b \<le> q"
    "collecting b n S p" "S \<subseteq> {1..unat n}" "version p = ver" "S = {} \<longrightarrow> p = empty_policy\<lparr>version := ver\<rparr>"
  shows "on_policy b m q x =
    (if page_no x \<in> S then (b, m)
     else if insert (page_no x) S = {1..unat n} then policy_done (page_in b ver n q x) m
     else (page_in b ver n q x, m))"
    and "page_no x \<notin> S \<Longrightarrow> collecting (page_in b ver n q x) n (insert (page_no x) S) (add_page p x)"
proof -
  have v: "\<not> length x < 6" "rd_u32le x = ver" "x ! 5 = n" "1 \<le> page_no x" "page_no x \<le> unat n" "fst (policy_walk (drop 6 x) None) = 0"
    using assms(4) by (auto simp: valid_page_def)
  have n: "n \<noteq> 0" "\<not> 16 < n" using v(4,5) assms(3) by (auto simp: word_less_nat_alt)
  have x4: "x ! 4 \<noteq> 0" "\<not> n < x ! 4" using v(4,5) by (auto simp: page_no_def word_less_nat_alt)
  have r: "1 \<le> unat (x ! 4)" "unat (x ! 4) \<le> 16" using v(4,5) assms(3) by (simp_all add: page_no_def)
  let ?b = "policy_begin ver n q b"
  have held: "S = {} \<and> pol_pages b = 0 \<or> S \<noteq> {} \<and> pol_pages b = n \<and> pol b = p \<and> holds (pol_have b) S"
    using assms(6) unfolding collecting_def by argo
  then consider (empty) "S = {}" "pol_pages b = 0" | (some) "S \<noteq> {}" "pol_pages b = n" "pol b = p" "holds (pol_have b) S" by blast
  then have "(pol ?b = p \<and> holds (pol_have ?b) S \<and> pol_pages ?b = n) \<and> (S \<noteq> {} \<longrightarrow> ?b = b) \<and>
    \<not> (pol_pages b \<noteq> 0 \<and> (rd_u32le x \<noteq> version (pol b) \<or> x ! 5 \<noteq> pol_pages b))"
  proof cases
    case empty
    have "pol ?b = p \<and> holds (pol_have ?b) S \<and> pol_pages ?b = n"
      unfolding empty(1) using empty(2) assms(9) [rule_format, OF empty(1)] by (simp add: policy_begin_def holds_def)
    with empty show ?thesis by blast
  next
    case some
    then have "?b = b" using n(1) unfolding policy_begin_def by argo
    then show ?thesis using some v(2,3) assms(8) by argo
  qed
  then have pb: "pol ?b = p \<and> holds (pol_have ?b) S \<and> pol_pages ?b = n" and same: "S \<noteq> {} \<longrightarrow> ?b = b"
    and other: "\<not> (pol_pages b \<noteq> 0 \<and> (rd_u32le x \<noteq> version (pol b) \<or> x ! 5 \<noteq> pol_pages b))" by blast+
  have bit: "pol_have ?b AND page_bit (x ! 4) \<noteq> 0 \<longleftrightarrow> page_no x \<in> S" unfolding page_no_def by (rule holds_bit [OF pb [THEN conjunct2, THEN conjunct1] r])
  have have': "holds (pol_have ?b OR page_bit (x ! 4)) (insert (page_no x) S)" unfolding page_no_def by (rule holds_insert [OF pb [THEN conjunct2, THEN conjunct1] r])
  have all: "pol_have ?b OR page_bit (x ! 4) = pages_all n \<longleftrightarrow> insert (page_no x) S = {1..unat n}"
    using v(4,5) assms(7) by (intro holds_all [OF have' _ assms(3)]) auto
  have applied: "\<not> (pol_applied_seq b \<noteq> 0 \<and> q < pol_applied_seq b)" using assms(5) by auto
  have bad: "\<not> (ver = 0 \<or> n = 0 \<or> 16 < n \<or> x ! 4 = 0 \<or> n < x ! 4 \<or> fst (policy_walk (drop 6 x) None) \<noteq> 0)"
    using v n x4 assms(2) by blast
  have other': "\<not> ((pol_pages b \<noteq> 0 \<and> (ver \<noteq> version (pol b) \<or> n \<noteq> pol_pages b)) \<and> q \<le> pol_max_seq b)"
    using other unfolding v(2,3) by blast
  have on: "\<not> \<not> backbone_policy (cfg m)" using assms(1) by simp
  have "on_policy b m q x = (if pol_have ?b AND page_bit (x ! 4) \<noteq> 0 then (?b, m)
      else if pol_have ?b OR page_bit (x ! 4) \<noteq> pages_all n then (page_in b ver n q x, m) else policy_done (page_in b ver n q x) m)"
    unfolding on_policy_def Let_def v(2,3) page_in_def policy_page_fields if_not_P [OF on] if_not_P [OF v(1)] if_not_P [OF bad]
      if_not_P [OF applied] if_not_P [OF other'] if_not_P [OF other [unfolded v(2,3)]] by (rule refl)
  also have "\<dots> = (if page_no x \<in> S then (b, m)
     else if insert (page_no x) S = {1..unat n} then policy_done (page_in b ver n q x) m
     else (page_in b ver n q x, m))" unfolding bit all using same by (cases "page_no x \<in> S"; cases "insert (page_no x) S = {1..unat n}") (auto simp only: if_True if_False simp_thms)
  finally show "on_policy b m q x = \<dots>" .
  show "collecting (page_in b ver n q x) n (insert (page_no x) S) (add_page p x)" if "page_no x \<notin> S"
    using pb have' by (simp add: collecting_def page_in_def policy_page_fields add_page_def)
qed

section \<open>A set of pages\<close>

lemma page_in_keeps [simp]:
  "pol_applied_seq (page_in b ver n q x) = pol_applied_seq b" "bb_net (page_in b ver n q x) = bb_net b"
  by (simp_all add: page_in_def policy_page_def policy_begin_def)

lemma done_applies:
  assumes "version (pol b) \<noteq> version (policy (cfg m))" "policy_done b m = (b', m')"
  shows "cfg m' = config_set_policy (cfg m) (pol b) (Some (pub (ident m)))"
    "n_out (bb_net b') = n_out (bb_net b) @ [KeptFile (backbone_policy_file (cfg m')) (config_policy_save (cfg m'))]"
  using assms by (auto simp: policy_done_def Let_def bb_status_soon_def bb_do_def net_do_def)

lemma done_skips:
  assumes "version (pol b) = version (policy (cfg m))" "policy_done b m = (b', m')"
  shows "cfg m' = cfg m" "n_out (bb_net b') = n_out (bb_net b)"
  using assms by (auto simp: policy_done_def Let_def bb_status_soon_def)

definition pages_of :: "(u32 \<times> bytes) list \<Rightarrow> nat set" where
  "pages_of ps = page_no ` snd ` set ps"

lemma pages_of_simps [simp]: "pages_of [] = {}" "pages_of (f # ps) = insert (page_no (snd f)) (pages_of ps)"
  by (simp_all add: pages_of_def)

definition set_applied :: "mc_backbone \<Rightarrow> mc_mesh \<Rightarrow> mc_policy \<Rightarrow> mc_backbone \<times> mc_mesh \<Rightarrow> bool" where
  \<comment> \<open>the set is merged into the configuration and written to the policy file\<close>
  "set_applied b m p r \<longleftrightarrow> cfg (snd r) = config_set_policy (cfg m) p (Some (pub (ident m))) \<and>
     n_out (bb_net (fst r)) = n_out (bb_net b) @
       [KeptFile (backbone_policy_file (cfg (snd r))) (config_policy_save (cfg (snd r)))]"

lemma run_collects:
  assumes "ver \<noteq> 0" "unat n \<le> 16" "backbone_policy (cfg m)"
    "\<forall>f \<in> set ps. valid_page ver n (snd f) \<and> (pol_applied_seq b = 0 \<or> pol_applied_seq b \<le> fst f)"
    "collecting b n S p" "S \<subset> {1..unat n}" "version p = ver" "S = {} \<longrightarrow> p = empty_policy\<lparr>version := ver\<rparr>"
    "S \<union> pages_of (butlast ps) \<noteq> {1..unat n}"
  shows "if S \<union> pages_of ps = {1..unat n} \<and> version (policy (cfg m)) \<noteq> ver
    then set_applied b m (foldl add_page p (first_pages S (map snd ps))) (policy_run b m ps)
    else cfg (snd (policy_run b m ps)) = cfg m \<and> n_out (bb_net (fst (policy_run b m ps))) = n_out (bb_net b)"
  using assms
proof (induction ps arbitrary: b S p)
  case Nil
  then show ?case by auto
next
  case (Cons f ps)
  obtain q x where f: "f = (q, x)" by (cases f)
  have vx: "valid_page ver n x" "pol_applied_seq b = 0 \<or> pol_applied_seq b \<le> q" using Cons.prems(4) by (simp_all add: f)
  then have x: "page_no x \<in> {1..unat n}" by (simp add: valid_page_def)
  note st = page_step [OF Cons.prems(3,1,2) vx Cons.prems(5) psubset_imp_subset [OF Cons.prems(6)] Cons.prems(7,8)]
  have tl: "S \<union> pages_of (butlast (f # ps)) = (if ps = [] then S else insert (page_no x) (S \<union> pages_of (butlast ps)))"
    by (auto simp: f)
  show ?case
  proof (cases "page_no x \<in> S")
    case True
    have "S \<union> pages_of (butlast ps) \<noteq> {1..unat n}"
      using Cons.prems(6,9) True tl by (cases "ps = []") (auto simp: insert_absorb)
    then have "if S \<union> pages_of ps = {1..unat n} \<and> version (policy (cfg m)) \<noteq> ver
        then set_applied b m (foldl add_page p (first_pages S (map snd ps))) (policy_run b m ps)
        else cfg (snd (policy_run b m ps)) = cfg m \<and> n_out (bb_net (fst (policy_run b m ps))) = n_out (bb_net b)"
      using Cons.prems by (intro Cons.IH) simp_all
    moreover have "S \<union> pages_of (f # ps) = S \<union> pages_of ps" using True by (auto simp: f)
    ultimately show ?thesis using st(1) True by (simp add: f)
  next
    case new: False
    show ?thesis
    proof (cases "insert (page_no x) S = {1..unat n}")
      case True
      have "ps = []"
      proof (rule ccontr)
        assume "ps \<noteq> []"
        moreover have "pages_of (butlast ps) \<subseteq> {1..unat n}"
        proof (clarsimp simp only: pages_of_def)
          fix g h assume "(g, h) \<in> set (butlast ps)"
          then have "(g, h) \<in> set (f # ps)" by (auto dest: in_set_butlastD)
          with Cons.prems(4) have "valid_page ver n h" by fastforce
          then show "page_no (snd (g, h)) \<in> {1..unat n}" by (simp add: valid_page_def)
        qed
        ultimately show False using Cons.prems(9) tl True by auto
      qed
      moreover obtain b1 m1 where d: "policy_done (page_in b ver n q x) m = (b1, m1)" by fastforce
      have v: "version (pol (page_in b ver n q x)) = ver" "pol (page_in b ver n q x) = add_page p x"
        using st(2) [OF new] Cons.prems(7) by (simp_all add: collecting_def)
      ultimately show ?thesis
        using st(1) new True done_applies [OF _ d] done_skips [OF _ d]
        by (cases "version (policy (cfg m)) = ver") (simp_all add: f set_applied_def d)
    next
      case False
      let ?b = "page_in b ver n q x"
      have "insert (page_no x) S \<union> pages_of (butlast ps) \<noteq> {1..unat n}"
        using Cons.prems(9) tl False by (cases "ps = []") simp_all
      then have "if insert (page_no x) S \<union> pages_of ps = {1..unat n} \<and> version (policy (cfg m)) \<noteq> ver
          then set_applied ?b m (foldl add_page (add_page p x) (first_pages (insert (page_no x) S) (map snd ps))) (policy_run ?b m ps)
          else cfg (snd (policy_run ?b m ps)) = cfg m \<and> n_out (bb_net (fst (policy_run ?b m ps))) = n_out (bb_net ?b)"
        using Cons.prems(1-4,6,7) x False st(2) [OF new] by (intro Cons.IH) (simp_all add: psubset_eq)
      moreover have "insert (page_no x) S \<union> pages_of ps = S \<union> pages_of (f # ps)" by (simp add: f)
      ultimately show ?thesis using st(1) new False by (simp add: f set_applied_def split: if_splits)
    qed
  qed
qed

end
