(* ===== verification/Bb_Props.thy ===== *)
theory Bb_Props
  imports Bb_Policy Mesh_Props
begin

text \<open>
  The properties of the split link, the backbone client and the policy file. The instances use the
  example node of \<open>Mesh_Props\<close> with a hub that has its key pair, a key exchange over XOR and a
  system whose socket calls succeed.
\<close>

section \<open>The example client\<close>

definition demo_net :: net where
  "demo_net = \<lparr>n_recv = \<lambda>_. Inl 11, n_recv_i = 0, n_send = \<lambda>_. True, n_send_i = 0, n_ret = \<lambda>_. 7, n_ret_i = 0,
     n_addr = \<lambda>_. None, n_addr_i = 0, n_rand = \<lambda>_. replicate 32 1, n_rand_i = 0, n_out = []\<rparr>"

definition demo_point :: "bytes \<Rightarrow> bytes" where
  "demo_point x = take 32 (x @ replicate 32 0)"

definition demo_env :: bb_env where
  "demo_env = \<lparr>e_sign = \<lambda>m sk. sk @ m, e_open = demo_open, e_base = demo_point,
     e_mult = \<lambda>x y. map2 (XOR) (demo_point x) (demo_point y), e_version = []\<rparr>"

definition demo_link_up :: mc_backbone where
  \<comment> \<open>a client that has a socket and is about to send its HELLO\<close>
  "demo_link_up = (zero_backbone False demo_net)\<lparr>bb_fd := 7, hub_pub := replicate 32 5, roles_asked := 3\<rparr>"

definition demo_session :: mc_backbone where
  \<comment> \<open>an established session in which the hub's datagram 1 was received\<close>
  "demo_session = (zero_backbone False demo_net)\<lparr>bb_fd := 7, hub_pub := replicate 32 5, roles_asked := 3,
     bb_state := BB_UP, bb_sid := 9, bb_roles := 3, k_up := replicate 32 1, k_down := replicate 32 2,
     keepalive_s := 25, status_s := 60, neighbours_s := 300, rwin := snd (bb_replay_check zero_replay 1)\<rparr>"

lemma demo_session_fields:
  "bb_state demo_session = BB_UP" "bb_sid demo_session = 9" "bb_roles demo_session = 3" "bb_fd demo_session = 7"
  "k_down demo_session = replicate 32 2" "rwin demo_session = snd (bb_replay_check zero_replay 1)"
  "bb_mesh demo_session = False" "tokens demo_session = 0" "backoff_s demo_session = 5" "last_rx_ms demo_session = 0"
  "bb_net demo_session = demo_net"
  by (simp_all add: demo_session_def zero_backbone_def)

lemma demo_session_inv: "bb_inv demo_session"
proof -
  have "\<exists>A. window_rel (rwin demo_session) A"
    unfolding demo_session_fields using window_step(2) [OF window_rel_init] by blast
  then show ?thesis
    using empty_pol by (simp add: inv_defs demo_session_def zero_backbone_def)
qed

lemma demo_link_inv: "connecting demo_link_up"
  using window_rel_init empty_pol by (auto simp: inv_defs demo_link_up_def zero_backbone_def)

lemma demo_hub_signs: "sign_correct (\<lambda>m sk. sk @ m) demo_open demo_self"
  by (simp add: sign_correct_def demo_open_def demo_self_def)

section \<open>What a datagram may do\<close>

text \<open>C11: A datagram that is neither a WELCOME signed by the pinned hub key for the HELLO in flight, nor a
  RESET it signed for this session and a recent number, nor a session datagram sealed under the
  session key with a number not used before, only counts as rejected: the client's state and the
  mesh stay what they were.\<close>

theorem forged_datagrams:
  assumes "on_datagram e b m now d = (b', m')" "\<not> welcome_genuine e b d"
    "\<not> reset_genuine e b (fst (mesh_time m)) d" "\<not> session_genuine b d"
  shows "b' = bb_reject b \<and> only_world m m'"
  using assms(1)
proof (cases rule: datagram_cases)
  case 1
  then show ?thesis by simp
next
  case 2
  from 2(2) have "b' = bb_reject b" using assms(2) by (auto simp: on_welcome_def welcome_genuine_def split: sum.splits)
  with 2(3) show ?thesis by simp
next
  case 3
  from 3(2) show ?thesis by (cases rule: reset_cases) (use assms(3) only_world_prims(2) in auto)
next
  case 4
  from 4(2,1) show ?thesis by (cases rule: session_cases) (use assms(4) in auto)
qed

text \<open>The instance is the replay of a datagram the client has received.\<close>

theorem forged_datagrams_witness:
  "\<exists>d. bb_seal BB_MAX_DGRAM BB_T_BYE_DOWN 9 1 [] (replicate 32 2) = Some d \<and>
     fst (on_datagram demo_env demo_session demo_mesh 1000 d) = bb_reject demo_session"
proof -
  obtain d where d: "bb_seal BB_MAX_DGRAM BB_T_BYE_DOWN 9 1 [] (replicate 32 2) = Some d"
    by (simp add: bb_seal_def Let_def)
  have "\<not> session_genuine demo_session d"
  proof
    assume "session_genuine demo_session d"
    then obtain t q body where s: "bb_seal BB_MAX_DGRAM t 9 q body (replicate 32 2) = Some d" "\<not> rp_taken (rwin demo_session) q"
      by (auto simp: session_genuine_def demo_session_fields)
    have "q = 1" using open_seal [OF d] open_seal [OF s(1)] by simp
    moreover have "rp_taken (rwin demo_session) 1" unfolding demo_session_fields by (rule replay.after_admit) simp
    ultimately show False using s(2) by simp
  qed
  moreover have "length d = 28" using seal_length [OF d] by simp
  then have "\<not> reset_genuine demo_env demo_session t d" for t
    by (auto simp: reset_genuine_def dest: check_reset_fields)
  moreover have "\<not> welcome_genuine demo_env demo_session d" by (simp add: welcome_genuine_def demo_session_fields)
  moreover obtain b' m' where r: "on_datagram demo_env demo_session demo_mesh 1000 d = (b', m')" by fastforce
  ultimately have "b' = bb_reject demo_session" using forged_datagrams [OF r] by simp
  with r d show ?thesis by simp
qed

text \<open>C23: \<open>bb_open\<close> yields exactly what was sealed: a datagram of at most 1200 bytes opens under a key to a
  type, session, number and body if and only if sealing them under that key gives that datagram.\<close>

theorem session_datagram_codec:
  "bb_seal BB_MAX_DGRAM t s q body key = Some d \<longleftrightarrow>
     length d \<le> BB_MAX_DGRAM \<and> bb_open d key = Inr (t, s, q, body)"
  using open_seal [of BB_MAX_DGRAM t s q body key d] seal_open [of d key t s q body BB_MAX_DGRAM]
    seal_length [of BB_MAX_DGRAM t s q body key d] by metis

section \<open>The replay window\<close>

primrec replay_run :: "bb_replay \<Rightarrow> u32 list \<Rightarrow> bool list" where
  \<comment> \<open>which of a list of numbers the window lets pass\<close>
  "replay_run w [] = []"
| "replay_run w (q # qs) = (let (ok, w') = bb_replay_check w q in ok # replay_run w' qs)"

lemma replay_run_eq: "replay_run w qs = fst (replay.run w qs)"
  by (induction qs arbitrary: w) (simp_all add: split_beta Let_def)

text \<open>C14: From an empty window the numbers that pass are exactly those that are new, non-zero and less than
  64 behind the highest number that passed before; in particular none passes twice.\<close>

theorem replay_window:
  "replay_run zero_replay qs = window_run {} qs \<and>
   (\<forall>i j. \<not> (i < j \<and> j < length qs \<and> qs ! i = qs ! j \<and> replay_run zero_replay qs ! i \<and> replay_run zero_replay qs ! j))"
  using replay_run_spec [OF window_rel_init, of qs] replay.admitted_once [where s = zero_replay and ks = qs]
  by (auto simp: replay_run_eq)

section \<open>The handshake\<close>

text \<open>C12: A hub that reads the ephemeral key from the node's HELLO and answers with its WELCOME ends up with
  the keys the node derives: the node is up with the session, roles and keys of the hub, has
  erased its ephemeral secret, and the first datagram it sends is a KEEPALIVE numbered 1 that
  opens under the hub's key.\<close>

theorem handshake_agreement:
  assumes "connecting b0" "length (pub (ident m)) = 32" "send_hello e b0 m now0 = (b, m1)" "bb_state b = BB_HELLO_SENT"
    and dh: "\<And>x. length (e_base e x) = 32" "\<And>x y. e_mult e x (e_base e y) = e_mult e y (e_base e x)"
    and srv: "hub_pub b0 = pub srv" "sign_correct cs (e_open e) srv"
      "bb_build_welcome cs cap srv w (sha256_buf (hello b) []) = Some d" "wl_eph_pub w = e_base e hs"
      "wl_sid w \<noteq> 0" "wl_roles w AND NOT (roles_asked b0) = 0"
      "bb_derive_keys (e_mult e hs (bslice 42 32 (hello b))) (hello b) d = Some (ku, kd)"
    and got: "on_datagram e b m2 now d = (b', m')"
  shows "bb_state b' = BB_UP \<and> bb_sid b' = wl_sid w \<and> bb_roles b' = wl_roles w \<and> k_up b' = ku \<and> k_down b' = kd \<and>
    eph_sec b' = replicate 32 0 \<and>
    (\<exists>f es. n_out (bb_net b') = n_out (bb_net b) @ Sent (bb_fd b) f # es \<and> bb_open f ku = Inr (BB_T_KEEPALIVE, wl_sid w, 1, []))"
proof -
  note h = hello_sent [OF assms(1,3,4,2) dh(1)]
  have len: "length (wl_eph_pub w) = 32" "length (hello_hash b) = 32" using dh(1) srv(4) h(2) by simp_all
  have w: "bb_check_welcome (e_open e) d (hub_pub b) (hello_hash b) (roles_asked b) = Inr w"
    unfolding h(4,5) srv(1) by (rule check_welcome_build [OF srv(2) srv(3) [folded h(2)] len srv(5,6)])
  have k: "bb_derive_keys (e_mult e (eph_sec b) (wl_eph_pub w)) (hello b) d = Some (ku, kd)"
    using srv(7) dh(2) [of hs "eph_sec b"] by (simp add: h(3) srv(4))
  have b': "b' = on_welcome e b m2 now d"
    using got welcome_datagram [OF srv(3) [folded h(2)] srv(2) len, of e b m2 now] by (metis prod.inject)
  from welcome_session [OF w k h(1) assms(4), of now m2] have
    s: "bb_inv b'" "bb_state b' = BB_UP" "bb_sid b' = wl_sid w" "bb_roles b' = wl_roles w" "k_up b' = ku" "k_down b' = kd"
    unfolding b' by metis+
  moreover have "eph_sec b' = replicate 32 0" using s(1,2) by (simp add: inv_defs)
  ultimately show ?thesis using welcome_sends [OF w k h(1) assms(4), of m2 now] by (simp add: b')
qed

lemma length_demo_point [simp]: "length (demo_point x) = 32"
  by (simp add: demo_point_def)

lemma demo_point_again: "demo_point (demo_point x) = demo_point x"
  using length_demo_point [of x] by (simp add: demo_point_def [of "demo_point x"] del: length_demo_point)

lemma map2_xor_comm: "map2 (XOR) xs ys = map2 (XOR) ys (xs :: bytes)"
  by (induction xs ys rule: list_induct2') (simp_all add: xor.commute)

lemma demo_derives:
  "bb_derive_keys (e_mult demo_env (replicate 32 2) (demo_point (replicate 32 1))) h d \<noteq> None"
proof
  assume "bb_derive_keys (e_mult demo_env (replicate 32 2) (demo_point (replicate 32 1))) h d = None"
  then have "\<forall>x \<in> set (replicate 32 (2 XOR 1 :: byte)). x = 0"
    unfolding derive_keys_None by (simp add: demo_env_def demo_point_def map2_map_map flip: replicate_add)
  then show False by simp
qed

theorem handshake_agreement_witness:
  "\<exists>b m1 d b' m'. send_hello demo_env demo_link_up demo_mesh 0 = (b, m1) \<and>
     on_datagram demo_env b m1 5 d = (b', m') \<and> bb_state b' = BB_UP"
proof -
  obtain b m1 where h: "send_hello demo_env demo_link_up demo_mesh 0 = (b, m1)" by fastforce
  have up: "bb_state b = BB_HELLO_SENT" "eph_sec b = replicate 32 1"
    using h
    by (auto simp: send_hello_def demo_link_up_def zero_backbone_def demo_net_def net_random_def Let_def demo_env_def
        mesh_time_def time_now_def bb_build_hello_def sign_ctx_def mc_identity_sign_def demo_fields demo_self_def
        send_raw_def net_send_def net_do_def demo_point_def config_defaults_def put_hdr_def split: prod.splits if_splits)
  have pb: "length (pub (ident demo_mesh)) = 32" by (simp add: demo_fields) (simp add: demo_self_def)
  let ?w = "\<lparr>wl_roles = 3, wl_ts = 0, wl_sid = 9, wl_eph_pub = e_base demo_env (replicate 32 2), wl_keepalive_s = 25,
     wl_status_s = 60, wl_neighbours_s = 300\<rparr>"
  have b: "length (e_base demo_env x) = 32" "e_mult demo_env x (e_base demo_env y) = e_mult demo_env y (e_base demo_env x)" for x y
    by (simp_all add: demo_env_def demo_point_again map2_xor_comm [of "demo_point x"])
  have hub: "sign_correct (\<lambda>m sk. sk @ m) (e_open demo_env) demo_self" by (simp add: demo_env_def demo_hub_signs)
  obtain d where d: "bb_build_welcome (\<lambda>m sk. sk @ m) 148 demo_self ?w (sha256_buf (hello b) []) = Some d"
    by (simp add: bb_build_welcome_def sign_ctx_def mc_identity_sign_def welcome_msg_def put_hdr_def demo_env_def demo_point_def demo_self_def)
  have "bslice 42 32 (hello b) = demo_point (replicate 32 1)"
    using hello_sent(3) [OF demo_link_inv h up(1) pb b(1)] by (simp add: demo_env_def up(2))
  then obtain ku kd where k: "bb_derive_keys (e_mult demo_env (replicate 32 2) (bslice 42 32 (hello b))) (hello b) d = Some (ku, kd)"
    using demo_derives by fastforce
  obtain b' m' where g: "on_datagram demo_env b m1 5 d = (b', m')" by fastforce
  have "bb_state b' = BB_UP"
    using handshake_agreement [OF demo_link_inv pb h up(1) b _ hub d _ _ _ k g]
    by (simp add: demo_link_up_def) (simp add: demo_self_def)
  with h g show ?thesis by blast
qed

end
