(* ===== verification/Link.thy ===== *)
theory Link
  imports Net Hmac
begin

text \<open>
  \<^verbatim>\<open>link.h\<close> and \<^verbatim>\<open>link.c\<close>: the split of a repeater into receiving nodes and one transmitting
  node over UDP. A received frame travels as one datagram \<open>version, time, rssi, snr, length,
  frame\<close> followed by the first eight bytes of an HMAC under the shared key. \<open>link_datagram\<close> is
  what \<open>link_relay\<close> writes and \<open>link_check\<close> the tests of \<open>link_recv\<close> in their order; the lemmas
  characterise the accepted datagrams.
\<close>

abbreviation (input) "LINK_VER \<equiv> 1 :: byte"
abbreviation (input) "LINK_HDR \<equiv> 10 :: nat"
abbreviation (input) "LINK_MAC \<equiv> 8 :: nat"
abbreviation (input) "LINK_MAX_FRAME \<equiv> 512 :: nat"
abbreviation (input) "LINK_TS_WINDOW \<equiv> 60 :: u32"
abbreviation (input) "EAGAIN \<equiv> 11 :: int"

datatype link_mode = LINK_OFF | LINK_RX | LINK_TX

record mc_link =
  lk_mode :: link_mode
  lk_fd :: int
  lk_peer :: bytes
  lk_key :: bytes
  frames_out :: u64
  frames_in :: u64
  frames_bad :: u64

section \<open>Setting up and closing\<close>

definition parse_mode :: "bytes \<Rightarrow> link_mode" where
  "parse_mode s =
     (if strcaseeq s (lit ''rx'') then LINK_RX
      else if strcaseeq s (lit ''tx'') then LINK_TX
      else LINK_OFF)"

definition zero_link :: mc_link where
  "zero_link = \<lparr>lk_mode = LINK_OFF, lk_fd = -1, lk_peer = replicate 16 0, lk_key = replicate 32 0,
     frames_out = 0, frames_in = 0, frames_bad = 0\<rparr>"

definition link_key_of :: "bytes \<Rightarrow> bytes" where
  "link_key_of k = sha256_final (sha256_update (sha256_init (replicate 64 0)) k)"

definition link_fail :: "mc_link \<Rightarrow> net \<Rightarrow> int \<times> mc_link \<times> net" where
  \<comment> \<open>the error exits after the socket exists\<close>
  "link_fail lk n = (-1, lk\<lparr>lk_fd := -1, lk_mode := LINK_OFF\<rparr>, net_do (Closed (lk_fd lk)) n)"

definition link_init :: "mc_config \<Rightarrow> net \<Rightarrow> int \<times> mc_link \<times> net" where
  "link_init c n =
     (let lc = link c; lk = zero_link\<lparr>lk_mode := parse_mode (link_mode lc)\<rparr> in
      if lk_mode lk = LINK_OFF then (0, lk, n)
      else if link_key lc = [] then (-1, lk\<lparr>lk_mode := LINK_OFF\<rparr>, n)
      else
        let lk = lk\<lparr>lk_key := link_key_of (link_key lc)\<rparr>;
            (fd, n) = net_ret n;
            lk = lk\<lparr>lk_fd := fd\<rparr> in
        if fd < 0 then (-1, lk\<lparr>lk_mode := LINK_OFF\<rparr>, n)
        else if lk_mode lk = LINK_TX then
          (let (rc, n) = net_ret (net_do (Bound fd (unat (link_port lc))) n) in
           if rc \<noteq> 0 then link_fail lk n else (0, lk, n))
        else if link_peer lc = [] then link_fail lk n
        else
          (let (rc, n) = net_ret n; (a, n) = (if rc \<noteq> 0 then (None, n) else net_addr n) in
           case a of
             None \<Rightarrow> link_fail lk n
           | Some sa \<Rightarrow> (0, lk\<lparr>lk_peer := sa\<rparr>, n)))"

definition link_close :: "mc_link \<Rightarrow> net \<Rightarrow> mc_link \<times> net" where
  "link_close lk n =
     (lk\<lparr>lk_fd := -1, lk_mode := LINK_OFF\<rparr>,
      if 0 \<le> lk_fd lk then net_do (Closed (lk_fd lk)) n else n)"

definition link_pollfd :: "mc_link \<Rightarrow> int" where
  "link_pollfd lk = (if lk_mode lk = LINK_TX then lk_fd lk else -1)"

section \<open>One datagram\<close>

definition link_body :: "u32 \<Rightarrow> int \<Rightarrow> int \<Rightarrow> bytes \<Rightarrow> bytes" where
  "link_body ts rssi snr frame =
     LINK_VER # wr_u32le ts @ wr_u16le (word_of_int rssi) @ [word_of_int snr]
       @ wr_u16le (of_nat (length frame)) @ frame"

definition link_datagram :: "bytes \<Rightarrow> u32 \<Rightarrow> int \<Rightarrow> int \<Rightarrow> bytes \<Rightarrow> bytes" where
  "link_datagram key ts rssi snr frame =
     (let d = link_body ts rssi snr frame in d @ take LINK_MAC (hmac_sha256 key d))"

definition link_relay ::
    "mc_link \<Rightarrow> bytes \<Rightarrow> int \<Rightarrow> int \<Rightarrow> world \<Rightarrow> net \<Rightarrow> mc_link \<times> world \<times> net" where
  "link_relay lk frame rssi snr w n =
     (if lk_mode lk \<noteq> LINK_RX \<or> lk_fd lk < 0 \<or> frame = [] \<or> LINK_MAX_FRAME < length frame
      then (lk, w, n)
      else
        let (t, w) = time_now w;
            (ok, n) = net_send (lk_fd lk) (link_datagram (lk_key lk) (of_nat t) rssi snr frame) n
        in (if ok then lk\<lparr>frames_out := frames_out lk + 1\<rparr> else lk, w, n))"

definition link_check :: "bytes \<Rightarrow> nat \<Rightarrow> bytes \<Rightarrow> bool" where
  \<comment> \<open>the tests on the bytes of a datagram: length, version, length field and MAC\<close>
  "link_check key cap d =
     (let flen = unat (rd_u16le (drop 8 d)) in
      LINK_HDR + LINK_MAC \<le> length d \<and> d ! 0 = LINK_VER
      \<and> length d = LINK_HDR + flen + LINK_MAC \<and> flen \<le> cap
      \<and> take LINK_MAC (hmac_sha256 key (take (LINK_HDR + flen) d))
          = bslice (LINK_HDR + flen) LINK_MAC d)"

definition ts_fresh :: "u32 \<Rightarrow> u32 \<Rightarrow> bool" where
  "ts_fresh now ts = ((if ts < now then now - ts else ts - now) \<le> LINK_TS_WINDOW)"

definition link_recv ::
    "mc_link \<Rightarrow> nat \<Rightarrow> world \<Rightarrow> net \<Rightarrow> int \<times> (bytes \<times> int \<times> int) option \<times> mc_link \<times> world \<times> net" where
  "link_recv lk cap w n =
     (if lk_mode lk \<noteq> LINK_TX \<or> lk_fd lk < 0 then (0, None, lk, w, n)
      else
        let (r, n) = net_recv (LINK_HDR + LINK_MAX_FRAME + LINK_MAC) n;
            bad = lk\<lparr>frames_bad := frames_bad lk + 1\<rparr> in
        case r of
          Inl errno \<Rightarrow> (if errno = EAGAIN then 0 else -1, None, lk, w, n)
        | Inr d \<Rightarrow>
            if \<not> link_check (lk_key lk) cap d then (0, None, bad, w, n)
            else
              let (t, w) = time_now w in
              if \<not> ts_fresh (of_nat t) (rd_u32le (drop 1 d)) then (0, None, bad, w, n)
              else (1, Some (bslice LINK_HDR (unat (rd_u16le (drop 8 d))) d,
                             sint (rd_u16le (drop 5 d)), sint (d ! 7)),
                    lk\<lparr>frames_in := frames_in lk + 1\<rparr>, w, n))"

section \<open>What is on the wire\<close>

lemma length_link_body [simp]: "length (link_body ts rssi snr f) = 10 + length f"
  by (simp add: link_body_def)

lemma length_link_datagram [simp]: "length (link_datagram key ts rssi snr f) = 18 + length f"
  by (simp add: link_datagram_def Let_def hmac.length_tag)

lemma link_fields:
  "link_datagram key ts rssi snr f ! 0 = LINK_VER"
  "rd_u32le (drop 1 (link_datagram key ts rssi snr f)) = ts"
  "rd_u16le (drop 5 (link_datagram key ts rssi snr f)) = word_of_int rssi"
  "link_datagram key ts rssi snr f ! 7 = word_of_int snr"
  "rd_u16le (drop 8 (link_datagram key ts rssi snr f)) = of_nat (length f)"
  "drop 10 (link_datagram key ts rssi snr f) = f @ take 8 (hmac_sha256 key (link_body ts rssi snr f))"
  by (simp_all add: link_datagram_def link_body_def Let_def drop_Cons' nth_append nth_Cons')

lemma take_link_datagram:
  "take (10 + length f) (link_datagram key ts rssi snr f) = link_body ts rssi snr f"
  by (simp add: link_datagram_def Let_def)

lemma tag_link_datagram:
  "bslice (10 + length f) 8 (link_datagram key ts rssi snr f)
     = take 8 (hmac_sha256 key (link_body ts rssi snr f))"
  using hmac.tag_at_end [of 8 "link_body ts rssi snr f" key]
  by (simp add: link_datagram_def Let_def)

lemma link_check_datagram:
  assumes "length f \<le> cap" "length f < 65536"
  shows "link_check key cap (link_datagram key ts rssi snr f)"
  using assms unfolding link_check_def Let_def link_fields
  by (simp add: take_link_datagram tag_link_datagram unat_of_nat)

lemma split_header10:
  assumes "10 \<le> length (d :: bytes)"
  shows "d = d ! 0 # wr_u32le (rd_u32le (drop 1 d)) @ wr_u16le (rd_u16le (drop 5 d))
             @ [d ! 7] @ wr_u16le (rd_u16le (drop 8 d)) @ drop 10 d"
proof -
  have "d = d ! 0 # drop 1 d" using assms by (cases d) simp_all
  also have "drop 1 d = bslice 1 4 d @ drop 5 d" using slice_drop_join [of 1 4 d] by simp
  also have "drop 5 d = bslice 5 2 d @ drop 7 d" using slice_drop_join [of 5 2 d] by simp
  also have "drop 7 d = [d ! 7] @ drop 8 d" using assms Cons_nth_drop_Suc [of 7 d] by simp
  also have "drop 8 d = bslice 8 2 d @ drop 10 d" using slice_drop_join [of 8 2 d] by simp
  finally show ?thesis using assms by (simp add: wr_rd_at16 wr_rd_at32)
qed

lemma take_link_header:
  assumes "10 + k \<le> length d" "d ! 0 = LINK_VER" "k = unat (rd_u16le (drop 8 d))"
  shows "take (10 + k) d = link_body (rd_u32le (drop 1 d)) (sint (rd_u16le (drop 5 d))) (sint (d ! 7)) (bslice 10 k d)"
proof -
  have "take (10 + k) d = take (10 + k) (d ! 0 # wr_u32le (rd_u32le (drop 1 d)) @ wr_u16le (rd_u16le (drop 5 d))
             @ [d ! 7] @ wr_u16le (rd_u16le (drop 8 d)) @ drop 10 d)"
    by (rule arg_cong [OF split_header10]) (use assms(1) in simp)
  also have "\<dots> = d ! 0 # wr_u32le (rd_u32le (drop 1 d)) @ wr_u16le (rd_u16le (drop 5 d))
             @ [d ! 7] @ wr_u16le (rd_u16le (drop 8 d)) @ take k (drop 10 d)"
    by (simp add: take_Cons')
  finally show ?thesis
    using assms by (simp add: link_body_def bslice_def)
qed

text \<open>The tests accept exactly the datagrams \<open>link_relay\<close> writes under the same key.\<close>

lemma link_check_only:
  assumes "link_check key cap d"
  obtains ts rssi snr f where "d = link_datagram key ts rssi snr f" "length f \<le> cap"
    "rssi \<in> {-32768 ..< 32768}" "snr \<in> {-128 ..< 128}" "length f < 65536"
proof -
  obtain k where k: "k = unat (rd_u16le (drop 8 d))" by blast
  let ?f = "bslice 10 k d"
  have len: "length d = 10 + k + 8" and v: "d ! 0 = LINK_VER" and cap: "k \<le> cap"
    and mac: "take 8 (hmac_sha256 key (take (10 + k) d)) = bslice (10 + k) 8 d"
    using assms unfolding link_check_def Let_def k [symmetric] by blast+
  have f: "length ?f = k" by (simp only: length_bslice len min_def) simp
  have body: "take (10 + k) d = link_body (rd_u32le (drop 1 d)) (sint (rd_u16le (drop 5 d))) (sint (d ! 7)) ?f"
    by (rule take_link_header [OF _ v k]) (simp only: len)
  have "d = take (10 + k) d @ bslice (10 + k) 8 d"
    using len by (simp add: bslice_def)
  then have "d = link_datagram key (rd_u32le (drop 1 d)) (sint (rd_u16le (drop 5 d))) (sint (d ! 7)) ?f"
    unfolding link_datagram_def Let_def mac [symmetric] body [symmetric] .
  moreover have "sint (rd_u16le (drop 5 d)) \<in> {-32768 ..< 32768}"
    using sint_range_size [of "rd_u16le (drop 5 d)"] by (simp add: word_size)
  moreover have "sint (d ! 7) \<in> {-128 ..< 128}"
    using sint_range_size [of "d ! 7"] by (simp add: word_size)
  moreover have "length ?f < 65536" using f k by simp
  ultimately show thesis using that f cap by metis
qed

end
