(* ===== verification/Service_Props.thy ===== *)
theory Service_Props
  imports Bb_Props Link
begin

text \<open>
  The properties of the client's services: the rate of bridged frames, the hub's policy, the timers
  of the connection, the reports, and of the link between split nodes and the policy file.
\<close>

section \<open>The bridge\<close>

text \<open>C16: From any state that satisfies the invariants, in any run of frames from the hub, over times that
  are not 0 and do not go back, at most a full bucket (a third of
  the configured rate per minute, at least one) and what the rate earns over the length of the run,
  up to the roundings of the double arithmetic, are counted as injected or leave a mark on the mesh.
  Every frame is counted once, as injected, limited or rejected, and the frames that are counted as
  injected or leave a mark on the mesh are no more than those that are not limited.\<close>

theorem bridge_rate_bound:
  assumes "wf_mesh m" "bb_inv b" "sorted (map fst fs)" "\<forall>f \<in> set fs. t0 \<le> fst f \<and> fst f \<le> t1" "t0 \<noteq> 0" "t0 \<le> t1"
    "bridge_run e b m fs = (k, b', m')"
  shows "let cap = bucket_cap (bridge_rate m);
      x = of_nat (unat t1 - unat t0) * of_nat (unat (bridge_rate m)) / 60000
    in of_nat k \<le> cap + x + (cap * of_nat (length fs) + x) / 2 ^ 50 \<and>
      (\<exists>i l r. i + l + r = length fs \<and> i \<le> k \<and> k \<le> i + r \<and> injected b' = injected b + of_nat i \<and>
         limited b' = limited b + of_nat l \<and> rejected b' = rejected b + of_nat r)"
  using bridge_bound [OF assms] bridge_counts [OF assms(1,2,7)]
  unfolding earned_def allowed_def Let_def by (simp only: add.assoc simp_thms)

text \<open>The instance is a burst at one moment under the lowest rate.\<close>

theorem bridge_rate_bound_witness:
  "fst (bridge_run demo_env demo_session (demo_mesh\<lparr>cfg := config_defaults\<lparr>backbone := (backbone config_defaults)\<lparr>backbone_rate := 1\<rparr>\<rparr>\<rparr>)
     (replicate 5 (7, [0, 1, 0, 0, 0, 0, 0, 0, 0, 0, 65]))) \<le> 1"
proof -
  let ?m = "demo_mesh\<lparr>cfg := config_defaults\<lparr>backbone := (backbone config_defaults)\<lparr>backbone_rate := 1\<rparr>\<rparr>\<rparr>"
  let ?fs = "replicate 5 (7, [0, 1, 0, 0, 0, 0, 0, 0, 0, 0, 65]) :: (u64 \<times> bytes) list"
  have w: "wf_mesh ?m" using demo_wf wf_defaults by (simp add: wf_mesh_def wf_config_def)
  obtain k b' m' where r: "bridge_run demo_env demo_session ?m ?fs = (k, b', m')" by (metis prod_cases3)
  have t: "\<forall>f \<in> set ?fs. 7 \<le> fst f \<and> fst f \<le> 7" "(7 :: u64) \<noteq> 0" by simp_all
  have "of_nat k \<le> (1 :: rat) + 5 / 2 ^ 50"
    using bridge_rate_bound [OF w demo_session_inv _ t order_refl r]
    by (simp add: sorted_replicate bridge_rate_def bucket_cap_def)
  then have "(of_nat k :: rat) < of_nat 2" by (rule order.strict_trans1) simp
  then show ?thesis using r by (simp only: of_nat_less_iff) simp
qed

section \<open>The policy\<close>

text \<open>C15: A node that takes part in the hub's policy and is not collecting a set receives well-formed pages
  of one set, of one to sixteen pages and with a version other than 0, in whatever order and however
  often, none with a sequence number below that of the last set applied, and nothing else in between.
  If the version is not the one in force, then at the moment all pages are held the set, made of the
  first arrival of each, is merged into the configuration and written to the policy file, and before
  that moment nothing is merged or written. If it is the one in force, the resent set is neither
  merged nor written.\<close>

theorem policy_assembled:
  assumes "ver \<noteq> 0" "1 \<le> unat n" "unat n \<le> 16" "backbone_policy (cfg m)" "pol_pages b = 0"
    "\<forall>f \<in> set ps. valid_page ver n (snd f) \<and> (pol_applied_seq b = 0 \<or> pol_applied_seq b \<le> fst f)"
    "pages_of (butlast ps) \<noteq> {1..unat n}"
  shows "if pages_of ps = {1..unat n} \<and> version (policy (cfg m)) \<noteq> ver
    then set_applied b m (foldl add_page (empty_policy\<lparr>version := ver\<rparr>) (first_pages {} (map snd ps))) (policy_run b m ps)
    else cfg (snd (policy_run b m ps)) = cfg m \<and> n_out (bb_net (fst (policy_run b m ps))) = n_out (bb_net b)"
proof -
  have "{} \<subset> {1..unat n}" using assms(2) by auto
  from run_collects [OF assms(1,3,4,6) _ this, of "empty_policy\<lparr>version := ver\<rparr>"] show ?thesis
    using assms(5,7) by (simp add: collecting_def)
qed

definition demo_page :: "byte \<Rightarrow> bytes" where
  \<comment> \<open>page \<open>k\<close> of two: the room \<open>#k\<close>\<close>
  "demo_page k = [7, 0, 0, 0, k, 2, 1, 2, 35, 48 + k]"

definition demo_member :: mc_mesh where
  \<comment> \<open>the example node taking part in the hub's policy\<close>
  "demo_member = demo_mesh\<lparr>cfg := config_defaults\<lparr>backbone_policy := True\<rparr>\<rparr>"

theorem policy_assembled_witness:
  "cfg (snd (policy_run demo_session demo_member [(4, demo_page 2), (5, demo_page 2), (3, demo_page 1)])) =
     config_set_policy (cfg demo_member) (empty_policy\<lparr>version := 7, pol_rooms := [[35, 50], [35, 49]]\<rparr>) (Some (replicate 32 5))"
proof -
  have v: "valid_page 7 2 (demo_page k)" if "k = 1 \<or> k = 2" for k
    using that by (auto simp: valid_page_def demo_page_def page_no_def rd_u32le_def policy_walk.simps)
  let ?ps = "[(4, demo_page 2), (5, demo_page 2), (3, demo_page 1)] :: (u32 \<times> bytes) list"
  have p: "pages_of ?ps = {1..unat (2 :: byte)}" by (auto simp: demo_page_def page_no_def)
  have "pages_of (butlast ?ps) = {2}" by (simp add: demo_page_def page_no_def)
  moreover have "1 \<in> {1..unat (2 :: byte)}" "1 \<notin> {2 :: nat}" by simp_all
  ultimately have ne: "pages_of (butlast ?ps) \<noteq> {1..unat (2 :: byte)}" by metis
  have "set_applied demo_session demo_member (foldl add_page (empty_policy\<lparr>version := 7\<rparr>) (first_pages {} (map snd ?ps)))
      (policy_run demo_session demo_member ?ps)"
    using policy_assembled [OF _ _ _ _ _ _ ne, of 7 demo_member demo_session] v p
    by (simp add: demo_member_def demo_session_def zero_backbone_def config_defaults_def empty_policy_def)
  moreover have "foldl add_page (empty_policy\<lparr>version := 7\<rparr>) (first_pages {} (map snd ?ps)) =
      empty_policy\<lparr>version := 7, pol_rooms := [[35, 50], [35, 49]]\<rparr>"
    by (simp add: page_no_def add_page_def demo_page_def policy_walk.simps policy_add_def bslice_def Let_def empty_policy_def)
  ultimately show ?thesis
    by (simp add: set_applied_def demo_member_def demo_fields) (simp add: demo_self_def)
qed

section \<open>The connection\<close>

text \<open>Every state the client and the mesh reach together from \<open>backbone_init\<close>, by any datagrams, timers,
  socket failures and calls of the mesh, satisfies the client's invariant: without a session there
  are no keys, no session number and no socket; with one the keys are 32 bytes, the roles are
  among those asked for and the timers within their limits; the backoff lies between 5 and 300
  seconds, the bucket is not overdrawn, the policy set is bounded and the replay window describes
  a set of numbers.\<close>

theorem client_reachable:
  assumes "wf_mesh m" "backbone_init has m n = (rc, b, m1)" "sys_reach e (b, m1) (b', m')"
  shows "bb_inv b' \<and> wf_mesh m'"
  using sys_reach_ok [OF assms(3)] init_ok [OF assms(1,2)] by (simp add: sys_ok_def)

theorem client_reachable_witness:
  "\<exists>b m1. backbone_init True demo_mesh demo_net = (0, b, m1) \<and> bb_inv (fst (backbone_service demo_env b m1 5))"
proof -
  obtain b m1 where i: "backbone_init True demo_mesh demo_net = (0, b, m1)"
    by (simp add: backbone_init_def Let_def demo_fields) (simp add: config_defaults_def)
  obtain b' m' where s: "backbone_service demo_env b m1 5 = (b', m')" by fastforce
  have "sys_reach demo_env (b, m1) (b', m')"
    using sys_next [OF sys_here sys_service [of demo_env b m1 5]] s by simp
  from client_reachable [OF demo_wf i this] i s show ?thesis by simp
qed

text \<open>After a failure the client is idle and holds nothing of the session; its next attempt is due after
  the current backoff and up to a quarter more, and the backoff doubles up to 300 seconds, so an
  attempt is never more than 375 seconds away.\<close>

theorem retry_schedule:
  assumes "bb_inv b" "retry_later b m now = (b', m')"
  shows "quiet b' \<and> bb_state b' = BB_IDLE \<and> backoff_s b' = min 300 (2 * backoff_s b) \<and>
    (\<exists>d. next_try_ms b' = now + of_nat d \<and> backoff_s b * 1000 \<le> int d \<and> int d \<le> backoff_s b * 1250 \<and> d \<le> 375000)"
proof -
  have base: "base_ok b" using assms(1) by (simp add: inv_base)
  obtain k d where r: "backoff_s b = int k" "next_try_ms b' = now + of_nat d" "k * 1000 \<le> d" "d \<le> k * 1250"
      "backoff_s b' = min BB_BACKOFF_MAX (2 * backoff_s b)" "bb_state b' = BB_IDLE" "quiet b'"
    by (rule retry_timer [OF base assms(2)])
  moreover have "k \<le> 300" using base r(1) by (simp add: base_ok_def)
  then have "int k * 1000 \<le> int d \<and> int d \<le> int k * 1250 \<and> d \<le> 375000" using r(3,4) by linarith
  ultimately show ?thesis by auto
qed

theorem retry_schedule_witness: "backoff_s (fst (retry_later demo_session demo_mesh 0)) = 10"
proof -
  obtain b' m' where r: "retry_later demo_session demo_mesh 0 = (b', m')" by fastforce
  from retry_schedule [OF demo_session_inv r] r show ?thesis by (simp add: demo_session_fields)
qed

text \<open>C22: A hub that has fallen silent is given up: a session from which nothing was heard for more than 365
  seconds, or a third HELLO left unanswered at its deadline, leaves the client idle, without keys.\<close>

theorem silent_hub_given_up:
  assumes "bb_inv b" "n_recv (bb_net b) (n_recv_i (bb_net b)) = Inl err"
    "bb_state b = BB_UP \<and> 365000 < now - last_rx_ms b \<or>
     bb_state b = BB_HELLO_SENT \<and> hello_tries b = 3 \<and> deadline_ms b \<le> now"
    "backbone_service e b m now = (b', m')"
  shows "bb_state b' = BB_IDLE \<and> quiet b'"
proof -
  let ?n = "(bb_net b)\<lparr>n_recv_i := n_recv_i (bb_net b) + 1\<rparr>"
  let ?b = "b\<lparr>bb_net := ?n\<rparr>"
  have fd: "0 \<le> bb_fd b" using assms(1,3) by (auto simp: inv_base phase_ok_def session_ok_def)
  have "net_recv (BB_MAX_DGRAM + 1) (bb_net b) = (Inl err, ?n)" by (simp add: net_recv_def assms(2))
  then have rd: "read_datagrams BB_RX_BURST e b m now = (?b, m)" using fd by (simp add: numeral_eq_Suc)
  have con: "service_connect e b m now = (b, m)" using assms(3) by (auto simp: service_connect_def)
  have "backbone_service e b m now = (let (b, m) = service_hello e ?b m now in service_up e b m now)"
    using assms(3) rd fd by (auto simp: backbone_service_def con)
  with assms(4) have s: "(let (b, m) = service_hello e ?b m now in service_up e b m now) = (b', m')" by simp
  from assms(3) show ?thesis
  proof
    assume up: "bb_state b = BB_UP \<and> 365000 < now - last_rx_ms b"
    have k: "unat (keepalive_s b) \<le> 120" using assms(1) up by (simp add: inv_defs word_le_nat_alt)
    have "(word_of_int (3 * uint (keepalive_s b) + 5) * 1000 :: u64) = of_nat ((3 * unat (keepalive_s b) + 5) * 1000)"
      by (simp add: uint_nat del: of_nat_unat)
    moreover have "unat (of_nat ((3 * unat (keepalive_s b) + 5) * 1000) :: u64) = (3 * unat (keepalive_s b) + 5) * 1000"
      by (simp only: unsigned_of_nat of_nat_id) (rule take_bit_nat_eq_self, use k in simp)
    ultimately have "word_of_int (3 * uint (keepalive_s b) + 5) * 1000 < now - last_rx_ms b"
      using k up by (simp only: word_less_nat_alt) simp
    then have "service_up e ?b m now = ((forget_session ?b)\<lparr>next_try_ms := now\<rparr>, m)"
      using up by (simp add: service_up_def)
    with s up show ?thesis by (auto simp: service_hello_def quiet_def)
  next
    assume hs: "bb_state b = BB_HELLO_SENT \<and> hello_tries b = 3 \<and> deadline_ms b \<le> now"
    obtain c m2 where r: "retry_later ?b m now = (c, m2)" by fastforce
    have "base_ok ?b" using assms(1) by (simp add: inv_base base_ok_def)
    then have "bb_state c = BB_IDLE" "quiet c" using retry_timer [OF _ r] by metis+
    with s hs r show ?thesis by (simp add: service_hello_def service_up_def)
  qed
qed

theorem silent_hub_given_up_witness: "bb_state (fst (backbone_service demo_env demo_session demo_mesh 400000)) = BB_IDLE"
proof -
  obtain b' m' where r: "backbone_service demo_env demo_session demo_mesh 400000 = (b', m')" by fastforce
  have "n_recv (bb_net demo_session) (n_recv_i (bb_net demo_session)) = Inl 11"
    by (simp add: demo_session_fields demo_net_def)
  from silent_hub_given_up [OF demo_session_inv this _ r] r show ?thesis by (simp add: demo_session_fields)
qed

section \<open>The reports\<close>

text \<open>A neighbour report is sent as pages numbered from 1 that together list every neighbour entry once and
  in order; the number of pages announced in each is the number sent, and none is too long for a
  datagram.\<close>

theorem neighbour_report:
  assumes "wf_mesh m" "bb_mesh b" "mesh_time m = (t, m')"
  shows "\<exists>gs. concat gs = neighbour_list m' (of_nat t) \<and> send_neighbours b m = (send_pages (length gs) 1 gs b, m') \<and>
    (\<forall>k g. \<not> (k \<le> length gs \<and> g \<in> set gs \<and> 1100 < length (page_body (length gs) k g)))"
proof -
  let ?gs = "paginate [] (neighbour_list m' (of_nat t))"
  have "length (neighbors m') \<le> MESH_MAX_NEIGHBORS"
    using assms(1) mesh_time_frame [OF assms(3)] by (simp add: wf_mesh_def wf_neighbors_def)
  note p = send_neighbours_pages [OF assms(2,3) this refl]
  have "concat ?gs = neighbour_list m' (of_nat t)" using concat_paginate [of "[]"] by simp
  with p show ?thesis by (intro exI [of _ ?gs]) (auto simp: not_less)
qed

theorem neighbour_report_witness:
  "\<exists>gs m'. send_neighbours (demo_session\<lparr>bb_mesh := True\<rparr>) demo_mesh = (send_pages (length gs) 1 gs (demo_session\<lparr>bb_mesh := True\<rparr>), m')"
proof -
  obtain t m' where t: "mesh_time demo_mesh = (t, m')" by fastforce
  from neighbour_report [OF demo_wf _ t, of "demo_session\<lparr>bb_mesh := True\<rparr>"] show ?thesis by auto
qed

text \<open>A name that fits in a report is written between quotes as text that is valid JSON and valid UTF-8,
  whatever bytes it was made of.\<close>

theorem json_strings_valid:
  assumes "\<not> jb_full (jb_str j s)"
  shows "\<exists>u. jb_text (jb_str j s) = jb_text j @ [34] @ u @ [34] \<and> json_body u \<and> utf8 u"
proof -
  have "json_body (concat (jb_chunks s)) \<and> utf8 (concat (jb_chunks s))"
    using jb_str_text(2) [OF assms] unfolding jb_good_def by (metis append_Nil2 json_body.simps(1))
  with jb_str_text(1) [OF assms] show ?thesis by blast
qed

theorem json_strings_valid_witness: "\<exists>u. jb_text (jb_str (jb_new 20) [34, 0xFF]) = [34] @ u @ [34] \<and> json_body u \<and> utf8 u"
proof -
  have 0: "jb_chunks [] = []" by (subst jb_chunks.simps) simp
  have 1: "jb_chunks [0xFF] = [[63]]" by (subst jb_chunks.simps) (simp add: 0 utf8_seq_def utf8_lead_def c_at_def)
  have 2: "jb_chunks [34, 0xFF] = [[92, 34], [63]]" by (subst jb_chunks.simps) (simp add: 1 utf8_seq_def c_at_def)
  have "\<not> jb_full (jb_str (jb_new 20) [34, 0xFF])" by (simp add: jb_str_def jb_new_def jb_add_def 2)
  from json_strings_valid [OF this] show ?thesis by (simp add: jb_new_def)
qed

section \<open>The split link\<close>

text \<open>C13: The transmitting node takes a frame with its signal values from a datagram if and only if the
  datagram is the one a receiving node with the same key writes for exactly these values at a time
  within a minute of its own clock, and the frame fits its buffer.\<close>

theorem link_accepts_authentic:
  assumes "lk_mode lk = LINK_TX" "0 \<le> lk_fd lk" "net_recv 530 n = (Inr d, n')" "time_now w = (t, w')" "length d \<le> 530"
  shows "(\<exists>s. link_recv lk cap w n = (1, Some (f, rssi, snr), s)) \<longleftrightarrow>
    (\<exists>ts. d = link_datagram (lk_key lk) ts rssi snr f \<and> ts_fresh (of_nat t) ts \<and> length f \<le> cap \<and>
       rssi \<in> {-32768 ..< 32768} \<and> snr \<in> {-128 ..< 128})"
proof -
  let ?v = "(bslice LINK_HDR (unat (rd_u16le (drop 8 d))) d, sint (rd_u16le (drop 5 d)), sint (d ! 7))"
  have r: "(\<exists>s. link_recv lk cap w n = (1, Some (f, rssi, snr), s)) \<longleftrightarrow>
      link_check (lk_key lk) cap d \<and> ts_fresh (of_nat t) (rd_u32le (drop 1 d)) \<and> ?v = (f, rssi, snr)"
  proof -
    have "\<not> (lk_mode lk \<noteq> LINK_TX \<or> lk_fd lk < 0)" using assms(1,2) by simp
    then have "link_recv lk cap w n = (if \<not> link_check (lk_key lk) cap d then (0, None, lk\<lparr>frames_bad := frames_bad lk + 1\<rparr>, w, n')
        else if \<not> ts_fresh (of_nat t) (rd_u32le (drop 1 d)) then (0, None, lk\<lparr>frames_bad := frames_bad lk + 1\<rparr>, w', n')
        else (1, Some ?v, lk\<lparr>frames_in := frames_in lk + 1\<rparr>, w', n'))"
      unfolding link_recv_def by (simp only: if_False assms(3,4) Let_def prod.case sum.case arith_simps)
    then show ?thesis by (simp only: prod.inject option.inject) (auto split: if_splits)
  qed
  have v: "?v = (g, r, s) \<and> rd_u32le (drop 1 d) = ts"
    if "d = link_datagram (lk_key lk) ts r s g" "r \<in> {-32768 ..< 32768}" "s \<in> {-128 ..< 128}" for ts r s g
  proof -
    have g: "length g < 65536" using that(1) assms(5) by simp
    have "sint (word_of_int r :: u16) = r" "sint (word_of_int s :: byte) = s"
      using that(2,3) by (simp_all add: sint_sbintrunc' signed_take_bit_int_eq_self)
    then show ?thesis using g unfolding that(1) link_fields by (simp add: unat_of_nat bslice_def link_fields(6))
  qed
  show ?thesis
  proof
    assume "\<exists>s. link_recv lk cap w n = (1, Some (f, rssi, snr), s)"
    then have c: "link_check (lk_key lk) cap d" "ts_fresh (of_nat t) (rd_u32le (drop 1 d))" "?v = (f, rssi, snr)"
      using r by blast+
    obtain ts r s g where g: "d = link_datagram (lk_key lk) ts r s g" "length g \<le> cap" "r \<in> {-32768 ..< 32768}"
        "s \<in> {-128 ..< 128}" "length g < 65536"
      by (rule link_check_only [OF c(1)])
    from v [OF g(1,3,4)] c(2,3) have "g = f" "r = rssi" "s = snr" "ts_fresh (of_nat t) ts" by simp_all
    with g show "\<exists>ts. d = link_datagram (lk_key lk) ts rssi snr f \<and> ts_fresh (of_nat t) ts \<and> length f \<le> cap \<and>
       rssi \<in> {-32768 ..< 32768} \<and> snr \<in> {-128 ..< 128}" by blast
  next
    assume "\<exists>ts. d = link_datagram (lk_key lk) ts rssi snr f \<and> ts_fresh (of_nat t) ts \<and> length f \<le> cap \<and>
       rssi \<in> {-32768 ..< 32768} \<and> snr \<in> {-128 ..< 128}"
    then obtain ts where d: "d = link_datagram (lk_key lk) ts rssi snr f" "ts_fresh (of_nat t) ts" "length f \<le> cap"
      "rssi \<in> {-32768 ..< 32768}" "snr \<in> {-128 ..< 128}" by blast
    have "length f < 65536" using d(1) assms(5) by simp
    then have "link_check (lk_key lk) cap d" unfolding d(1) by (intro link_check_datagram d(3))
    with v [OF d(1,4,5)] d(2) show "\<exists>s. link_recv lk cap w n = (1, Some (f, rssi, snr), s)" unfolding r by simp
  qed
qed

theorem link_accepts_authentic_witness:
  "\<exists>s. link_recv (zero_link\<lparr>lk_mode := LINK_TX, lk_fd := 4\<rparr>) 255 demo_world
     (demo_net\<lparr>n_recv := \<lambda>_. Inr (link_datagram (replicate 32 0) 0 (- 80) 5 [0x11, 0, 7])\<rparr>) = (1, Some ([0x11, 0, 7], - 80, 5), s)"
proof -
  let ?d = "link_datagram (replicate 32 0) 0 (- 80) 5 [0x11, 0, 7]"
  let ?n = "demo_net\<lparr>n_recv := \<lambda>_. Inr ?d\<rparr>"
  have "net_recv 530 ?n = (Inr ?d, ?n\<lparr>n_recv_i := n_recv_i ?n + 1\<rparr>)" by (simp add: net_recv_def)
  moreover have "time_now demo_world = (0, demo_world\<lparr>w_time_i := w_time_i demo_world + 1\<rparr>)" by (simp add: time_now_def demo_world_def)
  ultimately show ?thesis
    using link_accepts_authentic [of "zero_link\<lparr>lk_mode := LINK_TX, lk_fd := 4\<rparr>" ?n ?d _ demo_world 0 _ 255 "[0x11, 0, 7]" "- 80" 5]
    by (force simp: zero_link_def ts_fresh_def)
qed

section \<open>The policy file\<close>

text \<open>Reading the policy file that was written for a policy puts that policy in force again, apart from the
  blocked names that contain a line break, which the file leaves out.\<close>

theorem policy_file_roundtrip:
  assumes "wf_policy (policy c)" "version (policy c) \<noteq> 0"
  shows "config_policy_load c' own (Some (config_policy_save c)) =
    (0, config_set_policy c' ((policy c)\<lparr>pol_names := filter one_line (pol_names (policy c))\<rparr>) own)"
  by (rule load_saved_policy [OF assms])

theorem policy_file_roundtrip_witness:
  "fst (config_policy_load config_defaults None (Some (config_policy_save (config_defaults\<lparr>policy :=
     \<lparr>version = 7, pol_rooms = [lit ''#be''], pol_names = [lit ''spam*''], pol_keys = [replicate 32 9], skipped = 2\<rparr>\<rparr>)))) = 0"
  by (subst policy_file_roundtrip) (simp_all add: wf_policy_def line_text_def)

end
