(* ===== verification/Config_Keys.thy ===== *)
theory Config_Keys
  imports Policy_File Format
begin

text \<open>
  The keys of the configuration (\<open>config_set\<close>, \<open>config_get\<close> in \<^verbatim>\<open>config.c\<close>) and the number parsers
  they use. The chains of \<^verbatim>\<open>strcasecmp\<close> are tables, one entry per line of the source and in its
  order; \<open>key_find\<close> takes the first entry that matches. Where \<^verbatim>\<open>strtod\<close> yields an infinity or a NaN
  that passes the tests of a key, the field no longer holds a number: the result is
  \<open>CfgNotFinite\<close>. A finite \<^verbatim>\<open>double\<close> is the rational the text denotes: the rounding of
  \<^verbatim>\<open>strtod\<close> to 53 bits is not modelled. The test of \<^verbatim>\<open>strtod\<close> for overflow is against
  \<open>2 ^ 1024\<close>.
\<close>

section \<open>Numbers\<close>

datatype real_val = Num rat | Infinite bool | NaN

definition scan_exp :: "byte \<Rightarrow> bytes \<Rightarrow> int \<times> bytes" where
  \<comment> \<open>an exponent after the letter \<open>ex\<close>, if there is one\<close>
  "scan_exp ex s =
     (if map tolower (take 1 s) \<noteq> [ex] then (0, s)
      else
        let t = drop 1 s;
            neg = (take 1 t = [45]);
            u = (if take 1 t = [45] \<or> take 1 t = [43] then drop 1 t else t) in
        if u = [] \<or> digit_in 10 (hd u) = None then (0, s)
        else let (v, r) = digits_run 10 0 u in (if neg then - int v else int v, r))"

definition scan_number :: "nat \<Rightarrow> byte \<Rightarrow> rat \<Rightarrow> bytes \<Rightarrow> (rat \<times> bytes) option" where
  \<comment> \<open>digits, a fraction and an exponent\<close>
  "scan_number base ex eb s =
     (let (iv, r) = digits_run base 0 s;
          ni = length s - length r;
          (m, nf, r) = (if take 1 r = [46]
                        then (let (v, r') = digits_run base iv (drop 1 r) in (v, length r - 1 - length r', r'))
                        else (iv, 0, r)) in
      if ni + nf = 0 then None
      else let (k, r) = scan_exp ex r in Some (of_nat m * (eb powi k) / of_nat base ^ nf, r))"

definition nan_tail :: "bytes \<Rightarrow> bytes" where
  \<comment> \<open>what follows \<open>nan\<close>, with its optional parenthesis taken\<close>
  "nan_tail r =
     (let w = takeWhile (\<lambda>c. (48 \<le> c \<and> c \<le> 57) \<or> (65 \<le> c \<and> c \<le> 90) \<or> (97 \<le> c \<and> c \<le> 122) \<or> c = 95) (drop 1 r) in
      if take 1 r = [40] \<and> take 1 (drop (1 + length w) r) = [41] then drop (2 + length w) r else r)"

definition strtod :: "bytes \<Rightarrow> (real_val \<times> bytes) option" where
  "strtod s =
     (let s = dropWhile is_space_c s;
          neg = (take 1 s = [45]);
          s = (if take 1 s = [45] \<or> take 1 s = [43] then drop 1 s else s) in
      if strcaseeq (take 8 s) (lit ''infinity'') then Some (Infinite neg, drop 8 s)
      else if strcaseeq (take 3 s) (lit ''inf'') then Some (Infinite neg, drop 3 s)
      else if strcaseeq (take 3 s) (lit ''nan'') then Some (NaN, nan_tail (drop 3 s))
      else
        let hex = (if strcaseeq (take 2 s) (lit ''0x'') then scan_number 16 112 2 (drop 2 s) else None) in
        case (if hex \<noteq> None then hex else scan_number 10 101 10 s) of
          None \<Rightarrow> None
        | Some (x, r) \<Rightarrow> Some (if 2 ^ 1024 \<le> x then Infinite neg else Num (if neg then - x else x), r))"

definition parse_double :: "bytes \<Rightarrow> real_val option" where
  "parse_double v =
     (case strtod v of None \<Rightarrow> None | Some (x, r) \<Rightarrow> if r \<noteq> [] then None else Some x)"

definition strtol :: "bytes \<Rightarrow> (int \<times> bytes) option" where
  \<comment> \<open>in base ten; saturates at the ends of a \<^verbatim>\<open>long\<close>\<close>
  "strtol s =
     (let s = dropWhile is_space_c s;
          neg = (take 1 s = [45]);
          s = (if take 1 s = [45] \<or> take 1 s = [43] then drop 1 s else s) in
      if s = [] \<or> digit_in 10 (hd s) = None then None
      else let (v, r) = digits_run 10 0 s
           in Some (if neg then max (- (2 ^ 63)) (- int v) else min (2 ^ 63 - 1) (int v), r))"

section \<open>Setters\<close>

datatype cfg_result = CfgOk mc_config | CfgBad int | CfgNotFinite

type_synonym setter = "bytes \<Rightarrow> mc_config \<Rightarrow> cfg_result"

definition bool_key :: "(bool \<Rightarrow> mc_config \<Rightarrow> mc_config) \<Rightarrow> setter" where
  "bool_key f v c = (case parse_bool v of None \<Rightarrow> CfgBad (-2) | Some b \<Rightarrow> CfgOk (f b c))"

definition u32_key :: "(u32 \<Rightarrow> bool) \<Rightarrow> (u32 \<Rightarrow> mc_config \<Rightarrow> mc_config) \<Rightarrow> setter" where
  "u32_key P f v c =
     (case parse_u32 v of None \<Rightarrow> CfgBad (-2) | Some u \<Rightarrow> if P u then CfgOk (f u c) else CfgBad (-2))"

definition dbl_key :: "(real_val \<Rightarrow> bool) \<Rightarrow> (rat \<Rightarrow> mc_config \<Rightarrow> mc_config) \<Rightarrow> setter" where
  "dbl_key P f v c =
     (case parse_double v of
        None \<Rightarrow> CfgBad (-2)
      | Some d \<Rightarrow> if \<not> P d then CfgBad (-2)
                  else (case d of Num x \<Rightarrow> CfgOk (f x c) | _ \<Rightarrow> CfgNotFinite))"

definition str_key :: "nat \<Rightarrow> (bytes \<Rightarrow> mc_config \<Rightarrow> mc_config) \<Rightarrow> setter" where
  "str_key n f v c = CfgOk (f (snprintf_s n v) c)"

definition outside :: "rat \<Rightarrow> rat \<Rightarrow> real_val \<Rightarrow> bool" where
  \<comment> \<open>\<open>d < lo || d > hi\<close>: both comparisons fail on a NaN\<close>
  "outside lo hi d = (case d of Num x \<Rightarrow> x < lo \<or> hi < x | Infinite _ \<Rightarrow> True | NaN \<Rightarrow> False)"

definition dbm_of :: "bytes \<Rightarrow> int option" where
  \<comment> \<open>a whole number that ends where the value does\<close>
  "dbm_of v = (case strtol v of None \<Rightarrow> None | Some (p, r) \<Rightarrow> if r \<noteq> [] then None else Some p)"

definition set_tx_power :: setter where
  "set_tx_power v c =
     (case dbm_of v of
        None \<Rightarrow> CfgBad (-2)
      | Some p \<Rightarrow> let p = (if 22 < p \<and> p \<le> 40 then 22 else p) in
                  if p < -9 \<or> 22 < p then CfgBad (-2) else CfgOk (radio_update (tx_power_update (\<lambda>_. p)) c))"

definition set_sync_word :: setter where
  "set_sync_word v c =
     (if strcaseeq v (lit ''private'') then CfgOk (radio_update (sync_word_update (\<lambda>_. 0x1424)) c)
      else if strcaseeq v (lit ''public'') then CfgOk (radio_update (sync_word_update (\<lambda>_. 0x3444)) c)
      else u32_key (\<lambda>u. u \<le> 0xFFFF) (\<lambda>u. radio_update (sync_word_update (\<lambda>_. ucast u))) v c)"

definition set_rf_switch :: setter where
  "set_rf_switch v c =
     (if strcaseeq v (lit ''dio2'') then CfgOk (wiring_update (rf_switch_dio2_update (\<lambda>_. True)) c)
      else if strcaseeq v (lit ''external'') then CfgOk (wiring_update (rf_switch_dio2_update (\<lambda>_. False)) c)
      else CfgBad (-2))"

definition set_mbox :: setter where
  "set_mbox = bool_key (\<lambda>b c. let c = c\<lparr>mbox_enable := b\<rparr> in
     if b then config_ensure_hashtag_channel c (lit ''#mbox'') else c)"

definition set_ping_channel :: setter where
  "set_ping_channel v c =
     (let clean = trim_name v (MC_ROOM_NAME_LEN * 2) in
      if strcaseeq clean (lit ''any'') \<or> strcaseeq clean (lit ''none'') \<or> clean = [45] \<or> clean = [42]
      then CfgOk (c\<lparr>ping_channel := []\<rparr>)
      else if clean = [] then CfgBad (-2)
      else
        let nm = (if clean ! 0 = 35 then clean else 35 # clean) in
        if MC_ROOM_NAME_LEN \<le> length nm then CfgBad (-2)
        else CfgOk (c\<lparr>ping_channel := nm\<rparr>))"

definition set_link_mode :: setter where
  "set_link_mode v c =
     (if \<not> strcaseeq v (lit ''off'') \<and> \<not> strcaseeq v (lit ''rx'') \<and> \<not> strcaseeq v (lit ''tx'') then CfgBad (-2)
      else CfgOk (link_update (link_mode_update (\<lambda>_. map tolower (snprintf_s 8 v))) c))"

definition set_hub_key :: setter where
  "set_hub_key v c =
     (if v = [] then CfgOk (backbone_update (backbone_have_hub_key_update (\<lambda>_. False)) c)
      else (case hex2bin v 32 of
              None \<Rightarrow> CfgBad (-2)
            | Some k \<Rightarrow> if length v \<noteq> 64 then CfgBad (-2)
                else CfgOk (backbone_update (backbone_hub_key_update (\<lambda>_. k) \<circ> backbone_have_hub_key_update (\<lambda>_. True)) c)))"

definition set_policy_file :: setter where
  "set_policy_file v c =
     (if v = [] \<or> 128 \<le> length v then CfgBad (-2) else CfgOk (c\<lparr>backbone_policy_file := snprintf_s 128 v\<rparr>))"

definition set_web_password :: setter where
  "set_web_password v c =
     (if 64 \<le> length v then CfgBad (-2) else CfgOk (c\<lparr>web_password := snprintf_s 64 v\<rparr>))"

definition rc_key :: "(mc_config \<Rightarrow> bytes \<Rightarrow> int \<times> mc_config) \<Rightarrow> setter" where
  \<comment> \<open>the keys that are lists: the result of the function that adds to the list\<close>
  "rc_key f v c = (case f c v of (rc, c') \<Rightarrow> if rc < 0 then CfgBad (-2) else CfgOk c')"

definition list_key :: "(mc_config \<Rightarrow> bytes list) \<Rightarrow> (bytes list \<Rightarrow> mc_config \<Rightarrow> mc_config) \<Rightarrow> nat \<Rightarrow> setter" where
  "list_key sel upd mx = rc_key (\<lambda>c v. case list_add (sel c) mx v of (rc, xs) \<Rightarrow> (rc, upd xs c))"

definition set_role :: setter where
  "set_role v c =
     (if strcaseeq v (lit ''repeater'') then CfgOk (c\<lparr>role := ROLE_REPEATER\<rparr>)
      else if strcaseeq v (lit ''hotspot'') then CfgOk (c\<lparr>role := ROLE_HOTSPOT\<rparr>)
      else CfgBad (-2))"

definition set_dbm :: "(int \<Rightarrow> mc_config \<Rightarrow> mc_config) \<Rightarrow> setter" where
  "set_dbm f v c =
     (case dbm_of v of None \<Rightarrow> CfgBad (-2) | Some p \<Rightarrow> if p < -9 \<or> 22 < p then CfgBad (-2) else CfgOk (f p c))"

abbreviation (input) "any_u32 \<equiv> (\<lambda>_ :: u32. True)"
abbreviation (input) "port16 \<equiv> (\<lambda>u :: u32. u \<le> 65535)"

definition radio_keys :: "(string \<times> setter) list" where
  "radio_keys = [
     (''frequency'', dbl_key (\<lambda>d. \<not> outside 137 1020 d) (\<lambda>x. radio_update (frequency_update (\<lambda>_. x)))),
     (''bandwidth'', dbl_key (\<lambda>d. d \<in> {Num (125 / 2), Num 125, Num 250, Num 500}) (\<lambda>x. radio_update (bandwidth_update (\<lambda>_. x)))),
     (''spreading_factor'', u32_key (\<lambda>u. 5 \<le> u \<and> u \<le> 12) (\<lambda>u. radio_update (spreading_factor_update (\<lambda>_. ucast u)))),
     (''coding_rate'', u32_key (\<lambda>u. 5 \<le> u \<and> u \<le> 8) (\<lambda>u. radio_update (coding_rate_update (\<lambda>_. ucast u)))),
     (''tx_power'', set_tx_power),
     (''preamble'', u32_key (\<lambda>u. 6 \<le> u \<and> u \<le> 65535) (\<lambda>u. radio_update (preamble_update (\<lambda>_. ucast u)))),
     (''sync_word'', set_sync_word),
     (''crc'', bool_key (\<lambda>b. radio_update (crc_on_update (\<lambda>_. b)))),
     (''iq_inverted'', bool_key (\<lambda>b. radio_update (iq_inverted_update (\<lambda>_. b)))),
     (''use_cad'', bool_key (\<lambda>b. radio_update (use_cad_update (\<lambda>_. b)))),
     (''tcxo_voltage'', dbl_key (\<lambda>d. \<not> outside 0 (34 / 10) d) (\<lambda>x. radio_update (tcxo_voltage_update (\<lambda>_. x)))),
     (''ocp'', u32_key (\<lambda>u. u \<le> 0x3F) (\<lambda>u. radio_update (ocp_reg_update (\<lambda>_. ucast u))))]"

definition wiring_keys :: "(string \<times> setter) list" where
  "wiring_keys = [
     (''spi_dev'', str_key 64 (\<lambda>s. wiring_update (spi_dev_update (\<lambda>_. s)))),
     (''spi_speed'', u32_key any_u32 (\<lambda>u. wiring_update (spi_speed_update (\<lambda>_. u)))),
     (''gpio_chip'', str_key 32 (\<lambda>s. wiring_update (gpio_chip_update (\<lambda>_. s)))),
     (''gpio_reset'', u32_key any_u32 (\<lambda>u. wiring_update (gpio_reset_update (\<lambda>_. u)))),
     (''gpio_busy'', u32_key any_u32 (\<lambda>u. wiring_update (gpio_busy_update (\<lambda>_. u)))),
     (''gpio_dio1'', u32_key any_u32 (\<lambda>u. wiring_update (gpio_dio1_update (\<lambda>_. u)))),
     (''gpio_nss'', u32_key any_u32 (\<lambda>u. wiring_update (gpio_nss_update (\<lambda>_. u)))),
     (''rf_switch'', set_rf_switch),
     (''gpio_rxen'', u32_key any_u32 (\<lambda>u. wiring_update (gpio_rxen_update (\<lambda>_. u)))),
     (''gpio_txen'', u32_key any_u32 (\<lambda>u. wiring_update (gpio_txen_update (\<lambda>_. u)))),
     (''use_leds'', bool_key (\<lambda>b. wiring_update (use_leds_update (\<lambda>_. b)))),
     (''gpio_led_on'', u32_key any_u32 (\<lambda>u. wiring_update (gpio_led_on_update (\<lambda>_. u)))),
     (''gpio_led_data'', u32_key any_u32 (\<lambda>u. wiring_update (gpio_led_data_update (\<lambda>_. u))))]"

definition node_keys :: "(string \<times> setter) list" where
  "node_keys = [
     (''name'', str_key 40 (\<lambda>s. cfg_name_update (\<lambda>_. s))),
     (''key_file'', str_key 256 (\<lambda>s. key_file_update (\<lambda>_. s))),
     (''latitude'', dbl_key (\<lambda>_. True) (\<lambda>x c. c\<lparr>latitude := x, has_location := True\<rparr>)),
     (''longitude'', dbl_key (\<lambda>_. True) (\<lambda>x c. c\<lparr>longitude := x, has_location := True\<rparr>)),
     (''location'', bool_key (\<lambda>b. has_location_update (\<lambda>_. b))),
     (''advert_interval'', u32_key any_u32 (\<lambda>u. advert_interval_update (\<lambda>_. u))),
     (''forward'', bool_key (\<lambda>b. forward_update (\<lambda>_. b))),
     (''ping_pong'', bool_key (\<lambda>b. ping_pong_update (\<lambda>_. b))),
     (''mbox'', set_mbox),
     (''timeofday'', bool_key (\<lambda>b. timeofday_enable_update (\<lambda>_. b))),
     (''ping_channel'', set_ping_channel),
     (''control_port'', u32_key port16 (\<lambda>u. control_port_update (\<lambda>_. ucast u))),
     (''link_mode'', set_link_mode),
     (''link_key'', str_key 64 (\<lambda>s. link_update (link_key_update (\<lambda>_. s)))),
     (''link_peer'', str_key 64 (\<lambda>s. link_update (link_peer_update (\<lambda>_. s)))),
     (''link_port'', u32_key port16 (\<lambda>u. link_update (link_port_update (\<lambda>_. ucast u)))),
     (''backbone'', bool_key (\<lambda>b. backbone_update (backbone_enable_update (\<lambda>_. b)))),
     (''backbone_host'', str_key 96 (\<lambda>s. backbone_update (backbone_host_update (\<lambda>_. s)))),
     (''backbone_port'', u32_key (\<lambda>u. u \<noteq> 0 \<and> u \<le> 65535) (\<lambda>u. backbone_update (backbone_port_update (\<lambda>_. ucast u)))),
     (''backbone_hub_key'', set_hub_key),
     (''backbone_observe'', bool_key (\<lambda>b. backbone_update (backbone_observe_update (\<lambda>_. b)))),
     (''backbone_bridge'', bool_key (\<lambda>b. backbone_update (backbone_bridge_update (\<lambda>_. b)))),
     (''backbone_rate'', u32_key (\<lambda>u. 1 \<le> u \<and> u \<le> 600) (\<lambda>u. backbone_update (backbone_rate_update (\<lambda>_. u)))),
     (''backbone_policy'', bool_key (\<lambda>b. backbone_policy_update (\<lambda>_. b))),
     (''backbone_policy_file'', set_policy_file),
     (''public_channel'', rc_key add_public_channel),
     (''room'', rc_key (\<lambda>c v. add_room_ex c v False)),
     (''blacklist'', rc_key config_blacklist_add)]"

definition aprs_keys :: "(string \<times> setter) list" where
  "aprs_keys = [
     (''aprs_enable'', bool_key (\<lambda>b. aprs_update (aprs_enable_update (\<lambda>_. b)))),
     (''aprs_call'', str_key 16 (\<lambda>s. aprs_update (aprs_call_update (\<lambda>_. s)))),
     (''aprs_passcode'', str_key 12 (\<lambda>s. aprs_update (aprs_passcode_update (\<lambda>_. s)))),
     (''aprs_host'', str_key 96 (\<lambda>s. aprs_update (aprs_host_update (\<lambda>_. s)))),
     (''aprs_port'', u32_key port16 (\<lambda>u. aprs_update (aprs_port_update (\<lambda>_. ucast u)))),
     (''aprs_tocall'', str_key 12 (\<lambda>s. aprs_update (aprs_tocall_update (\<lambda>_. s)))),
     (''aprs_symbol'', str_key 8 (\<lambda>s. aprs_update (aprs_symbol_update (\<lambda>_. s)))),
     (''aprs_node_symbol'', str_key 8 (\<lambda>s. aprs_update (aprs_node_symbol_update (\<lambda>_. s)))),
     (''aprs_comment'', str_key 96 (\<lambda>s. aprs_update (aprs_comment_update (\<lambda>_. s)))),
     (''aprs_altitude'', dbl_key (\<lambda>_. True) (\<lambda>x. aprs_update (aprs_altitude_update (\<lambda>_. x)))),
     (''aprs_beacon_interval'', u32_key any_u32 (\<lambda>u. aprs_update (aprs_beacon_interval_update (\<lambda>_. u)))),
     (''aprs_node_rate'', u32_key any_u32 (\<lambda>u. aprs_update (aprs_node_rate_update (\<lambda>_. u))))]"

definition role_keys :: "(string \<times> setter) list" where
  "role_keys = [
     (''role'', set_role),
     (''affinity'', list_key affinity (\<lambda>xs. affinity_update (\<lambda>_. xs)) MC_MAX_AFFINITY),
     (''home'', list_key home (\<lambda>xs. home_update (\<lambda>_. xs)) MC_MAX_HOME),
     (''probe_allow'', list_key probe_allow (\<lambda>xs. probe_allow_update (\<lambda>_. xs)) MC_MAX_PROBE_ALLOW),
     (''hotspot_power_high'', set_dbm (\<lambda>p. hotspot_power_high_update (\<lambda>_. p))),
     (''hotspot_power_low'', set_dbm (\<lambda>p. hotspot_power_low_update (\<lambda>_. p))),
     (''hotspot_awake'', u32_key any_u32 (\<lambda>u. hotspot_awake_update (\<lambda>_. u))),
     (''web_port'', u32_key port16 (\<lambda>u. web_port_update (\<lambda>_. ucast u))),
     (''web_password'', set_web_password)]"

fun key_find :: "bytes \<Rightarrow> (string \<times> 'a) list \<Rightarrow> 'a option" where
  \<comment> \<open>the first entry whose name matches, whatever the case\<close>
  "key_find k [] = None"
| "key_find k ((n, x) # r) = (if strcaseeq k (lit n) then Some x else key_find k r)"

definition config_set :: "mc_config \<Rightarrow> bytes \<Rightarrow> bytes \<Rightarrow> cfg_result" where
  "config_set c key val =
     (case key_find key (radio_keys @ wiring_keys @ node_keys @ aprs_keys @ role_keys) of
        None \<Rightarrow> CfgBad (-1)
      | Some f \<Rightarrow> f val c)"

end
