(* ===== verification/Config_File.thy ===== *)
theory Config_File
  imports Config_Keys
begin

text \<open>
  The configuration file (\<open>config_get\<close>, \<open>config_load\<close>, \<open>config_save\<close> in \<^verbatim>\<open>config.c\<close>) and its round
  trip: a saved configuration is read back as it was, as far as its values can stand in a line of
  the file. A file is the list of its bytes, \<open>None\<close> one that cannot be opened; a load that puts an
  infinity or a NaN into a field is \<open>None\<close>.
\<close>

section \<open>Reading a key\<close>

type_synonym getter = "mc_config \<Rightarrow> nat \<Rightarrow> bytes"

definition get_str :: "(mc_config \<Rightarrow> bytes) \<Rightarrow> getter" where
  "get_str f c n = snprintf_s n (f c)"

definition get_bool :: "(mc_config \<Rightarrow> bool) \<Rightarrow> getter" where
  "get_bool f c n = snprintf_s n (if f c then lit ''true'' else lit ''false'')"

definition get_nat :: "(mc_config \<Rightarrow> nat) \<Rightarrow> getter" where
  "get_nat f c n = snprintf_s n (dec_nat (f c))"

definition get_int :: "(mc_config \<Rightarrow> int) \<Rightarrow> getter" where
  "get_int f c n = snprintf_s n (dec_int (f c))"

definition get_count :: "(mc_config \<Rightarrow> nat) \<Rightarrow> string \<Rightarrow> getter" where
  "get_count f what c n = snprintf_s n (dec_nat (f c) @ lit what)"

definition get_hub_key :: getter where
  "get_hub_key c n = (if backbone_have_hub_key (backbone c) then bin2hex (backbone_hub_key (backbone c)) n else [])"

definition get_masked :: "(mc_config \<Rightarrow> bytes) \<Rightarrow> getter" where
  "get_masked f c n = snprintf_s n (if f c \<noteq> [] then lit ''set'' else [])"

definition radio_gets :: "(string \<times> getter) list" where
  "radio_gets = [
     (''frequency'', get_str (\<lambda>c. fmt_f 3 (frequency (radio c)))),
     (''bandwidth'', get_str (\<lambda>c. fmt_g (bandwidth (radio c)))),
     (''spreading_factor'', get_nat (\<lambda>c. unat (spreading_factor (radio c)))),
     (''coding_rate'', get_nat (\<lambda>c. unat (coding_rate (radio c)))),
     (''tx_power'', get_int (\<lambda>c. tx_power (radio c))),
     (''preamble'', get_nat (\<lambda>c. unat (preamble (radio c)))),
     (''sync_word'', get_str (\<lambda>c. lit ''0x'' @ hex_fixed True 4 (unat (sync_word (radio c))))),
     (''crc'', get_bool (\<lambda>c. crc_on (radio c))),
     (''iq_inverted'', get_bool (\<lambda>c. iq_inverted (radio c))),
     (''use_cad'', get_bool (\<lambda>c. use_cad (radio c))),
     (''tcxo_voltage'', get_str (\<lambda>c. fmt_f 2 (tcxo_voltage (radio c)))),
     (''ocp'', get_str (\<lambda>c. lit ''0x'' @ hex_fixed True 2 (unat (ocp_reg (radio c)))))]"

definition wiring_gets :: "(string \<times> getter) list" where
  "wiring_gets = [
     (''spi_dev'', get_str (\<lambda>c. spi_dev (wiring c))),
     (''spi_speed'', get_nat (\<lambda>c. unat (spi_speed (wiring c)))),
     (''gpio_chip'', get_str (\<lambda>c. gpio_chip (wiring c))),
     (''gpio_reset'', get_nat (\<lambda>c. unat (gpio_reset (wiring c)))),
     (''gpio_busy'', get_nat (\<lambda>c. unat (gpio_busy (wiring c)))),
     (''gpio_dio1'', get_nat (\<lambda>c. unat (gpio_dio1 (wiring c)))),
     (''gpio_nss'', get_nat (\<lambda>c. unat (gpio_nss (wiring c)))),
     (''rf_switch'', get_str (\<lambda>c. if rf_switch_dio2 (wiring c) then lit ''dio2'' else lit ''external'')),
     (''gpio_rxen'', get_nat (\<lambda>c. unat (gpio_rxen (wiring c)))),
     (''gpio_txen'', get_nat (\<lambda>c. unat (gpio_txen (wiring c)))),
     (''use_leds'', get_bool (\<lambda>c. use_leds (wiring c))),
     (''gpio_led_on'', get_nat (\<lambda>c. unat (gpio_led_on (wiring c)))),
     (''gpio_led_data'', get_nat (\<lambda>c. unat (gpio_led_data (wiring c))))]"

definition node_gets :: "(string \<times> getter) list" where
  "node_gets = [
     (''name'', get_str cfg_name), (''key_file'', get_str key_file),
     (''latitude'', get_str (\<lambda>c. fmt_f 6 (latitude c))),
     (''longitude'', get_str (\<lambda>c. fmt_f 6 (longitude c))),
     (''location'', get_bool has_location),
     (''advert_interval'', get_nat (\<lambda>c. unat (advert_interval c))),
     (''forward'', get_bool forward), (''ping_pong'', get_bool ping_pong),
     (''timeofday'', get_bool timeofday_enable), (''mbox'', get_bool mbox_enable),
     (''ping_channel'', get_str (\<lambda>c. if ping_channel c \<noteq> [] then ping_channel c else lit ''any'')),
     (''control_port'', get_nat (\<lambda>c. unat (control_port c)))]"

definition link_gets :: "(string \<times> getter) list" where
  "link_gets = [
     (''link_mode'', get_str (\<lambda>c. link_mode (link c))),
     (''link_key'', get_masked (\<lambda>c. link_key (link c))),
     (''link_peer'', get_str (\<lambda>c. link_peer (link c))),
     (''link_port'', get_nat (\<lambda>c. unat (link_port (link c))))]"

definition backbone_gets :: "(string \<times> getter) list" where
  "backbone_gets = [
     (''backbone'', get_bool (\<lambda>c. backbone_enable (backbone c))),
     (''backbone_host'', get_str (\<lambda>c. backbone_host (backbone c))),
     (''backbone_port'', get_nat (\<lambda>c. unat (backbone_port (backbone c)))),
     (''backbone_hub_key'', get_hub_key),
     (''backbone_observe'', get_bool (\<lambda>c. backbone_observe (backbone c))),
     (''backbone_bridge'', get_bool (\<lambda>c. backbone_bridge (backbone c))),
     (''backbone_rate'', get_nat (\<lambda>c. unat (backbone_rate (backbone c)))),
     (''backbone_policy'', get_bool backbone_policy),
     (''backbone_policy_file'', get_str backbone_policy_file),
     (''public_channel'', get_count (\<lambda>c. length (public_channels c)) '' configured''),
     (''room'', get_count (\<lambda>c. length (rooms c)) '' configured''),
     (''blacklist'', get_count (\<lambda>c. length (blacklist c)) '' entries'')]"

definition aprs_gets :: "(string \<times> getter) list" where
  "aprs_gets = [
     (''aprs_enable'', get_bool (\<lambda>c. aprs_enable (aprs c))),
     (''aprs_call'', get_str (\<lambda>c. aprs_call (aprs c))),
     (''aprs_passcode'', get_str (\<lambda>c. aprs_passcode (aprs c))),
     (''aprs_host'', get_str (\<lambda>c. aprs_host (aprs c))),
     (''aprs_port'', get_nat (\<lambda>c. unat (aprs_port (aprs c)))),
     (''aprs_tocall'', get_str (\<lambda>c. aprs_tocall (aprs c))),
     (''aprs_symbol'', get_str (\<lambda>c. aprs_symbol (aprs c))),
     (''aprs_node_symbol'', get_str (\<lambda>c. aprs_node_symbol (aprs c))),
     (''aprs_comment'', get_str (\<lambda>c. aprs_comment (aprs c))),
     (''aprs_altitude'', get_str (\<lambda>c. fmt_g (aprs_altitude (aprs c)))),
     (''aprs_beacon_interval'', get_nat (\<lambda>c. unat (aprs_beacon_interval (aprs c)))),
     (''aprs_node_rate'', get_nat (\<lambda>c. unat (aprs_node_rate (aprs c))))]"

definition role_gets :: "(string \<times> getter) list" where
  "role_gets = [
     (''role'', get_str (\<lambda>c. if role c = ROLE_HOTSPOT then lit ''hotspot'' else lit ''repeater'')),
     (''affinity'', get_count (\<lambda>c. length (affinity c)) '' entries''),
     (''home'', get_count (\<lambda>c. length (home c)) '' entries''),
     (''probe_allow'', get_count (\<lambda>c. length (probe_allow c)) '' entries''),
     (''hotspot_power_high'', get_int hotspot_power_high),
     (''hotspot_power_low'', get_int hotspot_power_low),
     (''hotspot_awake'', get_nat (\<lambda>c. unat (hotspot_awake c))),
     (''web_port'', get_nat (\<lambda>c. unat (web_port c))),
     (''web_password'', get_masked web_password)]"

definition config_get :: "mc_config \<Rightarrow> bytes \<Rightarrow> nat \<Rightarrow> bytes option" where
  "config_get c key outsz =
     map_option (\<lambda>g. g c outsz)
       (key_find key (radio_gets @ wiring_gets @ node_gets @ link_gets @ backbone_gets @ aprs_gets @ role_gets))"

section \<open>Loading\<close>

definition config_line :: "bytes \<Rightarrow> mc_config \<Rightarrow> mc_config option" where
  \<comment> \<open>one line of the file; a key or value the program refuses leaves the configuration as it is\<close>
  "config_line raw c =
     (let line = takeWhile (\<lambda>b. b \<noteq> 35) (c_str raw);
          p = dropWhile is_blank line in
      case find_index (\<lambda>b. b = 61) p of
        None \<Rightarrow> Some c
      | Some eq \<Rightarrow>
          let key = strip_end is_blank (take eq p);
              val = strip_end is_space4 (dropWhile is_blank (drop (eq + 1) p)) in
          if key = [] then Some c
          else (case config_set c key val of
                  CfgOk c' \<Rightarrow> Some c'
                | CfgBad _ \<Rightarrow> Some c
                | CfgNotFinite \<Rightarrow> None))"

fun load_lines :: "bool \<Rightarrow> bytes list \<Rightarrow> mc_config \<Rightarrow> mc_config option" where
  \<comment> \<open>over the results of \<open>fgets\<close>; the flag says that the rest of an over-long line is being drained\<close>
  "load_lines skip [] c = Some c"
| "load_lines skip (l # ls) c =
     (if skip then load_lines (last l \<noteq> 10) ls c
      else if length (c_str l) = 1023 \<and> last (c_str l) \<noteq> 10 then load_lines True ls c
      else (case config_line l c of None \<Rightarrow> None | Some c' \<Rightarrow> load_lines False ls c'))"

definition config_load :: "mc_config \<Rightarrow> bytes option \<Rightarrow> (int \<times> mc_config) option" where
  "config_load c file =
     (case file of
        None \<Rightarrow> Some (-1, config_policy_merge (config_ensure_ping_channel c))
      | Some s \<Rightarrow>
          let c = c\<lparr>public_channels := [], rooms := [], blacklist := [], affinity := [], home := [], probe_allow := []\<rparr>
          in map_option (\<lambda>c. (0, config_policy_merge (config_ensure_ping_channel c)))
               (load_lines False (fgets_lines 1024 s) c))"

section \<open>Saving\<close>

definition KEYS :: "string list" where
  "KEYS = [''frequency'', ''bandwidth'', ''spreading_factor'', ''coding_rate'', ''tx_power'',
     ''preamble'', ''sync_word'', ''crc'', ''iq_inverted'', ''use_cad'', ''tcxo_voltage'', ''ocp'',
     ''spi_dev'', ''spi_speed'', ''gpio_chip'', ''gpio_reset'', ''gpio_busy'', ''gpio_dio1'',
     ''gpio_nss'', ''rf_switch'', ''gpio_rxen'', ''gpio_txen'', ''use_leds'', ''gpio_led_on'',
     ''gpio_led_data'', ''name'', ''key_file'', ''location'', ''latitude'',
     ''longitude'', ''advert_interval'', ''forward'', ''ping_pong'', ''timeofday'', ''control_port'',
     ''aprs_enable'', ''aprs_call'', ''aprs_passcode'', ''aprs_host'', ''aprs_port'',
     ''aprs_tocall'', ''aprs_symbol'', ''aprs_node_symbol'', ''aprs_comment'',
     ''aprs_altitude'', ''aprs_beacon_interval'', ''aprs_node_rate'',
     ''role'', ''hotspot_power_high'', ''hotspot_power_low'', ''hotspot_awake'', ''web_port'', ''mbox'',
     ''link_mode'', ''link_peer'', ''link_port'',
     ''backbone'', ''backbone_host'', ''backbone_port'', ''backbone_hub_key'',
     ''backbone_observe'', ''backbone_bridge'', ''backbone_rate'', ''backbone_policy'',
     ''backbone_policy_file'']"

definition cfg_line :: "string \<Rightarrow> bytes \<Rightarrow> bytes" where
  \<comment> \<open>the format \<open>%-18s = %s\<close>, without its newline\<close>
  "cfg_line k v = lit k @ replicate (18 - length k) 32 @ lit '' = '' @ v"

definition bare :: "bytes \<Rightarrow> bytes" where
  \<comment> \<open>without the leading '#'\<close>
  "bare s = (if take 1 s = [35] then drop 1 s else s)"

definition channel_value :: "mc_pub_channel \<Rightarrow> bytes" where
  "channel_value ch =
     (if ch_name ch \<noteq> [] then ch_name ch @ [58] else []) @ bin2hex (take (secret_len ch) (secret ch)) 65"

definition saved_entries :: "mc_config \<Rightarrow> (string \<times> bytes) list" where
  \<comment> \<open>the keys and values in the order they are written\<close>
  "saved_entries c =
     concat (map (\<lambda>k. case config_get c (lit k) 128 of Some v \<Rightarrow> [(k, v)] | None \<Rightarrow> []) KEYS)
     @ [(''ping_channel'', if ping_channel c = [] then lit ''any'' else bare (ping_channel c))]
     @ (if link_key (link c) \<noteq> [] then [(''link_key'', link_key (link c))] else [])
     @ (if web_password c \<noteq> [] then [(''web_password'', web_password c)] else [])
     @ map (\<lambda>ch. (''public_channel'', channel_value ch)) (filter (\<lambda>ch. \<not> derived ch) (public_channels c))
     @ map (\<lambda>b. (''blacklist'', b)) (blacklist c)
     @ map (\<lambda>a. (''affinity'', a)) (affinity c)
     @ map (\<lambda>h. (''home'', h)) (home c)
     @ map (\<lambda>p. (''probe_allow'', p)) (probe_allow c)
     @ map (\<lambda>r. (''room'', bare (room_name r))) (filter (\<lambda>r. \<not> room_hub r) (rooms c))"

definition config_save :: "mc_config \<Rightarrow> bytes" where
  "config_save c =
     lit ''# MeshCore repeater configuration'' @ [10]
       @ concat (map (\<lambda>(k, v). cfg_line k v @ [10]) (saved_entries c))"

section \<open>A saved line is read back\<close>

definition one_value :: "bytes \<Rightarrow> bool" where
  \<comment> \<open>text that stands in a line and does not begin or end with blanks\<close>
  "one_value v \<longleftrightarrow> line_text v \<and> 35 \<notin> set v \<and> length v < 900 \<and> (v \<noteq> [] \<longrightarrow> \<not> is_blank (hd v) \<and> \<not> is_space4 (last v))"

definition plain_key :: "string \<Rightarrow> bool" where
  "plain_key k \<longleftrightarrow> k \<noteq> [] \<and> length k < 32 \<and>
     list_all (\<lambda>b. b = 95 \<or> (97 \<le> b \<and> b \<le> 122) \<or> (48 \<le> b \<and> b \<le> 57)) (lit k)"

fun set_entries :: "(string \<times> bytes) list \<Rightarrow> mc_config \<Rightarrow> mc_config option" where
  "set_entries [] c = Some c"
| "set_entries ((k, v) # es) c =
     (case config_set c (lit k) v of
        CfgOk c' \<Rightarrow> set_entries es c'
      | CfgBad _ \<Rightarrow> set_entries es c
      | CfgNotFinite \<Rightarrow> None)"

lemma set_entries_append: "set_entries (xs @ ys) c = (case set_entries xs c of None \<Rightarrow> None | Some c' \<Rightarrow> set_entries ys c')"
  by (induction xs c rule: set_entries.induct) (auto split: cfg_result.splits)

lemma plain_key_chars:
  assumes "plain_key k" "b \<in> set (lit k)"
  shows "b \<noteq> 0 \<and> b \<noteq> 10 \<and> b \<noteq> 13 \<and> b \<noteq> 35 \<and> b \<noteq> 61 \<and> \<not> is_blank b \<and> tolower b = b"
proof -
  have "b = 95 \<or> (97 \<le> b \<and> b \<le> 122) \<or> (48 \<le> b \<and> b \<le> 57)" using assms by (auto simp: plain_key_def list_all_iff)
  then show ?thesis by (auto simp: is_blank_def tolower_def word_le_nat_alt)
qed

lemma strip_end_blanks: "strip_end is_blank (s @ replicate n 32) = strip_end is_blank s"
proof (induction n)
  case (Suc n)
  have "strip_end is_blank (s @ replicate (Suc n) 32) = strip_end is_blank ((s @ replicate n 32) @ [32])"
    by (simp add: replicate_append_same)
  moreover have "is_blank 32" by (simp add: is_blank_def)
  ultimately show ?case using Suc by (simp only: strip_end_snoc if_True)
qed simp

lemma find_index_first: "\<forall>x \<in> set xs. \<not> P x \<Longrightarrow> P y \<Longrightarrow> find_index P (xs @ y # ys) = Some (length xs)"
  by (induction xs) auto

lemma value_back:
  assumes "one_value v"
  shows "strip_end is_space4 (dropWhile is_blank (32 # v @ [10])) = v"
proof (cases "v = []")
  case True
  then show ?thesis by (simp add: is_blank_def strip_end_def is_space4_def)
next
  case False
  then have "\<not> is_blank (hd v)" "\<not> is_space4 (last v)" using assms by (auto simp: one_value_def)
  then have "dropWhile is_blank (v @ [10]) = v @ [10]" "strip_end is_space4 v = v"
    using False by (auto simp: strip_end_id neq_Nil_conv)
  then show ?thesis by (simp add: is_blank_def) (simp add: is_space4_def)
qed

lemma config_line_parts:
  assumes k: "plain_key k" and w: "takeWhile (\<lambda>b. b \<noteq> 35) (c_str raw) = lit k @ replicate (18 - length k) 32 @ lit '' ='' @ v"
  shows "config_line raw c = set_entries [(k, strip_end is_space4 (dropWhile is_blank v))] c"
proof -
  let ?pad = "replicate (18 - length k) 32 @ [32]"
  have kc: "\<forall>b \<in> set (lit k). b \<noteq> 0 \<and> b \<noteq> 10 \<and> b \<noteq> 13 \<and> b \<noteq> 35 \<and> b \<noteq> 61 \<and> \<not> is_blank b"
    using plain_key_chars [OF k] by blast
  have l: "takeWhile (\<lambda>b. b \<noteq> 35) (c_str raw) = (lit k @ ?pad) @ 61 # v" using w by simp
  obtain b bs where lk: "lit k = b # bs" using k by (cases k) (auto simp: plain_key_def)
  then have "\<not> is_blank b" using kc by (metis list.set_intros(1))
  then have d: "dropWhile is_blank ((lit k @ ?pad) @ 61 # v) = (lit k @ ?pad) @ 61 # v" unfolding lk by simp
  have f: "find_index (\<lambda>b. b = 61) ((lit k @ ?pad) @ 61 # v) = Some (length (lit k @ ?pad))"
  proof -
    have "61 \<notin> set (lit k)" using kc by blast
    then have "\<forall>x \<in> set (lit k @ ?pad). \<not> x = 61" by auto
    then show ?thesis by (rule find_index_first) (rule refl)
  qed
  have key: "strip_end is_blank (lit k @ ?pad) = lit k"
  proof -
    have "lit k @ ?pad = lit k @ replicate (Suc (18 - length k)) 32" by (simp add: replicate_append_same)
    then have "strip_end is_blank (lit k @ ?pad) = strip_end is_blank (lit k)" by (simp only: strip_end_blanks)
    also have "\<dots> = lit k" using kc last_in_set [of "lit k"] by (intro strip_end_id) blast
    finally show ?thesis .
  qed
  have t: "take (length (lit k @ ?pad)) ((lit k @ ?pad) @ 61 # v) = lit k @ ?pad" by simp
  have r: "drop (length (lit k @ ?pad) + 1) ((lit k @ ?pad) @ 61 # v) = v" by simp
  have ne: "lit k \<noteq> []" unfolding lk by simp
  show ?thesis
    unfolding config_line_def Let_def l d f option.case t r key if_not_P [OF ne]
    by (auto split: cfg_result.split)
qed

lemma cfg_line_chars:
  assumes "plain_key k" "b \<in> set (cfg_line k v)"
  shows "(b \<noteq> 0 \<and> b \<noteq> 10 \<and> b \<noteq> 35) \<or> b \<in> set v"
  using assms(2) plain_key_chars [OF assms(1)] by (auto simp: cfg_line_def)

lemma config_line_saved:
  assumes "plain_key k" "one_value v"
  shows "config_line (cfg_line k v @ [10]) c = set_entries [(k, v)] c"
proof -
  have "0 \<notin> set v" "35 \<notin> set v" using assms(2) by (auto simp: one_value_def line_text_def)
  then have all: "\<forall>b \<in> set (cfg_line k v @ [10]). b \<noteq> 0 \<and> b \<noteq> 35" using cfg_line_chars [OF assms(1)] by fastforce
  have "c_str (cfg_line k v @ [10]) = cfg_line k v @ [10]"
    unfolding c_str_def takeWhile_eq_all_conv using all by blast
  moreover have "takeWhile (\<lambda>b. b \<noteq> 35) (cfg_line k v @ [10]) = cfg_line k v @ [10]"
    unfolding takeWhile_eq_all_conv using all by blast
  ultimately have "takeWhile (\<lambda>b. b \<noteq> 35) (c_str (cfg_line k v @ [10])) =
      lit k @ replicate (18 - length k) 32 @ lit '' ='' @ 32 # v @ [10]" by (simp add: cfg_line_def)
  from config_line_parts [OF assms(1) this] show ?thesis unfolding value_back [OF assms(2)] .
qed

lemma config_line_cut:
  \<comment> \<open>what follows a '#' in a value is a comment on the way back\<close>
  assumes "plain_key k" "one_value v" "0 \<notin> set w"
  shows "config_line (cfg_line k (v @ 35 # w) @ [10]) c = set_entries [(k, v)] c"
proof -
  have v: "0 \<notin> set v" "35 \<notin> set v" using assms(2) by (auto simp: one_value_def line_text_def)
  have all: "\<forall>b \<in> set (cfg_line k v). b \<noteq> 0 \<and> b \<noteq> 35" using v cfg_line_chars [OF assms(1)] by fastforce
  have e: "cfg_line k (v @ 35 # w) @ [10] = cfg_line k v @ 35 # w @ [10]" by (simp add: cfg_line_def)
  have "\<forall>b \<in> set (cfg_line k (v @ 35 # w) @ [10]). b \<noteq> 0" unfolding e using all assms(3) by auto
  then have "c_str (cfg_line k (v @ 35 # w) @ [10]) = cfg_line k v @ 35 # w @ [10]"
    unfolding c_str_def takeWhile_eq_all_conv [symmetric] e by simp
  moreover have "takeWhile (\<lambda>b. b \<noteq> 35) (cfg_line k v @ 35 # w @ [10]) = cfg_line k v"
    using all takeWhile_append2 [of "cfg_line k v" "\<lambda>b. b \<noteq> 35" "35 # w @ [10]"] by simp
  ultimately have "takeWhile (\<lambda>b. b \<noteq> 35) (c_str (cfg_line k (v @ 35 # w) @ [10])) =
      lit k @ replicate (18 - length k) 32 @ lit '' ='' @ 32 # v" by (simp add: cfg_line_def)
  moreover have "strip_end is_space4 (dropWhile is_blank (32 # v)) = v"
  proof -
    have "dropWhile is_blank v = v" using assms(2) by (cases v) (auto simp: one_value_def)
    moreover have "strip_end is_space4 v = v" using assms(2) by (intro strip_end_id) (auto simp: one_value_def)
    ultimately show ?thesis by (simp add: is_blank_def)
  qed
  ultimately show ?thesis using config_line_parts [OF assms(1)] by metis
qed

definition cut :: "bytes \<Rightarrow> bytes" where
  \<comment> \<open>a value up to the first '#'\<close>
  "cut v = takeWhile (\<lambda>b. b \<noteq> 35) v"

definition loadable :: "string \<times> bytes \<Rightarrow> bool" where
  "loadable e \<longleftrightarrow> plain_key (fst e) \<and> line_text (snd e) \<and> length (snd e) < 900 \<and> one_value (cut (snd e))"

lemma config_line_cut_value:
  assumes "loadable (k, v)"
  shows "config_line (cfg_line k v @ [10]) c = set_entries [(k, cut v)] c"
proof (cases "35 \<in> set v")
  case True
  have "v = cut v @ dropWhile (\<lambda>b. b \<noteq> 35) v" by (simp add: cut_def)
  moreover have "dropWhile (\<lambda>b. b \<noteq> 35) v \<noteq> []" "hd (dropWhile (\<lambda>b. b \<noteq> 35) v) = 35"
    using True hd_dropWhile [of "\<lambda>b. b \<noteq> 35" v] by (auto simp: dropWhile_eq_Nil_conv)
  ultimately obtain w where w: "v = cut v @ 35 # w" by (metis list.collapse)
  have "0 \<notin> set v" using assms by (simp add: loadable_def line_text_def)
  then have "0 \<notin> set w" using arg_cong [OF w, of set] by auto
  then show ?thesis
    using config_line_cut [of k "cut v" w c] assms w by (simp add: loadable_def)
next
  case False
  then have "cut v = v" by (auto simp: cut_def takeWhile_eq_all_conv)
  then show ?thesis using config_line_saved [of k v c] assms by (simp add: loadable_def)
qed

lemma length_cfg_line: "loadable (k, v) \<Longrightarrow> length (cfg_line k v) + 1 < 1000"
  by (auto simp: cfg_line_def plain_key_def loadable_def)

lemma cfg_line_nl: "loadable (k, v) \<Longrightarrow> 10 \<notin> set (cfg_line k v)"
  using cfg_line_chars [of k 10 v] by (auto simp: loadable_def line_text_def)

lemma load_saved_lines:
  assumes "list_all loadable es"
  shows "load_lines False (map (\<lambda>(k, v). cfg_line k v @ [10]) es) c = set_entries (map (\<lambda>(k, v). (k, cut v)) es) c"
  using assms
proof (induction es arbitrary: c)
  case (Cons e es)
  obtain k v where e: "e = (k, v)" by (cases e)
  have kv: "loadable (k, v)" using Cons.prems by (simp add: e)
  have "length (c_str (cfg_line k v @ [10])) \<le> length (cfg_line k v @ [10])" unfolding c_str_def by (rule length_takeWhile_le)
  then have "length (c_str (cfg_line k v @ [10])) \<noteq> 1023" using length_cfg_line [OF kv] by simp
  then have "load_lines False (map (\<lambda>(k, v). cfg_line k v @ [10]) (e # es)) c =
      (case set_entries [(k, cut v)] c of None \<Rightarrow> None | Some c' \<Rightarrow> load_lines False (map (\<lambda>(k, v). cfg_line k v @ [10]) es) c')"
    using config_line_cut_value [OF kv, of c] by (simp add: e)
  also have "\<dots> = set_entries (map (\<lambda>(k, v). (k, cut v)) (e # es)) c"
    using Cons by (auto simp: e split: cfg_result.split)
  finally show ?case .
qed simp

lemma load_saved_cut:
  assumes "list_all loadable (saved_entries c)"
  shows "load_lines False (fgets_lines 1024 (config_save c)) c' = set_entries (map (\<lambda>(k, v). (k, cut v)) (saved_entries c)) c'"
proof -
  let ?h = "lit ''# MeshCore repeater configuration''"
  let ?ls = "map (\<lambda>(k, v). cfg_line k v) (saved_entries c)"
  have eq: "config_save c = concat (map (\<lambda>l. l @ [10]) (?h # ?ls))"
    by (simp add: config_save_def comp_def case_prod_unfold)
  have short: "\<forall>l \<in> set (?h # ?ls). 10 \<notin> set l \<and> length l + 1 < 1024"
  proof -
    have "10 \<notin> set (cfg_line k v) \<and> length (cfg_line k v) + 1 < 1024" if "(k, v) \<in> set (saved_entries c)" for k v
      using that assms cfg_line_nl [of k v] length_cfg_line [of k v] by (fastforce simp: list_all_iff)
    then show ?thesis by auto
  qed
  have "fgets_lines 1024 (config_save c) = (?h @ [10]) # map (\<lambda>(k, v). cfg_line k v @ [10]) (saved_entries c)"
  proof (rule trans)
    show "fgets_lines 1024 (config_save c) = map (\<lambda>l. l @ [10]) (?h # ?ls)"
      unfolding eq by (rule fgets_lines_concat [OF short])
    show "map (\<lambda>l. l @ [10]) (?h # ?ls) = (?h @ [10]) # map (\<lambda>(k, v). cfg_line k v @ [10]) (saved_entries c)"
      by (simp only: list.map map_map comp_def case_prod_unfold)
  qed
  moreover have "config_line (?h @ [10]) c' = Some c'" by (simp add: config_line_def c_str_def)
  moreover have "length (c_str (?h @ [10])) \<noteq> 1023" by (simp add: c_str_def)
  ultimately show ?thesis using load_saved_lines [OF assms, of c'] by simp
qed

lemma cut_id: "35 \<notin> set v \<Longrightarrow> cut v = v"
  by (auto simp: cut_def takeWhile_eq_all_conv)

lemma load_saved:
  assumes "\<forall>(k, v) \<in> set (saved_entries c). plain_key k \<and> one_value v"
  shows "load_lines False (fgets_lines 1024 (config_save c)) c' = set_entries (saved_entries c) c'"
proof -
  have v: "loadable (k, v) \<and> cut v = v" if "(k, v) \<in> set (saved_entries c)" for k v
    using that assms cut_id [of v] by (auto simp: loadable_def one_value_def)
  then have "map (\<lambda>(k, v). (k, cut v)) (saved_entries c) = saved_entries c"
    by (intro map_idI) auto
  moreover have "list_all loadable (saved_entries c)" using v by (auto simp: list_all_iff)
  ultimately show ?thesis using load_saved_cut [of c c'] by simp
qed

end
