(* ===== verification/Config_Trip.thy ===== *)
theory Config_Trip
  imports Config_File
begin

text \<open>
  The round trip of the configuration file: what each kind of value prints is read back by its key,
  the sections of the file restore their part of the configuration, and together they restore the
  whole.
\<close>

section \<open>Finding a key\<close>

lemma unat_of_char: "unat (of_char c :: byte) = of_char c"
proof -
  have "(of_char c :: byte) = of_nat (of_char c)" by (simp only: of_nat_of_char)
  then show ?thesis by (simp only: of_nat_unat_8_32) simp
qed

lemma of_char_byte_inj: "(of_char c :: byte) = of_char d \<longleftrightarrow> c = d"
  using unat_of_char [of c] unat_of_char [of d] by (metis of_char_eq_iff)

lemma lit_inj [simp]: "lit a = lit b \<longleftrightarrow> a = b"
proof (induction a arbitrary: b)
  case Nil
  then show ?case by (cases b) simp_all
next
  case (Cons c a)
  then show ?case by (cases b) (simp_all add: of_char_byte_inj)
qed

lemma plain_case: "plain_key a \<Longrightarrow> plain_key b \<Longrightarrow> strcaseeq (lit a) (lit b) \<longleftrightarrow> a = b"
proof -
  assume "plain_key a" "plain_key b"
  then have "map tolower (lit a) = lit a" "map tolower (lit b) = lit b"
    using plain_key_chars by (simp_all add: map_idI)
  then show ?thesis by (simp add: strcaseeq_def)
qed

lemma key_find_plain: "list_all (\<lambda>e. plain_key (fst e)) t \<Longrightarrow> plain_key k \<Longrightarrow> key_find (lit k) t = map_of t k"
  by (induction t) (auto simp: plain_case)

definition all_keys :: "(string \<times> setter) list" where
  "all_keys = radio_keys @ wiring_keys @ node_keys @ aprs_keys @ role_keys"

definition all_gets :: "(string \<times> getter) list" where
  "all_gets = radio_gets @ wiring_gets @ node_gets @ link_gets @ backbone_gets @ aprs_gets @ role_gets"

lemmas key_tables = radio_keys_def wiring_keys_def node_keys_def aprs_keys_def role_keys_def
lemmas get_tables = radio_gets_def wiring_gets_def node_gets_def link_gets_def backbone_gets_def aprs_gets_def role_gets_def

lemma names_plain:
  "list_all plain_key (map fst all_keys)" "list_all plain_key (map fst all_gets)"
  unfolding all_keys_def all_gets_def key_tables get_tables
  by (simp_all add: plain_key_def)

lemma set_plain: "plain_key k \<Longrightarrow> config_set c (lit k) v = (case map_of all_keys k of None \<Rightarrow> CfgBad (-1) | Some f \<Rightarrow> f v c)"
  using names_plain(1) by (simp add: config_set_def all_keys_def [symmetric] key_find_plain list.pred_map comp_def)

lemma get_plain: "plain_key k \<Longrightarrow> config_get c (lit k) n = map_option (\<lambda>g. g c n) (map_of all_gets k)"
  using names_plain(2) by (simp add: config_get_def all_gets_def [symmetric] key_find_plain list.pred_map comp_def)

section \<open>Values\<close>

lemma digits_run_stop: "digits_run base a (c # r) = (a, c # r)" if "digit_in base c = None"
  using that by simp

lemma digits_run_zeros: "digits_run 10 a (replicate k 48 @ r) = digits_run 10 (a * 10 ^ k) r"
proof (induction k arbitrary: a)
  case (Suc k)
  have "digit_in 10 48 = Some 0" by (simp add: digit_in_def hexval_def)
  with Suc [of "a * 10"] show ?case by (simp add: mult.assoc)
qed simp

lemma digits_run_pad:
  assumes "b < 10 ^ n" "0 < n"
  shows "digits_run 10 a (dec_pad n b @ r) = digits_run 10 (a * 10 ^ n + b) r" "length (dec_pad n b) = n"
proof -
  have l: "length (dec_nat b) \<le> n" by (rule dec_nat_length [OF assms])
  then show "length (dec_pad n b) = n" by (simp add: dec_pad_def)
  have "(10 :: nat) ^ n = 10 ^ (n - length (dec_nat b)) * 10 ^ length (dec_nat b)"
    using l by (simp flip: power_add)
  then show "digits_run 10 a (dec_pad n b @ r) = digits_run 10 (a * 10 ^ n + b) r"
    by (simp add: dec_pad_def digits_run_zeros digits_run_dec mult.assoc)
qed

lemma dec_nat_head: "\<exists>c r. dec_nat n = c # r \<and> 48 \<le> c \<and> c \<le> 57"
  using dec_nat_chars [of _ n] by (cases "dec_nat n") auto

lemma digit_in_dec: "48 \<le> c \<Longrightarrow> c \<le> 57 \<Longrightarrow> digit_in 10 c \<noteq> None"
  by (auto simp: digit_in_def hexval_def word_le_nat_alt unat_sub)

lemma scan_fixed:
  assumes "0 < n"
  shows "scan_number 10 101 10 (fixed_digits n m) = Some (of_nat m / 10 ^ n, [])"
proof -
  let ?a = "m div 10 ^ n" and ?b = "m mod 10 ^ n"
  have f: "fixed_digits n m = dec_nat ?a @ 46 # dec_pad n ?b" using assms by (simp add: fixed_digits_def)
  have "digit_in 10 46 = None" by (simp add: digit_in_def hexval_def)
  then have 1: "digits_run 10 0 (fixed_digits n m) = (?a, 46 # dec_pad n ?b)"
    unfolding f using digits_run_dec [of 0 ?a "46 # dec_pad n ?b"] by simp
  have b: "?b < 10 ^ n" by simp
  have 2: "digits_run 10 ?a (dec_pad n ?b) = (m, [])" "length (dec_pad n ?b) = n"
    using digits_run_pad(1) [OF b assms, of ?a "[]"] digits_run_pad(2) [OF b assms]
    by (simp_all only: div_mult_mod_eq append_Nil2 digits_run.simps)
  show ?thesis
    using assms by (simp add: scan_number_def 1 2 scan_exp_def Let_def)
qed

lemma digit_char: "48 \<le> c \<Longrightarrow> c \<le> 57 \<Longrightarrow> tolower c = c \<and> \<not> is_space_c c \<and> \<not> is_blank c \<and> \<not> is_space4 c \<and>
    c \<noteq> 0 \<and> c \<noteq> 10 \<and> c \<noteq> 13 \<and> c \<noteq> 35 \<and> c \<noteq> 43 \<and> c \<noteq> 45 \<and> c \<noteq> 105 \<and> c \<noteq> 110 \<and> c \<noteq> 120"
  by (auto simp: tolower_def is_space_c_def is_blank_def is_space4_def word_le_nat_alt)

lemma dec_pad_chars: "c \<in> set (dec_pad n b) \<Longrightarrow> 48 \<le> c \<and> c \<le> 57"
  using dec_nat_chars by (auto simp: dec_pad_def)

lemma fixed_chars: "c \<in> set (fixed_digits n m) \<Longrightarrow> c = 46 \<or> (48 \<le> c \<and> c \<le> 57)"
  using dec_nat_chars dec_pad_chars by (fastforce simp: fixed_digits_def split: if_splits)

lemma fixed_head: "\<exists>c r. fixed_digits n m = c # r \<and> 48 \<le> c \<and> c \<le> 57"
proof -
  obtain c r where "dec_nat (m div 10 ^ n) = c # r" "48 \<le> c" "c \<le> 57" using dec_nat_head by blast
  moreover obtain c' r' where "dec_nat m = c' # r'" "48 \<le> c'" "c' \<le> 57" using dec_nat_head by blast
  ultimately show ?thesis by (simp add: fixed_digits_def)
qed

lemma strtod_fixed:
  assumes "0 < n" "(of_nat m :: rat) / 10 ^ n < 2 ^ 1024"
  shows "strtod ((if neg then [45] else []) @ fixed_digits n m) = Some (Num (if neg then - (of_nat m / 10 ^ n) else of_nat m / 10 ^ n), [])"
proof -
  let ?s = "fixed_digits n m"
  obtain c r where s: "?s = c # r" and c: "48 \<le> c" "c \<le> 57" using fixed_head by blast
  note d = digit_char [OF c]
  have l: "tolower 105 = (105 :: byte)" "tolower 110 = (110 :: byte)" "\<not> is_space_c 45"
    by (simp_all add: tolower_def is_space_c_def)
  have "\<not> strcaseeq (take 2 ?s) (lit ''0x'')"
  proof
    assume a: "strcaseeq (take 2 ?s) (lit ''0x'')"
    obtain b r' where b: "r = b # r'" "tolower b = 120"
    proof (cases r)
      case Nil
      with a show thesis unfolding s by (simp add: strcaseeq_def)
    next
      case (Cons b r')
      have "tolower 120 = (120 :: byte)" by (simp add: tolower_def)
      with a show thesis using Cons that unfolding s by (simp add: strcaseeq_def)
    qed
    then have "b = 46 \<or> (48 \<le> b \<and> b \<le> 57)" using fixed_chars [of b n m] s by simp
    with b(2) digit_char [of b] show False by (auto simp: tolower_def)
  qed
  moreover have "\<not> strcaseeq (take 8 ?s) (lit ''infinity'')" "\<not> strcaseeq (take 3 ?s) (lit ''inf'')" "\<not> strcaseeq (take 3 ?s) (lit ''nan'')"
    unfolding s using d l by (auto simp: strcaseeq_def)
  moreover have "dropWhile is_space_c ((if neg then [45] else []) @ ?s) = (if neg then [45] else []) @ ?s"
    unfolding s using d l(3) by simp
  moreover have "take 1 ?s \<noteq> [45]" "take 1 ?s \<noteq> [43]" unfolding s using d by simp_all
  ultimately show ?thesis
    using scan_fixed [OF assms(1), of m] assms(2) by (cases neg) (simp_all add: strtod_def Let_def)
qed

lemma parse_fmt_f:
  assumes "0 < n" "x * 10 ^ n = of_int i" "\<bar>x\<bar> < 10 ^ 30"
  shows "parse_double (fmt_f n x) = Some (Num x)"
proof -
  let ?m = "nat \<bar>i\<bar>"
  have a: "\<bar>x\<bar> * 10 ^ n = of_int \<bar>i\<bar>" using assms(2) by (metis abs_mult abs_of_nonneg of_int_abs zero_le_numeral zero_le_power)
  then have r: "nat (round_even (\<bar>x\<bar> * 10 ^ n)) = ?m" by (simp only: round_even_int)
  have v: "(of_nat ?m :: rat) / 10 ^ n = \<bar>x\<bar>" using a by (simp add: field_simps)
  have "(10 :: rat) ^ 30 \<le> 2 ^ 1024" by simp
  then have "(of_nat ?m :: rat) / 10 ^ n < 2 ^ 1024" unfolding v using assms(3) by linarith
  then have "strtod (fmt_f n x) = Some (Num (if x < 0 then - \<bar>x\<bar> else \<bar>x\<bar>), [])"
    unfolding fmt_f_def r using strtod_fixed [OF assms(1), of ?m "x < 0"] v by simp
  then show ?thesis by (auto simp: parse_double_def)
qed


section \<open>Setters after getters\<close>

definition fixed_ok :: "nat \<Rightarrow> rat \<Rightarrow> bool" where
  \<comment> \<open>a number that \<open>n\<close> decimals show exactly\<close>
  "fixed_ok n x \<longleftrightarrow> of_int \<lfloor>x * 10 ^ n\<rfloor> = x * 10 ^ n \<and> \<bar>x\<bar> < 10 ^ 30"

definition general_ok :: "rat \<Rightarrow> bool" where
  \<comment> \<open>a number that \<^verbatim>\<open>%g\<close> shows exactly\<close>
  "general_ok x \<longleftrightarrow> length (fmt_g x) < 128 \<and> one_value (fmt_g x) \<and> parse_double (fmt_g x) = Some (Num x)"

definition text_ok :: "nat \<Rightarrow> bytes \<Rightarrow> bool" where
  \<comment> \<open>text that stands in a line, fits its array and the buffer of \<open>config_save\<close>\<close>
  "text_ok n s \<longleftrightarrow> one_value s \<and> length s < n \<and> length s < 128"

lemma fmt_f_length: "fixed_ok n x \<Longrightarrow> n < 90 \<Longrightarrow> length (fmt_f n x) < 128"
proof -
  assume x: "fixed_ok n x" and n: "n < 90"
  let ?m = "nat (round_even (\<bar>x\<bar> * 10 ^ n))"
  have a: "\<bar>x\<bar> * 10 ^ n = of_int \<bar>\<lfloor>x * 10 ^ n\<rfloor>\<bar>"
    using x unfolding fixed_ok_def by (metis abs_mult abs_of_nonneg of_int_abs zero_le_numeral zero_le_power)
  then have "?m = nat \<bar>\<lfloor>x * 10 ^ n\<rfloor>\<bar>" by (simp only: round_even_int)
  then have "(of_nat ?m :: rat) = of_int \<bar>\<lfloor>x * 10 ^ n\<rfloor>\<bar>" by simp
  also have "\<dots> = \<bar>x\<bar> * 10 ^ n" by (simp only: a)
  also have "\<dots> < 10 ^ 30 * 10 ^ n" using x by (simp add: fixed_ok_def)
  finally have "(of_nat ?m :: rat) < of_nat (10 ^ 30 * 10 ^ n)" by simp
  then have m: "?m < 10 ^ 30 * 10 ^ n" by (simp only: of_nat_less_iff)
  then have "?m div 10 ^ n < 10 ^ 30" by (simp add: div_less_iff_less_mult)
  then have a: "length (dec_nat (?m div 10 ^ n)) \<le> 30" by (rule dec_nat_length) simp
  have "length (fixed_digits n ?m) \<le> 31 + n"
  proof (cases "n = 0")
    case True
    with a show ?thesis by (simp add: fixed_digits_def)
  next
    case False
    then have "length (dec_pad n (?m mod 10 ^ n)) = n" by (intro digits_run_pad(2)) simp_all
    with a False show ?thesis by (simp add: fixed_digits_def)
  qed
  moreover have "length (fmt_f n x) \<le> 1 + length (fixed_digits n ?m)" unfolding fmt_f_def by simp
  ultimately show ?thesis using n by linarith
qed

lemma bool_back: "bool_key f (get_bool sel c 128) x = CfgOk (f (sel c) x)"
  by (simp add: bool_key_def get_bool_def snprintf_s_def parse_bool_def strcaseeq_def tolower_def)

lemma text_back: "text_ok n (sel c) \<Longrightarrow> str_key n f (get_str sel c 128) x = CfgOk (f (sel c) x)"
  by (auto simp: str_key_def get_str_def snprintf_s_def text_ok_def)

lemma nat_back:
  assumes "n c < 2 ^ 32" "P (of_nat (n c))"
  shows "u32_key P f (get_nat n c 128) x = CfgOk (f (of_nat (n c)) x)"
proof -
  have "(2 :: nat) ^ 32 < 10 ^ 10" by simp
  then have "n c < 10 ^ 10" using assms(1) by linarith
  then have "length (dec_nat (n c)) \<le> 10" by (rule dec_nat_length) simp
  then show ?thesis using parse_u32_dec [OF assms(1)] assms(2) by (simp add: u32_key_def get_nat_def snprintf_s_def)
qed

lemma fixed_back:
  assumes "fixed_ok n (sel c)" "0 < n" "n < 90" "P (Num (sel c))"
  shows "dbl_key P f (get_str (\<lambda>c. fmt_f n (sel c)) c 128) x = CfgOk (f (sel c) x)"
proof -
  have "sel c * 10 ^ n = of_int \<lfloor>sel c * 10 ^ n\<rfloor>" "\<bar>sel c\<bar> < 10 ^ 30" using assms(1) unfolding fixed_ok_def by argo+
  then have "parse_double (fmt_f n (sel c)) = Some (Num (sel c))" by (rule parse_fmt_f [OF assms(2)])
  then show ?thesis
    using fmt_f_length [OF assms(1) assms(3)] assms(4) by (simp add: dbl_key_def get_str_def snprintf_s_def)
qed

lemma general_back:
  assumes "general_ok (sel c)" "P (Num (sel c))"
  shows "dbl_key P f (get_str (\<lambda>c. fmt_g (sel c)) c 128) x = CfgOk (f (sel c) x)"
  using assms by (simp add: dbl_key_def get_str_def snprintf_s_def general_ok_def)

lemma strtol_dec: "\<bar>i\<bar> < 2 ^ 63 \<Longrightarrow> strtol (dec_int i) = Some (i, [])"
proof -
  assume i: "\<bar>i\<bar> < 2 ^ 63"
  let ?n = "nat \<bar>i\<bar>"
  obtain c r where s: "dec_nat ?n = c # r" "48 \<le> c" "c \<le> 57" using dec_nat_head by blast
  note d = digit_char [OF s(2,3)] digit_in_dec [OF s(2,3)]
  have "digits_run 10 0 (c # r) = (?n, [])" using digits_run_dec [of 0 ?n "[]"] s(1) by simp
  moreover have "dec_int i = (if i < 0 then [45] else []) @ c # r" using s(1) by (auto simp: dec_int_def)
  moreover have "\<not> is_space_c 45" by (simp add: is_space_c_def)
  ultimately show ?thesis using d i by (simp add: strtol_def Let_def del: digits_run.simps)
qed

lemma dec_int_short: "\<bar>i\<bar> < 100 \<Longrightarrow> length (dec_int i) < 4"
proof -
  assume "\<bar>i\<bar> < 100"
  then have "nat (- i) < 10 ^ 2" "nat i < 10 ^ 2" by auto
  then have "length (dec_nat (nat (- i))) \<le> 2" "length (dec_nat (nat i)) \<le> 2" by (auto intro!: dec_nat_length)
  then show ?thesis by (simp add: dec_int_def)
qed

lemma dbm_back: "- 9 \<le> i \<and> i \<le> 22 \<Longrightarrow> dbm_of (snprintf_s 128 (dec_int i)) = Some i"
proof -
  assume "- 9 \<le> i \<and> i \<le> 22"
  then have "\<bar>i\<bar> < 100" "\<bar>i\<bar> < 2 ^ 63" by auto
  then show ?thesis using strtol_dec [of i] dec_int_short [of i] by (simp add: dbm_of_def snprintf_s_def)
qed

lemma digit_in_hex: "n < 16 \<Longrightarrow> digit_in 16 (hex_digit True n) = Some n"
proof -
  assume "n < 16"
  then have "n \<in> set [0..<16]" by simp
  moreover have "list_all (\<lambda>k. digit_in 16 (hex_digit True k) = Some k) [0..<16]"
    by (simp add: upt_rec hex_digit_def digit_in_def hexval_def)
  ultimately show ?thesis by (simp only: list_all_iff)
qed

lemma digits_run_hex: "n < 16 ^ w \<Longrightarrow> digits_run 16 a (hex_fixed True w n @ r) = digits_run 16 (a * 16 ^ w + n) r"
proof (induction w arbitrary: n a r)
  case (Suc w)
  have "n div 16 < 16 ^ w" using Suc.prems by (simp add: div_less_iff_less_mult)
  then have "digits_run 16 a (hex_fixed True w (n div 16) @ hex_digit True (n mod 16) # r) =
      digits_run 16 (a * 16 ^ w + n div 16) (hex_digit True (n mod 16) # r)"
    by (rule Suc.IH)
  then show ?case by (simp add: digit_in_hex algebra_simps)
qed simp

lemma hex_fixed_head: "0 < w \<Longrightarrow> \<exists>c r. hex_fixed up w n = c # r \<and> (\<exists>k < 16. c = hex_digit up k)"
proof (induction w arbitrary: n)
  case (Suc w)
  show ?case
  proof (cases "w = 0")
    case True
    then show ?thesis by (auto intro: exI [of _ "n mod 16"])
  next
    case False
    with Suc.IH [of "n div 16"] show ?thesis by auto
  qed
qed simp

lemma parse_u32_hex:
  assumes "0 < w" "n < 16 ^ w" "n < 2 ^ 32"
  shows "parse_u32 (lit ''0x'' @ hex_fixed True w n) = Some (of_nat n)"
proof -
  obtain c r k where s: "hex_fixed True w n = c # r" "k < 16" "c = hex_digit True k"
    using hex_fixed_head [OF assms(1), of True n] by auto
  then have "digit_in 16 c = Some k" by (simp add: digit_in_hex)
  moreover have "digits_run 16 0 (c # r) = (n, [])" using digits_run_hex [OF assms(2), of 0 "[]"] s(1) by simp
  moreover have "\<not> is_space_c 48" by (simp add: is_space_c_def)
  ultimately have "strtoul 16 (48 # 120 # c # r) = Some (of_nat n, [])"
    using assms(3) by (simp add: strtoul_def Let_def del: digits_run.simps)
  then show ?thesis
    using assms(3) by (simp add: parse_u32_def s(1) word_unat_eq_iff unsigned_ucast_eq unat_of_nat take_bit_eq_mod)
qed

lemma hex_back:
  assumes "0 < w" "w < 90" "n c < 16 ^ w" "n c < 2 ^ 32" "P (of_nat (n c))"
  shows "u32_key P f (get_str (\<lambda>c. lit ''0x'' @ hex_fixed True w (n c)) c 128) x = CfgOk (f (of_nat (n c)) x)"
  using parse_u32_hex [OF assms(1,3,4)] assms(2,5) by (simp add: u32_key_def get_str_def snprintf_s_def)

end
