(* ===== verification/Config_Back.thy ===== *)
theory Config_Back
  imports Config_Trip
begin

text \<open>
  The sections of a saved configuration: the lines of each restore its part of the configuration,
  when its values are of the kind the keys accept.
\<close>

definition entry :: "mc_config \<Rightarrow> string \<Rightarrow> string \<times> bytes" where
  "entry c k = (k, the (config_get c (lit k) 128))"

lemma names_once: "distinct (map fst all_keys)" "distinct (map fst all_gets)"
  unfolding all_keys_def all_gets_def key_tables get_tables by simp_all

lemma entry_value:
  assumes "(k, g) \<in> set all_gets"
  shows "plain_key k" "entry c k = (k, g c 128)"
proof -
  show p: "plain_key k" using names_plain(2) assms by (force simp: list_all_iff)
  have "map_of all_gets k = Some g" using names_once(2) assms by (rule map_of_is_SomeI)
  with p show "entry c k = (k, g c 128)" by (simp add: entry_def get_plain)
qed

lemma entry_step:
  assumes "(k, f) \<in> set all_keys" "(k, g) \<in> set all_gets"
  shows "set_entries (entry c k # es) x =
    (case f (g c 128) x of CfgOk x' \<Rightarrow> set_entries es x' | CfgBad _ \<Rightarrow> set_entries es x | CfgNotFinite \<Rightarrow> None)"
proof -
  have "map_of all_keys k = Some f" using names_once(1) assms(1) by (rule map_of_is_SomeI)
  then show ?thesis using entry_value [OF assms(2)] by (simp add: set_plain)
qed

fun run_pairs :: "(setter \<times> getter) list \<Rightarrow> mc_config \<Rightarrow> mc_config \<Rightarrow> mc_config option" where
  "run_pairs [] c x = Some x"
| "run_pairs ((f, g) # ps) c x =
     (case f (g c 128) x of CfgOk x' \<Rightarrow> run_pairs ps c x' | CfgBad _ \<Rightarrow> run_pairs ps c x | CfgNotFinite \<Rightarrow> None)"

lemma section_back:
  assumes "set ks \<subseteq> set all_keys" "set gs \<subseteq> set all_gets" "map fst ks = map fst gs"
  shows "set_entries (map (entry c) (map fst gs)) x = run_pairs (zip (map snd ks) (map snd gs)) c x"
  using assms
proof (induction gs arbitrary: ks x)
  case (Cons e gs)
  obtain k g where e: "e = (k, g)" by (cases e)
  obtain f ks' where ks: "ks = (k, f) # ks'" using Cons.prems(3) by (cases ks) (auto simp: e)
  have "set_entries (entry c k # es) x =
      (case f (g c 128) x of CfgOk x' \<Rightarrow> set_entries es x' | CfgBad _ \<Rightarrow> set_entries es x | CfgNotFinite \<Rightarrow> None)" for es
    using Cons.prems by (intro entry_step) (auto simp: e ks)
  moreover have "set_entries (map (entry c) (map fst gs)) y = run_pairs (zip (map snd ks') (map snd gs)) c y" for y
    using Cons.prems by (intro Cons.IH) (auto simp: e ks)
  ultimately show ?case by (simp add: e ks split: cfg_result.split)
qed simp

lemma small_words [simp]:
  "unat (w8 :: byte) < 4294967296" "unat (w16 :: u16) < 4294967296" "unat (w32 :: u32) < 4294967296"
  "unat w16 < 65536" "unat w8 < 256" "unat w16 \<le> 65535"
proof -
  have "unat w8 < 256" using unsigned_less [of w8] by simp
  moreover have "unat w16 < 65536" using unsigned_less [of w16] by simp
  moreover have "unat w32 < 4294967296" using unsigned_less [of w32] by simp
  ultimately show "unat w8 < 4294967296" "unat w16 < 4294967296" "unat w32 < 4294967296" "unat w16 < 65536" "unat w8 < 256" "unat w16 \<le> 65535"
    by linarith+
qed

lemma ucast_back [simp]:
  "ucast (ucast (w8 :: byte) :: u32) = w8" "ucast (ucast (w16 :: u16) :: u32) = w16"
  "(ucast w16 :: u32) \<le> 65535" "unat (ucast w16 :: u32) = unat w16" "unat (ucast w8 :: u32) = unat w8"
proof -
  have w: "unat (ucast w16 :: u32) = unat w16" "unat (ucast w8 :: u32) = unat w8"
    by (simp_all add: unsigned_ucast_eq take_bit_nat_eq_self)
  then show "unat (ucast w16 :: u32) = unat w16" "unat (ucast w8 :: u32) = unat w8" by simp_all
  show "ucast (ucast w8 :: u32) = w8" "ucast (ucast w16 :: u32) = w16"
    by (auto intro!: bit_word_eqI simp: bit_ucast_iff)
  show "(ucast w16 :: u32) \<le> 65535" using small_words(4) [of w16] unfolding word_le_nat_alt w by simp
qed

definition radio_ok :: "radio_config \<Rightarrow> bool" where
  "radio_ok r \<longleftrightarrow> fixed_ok 3 (frequency r) \<and> 137 \<le> frequency r \<and> frequency r \<le> 1020 \<and>
     bandwidth r \<in> {125 / 2, 125, 250, 500} \<and> 5 \<le> unat (spreading_factor r) \<and> unat (spreading_factor r) \<le> 12 \<and>
     5 \<le> unat (coding_rate r) \<and> unat (coding_rate r) \<le> 8 \<and> - 9 \<le> tx_power r \<and> tx_power r \<le> 22 \<and>
     6 \<le> unat (preamble r) \<and> fixed_ok 2 (tcxo_voltage r) \<and> 0 \<le> tcxo_voltage r \<and> tcxo_voltage r \<le> 34 / 10 \<and>
     unat (ocp_reg r) \<le> 0x3F"

lemma dec_step:
  "n < 10 \<Longrightarrow> dec_nat n = [48 + of_nat n]"
  "10 \<le> n \<Longrightarrow> dec_nat n = dec_nat (n div 10) @ [48 + of_nat (n mod 10)]"
  by (subst dec_nat.simps, simp)+

lemma bandwidth_ok: "x \<in> {125 / 2, 125, 250, 500} \<Longrightarrow> general_ok x"
proof -
  have n: "\<lfloor>125 / 2 :: rat\<rfloor> = 62" by (simp add: floor_eq_iff)
  have r: "replicate 2 x = [x, x]" for x :: byte by (simp add: numeral_2_eq_2)
  have f: "fmt_g (125 / 2) = lit ''62.5''" "fmt_g 125 = lit ''125''" "fmt_g 250 = lit ''250''" "fmt_g 500 = lit ''500''"
    by (simp_all add: n fmt_g_def exp10_def pow10_def round_even_def Let_def fixed_digits_def strip_fraction_def dec_step dec_pad_def strip_end_def r)
  have p: "parse_double (lit ''62.5'') = Some (Num (125 / 2))" "parse_double (lit ''125'') = Some (Num 125)"
    "parse_double (lit ''250'') = Some (Num 250)" "parse_double (lit ''500'') = Some (Num 500)"
    by (simp_all add: parse_double_def strtod_def Let_def is_space_c_def strcaseeq_def tolower_def scan_number_def scan_exp_def
      digit_in_def hexval_def)
  have "general_ok (125 / 2) \<and> general_ok 125 \<and> general_ok 250 \<and> general_ok 500"
    unfolding general_ok_def f p by (simp add: one_value_def line_text_def is_blank_def is_space4_def)
  then show "x \<in> {125 / 2, 125, 250, 500} \<Longrightarrow> general_ok x" by blast
qed

lemma rf_switch_back:
  "set_rf_switch (get_str (\<lambda>c. if rf_switch_dio2 (wiring c) then lit ''dio2'' else lit ''external'') c 128) x =
   CfgOk (wiring_update (rf_switch_dio2_update (\<lambda>_. rf_switch_dio2 (wiring c))) x)"
  by (simp add: set_rf_switch_def get_str_def snprintf_s_def strcaseeq_def tolower_def)

lemma in_tables:
  "set radio_keys \<subseteq> set all_keys" "set wiring_keys \<subseteq> set all_keys" "set aprs_keys \<subseteq> set all_keys"
  "set radio_gets \<subseteq> set all_gets" "set wiring_gets \<subseteq> set all_gets" "set aprs_gets \<subseteq> set all_gets"
  by (auto simp: all_keys_def all_gets_def)

lemma wiring_back:
  assumes "text_ok 64 (spi_dev (wiring c))" "text_ok 32 (gpio_chip (wiring c))"
  shows "set_entries (map (entry c) (map fst wiring_gets)) x = Some (x\<lparr>wiring := wiring c\<rparr>)"
proof -
  have "map fst wiring_keys = map fst wiring_gets" by (simp add: wiring_keys_def wiring_gets_def)
  then have "set_entries (map (entry c) (map fst wiring_gets)) x =
      run_pairs (zip (map snd wiring_keys) (map snd wiring_gets)) c x"
    by (intro section_back in_tables)
  also have "\<dots> = Some (x\<lparr>wiring := wiring c\<rparr>)"
    unfolding wiring_keys_def wiring_gets_def
    using assms by (simp add: bool_back text_back nat_back rf_switch_back)
  finally show ?thesis .
qed

lemma aprs_back:
  assumes "text_ok 16 (aprs_call (aprs c))" "text_ok 12 (aprs_passcode (aprs c))" "text_ok 96 (aprs_host (aprs c))"
    "text_ok 12 (aprs_tocall (aprs c))" "text_ok 8 (aprs_symbol (aprs c))" "text_ok 8 (aprs_node_symbol (aprs c))"
    "text_ok 96 (aprs_comment (aprs c))" "general_ok (aprs_altitude (aprs c))"
  shows "set_entries (map (entry c) (map fst aprs_gets)) x = Some (x\<lparr>aprs := aprs c\<rparr>)"
proof -
  have "map fst aprs_keys = map fst aprs_gets" by (simp add: aprs_keys_def aprs_gets_def)
  then have "set_entries (map (entry c) (map fst aprs_gets)) x =
      run_pairs (zip (map snd aprs_keys) (map snd aprs_gets)) c x"
    by (intro section_back in_tables)
  also have "\<dots> = Some (x\<lparr>aprs := aprs c\<rparr>)"
    unfolding aprs_keys_def aprs_gets_def
    using assms by (simp add: bool_back text_back nat_back general_back)
  finally show ?thesis .
qed

lemma tx_power_back:
  assumes "- 9 \<le> tx_power (radio c)" "tx_power (radio c) \<le> 22"
  shows "set_tx_power (get_int (\<lambda>c. tx_power (radio c)) c 128) x =
    CfgOk (radio_update (tx_power_update (\<lambda>_. tx_power (radio c))) x)"
  using assms by (simp add: set_tx_power_def get_int_def dbm_back)

lemma sync_word_back:
  "set_sync_word (get_str (\<lambda>c. lit ''0x'' @ hex_fixed True 4 (unat (sync_word (radio c)))) c 128) x =
   CfgOk (radio_update (sync_word_update (\<lambda>_. sync_word (radio c))) x)"
proof -
  let ?n = "\<lambda>c. unat (sync_word (radio c))"
  let ?v = "get_str (\<lambda>c. lit ''0x'' @ hex_fixed True 4 (?n c)) c 128"
  have "take 1 ?v = [48]" by (simp add: get_str_def snprintf_s_def)
  then have "\<not> strcaseeq ?v (lit ''private'')" "\<not> strcaseeq ?v (lit ''public'')"
    by (cases ?v; simp add: strcaseeq_def tolower_def)+
  moreover have "u32_key (\<lambda>u. u \<le> 0xFFFF) (\<lambda>u. radio_update (sync_word_update (\<lambda>_. ucast u))) ?v x =
      CfgOk (radio_update (sync_word_update (\<lambda>_. ucast (of_nat (?n c) :: u32))) x)"
    using small_words(4) [of "sync_word (radio c)"] by (intro hex_back) simp_all
  ultimately show ?thesis by (simp add: set_sync_word_def)
qed

lemma radio_back:
  assumes "radio_ok (radio c)"
  shows "set_entries (map (entry c) (map fst radio_gets)) x = Some (x\<lparr>radio := radio c\<rparr>)"
proof -
  note ok = assms [unfolded radio_ok_def]
  have "map fst radio_keys = map fst radio_gets" by (simp add: radio_keys_def radio_gets_def)
  then have "set_entries (map (entry c) (map fst radio_gets)) x =
      run_pairs (zip (map snd radio_keys) (map snd radio_gets)) c x"
    by (intro section_back in_tables)
  also have "\<dots> = Some (x\<lparr>radio := radio c\<rparr>)"
  proof -
    let ?c = "radio c"
    have g: "general_ok (bandwidth ?c)" using ok bandwidth_ok by blast
    have b: "Num (bandwidth ?c) \<in> {Num (125 / 2), Num 125, Num 250, Num 500}" using ok by blast
    have o': "\<not> outside 137 1020 (Num (frequency ?c))" "\<not> outside 0 (34 / 10) (Num (tcxo_voltage ?c))"
      using ok by (simp_all add: outside_def)
    show ?thesis
      unfolding radio_keys_def radio_gets_def
      using ok g b o' by (simp add: bool_back text_back nat_back general_back fixed_back hex_back [simplified]
        tx_power_back sync_word_back [simplified] word_le_nat_alt)
  qed
  finally show ?thesis .
qed

section \<open>The node's own settings\<close>

definition node_ok :: "mc_config \<Rightarrow> bool" where
  "node_ok c \<longleftrightarrow> text_ok 40 (cfg_name c) \<and> text_ok 256 (key_file c) \<and> fixed_ok 6 (latitude c) \<and> fixed_ok 6 (longitude c)"

definition node_names :: "string list" where
  "node_names = [''name'', ''key_file'', ''location'', ''latitude'', ''longitude'', ''advert_interval'', ''forward'',
     ''ping_pong'', ''timeofday'', ''control_port'']"

definition restore_node :: "mc_config \<Rightarrow> mc_config \<Rightarrow> mc_config" where
  "restore_node c x = x\<lparr>cfg_name := cfg_name c, key_file := key_file c, has_location := True, latitude := latitude c,
     longitude := longitude c, advert_interval := advert_interval c, forward := forward c, ping_pong := ping_pong c,
     timeofday_enable := timeofday_enable c, control_port := control_port c\<rparr>"

fun table_of :: "string list \<Rightarrow> (string \<times> 'a) list \<Rightarrow> (string \<times> 'a) list" where
  "table_of [] t = []"
| "table_of (k # ks) t = filter (\<lambda>e. fst e = k) t @ table_of ks t"

lemma table_of_sub: "set (table_of ks t) \<subseteq> set t"
  by (induction ks) auto

lemma table_of_names: "map fst (table_of ks t) = concat (map (\<lambda>k. filter (\<lambda>n. n = k) (map fst t)) ks)"
  by (induction ks) (simp_all add: filter_map comp_def)

lemma node_tables:
  "map fst (table_of node_names node_keys) = node_names" "map fst (table_of node_names node_gets) = node_names"
  unfolding table_of_names node_keys_def node_gets_def list.map fst_conv node_names_def by simp_all

lemma node_back:
  assumes "node_ok c"
  shows "set_entries (map (entry c) node_names) x = Some (restore_node c x)"
proof -
  let ?ks = "table_of node_names node_keys" and ?gs = "table_of node_names node_gets"
  have "set ?ks \<subseteq> set all_keys" "set ?gs \<subseteq> set all_gets"
    using table_of_sub [of node_names node_keys] table_of_sub [of node_names node_gets]
    by (auto simp: all_keys_def all_gets_def)
  then have "set_entries (map (entry c) node_names) x = run_pairs (zip (map snd ?ks) (map snd ?gs)) c x"
    using section_back [of ?ks ?gs c x] unfolding node_tables by blast
  also have "\<dots> = Some (restore_node c x)"
    unfolding node_keys_def node_gets_def node_names_def restore_node_def
    using assms [unfolded node_ok_def]
    by (simp add: text_back bool_back nat_back fixed_back)
  finally show ?thesis .
qed

lemma table_back:
  assumes "map fst (table_of ns ks) = ns" "map fst (table_of ns gs) = ns" "set ks \<subseteq> set all_keys" "set gs \<subseteq> set all_gets"
  shows "set_entries (map (entry c) ns) x = run_pairs (zip (map snd (table_of ns ks)) (map snd (table_of ns gs))) c x"
proof -
  have "set (table_of ns ks) \<subseteq> set all_keys" "set (table_of ns gs) \<subseteq> set all_gets"
    using table_of_sub [of ns ks] table_of_sub [of ns gs] assms(3,4) by blast+
  then show ?thesis using section_back [of "table_of ns ks" "table_of ns gs" c x] unfolding assms(1,2) by blast
qed

definition service_names :: "string list" where
  "service_names = [''role'', ''hotspot_power_high'', ''hotspot_power_low'', ''hotspot_awake'', ''web_port'']"

definition link_names :: "string list" where
  "link_names = [''link_mode'', ''link_peer'', ''link_port'']"

definition backbone_names :: "string list" where
  "backbone_names = [''backbone'', ''backbone_host'', ''backbone_port'', ''backbone_hub_key'', ''backbone_observe'',
     ''backbone_bridge'', ''backbone_rate'', ''backbone_policy'', ''backbone_policy_file'']"

lemma more_tables:
  "map fst (table_of service_names role_keys) = service_names" "map fst (table_of service_names role_gets) = service_names"
  "map fst (table_of link_names node_keys) = link_names" "map fst (table_of link_names link_gets) = link_names"
  "map fst (table_of backbone_names node_keys) = backbone_names" "map fst (table_of backbone_names backbone_gets) = backbone_names"
  unfolding table_of_names role_keys_def role_gets_def node_keys_def link_gets_def backbone_gets_def list.map fst_conv
    service_names_def link_names_def backbone_names_def
  by simp_all

lemma more_sub:
  "set node_keys \<subseteq> set all_keys" "set role_keys \<subseteq> set all_keys" "set node_gets \<subseteq> set all_gets"
  "set role_gets \<subseteq> set all_gets" "set link_gets \<subseteq> set all_gets" "set backbone_gets \<subseteq> set all_gets"
  by (auto simp: all_keys_def all_gets_def)

lemmas section_of = table_back [OF more_tables(1,2) more_sub(2,4)] table_back [OF more_tables(3,4) more_sub(1,5)]
  table_back [OF more_tables(5,6) more_sub(1,6)]

definition service_ok :: "mc_config \<Rightarrow> bool" where
  "service_ok c \<longleftrightarrow> -9 \<le> hotspot_power_high c \<and> hotspot_power_high c \<le> 22 \<and>
     -9 \<le> hotspot_power_low c \<and> hotspot_power_low c \<le> 22"

definition restore_service :: "mc_config \<Rightarrow> mc_config \<Rightarrow> mc_config" where
  "restore_service c x = x\<lparr>role := role c, hotspot_power_high := hotspot_power_high c,
     hotspot_power_low := hotspot_power_low c, hotspot_awake := hotspot_awake c, web_port := web_port c\<rparr>"

lemma set_dbm_back: "- 9 \<le> p c \<Longrightarrow> p c \<le> 22 \<Longrightarrow> set_dbm f (get_int p c 128) x = CfgOk (f (p c) x)"
  by (simp add: set_dbm_def get_int_def dbm_back)

lemma role_back:
  "set_role (get_str (\<lambda>c. if role c = ROLE_HOTSPOT then lit ''hotspot'' else lit ''repeater'') c 128) x =
   CfgOk (role_update (\<lambda>_. role c) x)"
  by (cases "role c") (simp_all add: set_role_def get_str_def snprintf_s_def strcaseeq_def tolower_def)

lemma service_back:
  assumes "service_ok c"
  shows "set_entries (map (entry c) service_names) x = Some (restore_service c x)"
  unfolding section_of restore_service_def unfolding role_keys_def role_gets_def service_names_def
  using assms [unfolded service_ok_def] by (simp add: role_back [simplified] set_dbm_back nat_back)

definition link_ok :: "link_config \<Rightarrow> bool" where
  "link_ok l \<longleftrightarrow> link_mode l \<in> {lit ''off'', lit ''rx'', lit ''tx''} \<and> text_ok 64 (link_peer l)"

definition restore_link :: "mc_config \<Rightarrow> mc_config \<Rightarrow> mc_config" where
  "restore_link c x = x\<lparr>link := (link c)\<lparr>link_key := link_key (link x)\<rparr>\<rparr>"

lemma link_mode_back:
  assumes "link_mode (link c) \<in> {lit ''off'', lit ''rx'', lit ''tx''}"
  shows "set_link_mode (get_str (\<lambda>c. link_mode (link c)) c 128) x =
    CfgOk (link_update (link_mode_update (\<lambda>_. link_mode (link c))) x)"
  using assms
  by (elim insertE emptyE) (simp_all add: set_link_mode_def get_str_def snprintf_s_def strcaseeq_def tolower_def)

lemma link_back:
  assumes "link_ok (link c)"
  shows "set_entries (map (entry c) link_names) x = Some (restore_link c x)"
  unfolding section_of restore_link_def unfolding node_keys_def link_gets_def link_names_def
  using assms [unfolded link_ok_def] by (simp add: link_mode_back text_back nat_back)

definition backbone_ok :: "mc_config \<Rightarrow> bool" where
  "backbone_ok c \<longleftrightarrow>
     text_ok 96 (backbone_host (backbone c)) \<and> backbone_port (backbone c) \<noteq> 0 \<and>
     1 \<le> unat (backbone_rate (backbone c)) \<and> unat (backbone_rate (backbone c)) \<le> 600 \<and>
     length (backbone_hub_key (backbone c)) = 32 \<and>
     backbone_policy_file c \<noteq> [] \<and> text_ok 128 (backbone_policy_file c)"

definition restore_backbone :: "mc_config \<Rightarrow> mc_config \<Rightarrow> mc_config" where
  "restore_backbone c x = x\<lparr>
     backbone := (backbone c)\<lparr>backbone_hub_key :=
       if backbone_have_hub_key (backbone c) then backbone_hub_key (backbone c) else backbone_hub_key (backbone x)\<rparr>,
     backbone_policy := backbone_policy c, backbone_policy_file := backbone_policy_file c\<rparr>"

definition restore_key :: "mc_config \<Rightarrow> mc_config \<Rightarrow> mc_config" where
  "restore_key c = backbone_update (\<lambda>b. b\<lparr>backbone_have_hub_key := backbone_have_hub_key (backbone c),
     backbone_hub_key := if backbone_have_hub_key (backbone c) then backbone_hub_key (backbone c) else backbone_hub_key b\<rparr>)"

lemma hub_key_back:
  assumes "length (backbone_hub_key (backbone c)) = 32"
  shows "set_hub_key (get_hub_key c 128) x = CfgOk (restore_key c x)"
proof (cases "backbone_have_hub_key (backbone c)")
  case True
  let ?k = "backbone_hub_key (backbone c)"
  have l: "length (hex_digits ?k) = 64" using assms by simp
  then have "hex_digits ?k \<noteq> []" by fastforce
  moreover have "hex2bin (hex_digits ?k) 32 = Some ?k" using assms by (simp add: hex2bin_def unhex_hex_digits)
  ultimately show ?thesis using True assms l by (simp add: set_hub_key_def get_hub_key_def bin2hex_def restore_key_def comp_def)
qed (simp add: set_hub_key_def get_hub_key_def restore_key_def)

lemma policy_file_back:
  assumes "backbone_policy_file c \<noteq> []" "text_ok 128 (backbone_policy_file c)"
  shows "set_policy_file (get_str backbone_policy_file c 128) x =
    CfgOk (x\<lparr>backbone_policy_file := backbone_policy_file c\<rparr>)"
  using assms by (simp add: set_policy_file_def get_str_def snprintf_s_def text_ok_def)

lemma u16_nonzero: "(w :: u16) \<noteq> 0 \<Longrightarrow> (ucast w :: u32) \<noteq> 0"
  by (simp add: word_unat_eq_iff)

lemma backbone_back:
  assumes "backbone_ok c"
  shows "set_entries (map (entry c) backbone_names) x = Some (restore_backbone c x)"
  unfolding section_of restore_backbone_def unfolding node_keys_def backbone_gets_def backbone_names_def
  using assms [unfolded backbone_ok_def] u16_nonzero [of "backbone_port (backbone c)"]
  by (simp add: bool_back text_back nat_back hub_key_back policy_file_back word_le_nat_alt) (simp add: restore_key_def)

definition with_mbox :: "bool \<Rightarrow> mc_config \<Rightarrow> mc_config" where
  "with_mbox b x = (let x = x\<lparr>mbox_enable := b\<rparr> in if b then config_ensure_hashtag_channel x (lit ''#mbox'') else x)"

lemma mbox_back: "set_entries (map (entry c) [''mbox'']) x = Some (with_mbox (mbox_enable c) x)"
proof -
  have "(''mbox'', set_mbox) \<in> set all_keys" "(''mbox'', get_bool mbox_enable) \<in> set all_gets"
    by (simp_all add: all_keys_def all_gets_def node_keys_def node_gets_def)
  from entry_step [OF this] show ?thesis
    by (simp add: set_mbox_def with_mbox_def bool_back)
qed

section \<open>The keys of the file\<close>

lemma KEYS_sections:
  "KEYS = map fst radio_gets @ map fst wiring_gets @ node_names @ map fst aprs_gets @ service_names @ [''mbox'']
     @ link_names @ backbone_names"
  by (simp add: KEYS_def radio_gets_def wiring_gets_def node_names_def aprs_gets_def service_names_def link_names_def backbone_names_def)

lemma KEYS_read: "k \<in> set KEYS \<Longrightarrow> k \<in> fst ` set all_gets"
proof -
  have "set node_names \<subseteq> set (map fst node_gets)" "set service_names \<subseteq> set (map fst role_gets)"
    "set link_names \<subseteq> set (map fst link_gets)" "set backbone_names \<subseteq> set (map fst backbone_gets)"
    "''mbox'' \<in> set (map fst node_gets)"
    by (simp_all add: node_names_def service_names_def link_names_def backbone_names_def
        node_gets_def role_gets_def link_gets_def backbone_gets_def)
  then show "k \<in> set KEYS \<Longrightarrow> k \<in> fst ` set all_gets"
    unfolding KEYS_sections all_gets_def set_append set_map image_Un by auto
qed

lemma KEYS_entries:
  "concat (map (\<lambda>k. case config_get c (lit k) 128 of Some v \<Rightarrow> [(k, v)] | None \<Rightarrow> []) KEYS) = map (entry c) KEYS"
proof -
  have "(case config_get c (lit k) 128 of Some v \<Rightarrow> [(k, v)] | None \<Rightarrow> []) = [entry c k]" if k: "k \<in> set KEYS" for k
  proof -
    obtain g where g: "(k, g) \<in> set all_gets" using KEYS_read [OF k] by auto
    have "config_get c (lit k) 128 \<noteq> None"
      using get_plain [OF entry_value(1) [OF g], of c 128] map_of_is_SomeI [OF names_once(2) g] by simp
    then show ?thesis by (auto simp: entry_def)
  qed
  then have "map (\<lambda>k. case config_get c (lit k) 128 of Some v \<Rightarrow> [(k, v)] | None \<Rightarrow> []) KEYS = map (\<lambda>k. [entry c k]) KEYS"
    by (intro map_cong) simp_all
  moreover have "concat (map (\<lambda>k. [entry c k]) ks) = map (entry c) ks" for ks by (induction ks) simp_all
  ultimately show ?thesis by (simp only:)
qed

end
