(* ===== verification/Config_Restore.thy ===== *)
theory Config_Restore
  imports Config_Back
begin

text \<open>
  The whole file: every value a savable configuration prints stands in a line, the repeated keys
  restore their lists, and loading a saved configuration gives its settings back.
\<close>

section \<open>Printed values stand in a line\<close>

lemma line_value:
  assumes "\<forall>c \<in> set v. (48 \<le> c \<and> c \<le> 57) \<or> (65 \<le> c \<and> c \<le> 90) \<or> (97 \<le> c \<and> c \<le> 122) \<or> c = 45 \<or> c = 46" "length v < 900"
  shows "one_value v"
proof -
  have ch: "c \<noteq> 0 \<and> c \<noteq> 10 \<and> c \<noteq> 13 \<and> c \<noteq> 35 \<and> \<not> is_blank c \<and> \<not> is_space4 c" if "c \<in> set v" for c
    using assms(1) that by (force simp: is_blank_def is_space4_def word_le_nat_alt)
  show ?thesis
    using ch hd_in_set [of v] last_in_set [of v] assms(2) unfolding one_value_def line_text_def by blast
qed

lemma dec_value: "n < 2 ^ 32 \<Longrightarrow> one_value (dec_nat n)"
proof (rule line_value)
  assume n: "n < 2 ^ 32"
  have "(2 :: nat) ^ 32 < 10 ^ 10" by simp
  then have "n < 10 ^ 10" using n by linarith
  then have "length (dec_nat n) \<le> 10" by (rule dec_nat_length) simp
  then show "length (dec_nat n) < 900" by simp
qed (use dec_nat_chars in blast)

lemma hex_digit_char: "k < 16 \<Longrightarrow> (48 \<le> hex_digit True k \<and> hex_digit True k \<le> 57) \<or> (65 \<le> hex_digit True k \<and> hex_digit True k \<le> 90)"
proof -
  assume "k < 16"
  then have "k \<in> set [0..<16]" by simp
  moreover have "list_all (\<lambda>k. (48 \<le> hex_digit True k \<and> hex_digit True k \<le> 57) \<or> (65 \<le> hex_digit True k \<and> hex_digit True k \<le> 90)) [0..<16]"
    by (simp add: upt_rec hex_digit_def)
  ultimately show ?thesis by (simp only: list_all_iff)
qed

lemma hex_fixed_chars: "c \<in> set (hex_fixed True w n) \<Longrightarrow> (48 \<le> c \<and> c \<le> 57) \<or> (65 \<le> c \<and> c \<le> 90)"
proof (induction w arbitrary: n)
  case (Suc w)
  then show ?case using hex_digit_char [of "n mod 16"] by auto
qed simp

lemma value_bool: "one_value (get_bool f c 128)"
  by (simp add: get_bool_def snprintf_s_def one_value_def line_text_def is_blank_def is_space4_def)

lemma value_nat: "n c < 2 ^ 32 \<Longrightarrow> one_value (get_nat n c 128)"
proof -
  assume n: "n c < 2 ^ 32"
  have "(2 :: nat) ^ 32 < 10 ^ 10" by simp
  then have "n c < 10 ^ 10" using n by linarith
  then have "length (dec_nat (n c)) \<le> 10" by (rule dec_nat_length) simp
  then show ?thesis using dec_value [OF n] by (simp add: get_nat_def snprintf_s_def)
qed

lemma value_int: "- 9 \<le> i c \<Longrightarrow> i c \<le> 22 \<Longrightarrow> one_value (get_int i c 128)"
proof -
  assume i: "- 9 \<le> i c" "i c \<le> 22"
  have l: "length (dec_int (i c)) < 4" using i by (intro dec_int_short) simp
  have "one_value (dec_int (i c))"
  proof (rule line_value)
    have "x = 45 \<or> (48 \<le> x \<and> x \<le> 57)" if "x \<in> set (dec_int (i c))" for x
      using that dec_nat_chars by (auto simp: dec_int_def split: if_splits)
    then show "\<forall>x \<in> set (dec_int (i c)). (48 \<le> x \<and> x \<le> 57) \<or> (65 \<le> x \<and> x \<le> 90) \<or> (97 \<le> x \<and> x \<le> 122) \<or> x = 45 \<or> x = 46"
      by blast
  qed (use l in simp)
  then show ?thesis using l by (simp add: get_int_def snprintf_s_def)
qed

lemma value_text: "text_ok n (f c) \<Longrightarrow> one_value (get_str f c 128)"
  by (simp add: text_ok_def get_str_def snprintf_s_def)

lemma value_general: "general_ok (f c) \<Longrightarrow> one_value (get_str (\<lambda>c. fmt_g (f c)) c 128)"
  by (simp add: general_ok_def get_str_def snprintf_s_def)

lemma value_fixed: "fixed_ok n (f c) \<Longrightarrow> n < 90 \<Longrightarrow> one_value (get_str (\<lambda>c. fmt_f n (f c)) c 128)"
proof -
  assume a: "fixed_ok n (f c)" "n < 90"
  note l = fmt_f_length [OF a]
  have "one_value (fmt_f n (f c))"
  proof (rule line_value)
    have "x = 45 \<or> x = 46 \<or> (48 \<le> x \<and> x \<le> 57)" if "x \<in> set (fmt_f n (f c))" for x
      using that fixed_chars unfolding fmt_f_def by (auto split: if_splits)
    then show "\<forall>x \<in> set (fmt_f n (f c)). (48 \<le> x \<and> x \<le> 57) \<or> (65 \<le> x \<and> x \<le> 90) \<or> (97 \<le> x \<and> x \<le> 122) \<or> x = 45 \<or> x = 46"
      by blast
  qed (use l in simp)
  then show ?thesis using l by (simp add: get_str_def snprintf_s_def)
qed

lemma value_hex: "w < 90 \<Longrightarrow> one_value (get_str (\<lambda>c. lit ''0x'' @ hex_fixed True w (n c)) c 128)"
proof -
  assume w: "w < 90"
  have "one_value (lit ''0x'' @ hex_fixed True w (n c))"
  proof (rule line_value)
    have "x = 48 \<or> x = 120 \<or> (48 \<le> x \<and> x \<le> 57) \<or> (65 \<le> x \<and> x \<le> 90)" if "x \<in> set (lit ''0x'' @ hex_fixed True w (n c))" for x
      using that hex_fixed_chars by auto
    then show "\<forall>x \<in> set (lit ''0x'' @ hex_fixed True w (n c)). (48 \<le> x \<and> x \<le> 57) \<or> (65 \<le> x \<and> x \<le> 90) \<or> (97 \<le> x \<and> x \<le> 122) \<or> x = 45 \<or> x = 46"
      by fastforce
  qed (use w in simp)
  then show ?thesis using w by (simp add: get_str_def snprintf_s_def)
qed

lemma value_either:
  assumes "one_value a" "one_value b" "length a < 128" "length b < 128"
  shows "one_value (get_str (\<lambda>c. if p c then a else b) c 128)"
  using assms by (simp add: get_str_def snprintf_s_def)

section \<open>The entries of a savable configuration\<close>

definition plain_entries :: "(string \<times> bytes) list \<Rightarrow> bool" where
  "plain_entries es \<longleftrightarrow> (\<forall>(k, v) \<in> set es. plain_key k \<and> one_value v)"

lemma plain_entries_append: "plain_entries (xs @ ys) \<longleftrightarrow> plain_entries xs \<and> plain_entries ys"
  by (auto simp: plain_entries_def)

lemma section_values:
  assumes "map fst (table_of ns gs) = ns" "set gs \<subseteq> set all_gets" "list_all (\<lambda>g. one_value (g c 128)) (map snd (table_of ns gs))"
  shows "plain_entries (map (entry c) ns)"
proof -
  have "plain_entries (map (entry c) (map fst t))" if "set t \<subseteq> set all_gets" "list_all (\<lambda>g. one_value (g c 128)) (map snd t)" for t
    using that by (induction t) (auto simp: plain_entries_def entry_value)
  from this [of "table_of ns gs"] show ?thesis
    using assms table_of_sub [of ns gs] by auto
qed

lemma table_of_all: "distinct (map fst gs) \<Longrightarrow> table_of (map fst gs) gs = gs"
proof -
  assume d: "distinct (map fst gs)"
  have "table_of (map fst t) gs = t" if "set t \<subseteq> set gs" for t
    using that
  proof (induction t)
    case (Cons e t)
    have "filter (\<lambda>x. fst x = fst e) gs = [e]" if "e \<in> set gs"
      using that d by (induction gs) (auto intro!: filter_False simp: image_iff)
    with Cons show ?case by simp
  qed simp
  then show ?thesis by simp
qed

definition savable :: "mc_config \<Rightarrow> bool" where
  "savable c \<longleftrightarrow>
     radio_ok (radio c) \<and> text_ok 64 (spi_dev (wiring c)) \<and> text_ok 32 (gpio_chip (wiring c)) \<and> node_ok c \<and>
     list_all (\<lambda>(n, t). text_ok n t) [(16, aprs_call (aprs c)), (12, aprs_passcode (aprs c)), (96, aprs_host (aprs c)),
       (12, aprs_tocall (aprs c)), (8, aprs_symbol (aprs c)), (8, aprs_node_symbol (aprs c)), (96, aprs_comment (aprs c))] \<and>
     general_ok (aprs_altitude (aprs c)) \<and> service_ok c \<and> link_ok (link c) \<and> backbone_ok c"

lemma hex_alphabet:
  fixes b :: byte
  shows "(48 \<le> HEXD ! unat (drop_bit 4 b AND 0xF) \<and> HEXD ! unat (drop_bit 4 b AND 0xF) \<le> 57) \<or>
   (97 \<le> HEXD ! unat (drop_bit 4 b AND 0xF) \<and> HEXD ! unat (drop_bit 4 b AND 0xF) \<le> 122)"
  "(48 \<le> HEXD ! unat (b AND 0xF) \<and> HEXD ! unat (b AND 0xF) \<le> 57) \<or>
   (97 \<le> HEXD ! unat (b AND 0xF) \<and> HEXD ! unat (b AND 0xF) \<le> 122)"
proof -
  have t: "list_all (\<lambda>k. (48 \<le> HEXD ! k \<and> HEXD ! k \<le> 57) \<or> (97 \<le> HEXD ! k \<and> HEXD ! k \<le> 122)) [0..<16]"
    by code_simp
  have n: "unat (x AND 0xF) \<in> set [0..<16]" for x :: byte
    using nibble_less [of x] by (simp add: word_less_nat_alt)
  show "(48 \<le> HEXD ! unat (drop_bit 4 b AND 0xF) \<and> HEXD ! unat (drop_bit 4 b AND 0xF) \<le> 57) \<or>
   (97 \<le> HEXD ! unat (drop_bit 4 b AND 0xF) \<and> HEXD ! unat (drop_bit 4 b AND 0xF) \<le> 122)"
    using t n [of "drop_bit 4 b"] unfolding list_all_iff by blast
  show "(48 \<le> HEXD ! unat (b AND 0xF) \<and> HEXD ! unat (b AND 0xF) \<le> 57) \<or>
   (97 \<le> HEXD ! unat (b AND 0xF) \<and> HEXD ! unat (b AND 0xF) \<le> 122)"
    using t n [of b] unfolding list_all_iff by blast
qed

lemma hub_key_value:
  assumes "length (backbone_hub_key (backbone c)) = 32"
  shows "one_value (get_hub_key c 128)"
proof (cases "backbone_have_hub_key (backbone c)")
  case True
  have "one_value (hex_digits (backbone_hub_key (backbone c)))"
  proof (rule line_value)
    have "(48 \<le> x \<and> x \<le> 57) \<or> (97 \<le> x \<and> x \<le> 122)" if "x \<in> set (hex_digits bs)" for x bs
      using that hex_alphabet by (induction bs) auto
    then show "\<forall>x \<in> set (hex_digits (backbone_hub_key (backbone c))). (48 \<le> x \<and> x \<le> 57) \<or> (65 \<le> x \<and> x \<le> 90) \<or> (97 \<le> x \<and> x \<le> 122) \<or> x = 45 \<or> x = 46"
      by blast
  qed (use assms in simp)
  then show ?thesis using True assms by (simp add: get_hub_key_def bin2hex_def)
qed (simp add: get_hub_key_def one_value_def line_text_def)

lemmas texts = value_text [of 64] value_text [of 32] value_text [of 40] value_text [of 256] value_text [of 16]
  value_text [of 12] value_text [of 96] value_text [of 8] value_text [of 128]
lemmas value_simps = value_bool value_nat value_int value_general value_fixed value_hex [simplified]

lemma small_texts: "one_value (lit ''hotspot'')" "one_value (lit ''repeater'')" "one_value (lit ''dio2'')" "one_value (lit ''external'')"
  by (simp_all add: one_value_def line_text_def is_blank_def is_space4_def)

lemma distinct_tables: "distinct (map fst radio_gets)" "distinct (map fst wiring_gets)" "distinct (map fst aprs_gets)"
  using names_once(2) by (simp_all add: all_gets_def)

lemma KEYS_values:
  assumes "savable c"
  shows "plain_entries (map (entry c) KEYS)"
proof -
  note ok = assms [unfolded savable_def]
  note m = table_of_all [OF distinct_tables(1)] table_of_all [OF distinct_tables(2)] table_of_all [OF distinct_tables(3)]
  have "list_all (\<lambda>g. one_value (g c 128)) (map snd radio_gets)"
    using ok unfolding radio_ok_def radio_gets_def by (simp add: value_simps bandwidth_ok)
  then have 1: "plain_entries (map (entry c) (map fst radio_gets))"
    by (intro section_values [of _ radio_gets]) (simp_all add: m in_tables del: list.pred_map)
  have "list_all (\<lambda>g. one_value (g c 128)) (map snd wiring_gets)"
    using ok unfolding wiring_gets_def by (simp add: value_simps texts value_either small_texts [simplified])
  then have 2: "plain_entries (map (entry c) (map fst wiring_gets))"
    by (intro section_values [of _ wiring_gets]) (simp_all add: m in_tables del: list.pred_map)
  have "list_all (\<lambda>g. one_value (g c 128)) (map snd aprs_gets)"
    using ok unfolding aprs_gets_def by (simp add: value_simps texts)
  then have 3: "plain_entries (map (entry c) (map fst aprs_gets))"
    by (intro section_values [of _ aprs_gets]) (simp_all add: m in_tables del: list.pred_map)
  have "list_all (\<lambda>g. one_value (g c 128)) (map snd (table_of node_names node_gets))"
    using ok unfolding node_ok_def node_names_def node_gets_def by (simp add: value_simps texts)
  then have 4: "plain_entries (map (entry c) node_names)"
    by (rule section_values [OF node_tables(2) more_sub(3)])
  have "list_all (\<lambda>g. one_value (g c 128)) (map snd (table_of service_names role_gets))"
    using ok unfolding service_ok_def service_names_def role_gets_def
    by (simp add: value_simps texts value_either small_texts [simplified])
  then have 5: "plain_entries (map (entry c) service_names)"
    by (rule section_values [OF more_tables(2) more_sub(4)])
  have "text_ok 8 (link_mode (link c))"
    using ok unfolding link_ok_def
    by (elim conjE insertE emptyE) (simp_all add: text_ok_def one_value_def line_text_def is_blank_def is_space4_def)
  then have "list_all (\<lambda>g. one_value (g c 128)) (map snd (table_of link_names link_gets))"
    using ok unfolding link_ok_def link_names_def link_gets_def by (simp add: value_simps texts)
  then have 6: "plain_entries (map (entry c) link_names)"
    by (rule section_values [OF more_tables(4) more_sub(5)])
  have "list_all (\<lambda>g. one_value (g c 128)) (map snd (table_of backbone_names backbone_gets))"
    using ok unfolding backbone_ok_def backbone_names_def backbone_gets_def
    by (simp add: value_simps texts hub_key_value)
  then have 7: "plain_entries (map (entry c) backbone_names)"
    by (rule section_values [OF more_tables(6) more_sub(6)])
  have "(''mbox'', get_bool mbox_enable) \<in> set all_gets" by (simp add: all_gets_def node_gets_def)
  then have 8: "plain_entries (map (entry c) [''mbox''])"
    by (auto simp: plain_entries_def entry_value value_bool)
  show ?thesis
    unfolding KEYS_sections map_append plain_entries_append using 1 2 3 4 5 6 7 8 by blast
qed

section \<open>The repeated keys\<close>

definition names_ok :: "nat \<Rightarrow> bytes list \<Rightarrow> bool" where
  \<comment> \<open>what a list of patterns holds when each was added through its key\<close>
  "names_ok mx xs \<longleftrightarrow> length xs \<le> mx \<and> distinct (map (map tolower) xs) \<and>
     list_all (\<lambda>p. p \<noteq> [] \<and> p \<noteq> [42] \<and> length p < 32 \<and> one_value p) xs"

lemma trim_value: "one_value v \<Longrightarrow> length v < n \<Longrightarrow> trim_name v n = v"
proof -
  assume v: "one_value v" "length v < n"
  have "dropWhile is_blank v = v" using v(1) by (cases v) (auto simp: one_value_def)
  moreover have "strip_end is_space4 v = v" using v(1) by (intro strip_end_id) (auto simp: one_value_def)
  ultimately show ?thesis using v(2) by (simp add: trim_name_def snprintf_s_def)
qed

lemma names_new:
  assumes "names_ok mx (xs @ v # vs)"
  shows "trim_name v 32 = v" "\<not> list_ex (\<lambda>x. strcaseeq x v) xs" "length xs < mx" "v \<noteq> []" "v \<noteq> [42]" "snprintf_s 32 v = v"
  using assms trim_value [of v 32] by (auto simp: names_ok_def list_ex_iff strcaseeq_def snprintf_s_def image_iff)

lemma names_back:
  assumes "(k, f) \<in> set all_keys" "plain_key k"
    and "\<And>x v vs. names_ok mx (sel x @ v # vs) \<Longrightarrow> f v x = CfgOk (upd (sel x @ [v]) x)"
    and "\<And>xs x. sel (upd xs x) = xs" "\<And>xs ys x. upd xs (upd ys x) = upd xs x" "\<And>x. upd (sel x) x = x"
    and "names_ok mx (sel x @ vs)"
  shows "set_entries (map (\<lambda>v. (k, v)) vs) x = Some (upd (sel x @ vs) x)"
  using assms(7)
proof (induction vs arbitrary: x)
  case (Cons v vs)
  have "map_of all_keys k = Some f" using names_once(1) assms(1) by (rule map_of_is_SomeI)
  with Cons.prems assms(2,3) have "set_entries (map (\<lambda>v. (k, v)) (v # vs)) x =
      set_entries (map (\<lambda>v. (k, v)) vs) (upd (sel x @ [v]) x)"
    by (simp add: set_plain)
  also have "\<dots> = Some (upd (sel x @ v # vs) x)"
    using Cons by (simp add: assms(4,5))
  finally show ?case .
qed (simp add: assms(6))

lemma blacklist_back:
  assumes "names_ok MC_MAX_BLACKLIST (blacklist x @ vs)"
  shows "set_entries (map (\<lambda>v. (''blacklist'', v)) vs) x = Some (x\<lparr>blacklist := blacklist x @ vs\<rparr>)"
proof (rule names_back [where upd = "\<lambda>xs. blacklist_update (\<lambda>_. xs)" and mx = MC_MAX_BLACKLIST])
  show "(''blacklist'', rc_key config_blacklist_add) \<in> set all_keys" by (simp add: all_keys_def node_keys_def)
  show "rc_key config_blacklist_add v x = CfgOk (x\<lparr>blacklist := blacklist x @ [v]\<rparr>)"
    if "names_ok MC_MAX_BLACKLIST (blacklist x @ v # vs)" for x v vs
    using names_new [OF that] by (simp add: rc_key_def config_blacklist_add_def)
qed (simp_all add: plain_key_def assms)

lemma list_key_back:
  assumes "(k, list_key sel upd mx) \<in> set all_keys" "plain_key k"
    and "\<And>xs x. sel (upd xs x) = xs" "\<And>xs ys x. upd xs (upd ys x) = upd xs x" "\<And>x. upd (sel x) x = x"
    and "names_ok mx (sel x @ vs)"
  shows "set_entries (map (\<lambda>v. (k, v)) vs) x = Some (upd (sel x @ vs) x)"
proof (rule names_back [where upd = upd and mx = mx and f = "list_key sel upd mx"])
  show "list_key sel upd mx v x = CfgOk (upd (sel x @ [v]) x)" if "names_ok mx (sel x @ v # vs)" for x v vs
    using names_new [OF that] by (simp add: list_key_def rc_key_def list_add_def)
qed (use assms in blast)+

lemma affinity_back:
  assumes "names_ok MC_MAX_AFFINITY (affinity x @ vs)"
  shows "set_entries (map (\<lambda>v. (''affinity'', v)) vs) x = Some (x\<lparr>affinity := affinity x @ vs\<rparr>)"
  by (rule list_key_back [where upd = "\<lambda>xs. affinity_update (\<lambda>_. xs)" and mx = MC_MAX_AFFINITY])
    (use assms in \<open>simp_all add: all_keys_def role_keys_def plain_key_def\<close>)

lemma home_back:
  assumes "names_ok MC_MAX_HOME (home x @ vs)"
  shows "set_entries (map (\<lambda>v. (''home'', v)) vs) x = Some (x\<lparr>home := home x @ vs\<rparr>)"
  by (rule list_key_back [where upd = "\<lambda>xs. home_update (\<lambda>_. xs)" and mx = MC_MAX_HOME])
    (use assms in \<open>simp_all add: all_keys_def role_keys_def plain_key_def\<close>)

lemma probe_back:
  assumes "names_ok MC_MAX_PROBE_ALLOW (probe_allow x @ vs)"
  shows "set_entries (map (\<lambda>v. (''probe_allow'', v)) vs) x = Some (x\<lparr>probe_allow := probe_allow x @ vs\<rparr>)"
  by (rule list_key_back [where upd = "\<lambda>xs. probe_allow_update (\<lambda>_. xs)" and mx = MC_MAX_PROBE_ALLOW])
    (use assms in \<open>simp_all add: all_keys_def role_keys_def plain_key_def\<close>)

lemma register_frame: "\<exists>C. snd (register_channel x nm key d) = x\<lparr>public_channels := C\<rparr>"
  by (cases rule: register_channel_cases [of key x nm d])
    (auto intro: exI [of _ "public_channels x"])

definition rooms_ok :: "mc_room list \<Rightarrow> bool" where
  "rooms_ok rs \<longleftrightarrow> length rs \<le> MC_MAX_ROOMS \<and> distinct (map room_name rs) \<and>
     list_all (\<lambda>r. \<not> room_hub r \<and> room_key r = take 16 (sha256 (room_name r)) \<and> take 1 (room_name r) = [35] \<and>
       bare (room_name r) \<noteq> [] \<and> one_value (bare (room_name r)) \<and> length (room_name r) < MC_ROOM_NAME_LEN) rs"

lemma room_added:
  assumes "rooms_ok (rooms x @ r # rs)"
  shows "\<exists>C. add_room_ex x (bare (room_name r)) False = (0, x\<lparr>rooms := rooms x @ [r], public_channels := C\<rparr>)"
proof -
  let ?n = "bare (room_name r)"
  have r: "\<not> room_hub r" "room_key r = take 16 (sha256 (room_name r))" "take 1 (room_name r) = [35]" "?n \<noteq> []"
      "one_value ?n" "length (room_name r) < 32"
    using assms by (auto simp: rooms_ok_def)
  then have nm: "room_name r = 35 # ?n" by (cases "room_name r") (auto simp: bare_def)
  have t: "trim_name ?n 64 = ?n" using r(5,6) nm by (intro trim_value) (auto simp: bare_def)
  have "35 \<notin> set ?n" using r(5) by (simp add: one_value_def)
  then have "?n ! 0 \<noteq> 35" using r(4) nth_mem [of 0 ?n] by (metis length_greater_0_conv)
  moreover have "length (room_name r) \<noteq> Suc 0" using r(4) arg_cong [OF nm, of length] by simp
  ultimately have "norm_room ?n = Some (room_name r)" using r(4,6) t nm [symmetric] by (simp add: norm_room_def Let_def)
  moreover have "\<not> list_ex (\<lambda>q. room_name q = room_name r) (rooms x)" "length (rooms x) < MC_MAX_ROOMS"
    using assms by (auto simp: rooms_ok_def list_ex_iff image_iff)
  ultimately have "add_room_ex x ?n False = (0, serve_room x (room_name r) False)" by (simp add: add_room_ex_def)
  moreover have "r = \<lparr>room_name = room_name r, room_key = take 16 (sha256 (room_name r)), room_hub = False\<rparr>"
    using r(1,2) by (cases r) simp
  moreover obtain C where "snd (register_channel (x\<lparr>rooms := rooms x @ [r]\<rparr>) (room_name r) (take 16 (sha256 (room_name r))) True) =
      x\<lparr>rooms := rooms x @ [r], public_channels := C\<rparr>"
    using register_frame [of "x\<lparr>rooms := rooms x @ [r]\<rparr>" "room_name r" "take 16 (sha256 (room_name r))" True] by auto
  ultimately show ?thesis by (auto simp: serve_room_def Let_def)
qed

lemma rooms_back:
  assumes "rooms_ok (rooms x @ rs)"
  shows "\<exists>C. set_entries (map (\<lambda>r. (''room'', bare (room_name r))) rs) x =
    Some (x\<lparr>rooms := rooms x @ rs, public_channels := C\<rparr>)"
  using assms
proof (induction rs arbitrary: x)
  case Nil
  then show ?case by (intro exI [of _ "public_channels x"]) simp
next
  case (Cons r rs)
  obtain C where c: "add_room_ex x (bare (room_name r)) False = (0, x\<lparr>rooms := rooms x @ [r], public_channels := C\<rparr>)"
    using room_added [OF Cons.prems] by blast
  have "(''room'', rc_key (\<lambda>c v. add_room_ex c v False)) \<in> set all_keys" by (simp add: all_keys_def node_keys_def)
  then have "map_of all_keys ''room'' = Some (rc_key (\<lambda>c v. add_room_ex c v False))" by (rule map_of_is_SomeI [OF names_once(1)])
  moreover have "plain_key ''room''" by (simp add: plain_key_def)
  ultimately have "config_set x (lit ''room'') (bare (room_name r)) = CfgOk (x\<lparr>rooms := rooms x @ [r], public_channels := C\<rparr>)"
    unfolding set_plain [OF \<open>plain_key ''room''\<close>] by (simp add: rc_key_def c)
  then have "set_entries (map (\<lambda>r. (''room'', bare (room_name r))) (r # rs)) x =
      set_entries (map (\<lambda>r. (''room'', bare (room_name r))) rs) (x\<lparr>rooms := rooms x @ [r], public_channels := C\<rparr>)"
    by simp
  moreover have "rooms_ok (rooms (x\<lparr>rooms := rooms x @ [r], public_channels := C\<rparr>) @ rs)" using Cons.prems by simp
  ultimately show ?case using Cons.IH [of "x\<lparr>rooms := rooms x @ [r], public_channels := C\<rparr>"] by simp
qed

section \<open>The whole file\<close>

definition settings :: "mc_config \<Rightarrow> mc_config" where
  \<comment> \<open>the configuration without what the file does not hold: the channels, the rooms, the hub's policy and
     what is served of it, and the verbosity of the command line; \<open>has_location\<close> is always set by a
     load, as the file has both coordinates\<close>
  "settings c = c\<lparr>public_channels := [], rooms := [], policy := empty_policy, policy_rooms := 0, policy_skipped := 0,
     verbose := False, has_location := True\<rparr>"

definition ping_ok :: "bytes \<Rightarrow> bool" where
  "ping_ok p \<longleftrightarrow> p = [] \<or>
     (take 1 p = [35] \<and> bare p \<noteq> [] \<and> one_value (bare p) \<and> length p < MC_ROOM_NAME_LEN \<and>
      \<not> strcaseeq (bare p) (lit ''any'') \<and> \<not> strcaseeq (bare p) (lit ''none'') \<and> bare p \<noteq> [45] \<and> bare p \<noteq> [42])"

definition lists_ok :: "mc_config \<Rightarrow> bool" where
  "lists_ok c \<longleftrightarrow>
     ping_ok (ping_channel c) \<and> one_value (link_key (link c)) \<and> length (link_key (link c)) < 64 \<and>
     list_all (\<lambda>ch. one_value (channel_value ch)) (filter (\<lambda>ch. \<not> derived ch) (public_channels c)) \<and>
     names_ok MC_MAX_BLACKLIST (blacklist c) \<and> names_ok MC_MAX_AFFINITY (affinity c) \<and>
     names_ok MC_MAX_HOME (home c) \<and> names_ok MC_MAX_PROBE_ALLOW (probe_allow c) \<and>
     rooms_ok (filter (\<lambda>r. \<not> room_hub r) (rooms c))"

definition password_ok :: "mc_config \<Rightarrow> bool" where
  "password_ok c \<longleftrightarrow> one_value (web_password c) \<and> length (web_password c) < 64"

definition over :: "mc_config \<Rightarrow> mc_config \<Rightarrow> bool" where
  \<comment> \<open>what is not written when it is empty is empty already in the configuration loaded over\<close>
  "over c c' \<longleftrightarrow> (link_key (link c) = [] \<longrightarrow> link_key (link c') = []) \<and> (web_password c = [] \<longrightarrow> web_password c' = []) \<and>
     (\<not> backbone_have_hub_key (backbone c) \<longrightarrow> backbone_hub_key (backbone c') = backbone_hub_key (backbone c))"

definition ping_value :: "mc_config \<Rightarrow> bytes" where
  "ping_value c = (if ping_channel c = [] then lit ''any'' else bare (ping_channel c))"

lemma one_set:
  assumes "(k, f) \<in> set all_keys" "plain_key k" "f v x = CfgOk y"
  shows "set_entries [(k, v)] x = Some y"
  using map_of_is_SomeI [OF names_once(1) assms(1)] assms(2,3) by (simp add: set_plain)

lemma ping_back:
  assumes "ping_ok (ping_channel c)"
  shows "set_entries [(''ping_channel'', ping_value c)] x = Some (x\<lparr>ping_channel := ping_channel c\<rparr>)"
proof (rule one_set)
  show "(''ping_channel'', set_ping_channel) \<in> set all_keys" by (simp add: all_keys_def node_keys_def)
  show "plain_key ''ping_channel''" by (simp add: plain_key_def)
  let ?p = "ping_channel c"
  show "set_ping_channel (ping_value c) x = CfgOk (x\<lparr>ping_channel := ?p\<rparr>)"
  proof (cases "?p = []")
    case True
    have "trim_name (lit ''any'') 64 = lit ''any''"
      by (intro trim_value) (simp_all add: one_value_def line_text_def is_blank_def is_space4_def)
    with True show ?thesis by (simp add: set_ping_channel_def ping_value_def)
  next
    case False
    then have p: "take 1 ?p = [35]" "bare ?p \<noteq> []" "one_value (bare ?p)" "length ?p < 32"
      "\<not> strcaseeq (bare ?p) (lit ''any'')" "\<not> strcaseeq (bare ?p) (lit ''none'')" "bare ?p \<noteq> [45]" "bare ?p \<noteq> [42]"
      using assms unfolding ping_ok_def by blast+
    then have nm: "35 # bare ?p = ?p" by (cases ?p) (auto simp: bare_def)
    have t: "trim_name (bare ?p) 64 = bare ?p" using p(3,4) arg_cong [OF nm, of length] by (intro trim_value) auto
    have "35 \<notin> set (bare ?p)" using p(3) by (simp add: one_value_def)
    then have "bare ?p ! 0 \<noteq> 35" using p(2) nth_mem [of 0 "bare ?p"] by (metis length_greater_0_conv)
    then show ?thesis
      using False p t nm by (simp add: set_ping_channel_def ping_value_def Let_def)
  qed
qed

lemma link_key_back:
  assumes "length (link_key (link c)) < 64" "link_key (link c) = [] \<longrightarrow> link_key (link x) = []"
  shows "set_entries (if link_key (link c) \<noteq> [] then [(''link_key'', link_key (link c))] else []) x =
    Some (x\<lparr>link := (link x)\<lparr>link_key := link_key (link c)\<rparr>\<rparr>)"
proof (cases "link_key (link c) = []")
  case True
  then show ?thesis using assms(2) by (cases x) (auto intro!: link_config.equality)
next
  case False
  have "set_entries [(''link_key'', link_key (link c))] x = Some (x\<lparr>link := (link x)\<lparr>link_key := link_key (link c)\<rparr>\<rparr>)"
    by (rule one_set [of _ "str_key 64 (\<lambda>s. link_update (link_key_update (\<lambda>_. s)))"])
      (use assms in \<open>simp_all add: all_keys_def node_keys_def plain_key_def str_key_def snprintf_s_def\<close>)
  with False show ?thesis by simp
qed

lemma password_back:
  assumes "length (web_password c) < 64" "web_password c = [] \<longrightarrow> web_password x = []"
  shows "set_entries (if web_password c \<noteq> [] then [(''web_password'', web_password c)] else []) x =
    Some (x\<lparr>web_password := web_password c\<rparr>)"
proof (cases "web_password c = []")
  case True
  then show ?thesis using assms(2) by (cases x) simp
next
  case False
  have "set_entries [(''web_password'', web_password c)] x = Some (x\<lparr>web_password := web_password c\<rparr>)"
    by (rule one_set [of _ set_web_password])
      (use assms in \<open>simp_all add: all_keys_def role_keys_def plain_key_def set_web_password_def snprintf_s_def\<close>)
  with False show ?thesis by simp
qed

lemma hashtag_frame: "\<exists>C. config_ensure_hashtag_channel x nm = x\<lparr>public_channels := C\<rparr>"
proof -
  have "\<exists>C. x = x\<lparr>public_channels := C\<rparr>" by (intro exI [of _ "public_channels x"]) simp
  then show ?thesis using register_frame [of x nm "take 16 (sha256 nm)" True] by (auto simp: config_ensure_hashtag_channel_def)
qed

lemma add_channel_frame: "\<exists>C. snd (add_public_channel x v) = x\<lparr>public_channels := C\<rparr>"
proof -
  have "\<exists>C. x = x\<lparr>public_channels := C\<rparr>" by (intro exI [of _ "public_channels x"]) simp
  then show ?thesis using register_frame unfolding add_public_channel_def Let_def
    by (auto split: prod.split option.split)
qed

lemma channels_back:
  "\<exists>C. set_entries (map (\<lambda>ch. (''public_channel'', channel_value ch)) chs) x = Some (x\<lparr>public_channels := C\<rparr>)"
proof (induction chs arbitrary: x)
  case Nil
  show ?case by (intro exI [of _ "public_channels x"]) simp
next
  case (Cons ch chs)
  have "(''public_channel'', rc_key add_public_channel) \<in> set all_keys" by (simp add: all_keys_def node_keys_def)
  then have m: "map_of all_keys ''public_channel'' = Some (rc_key add_public_channel)" by (rule map_of_is_SomeI [OF names_once(1)])
  have p: "plain_key ''public_channel''" by (simp add: plain_key_def)
  obtain C rc where "add_public_channel x (channel_value ch) = (rc, x\<lparr>public_channels := C\<rparr>)"
    using add_channel_frame [of x "channel_value ch"] by (metis prod.collapse)
  then have "config_set x (lit ''public_channel'') (channel_value ch) = (if rc < 0 then CfgBad (-2) else CfgOk (x\<lparr>public_channels := C\<rparr>))"
    unfolding set_plain [OF p] m by (simp add: rc_key_def)
  then have "set_entries (map (\<lambda>ch. (''public_channel'', channel_value ch)) (ch # chs)) x =
      set_entries (map (\<lambda>ch. (''public_channel'', channel_value ch)) chs) (if rc < 0 then x else x\<lparr>public_channels := C\<rparr>)"
    by simp
  then show ?case
    using Cons.IH [of x] Cons.IH [of "x\<lparr>public_channels := C\<rparr>"] by (cases "rc < 0") simp_all
qed

lemma with_mbox_frame: "\<exists>C. with_mbox b x = x\<lparr>mbox_enable := b, public_channels := C\<rparr>"
proof -
  have "\<exists>C. x\<lparr>mbox_enable := b\<rparr> = x\<lparr>mbox_enable := b, public_channels := C\<rparr>"
    by (intro exI [of _ "public_channels x"]) simp
  then show ?thesis
    using hashtag_frame [of "x\<lparr>mbox_enable := b\<rparr>" "lit ''#mbox''"] by (cases b) (simp_all add: with_mbox_def Let_def)
qed

lemma KEYS_back:
  assumes "savable c"
  shows "\<exists>C. set_entries (map (entry c) KEYS) x =
    Some (restore_backbone c (restore_link c ((restore_service c ((restore_node c (x\<lparr>radio := radio c, wiring := wiring c\<rparr>))\<lparr>aprs := aprs c\<rparr>))
       \<lparr>mbox_enable := mbox_enable c, public_channels := C\<rparr>)))"
proof -
  note ok = assms [unfolded savable_def]
  let ?y = "restore_service c ((restore_node c (x\<lparr>radio := radio c, wiring := wiring c\<rparr>))\<lparr>aprs := aprs c\<rparr>)"
  obtain C where C: "with_mbox (mbox_enable c) ?y = ?y\<lparr>mbox_enable := mbox_enable c, public_channels := C\<rparr>"
    using with_mbox_frame by blast
  have "set_entries (map (entry c) KEYS) x = Some (restore_backbone c (restore_link c (with_mbox (mbox_enable c) ?y)))"
  proof -
    note r = radio_back [of c] wiring_back [of c] node_back [of c] service_back [of c] link_back [of c] backbone_back [of c]
    have s: "set_entries (map (entry c) (map fst radio_gets)) x = Some (x\<lparr>radio := radio c\<rparr>)"
      "set_entries (map (entry c) (map fst wiring_gets)) x = Some (x\<lparr>wiring := wiring c\<rparr>)"
      "set_entries (map (entry c) node_names) x = Some (restore_node c x)"
      "set_entries (map (entry c) (map fst aprs_gets)) x = Some (x\<lparr>aprs := aprs c\<rparr>)"
      "set_entries (map (entry c) service_names) x = Some (restore_service c x)"
      "set_entries (map (entry c) link_names) x = Some (restore_link c x)"
      "set_entries (map (entry c) backbone_names) x = Some (restore_backbone c x)" for x
      using ok r aprs_back [of c] by simp_all
    show ?thesis unfolding KEYS_sections map_append set_entries_append s mbox_back option.case by simp
  qed
  then show ?thesis unfolding C by blast
qed

definition password_line :: "mc_config \<Rightarrow> (string \<times> bytes) list" where
  "password_line c = (if web_password c \<noteq> [] then [(''web_password'', web_password c)] else [])"

definition after_entries :: "(string \<times> bytes) list \<Rightarrow> mc_config \<Rightarrow> (string \<times> bytes) list" where
  \<comment> \<open>the lines after the keys, with \<open>P\<close> for the line of the password\<close>
  "after_entries P c = [(''ping_channel'', ping_value c)]
     @ (if link_key (link c) \<noteq> [] then [(''link_key'', link_key (link c))] else [])
     @ P
     @ map (\<lambda>ch. (''public_channel'', channel_value ch)) (filter (\<lambda>ch. \<not> derived ch) (public_channels c))
     @ map (\<lambda>b. (''blacklist'', b)) (blacklist c) @ map (\<lambda>a. (''affinity'', a)) (affinity c)
     @ map (\<lambda>h. (''home'', h)) (home c) @ map (\<lambda>p. (''probe_allow'', p)) (probe_allow c)
     @ map (\<lambda>r. (''room'', bare (room_name r))) (filter (\<lambda>r. \<not> room_hub r) (rooms c))"

lemma saved_split: "saved_entries c = map (entry c) KEYS @ after_entries (password_line c) c"
  unfolding saved_entries_def KEYS_entries ping_value_def after_entries_def password_line_def by (rule refl)

lemma saved_plain:
  assumes "savable c" "lists_ok c"
  shows "plain_entries (map (entry c) KEYS)" "plain_entries P \<Longrightarrow> plain_entries (after_entries P c)"
    "password_ok c \<Longrightarrow> plain_entries (saved_entries c)"
proof -
  note ok = assms(2) [unfolded lists_ok_def]
  have keys: "plain_key ''ping_channel''" "plain_key ''link_key''" "plain_key ''web_password''" "plain_key ''public_channel''"
    "plain_key ''blacklist''" "plain_key ''affinity''" "plain_key ''home''" "plain_key ''probe_allow''" "plain_key ''room''"
    by (simp_all add: plain_key_def)
  have ping: "one_value (ping_value c)"
    using ok unfolding ping_ok_def ping_value_def by (auto simp: one_value_def line_text_def is_blank_def is_space4_def)
  have mapped: "plain_entries (map (\<lambda>v. (k, f v)) vs)" if "plain_key k" "list_all (\<lambda>v. one_value (f v)) vs" for k vs and f :: "'x \<Rightarrow> bytes"
    using that by (auto simp: plain_entries_def list_all_iff)
  have names: "list_all one_value vs" if "names_ok n vs" for n vs
    using that by (auto simp: names_ok_def list_all_iff)
  show k: "plain_entries (map (entry c) KEYS)" by (rule KEYS_values [OF assms(1)])
  show a: "plain_entries (after_entries P c)" if "plain_entries P" for P
    unfolding after_entries_def plain_entries_append
    using ok keys ping that
    by (auto intro!: mapped names simp: plain_entries_def [of "[_]"] plain_entries_def [of "[]"] rooms_ok_def list_all_iff)
  assume "password_ok c"
  then have "plain_entries (password_line c)" using keys by (auto simp: plain_entries_def password_line_def password_ok_def)
  then show "plain_entries (saved_entries c)" unfolding saved_split plain_entries_append using k a by blast
qed

lemma ensure_ping_frame: "\<exists>C. config_ensure_ping_channel x = x\<lparr>public_channels := C\<rparr>"
proof -
  obtain C where C: "config_ensure_hashtag_channel x (ping_channel x) = x\<lparr>public_channels := C\<rparr>" using hashtag_frame by blast
  show ?thesis
    using hashtag_frame [of "x\<lparr>public_channels := C\<rparr>" "lit ''#mbox''"]
    unfolding config_ensure_ping_channel_def C Let_def by auto
qed

definition after_keys :: "bytes \<Rightarrow> mc_config \<Rightarrow> mc_pub_channel list \<Rightarrow> mc_config \<Rightarrow> mc_config" where
  \<comment> \<open>what the lines after the keys restore\<close>
  "after_keys p c C z = z\<lparr>ping_channel := ping_channel c, link := (link z)\<lparr>link_key := link_key (link c)\<rparr>,
     web_password := p, public_channels := C, blacklist := blacklist c, affinity := affinity c,
     home := home c, probe_allow := probe_allow c, rooms := filter (\<lambda>r. \<not> room_hub r) (rooms c)\<rparr>"

lemma after_keys_back:
  assumes "lists_ok c" "link_key (link c) = [] \<longrightarrow> link_key (link z) = []"
    and P: "\<And>y. web_password y = web_password z \<Longrightarrow> set_entries P y = Some (y\<lparr>web_password := p\<rparr>)"
    and e: "blacklist z = []" "affinity z = []" "home z = []" "probe_allow z = []" "rooms z = []"
  shows "\<exists>C. set_entries (after_entries P c) z = Some (after_keys p c C z)"
proof -
  note ok = assms(1) [unfolded lists_ok_def]
  let ?z1 = "z\<lparr>ping_channel := ping_channel c\<rparr>"
  have 1: "set_entries [(''ping_channel'', ping_value c)] z = Some ?z1" using ok by (intro ping_back) blast
  let ?z2 = "?z1\<lparr>link := (link z)\<lparr>link_key := link_key (link c)\<rparr>\<rparr>"
  have 2: "set_entries (if link_key (link c) \<noteq> [] then [(''link_key'', link_key (link c))] else []) ?z1 = Some ?z2"
    using link_key_back [of c ?z1] ok assms(2) by simp
  let ?z3 = "?z2\<lparr>web_password := p\<rparr>"
  have 3: "set_entries P ?z2 = Some ?z3" by (rule P) simp
  obtain C where 4: "set_entries (map (\<lambda>ch. (''public_channel'', channel_value ch)) (filter (\<lambda>ch. \<not> derived ch) (public_channels c))) ?z3 =
      Some (?z3\<lparr>public_channels := C\<rparr>)" using channels_back by blast
  let ?z4 = "?z3\<lparr>public_channels := C\<rparr>"
  have 5: "set_entries (map (\<lambda>b. (''blacklist'', b)) (blacklist c)) ?z4 = Some (?z4\<lparr>blacklist := blacklist c\<rparr>)"
    using blacklist_back [of ?z4 "blacklist c"] ok e by simp
  let ?z5 = "?z4\<lparr>blacklist := blacklist c\<rparr>"
  have 6: "set_entries (map (\<lambda>a. (''affinity'', a)) (affinity c)) ?z5 = Some (?z5\<lparr>affinity := affinity c\<rparr>)"
    using affinity_back [of ?z5 "affinity c"] ok e by simp
  let ?z6 = "?z5\<lparr>affinity := affinity c\<rparr>"
  have 7: "set_entries (map (\<lambda>h. (''home'', h)) (home c)) ?z6 = Some (?z6\<lparr>home := home c\<rparr>)"
    using home_back [of ?z6 "home c"] ok e by simp
  let ?z7 = "?z6\<lparr>home := home c\<rparr>"
  have 8: "set_entries (map (\<lambda>p. (''probe_allow'', p)) (probe_allow c)) ?z7 = Some (?z7\<lparr>probe_allow := probe_allow c\<rparr>)"
    using probe_back [of ?z7 "probe_allow c"] ok e by simp
  let ?z8 = "?z7\<lparr>probe_allow := probe_allow c\<rparr>"
  obtain C' where 9: "set_entries (map (\<lambda>r. (''room'', bare (room_name r))) (filter (\<lambda>r. \<not> room_hub r) (rooms c))) ?z8 =
      Some (?z8\<lparr>rooms := filter (\<lambda>r. \<not> room_hub r) (rooms c), public_channels := C'\<rparr>)"
    using rooms_back [of ?z8 "filter (\<lambda>r. \<not> room_hub r) (rooms c)"] ok e by auto
  have "set_entries (after_entries P c) z =
      Some (?z8\<lparr>rooms := filter (\<lambda>r. \<not> room_hub r) (rooms c), public_channels := C'\<rparr>)"
    unfolding after_entries_def set_entries_append 1 2 3 4 5 6 7 8 9 option.case by (rule refl)
  then show ?thesis by (intro exI [of _ C']) (simp add: after_keys_def)
qed

lemma entries_back:
  assumes "savable c" "lists_ok c" "link_key (link c) = [] \<longrightarrow> link_key (link x) = []"
    and h: "\<not> backbone_have_hub_key (backbone c) \<longrightarrow> backbone_hub_key (backbone x) = backbone_hub_key (backbone c)"
    and P: "\<And>y. web_password y = web_password x \<Longrightarrow> set_entries P y = Some (y\<lparr>web_password := p\<rparr>)"
    and e: "blacklist x = []" "affinity x = []" "home x = []" "probe_allow x = []" "rooms x = []"
  shows "\<exists>d. set_entries (map (entry c) KEYS @ after_entries P c) x = Some d \<and>
     settings d = settings (c\<lparr>web_password := p\<rparr>) \<and> has_location d \<and>
     rooms d = filter (\<lambda>r. \<not> room_hub r) (rooms c)"
proof -
  let ?y = "restore_service c ((restore_node c (x\<lparr>radio := radio c, wiring := wiring c\<rparr>))\<lparr>aprs := aprs c\<rparr>)"
  obtain C where k: "set_entries (map (entry c) KEYS) x =
      Some (restore_backbone c (restore_link c (?y\<lparr>mbox_enable := mbox_enable c, public_channels := C\<rparr>)))" (is "_ = Some ?z")
    using KEYS_back [OF assms(1)] by blast
  note r = restore_backbone_def restore_link_def restore_service_def restore_node_def
  have "link_key (link c) = [] \<longrightarrow> link_key (link ?z) = []" "web_password ?z = web_password x"
    using assms(3) by (simp_all add: r)
  moreover have "blacklist ?z = []" "affinity ?z = []" "home ?z = []" "probe_allow ?z = []" "rooms ?z = []"
    using e by (simp_all add: r)
  ultimately obtain C' where t: "set_entries (after_entries P c) ?z = Some (after_keys p c C' ?z)"
    using after_keys_back [OF assms(2), of ?z P p] P by metis
  have "set_entries (map (entry c) KEYS @ after_entries P c) x = Some (after_keys p c C' ?z)"
    unfolding set_entries_append k option.case by (rule t)
  moreover have "settings (after_keys p c C' ?z) = settings (c\<lparr>web_password := p\<rparr>)"
    using h by (intro mc_config.equality) (simp_all add: settings_def after_keys_def r)
  moreover have "has_location (after_keys p c C' ?z)" by (simp add: after_keys_def r)
  moreover have "rooms (after_keys p c C' ?z) = filter (\<lambda>r. \<not> room_hub r) (rooms c)" by (simp add: after_keys_def)
  ultimately show ?thesis by blast
qed

text \<open>A load clears the lists, sets the entries, and merges the hub's rooms.\<close>

lemma config_load_entries:
  assumes "savable c" "lists_ok c" "link_key (link c) = [] \<longrightarrow> link_key (link c') = []"
    and h: "\<not> backbone_have_hub_key (backbone c) \<longrightarrow> backbone_hub_key (backbone c') = backbone_hub_key (backbone c)"
    and P: "\<And>y. web_password y = web_password c' \<Longrightarrow> set_entries P y = Some (y\<lparr>web_password := p\<rparr>)"
    and l: "\<And>x. load_lines False (fgets_lines 1024 file) x = set_entries (map (entry c) KEYS @ after_entries P c) x"
  shows "\<exists>d. config_load c' (Some file) = Some (0, d) \<and> settings d = settings (c\<lparr>web_password := p\<rparr>) \<and> has_location d \<and>
     filter (\<lambda>r. \<not> room_hub r) (rooms d) = filter (\<lambda>r. \<not> room_hub r) (rooms c)"
proof -
  let ?x = "c'\<lparr>public_channels := [], rooms := [], blacklist := [], affinity := [], home := [], probe_allow := []\<rparr>"
  obtain d where d: "set_entries (map (entry c) KEYS @ after_entries P c) ?x = Some d"
      "settings d = settings (c\<lparr>web_password := p\<rparr>)" "has_location d" "rooms d = filter (\<lambda>r. \<not> room_hub r) (rooms c)"
    using entries_back [OF assms(1,2), of ?x P p] assms(3) h P by auto
  let ?d = "config_policy_merge (config_ensure_ping_channel d)"
  have l: "config_load c' (Some file) = Some (0, ?d)"
    using d(1) by (simp add: config_load_def l)
  obtain C where C: "config_ensure_ping_channel d = d\<lparr>public_channels := C\<rparr>" using ensure_ping_frame by blast
  obtain R C' n k where m: "?d = (d\<lparr>public_channels := C\<rparr>)\<lparr>rooms := R, public_channels := C', policy_rooms := n, policy_skipped := k\<rparr>"
    using policy_merge_frame [of "d\<lparr>public_channels := C\<rparr>"] unfolding C by blast
  have "settings ?d = settings d" "has_location ?d" using d(3) unfolding m by (simp_all add: settings_def)
  moreover have "filter (\<lambda>r. \<not> room_hub r) (rooms ?d) = filter (\<lambda>r. \<not> room_hub r) (rooms d)"
    using policy_merge_local [of "d\<lparr>public_channels := C\<rparr>"] unfolding C local_part_def by simp
  ultimately show ?thesis using l d(2,4) by auto
qed

lemma config_load_saved:
  assumes "savable c" "lists_ok c" "password_ok c" "over c c'"
  shows "\<exists>d. config_load c' (Some (config_save c)) = Some (0, d) \<and> settings d = settings c \<and> has_location d \<and>
     filter (\<lambda>r. \<not> room_hub r) (rooms d) = filter (\<lambda>r. \<not> room_hub r) (rooms c)"
proof -
  have "\<forall>(k, v) \<in> set (saved_entries c). plain_key k \<and> one_value v"
    using saved_plain(3) [OF assms(1,2,3)] by (simp add: plain_entries_def)
  note l = load_saved [OF this, unfolded saved_split]
  have P: "set_entries (password_line c) y = Some (y\<lparr>web_password := web_password c\<rparr>)" if "web_password y = web_password c'" for y
    unfolding password_line_def using assms(3,4) that by (intro password_back) (simp_all add: password_ok_def over_def)
  have "link_key (link c) = [] \<longrightarrow> link_key (link c') = []"
    "\<not> backbone_have_hub_key (backbone c) \<longrightarrow> backbone_hub_key (backbone c') = backbone_hub_key (backbone c)"
    using assms(4) by (simp_all add: over_def)
  from config_load_entries [OF assms(1,2) this P l] show ?thesis by simp
qed

lemma config_load_cut_password:
  assumes "savable c" "lists_ok c" "web_password c = v @ 35 # w" "one_value v" "line_text w" "length (web_password c) < 64"
    and "link_key (link c) = [] \<longrightarrow> link_key (link c') = []"
    and "\<not> backbone_have_hub_key (backbone c) \<longrightarrow> backbone_hub_key (backbone c') = backbone_hub_key (backbone c)"
  shows "\<exists>d. config_load c' (Some (config_save c)) = Some (0, d) \<and> settings d = settings (c\<lparr>web_password := v\<rparr>)"
proof -
  let ?P = "[(''web_password'', v @ 35 # w)]" and ?Q = "[(''web_password'', v)]"
  have k: "plain_key ''web_password''" by (simp add: plain_key_def)
  have pl: "loadable e \<and> (case e of (k, v) \<Rightarrow> (k, cut v)) = e" if "plain_entries es" "e \<in> set es" for e es
    using that by (auto simp: plain_entries_def loadable_def one_value_def cut_id split: prod.splits)
  have K: "plain_entries (map (entry c) KEYS)" "plain_entries (after_entries [] c)"
    using saved_plain(1,2) [OF assms(1,2)] by (simp_all add: plain_entries_def [of "[]"])
  have cut: "cut (v @ 35 # w) = v"
  proof -
    have "\<forall>b \<in> set v. b \<noteq> 35" using assms(4) by (auto simp: one_value_def)
    then show ?thesis using takeWhile_append2 [of v "\<lambda>b. b \<noteq> 35" "35 # w"] by (simp add: cut_def)
  qed
  have pw: "loadable (''web_password'', v @ 35 # w)"
    using assms(3-6) k cut by (simp add: loadable_def one_value_def line_text_def)
  obtain A B where ab: "\<And>P. after_entries P c = A @ P @ B"
    using that [of "[(''ping_channel'', ping_value c)] @ (if link_key (link c) \<noteq> [] then [(''link_key'', link_key (link c))] else [])"]
    unfolding after_entries_def append_assoc by blast
  have A: "plain_entries A" "plain_entries B" using K(2) unfolding ab by (simp_all add: plain_entries_append)
  have s: "saved_entries c = map (entry c) KEYS @ after_entries ?P c"
    using assms(3) unfolding saved_split password_line_def by simp
  have "list_all loadable (saved_entries c)"
    unfolding s ab list_all_append using pl K(1) A pw by (auto simp: list_all_iff)
  moreover have "map (\<lambda>(k, v). (k, cut v)) (saved_entries c) = map (entry c) KEYS @ after_entries ?Q c"
  proof -
    have "map (\<lambda>(k, v). (k, cut v)) (map (entry c) KEYS) = map (entry c) KEYS"
      using pl [OF K(1)] by (intro map_idI) auto
    moreover have "map (\<lambda>(k, v). (k, cut v)) (after_entries ?P c) = after_entries ?Q c"
    proof -
      have "map (\<lambda>(k, v). (k, cut v)) A = A" "map (\<lambda>(k, v). (k, cut v)) B = B"
        using pl [OF A(1)] pl [OF A(2)] by (intro map_idI; blast)+
      then show ?thesis unfolding ab map_append by (simp add: cut)
    qed
    ultimately show ?thesis unfolding s map_append by simp
  qed
  ultimately have l: "load_lines False (fgets_lines 1024 (config_save c)) x = set_entries (map (entry c) KEYS @ after_entries ?Q c) x" for x
    using load_saved_cut [of c x] by simp
  have P: "set_entries ?Q y = Some (y\<lparr>web_password := v\<rparr>)" for y
    by (rule one_set [of _ set_web_password])
      (use assms(3,6) in \<open>simp_all add: all_keys_def role_keys_def plain_key_def set_web_password_def snprintf_s_def\<close>)
  from config_load_entries [OF assms(1,2,7,8) P l] show ?thesis by auto
qed

end
