(* ===== verification/Config_Props.thy ===== *)
theory Config_Props
  imports Config_Restore
begin

text \<open>
  What the configuration keys guarantee: whatever a file or a command says, the values the radio is
  programmed with stay in the ranges of the hardware, and a saved configuration is read back.
\<close>

section \<open>Ranges\<close>

definition in_range :: "mc_config \<Rightarrow> bool" where
  "in_range c \<longleftrightarrow>
     137 \<le> frequency (radio c) \<and> frequency (radio c) \<le> 1020 \<and> bandwidth (radio c) \<in> {125 / 2, 125, 250, 500} \<and>
     5 \<le> unat (spreading_factor (radio c)) \<and> unat (spreading_factor (radio c)) \<le> 12 \<and>
     5 \<le> unat (coding_rate (radio c)) \<and> unat (coding_rate (radio c)) \<le> 8 \<and>
     -9 \<le> tx_power (radio c) \<and> tx_power (radio c) \<le> 22 \<and> 6 \<le> unat (preamble (radio c)) \<and>
     0 \<le> tcxo_voltage (radio c) \<and> tcxo_voltage (radio c) \<le> 34 / 10 \<and> unat (ocp_reg (radio c)) \<le> 0x3F \<and>
     -9 \<le> hotspot_power_high c \<and> hotspot_power_high c \<le> 22 \<and> -9 \<le> hotspot_power_low c \<and> hotspot_power_low c \<le> 22 \<and>
     1 \<le> unat (backbone_rate (backbone c)) \<and> unat (backbone_rate (backbone c)) \<le> 600"

definition keeps :: "setter \<Rightarrow> bool" where
  "keeps f \<longleftrightarrow> (\<forall>v c c'. in_range c \<longrightarrow> f v c = CfgOk c' \<longrightarrow> in_range c')"

lemma keeps_bool: "(\<And>b c. in_range c \<Longrightarrow> in_range (g b c)) \<Longrightarrow> keeps (bool_key g)"
  by (auto simp: keeps_def bool_key_def split: option.splits)

lemma keeps_u32: "(\<And>u c. P u \<Longrightarrow> in_range c \<Longrightarrow> in_range (g u c)) \<Longrightarrow> keeps (u32_key P g)"
  by (auto simp: keeps_def u32_key_def split: option.splits if_splits)

lemma keeps_dbl: "(\<And>x c. P (Num x) \<Longrightarrow> in_range c \<Longrightarrow> in_range (g x c)) \<Longrightarrow> keeps (dbl_key P g)"
  by (auto simp: keeps_def dbl_key_def split: option.splits if_splits real_val.splits)

lemma keeps_str: "(\<And>s c. in_range c \<Longrightarrow> in_range (g s c)) \<Longrightarrow> keeps (str_key n g)"
  by (auto simp: keeps_def str_key_def)

lemma keeps_dbm: "(\<And>p c. -9 \<le> p \<Longrightarrow> p \<le> 22 \<Longrightarrow> in_range c \<Longrightarrow> in_range (g p c)) \<Longrightarrow> keeps (set_dbm g)"
  by (auto simp: keeps_def set_dbm_def split: option.splits if_splits)

lemma keeps_rc: "(\<And>c v. in_range c \<Longrightarrow> in_range (snd (f c v))) \<Longrightarrow> keeps (rc_key f)"
  unfolding keeps_def rc_key_def case_prod_unfold by (auto split: if_splits)

lemma narrow:
  "unat (u :: u32) \<le> 63 \<Longrightarrow> unat (ucast u :: byte) = unat u" "unat u \<le> 65535 \<Longrightarrow> unat (ucast u :: u16) = unat u"
  by (simp_all add: unsigned_ucast_eq take_bit_nat_eq_self)

lemma keeps_radio: "list_all keeps (map snd radio_keys)"
proof -
  have "\<exists>p. -9 \<le> p \<and> p \<le> 22 \<and> c' = radio_update (tx_power_update (\<lambda>_. p)) c" if "set_tx_power v c = CfgOk c'" for v c c'
  proof (cases "dbm_of v")
    case None
    with that show ?thesis by (simp add: set_tx_power_def)
  next
    case (Some q)
    with that show ?thesis
      by (intro exI [of _ "if 22 < q \<and> q \<le> 40 then 22 else q"]) (simp add: set_tx_power_def Let_def split: if_splits)
  qed
  moreover have "in_range (radio_update (tx_power_update (\<lambda>_. p)) c)" if "in_range c" "-9 \<le> p" "p \<le> 22" for p c
    using that unfolding in_range_def by simp
  ultimately have "keeps set_tx_power" unfolding keeps_def by blast
  moreover have "keeps set_sync_word"
  proof -
    have w: "in_range (radio_update (sync_word_update g) c) = in_range c" for g c by (simp add: in_range_def)
    have "keeps (u32_key (\<lambda>u. u \<le> 0xFFFF) (\<lambda>u. radio_update (sync_word_update (\<lambda>_. ucast u))))"
      by (rule keeps_u32) (simp only: w)
    then show ?thesis
      unfolding keeps_def set_sync_word_def by (metis w cfg_result.inject(1))
  qed
  moreover have "keeps (dbl_key (\<lambda>d. \<not> outside 137 1020 d) (\<lambda>x. radio_update (frequency_update (\<lambda>_. x))))"
    "keeps (dbl_key (\<lambda>d. \<not> outside 0 (34 / 10) d) (\<lambda>x. radio_update (tcxo_voltage_update (\<lambda>_. x))))"
    "keeps (dbl_key (\<lambda>d. d \<in> {Num (125 / 2), Num 125, Num 250, Num 500}) (\<lambda>x. radio_update (bandwidth_update (\<lambda>_. x))))"
    by (rule keeps_dbl, simp add: in_range_def outside_def)+
  moreover have "keeps (u32_key (\<lambda>u. 5 \<le> u \<and> u \<le> 12) (\<lambda>u. radio_update (spreading_factor_update (\<lambda>_. ucast u))))"
    "keeps (u32_key (\<lambda>u. 5 \<le> u \<and> u \<le> 8) (\<lambda>u. radio_update (coding_rate_update (\<lambda>_. ucast u))))"
    "keeps (u32_key (\<lambda>u. 6 \<le> u \<and> u \<le> 65535) (\<lambda>u. radio_update (preamble_update (\<lambda>_. ucast u))))"
    "keeps (u32_key (\<lambda>u. u \<le> 0x3F) (\<lambda>u. radio_update (ocp_reg_update (\<lambda>_. ucast u))))"
    by (rule keeps_u32, simp add: in_range_def narrow word_le_nat_alt)+
  moreover have "keeps (bool_key (\<lambda>b. radio_update (crc_on_update (\<lambda>_. b))))"
    "keeps (bool_key (\<lambda>b. radio_update (iq_inverted_update (\<lambda>_. b))))"
    "keeps (bool_key (\<lambda>b. radio_update (use_cad_update (\<lambda>_. b))))"
    by (rule keeps_bool, simp add: in_range_def)+
  ultimately show ?thesis unfolding radio_keys_def list.map snd_conv by (simp only: list.pred_inject simp_thms)
qed

lemma keeps_wiring: "list_all keeps (map snd wiring_keys)"
proof -
  have "keeps set_rf_switch"
    by (auto simp: keeps_def set_rf_switch_def in_range_def split: if_splits)
  then show ?thesis unfolding wiring_keys_def by (auto intro!: keeps_bool keeps_u32 keeps_str simp: in_range_def)
qed

lemma frame_range:
  "in_range (c\<lparr>public_channels := C\<rparr>) = in_range c" "in_range (c\<lparr>rooms := R, public_channels := C\<rparr>) = in_range c"
  "in_range (c\<lparr>rooms := R, public_channels := C, policy_rooms := n, policy_skipped := k\<rparr>) = in_range c"
  by (simp_all add: in_range_def)

lemma keeps_node: "list_all keeps (map snd node_keys)"
proof -
  have "in_range c \<Longrightarrow> in_range (if b then config_ensure_hashtag_channel (c\<lparr>mbox_enable := b\<rparr>) (lit ''#mbox'') else c\<lparr>mbox_enable := b\<rparr>)" for b c
    using hashtag_frame [of "c\<lparr>mbox_enable := b\<rparr>" "lit ''#mbox''"] by (auto simp: in_range_def)
  then have "keeps set_mbox" unfolding set_mbox_def Let_def by (intro keeps_bool)
  moreover have "keeps set_ping_channel"
    by (auto simp: keeps_def set_ping_channel_def Let_def in_range_def split: if_splits)
  moreover have "keeps set_link_mode" "keeps set_hub_key" "keeps set_policy_file"
    by (auto simp: keeps_def set_link_mode_def set_hub_key_def set_policy_file_def in_range_def split: if_splits option.splits)
  moreover have "keeps (rc_key add_public_channel)"
    using add_channel_frame by (intro keeps_rc) (metis frame_range(1))
  moreover have "keeps (rc_key (\<lambda>c v. add_room_ex c v False))"
    using add_room_frame by (intro keeps_rc) (metis frame_range(2))
  moreover have "keeps (rc_key config_blacklist_add)"
    by (intro keeps_rc) (auto simp: config_blacklist_add_def Let_def in_range_def)
  ultimately show ?thesis
    unfolding node_keys_def
    by (auto intro!: keeps_bool keeps_u32 keeps_str keeps_dbl simp: in_range_def word_le_nat_alt)
qed

lemma keeps_aprs: "list_all keeps (map snd aprs_keys)"
  unfolding aprs_keys_def by (auto intro!: keeps_bool keeps_u32 keeps_str keeps_dbl simp: in_range_def)

lemma keeps_role: "list_all keeps (map snd role_keys)"
proof -
  have "keeps set_role" "keeps set_web_password"
    by (auto simp: keeps_def set_role_def set_web_password_def in_range_def split: if_splits)
  moreover have "keeps (list_key sel upd mx)" if "\<And>c xs. in_range c \<Longrightarrow> in_range (upd xs c)" for sel upd mx
    using that unfolding list_key_def by (intro keeps_rc) (simp add: case_prod_unfold)
  ultimately show ?thesis
    unfolding role_keys_def by (auto intro!: keeps_u32 keeps_dbm simp: in_range_def)
qed

lemma key_find_in: "key_find k t = Some f \<Longrightarrow> f \<in> snd ` set t"
  by (induction t) (auto split: if_splits)

lemma config_set_range: "in_range c \<Longrightarrow> config_set c k v = CfgOk c' \<Longrightarrow> in_range c'"
proof -
  assume r: "in_range c" and s: "config_set c k v = CfgOk c'"
  obtain f where "key_find k (radio_keys @ wiring_keys @ node_keys @ aprs_keys @ role_keys) = Some f" "f v c = CfgOk c'"
    using s by (auto simp: config_set_def split: option.splits)
  moreover from this have "keeps f"
    using key_find_in keeps_radio keeps_wiring keeps_node keeps_aprs keeps_role
    by (fastforce simp: list_all_iff)
  ultimately show "in_range c'" using r unfolding keeps_def by blast
qed

lemma config_line_range: "in_range c \<Longrightarrow> config_line l c = Some c' \<Longrightarrow> in_range c'"
  unfolding config_line_def Let_def
  by (auto split: option.splits if_splits cfg_result.splits intro: config_set_range)

lemma load_lines_range: "in_range c \<Longrightarrow> load_lines b ls c = Some c' \<Longrightarrow> in_range c'"
proof (induction b ls c rule: load_lines.induct)
  case (2 skip l ls c)
  then show ?case by (auto split: if_splits option.splits dest: config_line_range)
qed simp

lemma merged_range: "in_range (config_policy_merge (config_ensure_ping_channel c)) = in_range c"
proof -
  obtain C where C: "config_ensure_ping_channel c = c\<lparr>public_channels := C\<rparr>" using ensure_ping_frame by blast
  show ?thesis using policy_merge_frame [of "c\<lparr>public_channels := C\<rparr>"] unfolding C by (auto simp: in_range_def)
qed

section \<open>A '#' in a value\<close>

section \<open>Properties\<close>

text \<open>C37: saving a configuration and loading the file gives the settings back: the radio, the wiring, the
  node's own settings, APRS-IS, the link, the backbone, the lists of patterns and the rooms served;
  only the location is always on afterwards, as the coordinates set it. The conditions: an empty web
  password, an empty link key and an absent hub key are not written, so the configuration loaded over
  must not hold another one (\<open>over\<close>). Every number is in its range and has no more decimals than are
  printed (three for the frequency, two for the TCXO voltage, six for the coordinates, those of
  \<^verbatim>\<open>%g\<close> for the altitude), every text reads back from a line, fits its array and the 128-byte buffer
  of the save (\<open>savable\<close>, \<open>password_ok\<close>), and the lists hold what their keys would have added, each
  pattern once whatever its case (\<open>lists_ok\<close>).\<close>

theorem config_file_roundtrip:
  assumes "savable c" "lists_ok c" "password_ok c" "over c c'"
  shows "\<exists>d. config_load c' (Some (config_save c)) = Some (0, d) \<and> settings d = settings c \<and> has_location d \<and>
     filter (\<lambda>r. \<not> room_hub r) (rooms d) = filter (\<lambda>r. \<not> room_hub r) (rooms c)"
  by (rule config_load_saved [OF assms])

definition demo_config :: mc_config where
  "demo_config = config_defaults\<lparr>
     cfg_name := lit ''ON6URE-RPT'', latitude := 51025 / 1000, longitude := - 4 / 10, blacklist := [lit ''spam bot''],
     link := \<lparr>link_mode = lit ''tx'', link_key = lit ''s3cret'', link_peer = [], link_port = 4404\<rparr>,
     rooms := [\<lparr>room_name = lit ''#sysop'', room_key = take 16 (sha256 (lit ''#sysop'')), room_hub = False\<rparr>]\<rparr>"

lemma zero_general: "general_ok 0"
proof -
  have "parse_double [48] = Some (Num 0)"
    by (simp add: parse_double_def strtod_def Let_def is_space_c_def strcaseeq_def tolower_def scan_number_def scan_exp_def
      digit_in_def hexval_def)
  then show ?thesis by (simp add: general_ok_def fmt_g_def one_value_def line_text_def is_blank_def is_space4_def)
qed

lemmas text_defs = text_ok_def one_value_def line_text_def is_blank_def is_space4_def

lemma demo_savable: "savable demo_config"
  by (simp add: savable_def demo_config_def config_defaults_def radio_ok_def node_ok_def service_ok_def link_ok_def
      backbone_ok_def fixed_ok_def zero_general text_defs)

lemma demo_lists: "lists_ok demo_config"
  by (simp add: lists_ok_def demo_config_def config_defaults_def ping_ok_def names_ok_def rooms_ok_def text_defs bare_def
      strcaseeq_def tolower_def)

lemma demo_over: "over demo_config config_defaults"
  by (simp add: over_def demo_config_def config_defaults_def)

theorem config_file_roundtrip_witness:
  "\<exists>d. config_load config_defaults (Some (config_save demo_config)) = Some (0, d) \<and> settings d = settings demo_config \<and>
     has_location d \<and> filter (\<lambda>r. \<not> room_hub r) (rooms d) = rooms demo_config"
proof -
  have "password_ok demo_config" by (simp add: password_ok_def demo_config_def config_defaults_def text_defs)
  moreover have "filter (\<lambda>r. \<not> room_hub r) (rooms demo_config) = rooms demo_config" by (simp add: demo_config_def)
  ultimately show ?thesis using config_file_roundtrip [OF demo_savable demo_lists _ demo_over] by simp
qed

text \<open>C38: no configuration file takes the radio out of the ranges of the hardware: frequency, bandwidth,
  spreading factor, coding rate, power, preamble, TCXO voltage and over-current limit stay in range whatever
  the bytes of the file are, as long as none of its numbers is read as an infinity or a not-a-number
  that its key accepts (then the load is \<open>None\<close>).
\<close>
theorem load_keeps_ranges:
  assumes "in_range c" "config_load c f = Some (rc, c')"
  shows "in_range c'"
proof (cases f)
  case None
  with assms show ?thesis by (auto simp: config_load_def merged_range)
next
  case (Some s)
  let ?x = "c\<lparr>public_channels := [], rooms := [], blacklist := [], affinity := [], home := [], probe_allow := []\<rparr>"
  have "in_range ?x" using assms(1) by (simp add: in_range_def)
  moreover obtain d where "load_lines False (fgets_lines 1024 s) ?x = Some d"
      "c' = config_policy_merge (config_ensure_ping_channel d)"
    using assms(2) Some by (auto simp: config_load_def)
  ultimately show ?thesis using load_lines_range by (simp add: merged_range)
qed

theorem load_keeps_ranges_witness:
  "\<exists>d. config_load config_defaults (Some (config_save demo_config)) = Some (0, d) \<and> in_range d"
proof -
  have "in_range config_defaults" by (simp add: in_range_def config_defaults_def)
  moreover obtain d where "config_load config_defaults (Some (config_save demo_config)) = Some (0, d)"
    using config_load_saved [OF demo_savable demo_lists _ demo_over]
    by (auto simp: password_ok_def demo_config_def config_defaults_def text_defs)
  ultimately show ?thesis using load_keeps_ranges by blast
qed

text \<open>C39: a '#' in the web password does not survive a restart: the file is written with the whole password,
  but what follows the '#' is a comment when it is read back. A password that begins with '#' is read
  back as none at all.
\<close>
theorem password_cut_at_hash:
  assumes "savable c" "lists_ok c" "web_password c = v @ 35 # w" "one_value v" "line_text w" "length (web_password c) < 64"
    and "link_key (link c) = [] \<longrightarrow> link_key (link c') = []"
    and "\<not> backbone_have_hub_key (backbone c) \<longrightarrow> backbone_hub_key (backbone c') = backbone_hub_key (backbone c)"
  shows "\<exists>d. config_load c' (Some (config_save c)) = Some (0, d) \<and> settings d = settings (c\<lparr>web_password := v\<rparr>)"
  by (rule config_load_cut_password [OF assms])

theorem password_cut_at_hash_witness:
  "\<exists>d. config_load config_defaults (Some (config_save (demo_config\<lparr>web_password := lit ''#door''\<rparr>))) = Some (0, d) \<and>
     web_password d = []"
proof -
  let ?c = "demo_config\<lparr>web_password := lit ''#door''\<rparr>"
  have "savable ?c" using demo_savable by (simp add: savable_def node_ok_def service_ok_def backbone_ok_def)
  moreover have "lists_ok ?c" using demo_lists by (simp add: lists_ok_def)
  ultimately have "\<exists>d. config_load config_defaults (Some (config_save ?c)) = Some (0, d) \<and> settings d = settings (?c\<lparr>web_password := []\<rparr>)"
    by (rule password_cut_at_hash [where w = "lit ''door''"]) (simp_all add: demo_config_def config_defaults_def text_defs)
  then obtain d where d: "config_load config_defaults (Some (config_save ?c)) = Some (0, d)"
      "settings d = settings (?c\<lparr>web_password := []\<rparr>)" by blast
  have "web_password (settings d) = []" unfolding d(2) by (simp add: settings_def)
  then have "web_password d = []" by (simp add: settings_def)
  with d(1) show ?thesis by blast
qed

end
