(* ===== verification/Node_Loop.thy ===== *)
theory Node_Loop
  imports Bb_Run Link
begin

text \<open>
  The main loop (\<^verbatim>\<open>main.c\<close>): how the radio, the mesh, the split link and the backbone client are put
  together. \<open>node_start\<close> is \<open>main\<close> up to its loop, from the loaded configuration and identity;
  \<open>node_iter\<close> is one turn of the loop but for what it does for the console: the local command line,
  the control socket, the monitors and APRS-IS, whose poll descriptors, and the signal that ends
  the loop, are not modelled.

  The mesh hands what it offers to the hub to the client while it runs, and the client does not
  call back; so the offers of one call into the mesh are delivered when it returns (\<open>in_mesh\<close>), in
  their order. The loop that takes the relayed frames off the socket ends when the socket has no more,
  which is not certain: \<open>inject\<close> is a partial function.
\<close>

section \<open>State\<close>

datatype radio_poll = RX_NONE | RX_OK bytes int int | RX_CRC_ERR int int | RX_HDR_ERR int int

record node =
  nd_mesh :: mc_mesh
  nd_bb :: mc_backbone
  nd_link :: mc_link
  nd_net :: net
  nd_rx :: bool
  prev_tx :: u64
  data_led :: bool
  data_led_off :: u64

section \<open>Calls into the mesh\<close>

definition deliver_one :: "effect \<Rightarrow> mc_backbone \<Rightarrow> mc_backbone" where
  "deliver_one ef b =
     (case ef of
        BackboneOffer raw own \<Rightarrow> bb_offer b raw own
      | BackboneStatusSoon \<Rightarrow> bb_status_soon b
      | _ \<Rightarrow> b)"

definition new_effects :: "mc_mesh \<Rightarrow> mc_mesh \<Rightarrow> effect list" where
  "new_effects m m' = drop (length (w_out (wld m))) (w_out (wld m'))"

definition in_mesh :: "mc_mesh \<Rightarrow> node \<Rightarrow> node" where
  \<comment> \<open>the node after a call that leaves the mesh \<open>m'\<close>\<close>
  "in_mesh m' n = n\<lparr>nd_mesh := m', nd_bb := fold deliver_one (new_effects (nd_mesh n) m') (nd_bb n)\<rparr>"

definition hear :: "bb_env \<Rightarrow> bytes \<Rightarrow> int \<Rightarrow> int \<Rightarrow> node \<Rightarrow> node" where
  \<comment> \<open>a received frame goes to the mesh, and to the hub with what became of it\<close>
  "hear e frame rssi snr n =
     (let (disp, m) = mesh_on_recv (e_sign e) (e_open e) (nd_mesh n) frame rssi snr;
          n = in_mesh m n
      in n\<lparr>nd_bb := bb_observe (nd_bb n) frame rssi snr 0 (rx_code disp)\<rparr>)"

section \<open>One turn of the loop\<close>

definition node_receive :: "bb_env \<Rightarrow> radio_poll \<Rightarrow> node \<Rightarrow> node \<times> bool" where
  "node_receive e r n =
     (case r of
        RX_OK frame rssi snr \<Rightarrow>
          (if nd_rx n then
             (let (lk, w, net) = link_relay (nd_link n) frame rssi snr (wld (nd_mesh n)) (nd_net n)
              in n\<lparr>nd_link := lk, nd_mesh := (nd_mesh n)\<lparr>wld := w\<rparr>, nd_net := net\<rparr>)
           else hear e frame rssi snr n, True)
      | RX_CRC_ERR rssi snr \<Rightarrow> (in_mesh (mesh_on_rx_error (nd_mesh n) True rssi snr) n, False)
      | RX_HDR_ERR rssi snr \<Rightarrow> (in_mesh (mesh_on_rx_error (nd_mesh n) False rssi snr) n, False)
      | RX_NONE \<Rightarrow> (n, False))"

definition node_link_recv :: "node \<Rightarrow> (bytes \<times> int \<times> int) option \<times> node" where
  \<comment> \<open>the frame \<open>link_recv\<close> returned, if it returned 1\<close>
  "node_link_recv n =
     (let (rc, got, lk, w, net) = link_recv (nd_link n) MC_MAX_TRANS_UNIT (wld (nd_mesh n)) (nd_net n)
      in (if rc = 1 then got else None, n\<lparr>nd_link := lk, nd_mesh := (nd_mesh n)\<lparr>wld := w\<rparr>, nd_net := net\<rparr>))"

partial_function (option) inject :: "bb_env \<Rightarrow> node \<Rightarrow> bool \<Rightarrow> (node \<times> bool) option" where
  \<comment> \<open>\<open>while (link_recv (...) == 1)\<close>; the flag is \<open>activity\<close>\<close>
  "inject e n act =
     (case node_link_recv n of
        (None, n') \<Rightarrow> Some (n', act)
      | (Some (frame, rssi, snr), n') \<Rightarrow> inject e (hear e frame rssi snr n') True)"

definition node_transmit :: "u64 \<Rightarrow> node \<Rightarrow> node" where
  "node_transmit now n =
     (if nd_rx n then n
      else
        let n = in_mesh (mesh_service_tx (nd_mesh n) now) n;
            n = in_mesh (mesh_service_probe (nd_mesh n) now) n
        in in_mesh (mesh_service_timeofday (nd_mesh n)) n)"

definition node_advert :: "bb_env \<Rightarrow> u64 \<Rightarrow> node \<Rightarrow> node" where
  "node_advert e now n =
     (let m = nd_mesh n; iv = advert_interval (cfg m) in
      if \<not> nd_rx n \<and> iv \<noteq> 0 \<and> last_advert_ms m < now \<and> ucast iv * 1000 \<le> now - last_advert_ms m then
        (let n = in_mesh (snd (mesh_send_advert (e_sign e) m)) n
         in n\<lparr>nd_mesh := (nd_mesh n)\<lparr>last_advert_ms := now\<rparr>\<rparr>)
      else n)"

definition node_led :: "u64 \<Rightarrow> bool \<Rightarrow> node \<Rightarrow> node" where
  "node_led now act n =
     (if act then n\<lparr>data_led := True, data_led_off := now + 60\<rparr>
      else if data_led_off n \<noteq> 0 \<and> data_led_off n \<le> now then n\<lparr>data_led := False, data_led_off := 0\<rparr>
      else n)"

definition node_backbone :: "bb_env \<Rightarrow> node \<Rightarrow> node" where
  "node_backbone e n =
     (let (now, m) = mesh_millis (nd_mesh n);
          (b, m') = backbone_service e (nd_bb n) m now
      in n\<lparr>nd_mesh := m', nd_bb := fold deliver_one (new_effects m m') b\<rparr>)"

definition node_iter :: "bb_env \<Rightarrow> radio_poll \<Rightarrow> node \<Rightarrow> node option" where
  "node_iter e r n =
     (let (now, m) = mesh_millis (nd_mesh n);
          (n, act) = node_receive e r (n\<lparr>nd_mesh := m\<rparr>)
      in case (if lk_mode (nd_link n) = LINK_TX then inject e n act else Some (n, act)) of
           None \<Rightarrow> None
         | Some (n, act) \<Rightarrow>
             let n = node_transmit now n;
                 sent = (tx_total (stats (nd_mesh n)) \<noteq> prev_tx n);
                 n = n\<lparr>prev_tx := tx_total (stats (nd_mesh n))\<rparr>;
                 n = node_advert e now n;
                 n = node_led now (act \<or> sent) n
             in Some (node_backbone e n))"

section \<open>Starting\<close>

definition keep_policy :: "bytes option \<Rightarrow> mc_backbone \<Rightarrow> mc_mesh \<Rightarrow> mc_mesh" where
  \<comment> \<open>the hub's last policy, from its file\<close>
  "keep_policy f b m =
     (if bb_state b \<noteq> BB_OFF \<and> backbone_policy (cfg m)
      then m\<lparr>cfg := snd (config_policy_load (cfg m) (Some (pub (ident m))) f)\<rparr> else m)"

definition node_start :: "bb_env \<Rightarrow> mc_config \<Rightarrow> mc_identity \<Rightarrow> bytes option \<Rightarrow> bool \<Rightarrow> world \<Rightarrow> net \<Rightarrow> net \<Rightarrow> node option" where
  \<comment> \<open>from \<open>mesh_init\<close> to the loop, with the policy file, whether \<^verbatim>\<open>aprsis_init\<close> succeeded, and the
      sockets of the link and of the client\<close>
  "node_start e c self f aprs_up w lnet bnet =
     (let m = (mesh_init self c w)\<lparr>has_aprs := aprs_enable (aprs c) \<and> aprs_up, mon := Some 0\<rparr>;
          (rc, lk, lnet) = link_init c lnet; rx = strcaseeq (link_mode (link c)) (lit ''rx'') in
      if rc \<noteq> 0 then None
      else
        let (_, b, m) = (if backbone_enable (backbone c) \<and> rx then (0, (zero_backbone False bnet)\<lparr>backoff_s := 0\<rparr>, m) else backbone_init True m bnet);
            m = m\<lparr>has_bb := (bb_state b \<noteq> BB_OFF)\<rparr>;
            m = keep_policy f b m;
            n = \<lparr>nd_mesh = m, nd_bb = b, nd_link = lk, nd_net = lnet, nd_rx = rx, prev_tx = 0, data_led = False, data_led_off = 0\<rparr>
        in Some (if \<not> rx \<and> advert_interval c \<noteq> 0 then in_mesh (snd (mesh_send_advert (e_sign e) (nd_mesh n))) n else n))"

inductive node_reach :: "bb_env \<Rightarrow> node \<Rightarrow> node \<Rightarrow> bool" for e n0 where
  node_here: "node_reach e n0 n0"
| node_turn: "node_reach e n0 n \<Longrightarrow> node_iter e r n = Some n' \<Longrightarrow> node_reach e n0 n'"

inductive_simps node_reach_simp: "node_reach e n0 n"

section \<open>The invariant\<close>

definition client_ok :: "mc_backbone \<Rightarrow> bool" where
  "client_ok b \<longleftrightarrow> bb_state b = BB_OFF \<or> bb_inv b"

definition node_ok :: "node \<Rightarrow> bool" where
  "node_ok n \<longleftrightarrow> wf_mesh (nd_mesh n) \<and> client_ok (nd_bb n)"

lemma off_hooks [simp]:
  "bb_state b = BB_OFF \<Longrightarrow> bb_offer b raw own = b" "bb_state b = BB_OFF \<Longrightarrow> bb_status_soon b = b"
  "bb_state b = BB_OFF \<Longrightarrow> bb_observe b f r s fl d = b" "bb_state b = BB_OFF \<Longrightarrow> backbone_service e b m now = (b, m)"
  by (simp_all add: bb_offer_def bb_status_soon_def bb_observe_def backbone_service_def)

lemma deliver_off [simp]: "bb_state b = BB_OFF \<Longrightarrow> fold deliver_one es b = b"
  by (induction es) (simp_all add: deliver_one_def split: effect.split)

lemma deliver_ok: "client_ok b \<Longrightarrow> client_ok (fold deliver_one es b)"
proof (induction es arbitrary: b)
  case (Cons ef es)
  have "client_ok (deliver_one ef b)"
    using Cons.prems offer_inv by (auto simp: deliver_one_def client_ok_def split: effect.split)
  then show ?case by (simp add: Cons.IH)
qed simp

lemma observe_ok: "client_ok b \<Longrightarrow> client_ok (bb_observe b f r s fl d)"
  using observe_inv by (auto simp: client_ok_def)

lemma in_mesh_ok: "node_ok n \<Longrightarrow> wf_mesh m \<Longrightarrow> node_ok (in_mesh m n)"
  by (simp add: node_ok_def in_mesh_def deliver_ok)

lemma in_mesh_fields [simp]:
  "nd_mesh (in_mesh m n) = m" "nd_link (in_mesh m n) = nd_link n" "nd_net (in_mesh m n) = nd_net n" "nd_rx (in_mesh m n) = nd_rx n"
  by (simp_all add: in_mesh_def)

lemma hear_fields [simp]:
  "nd_mesh (hear e frame rssi snr n) = snd (mesh_on_recv (e_sign e) (e_open e) (nd_mesh n) frame rssi snr)"
  "nd_link (hear e frame rssi snr n) = nd_link n" "nd_net (hear e frame rssi snr n) = nd_net n" "nd_rx (hear e frame rssi snr n) = nd_rx n"
  by (simp_all add: hear_def split_beta Let_def)

lemma hear_ok: "node_ok n \<Longrightarrow> node_ok (hear e frame rssi snr n)"
proof -
  assume n: "node_ok n"
  then have "wf_mesh (snd (mesh_on_recv (e_sign e) (e_open e) (nd_mesh n) frame rssi snr))"
    using mesh.wf [OF mesh.on_recv] by (simp add: node_ok_def)
  from in_mesh_ok [OF n this] show ?thesis
    by (simp add: hear_def split_beta Let_def node_ok_def observe_ok)
qed

lemma relay_frame: "link_relay lk frame rssi snr w n = (lk', w', n') \<Longrightarrow> w' = w \<or> w' = snd (time_now w)"
  by (auto simp: link_relay_def Let_def split: if_splits prod.splits)

lemma receive_ok: "node_ok n \<Longrightarrow> node_ok (fst (node_receive e r n))"
proof (cases r)
  case (RX_OK frame rssi snr)
  assume "node_ok n"
  then show ?thesis using hear_ok [of n e frame rssi snr] RX_OK
    by (cases "nd_rx n") (auto simp: node_receive_def node_ok_def wf_mesh_world split: prod.split)
next
  case (RX_CRC_ERR rssi snr)
  assume "node_ok n"
  then show ?thesis using RX_CRC_ERR by (simp add: node_receive_def in_mesh_ok node_ok_def [of n] rx_error_wf)
next
  case (RX_HDR_ERR rssi snr)
  assume "node_ok n"
  then show ?thesis using RX_HDR_ERR by (simp add: node_receive_def in_mesh_ok node_ok_def [of n] rx_error_wf)
qed (simp add: node_receive_def)

lemma link_recv_ok: "node_link_recv n = (got, n') \<Longrightarrow> node_ok n \<Longrightarrow> node_ok n'"
  by (auto simp: node_link_recv_def node_ok_def wf_mesh_world split: prod.splits)

lemma inject_ok:
  assumes "inject e n act = Some y" "node_ok n"
  shows "node_ok (fst y)"
proof -
  have "node_ok n \<longrightarrow> node_ok (fst y)"
  proof (rule inject.raw_induct [OF _ assms(1), where P = "\<lambda>e n act y. node_ok n \<longrightarrow> node_ok (fst y)"], rule impI)
    fix f e n act y
    assume ih: "\<And>e n act y. f e n act = Some y \<Longrightarrow> node_ok n \<longrightarrow> node_ok (fst y)" and n: "node_ok n"
      and y: "(case node_link_recv n of (None, n') \<Rightarrow> Some (n', act)
        | (Some (frame, rssi, snr), n') \<Rightarrow> f e (hear e frame rssi snr n') True) = Some y"
    obtain got n' where g: "node_link_recv n = (got, n')" by fastforce
    have n': "node_ok n'" by (rule link_recv_ok [OF g n])
    show "node_ok (fst y)"
    proof (cases got)
      case None
      with y g n' show ?thesis by auto
    next
      case (Some x)
      obtain frame rssi snr where "x = (frame, rssi, snr)" by (metis prod_cases3)
      then have "f e (hear e frame rssi snr n') True = Some y" using y g Some by simp
      with ih hear_ok [OF n'] show ?thesis by blast
    qed
  qed
  with assms(2) show ?thesis by blast
qed

lemma transmit_ok: "node_ok n \<Longrightarrow> node_ok (node_transmit now n)"
proof -
  assume n: "node_ok n"
  have m: "wf_mesh (nd_mesh x)" if "node_ok x" for x using that by (simp add: node_ok_def)
  have a: "node_ok (in_mesh (mesh_service_tx (nd_mesh x) now) x)" if "node_ok x" for x
    using service_tx_wf m [OF that] that by (intro in_mesh_ok)
  have b: "node_ok (in_mesh (mesh_service_probe (nd_mesh x) now) x)" if "node_ok x" for x
    using m [OF that] that by (intro in_mesh_ok mesh.wf [OF mesh.service_probe])
  have c: "node_ok (in_mesh (mesh_service_timeofday (nd_mesh x)) x)" if "node_ok x" for x
    using m [OF that] that by (intro in_mesh_ok mesh.wf [OF mesh.service_tod])
  show ?thesis unfolding node_transmit_def Let_def using n by (simp only: a b c simp_thms split: if_split)
qed

lemma advert_ok: "node_ok n \<Longrightarrow> node_ok (node_advert e now n)"
proof -
  assume n: "node_ok n"
  then have m: "wf_mesh (nd_mesh n)" by (simp add: node_ok_def)
  have "node_ok (in_mesh (snd (mesh_send_advert (e_sign e) (nd_mesh n))) n)"
    using m n by (intro in_mesh_ok mesh.wf [OF mesh.send_advert])
  moreover have "node_ok (x\<lparr>nd_mesh := (nd_mesh x)\<lparr>last_advert_ms := now\<rparr>\<rparr>)" if "node_ok x" for x
    using that by (simp add: node_ok_def wf_mesh_def)
  ultimately show ?thesis unfolding node_advert_def Let_def using n by (simp only: simp_thms split: if_split)
qed

lemma led_ok [simp]: "node_ok (node_led now act n) = node_ok n"
  by (simp add: node_led_def node_ok_def)

lemma backbone_ok: "node_ok n \<Longrightarrow> node_ok (node_backbone e n)"
proof -
  assume n: "node_ok n"
  obtain now m where t: "mesh_millis (nd_mesh n) = (now, m)" by fastforce
  have m: "wf_mesh m" using n t by (auto simp: node_ok_def mesh_millis_def wf_mesh_world split: prod.splits)
  obtain b m' where s: "backbone_service e (nd_bb n) m now = (b, m')" by fastforce
  have "client_ok b \<and> wf_mesh m'"
  proof (cases "bb_state (nd_bb n) = BB_OFF")
    case True
    with s m show ?thesis by (auto simp: client_ok_def)
  next
    case False
    then have "bb_inv (nd_bb n)" using n by (simp add: node_ok_def client_ok_def)
    from service_ok [OF this m s] show ?thesis by (simp add: client_ok_def)
  qed
  then show ?thesis by (simp add: node_backbone_def t s node_ok_def deliver_ok)
qed

lemma iter_ok:
  assumes "node_ok n" "node_iter e r n = Some n'"
  shows "node_ok n'"
proof -
  obtain now m where t: "mesh_millis (nd_mesh n) = (now, m)" by fastforce
  have "node_ok (n\<lparr>nd_mesh := m\<rparr>)"
    using assms(1) t by (auto simp: node_ok_def mesh_millis_def wf_mesh_world split: prod.splits)
  moreover obtain n1 act where r: "node_receive e r (n\<lparr>nd_mesh := m\<rparr>) = (n1, act)" by fastforce
  ultimately have n1: "node_ok n1" using receive_ok [of "n\<lparr>nd_mesh := m\<rparr>" e r] by simp
  obtain n2 act2 where i: "(if lk_mode (nd_link n1) = LINK_TX then inject e n1 act else Some (n1, act)) = Some (n2, act2)"
    using assms(2) by (auto simp: node_iter_def t r split: option.splits if_splits)
  have "node_ok n2" using i n1 inject_ok [of e n1 act "(n2, act2)"] by (auto split: if_splits)
  then have n3: "node_ok (node_transmit now n2)" by (rule transmit_ok)
  let ?n4 = "(node_transmit now n2)\<lparr>prev_tx := tx_total (stats (nd_mesh (node_transmit now n2)))\<rparr>"
  have "node_ok ?n4" using n3 by (simp add: node_ok_def)
  then have "node_ok (node_backbone e (node_led now a (node_advert e now ?n4)))" for a
    by (intro backbone_ok) (simp add: advert_ok)
  then show ?thesis using assms(2) i by (auto simp: node_iter_def t r Let_def)
qed

lemma reach_ok: "node_reach e n0 n \<Longrightarrow> node_ok n0 \<Longrightarrow> node_ok n"
  by (induction rule: node_reach.induct) (auto intro: iter_ok)

lemma keep_policy_wf: "wf_mesh m \<Longrightarrow> wf_mesh (keep_policy f b m)"
  using set_policy_wf by (auto simp: keep_policy_def config_policy_load_def wf_mesh_def Let_def split: option.split)

lemma start_ok:
  assumes "wf_identity self" "wf_config c" "node_start e c self f up w lnet bnet = Some n"
  shows "node_ok n"
proof -
  let ?m = "(mesh_init self c w)\<lparr>has_aprs := aprs_enable (aprs c) \<and> up, mon := Some 0\<rparr>"
  let ?rx = "strcaseeq (link_mode (link c)) (lit ''rx'')"
  have m: "wf_mesh ?m" using mesh_init_wf [OF assms(1,2), of w] by (simp add: wf_mesh_def)
  obtain rc b m1 where b: "(if backbone_enable (backbone c) \<and> ?rx then (0, (zero_backbone False bnet)\<lparr>backoff_s := 0\<rparr>, ?m)
      else backbone_init True ?m bnet) = (rc, b, m1)" by (metis prod_cases3)
  have bm: "client_ok b \<and> wf_mesh m1"
  proof (cases "backbone_enable (backbone c) \<and> ?rx")
    case True
    with b m show ?thesis by (auto simp: client_ok_def zero_backbone_def)
  next
    case False
    then have "backbone_init True ?m bnet = (rc, b, m1)" using b by argo
    from init_ok [OF m this] show ?thesis by (simp add: client_ok_def)
  qed
  obtain rc' lk lnet' where l: "link_init c lnet = (rc', lk, lnet')" by (metis prod_cases3)
  let ?m2 = "keep_policy f b (m1\<lparr>has_bb := (bb_state b \<noteq> BB_OFF)\<rparr>)"
  let ?n = "\<lparr>nd_mesh = ?m2, nd_bb = b, nd_link = lk, nd_net = lnet', nd_rx = ?rx, prev_tx = 0, data_led = False, data_led_off = 0\<rparr>"
  have "wf_mesh (m1\<lparr>has_bb := x\<rparr>)" for x using bm by (simp add: wf_mesh_def)
  then have n: "node_ok ?n" using bm keep_policy_wf by (simp add: node_ok_def)
  then have "node_ok (in_mesh (snd (mesh_send_advert (e_sign e) ?m2)) ?n)"
    by (intro in_mesh_ok mesh.wf [OF mesh.send_advert]) (simp_all add: node_ok_def)
  then show ?thesis using assms(3) n unfolding node_start_def Let_def l b by (auto split: if_splits)
qed

section \<open>A receiving node\<close>

fun on_radio :: "effect \<Rightarrow> bool" where
  "on_radio (Transmit _ _) = True"
| "on_radio (SetTxPower _) = True"
| "on_radio RadioReinit = True"
| "on_radio _ = False"

definition rx_quiet :: "effect list \<Rightarrow> net \<Rightarrow> node \<Rightarrow> bool" where
  \<comment> \<open>a receiving node that has only reported events since its start\<close>
  "rx_quiet out bnet n \<longleftrightarrow> nd_rx n \<and> lk_mode (nd_link n) \<noteq> LINK_TX \<and> bb_state (nd_bb n) = BB_OFF \<and>
     bb_net (nd_bb n) = bnet \<and> (\<exists>es. w_out (wld (nd_mesh n)) = out @ es \<and> (\<forall>ef \<in> set es. local_event ef))"

lemma rx_error_out:
  "\<exists>es. w_out (wld (mesh_on_rx_error m crc rssi snr)) = w_out (wld m) @ es \<and> (\<forall>ef \<in> set es. local_event ef)"
  by (auto simp: mesh_on_rx_error_def mon_emit_def mesh_emit_def emit_def bump_def)

lemma quiet_error: "rx_quiet out bnet n \<Longrightarrow> rx_quiet out bnet (in_mesh (mesh_on_rx_error (nd_mesh n) crc rssi snr) n)"
  using rx_error_out [of "nd_mesh n" crc rssi snr] by (fastforce simp: rx_quiet_def in_mesh_def)

lemma relay_mode: "link_relay lk frame rssi snr w n = (lk', w', n') \<Longrightarrow> lk_mode lk' = lk_mode lk \<and> w_out w' = w_out w"
  by (auto simp: link_relay_def Let_def time_now_def split: if_splits prod.splits)

lemma quiet_receive: "rx_quiet out bnet n \<Longrightarrow> rx_quiet out bnet (fst (node_receive e r n))"
proof (cases r)
  case (RX_OK frame rssi snr)
  assume q: "rx_quiet out bnet n"
  obtain lk w net where l: "link_relay (nd_link n) frame rssi snr (wld (nd_mesh n)) (nd_net n) = (lk, w, net)" by (metis prod_cases3)
  from relay_mode [OF l] q RX_OK show ?thesis by (simp add: node_receive_def l rx_quiet_def)
qed (simp_all add: node_receive_def quiet_error)

lemma quiet_iter:
  assumes "rx_quiet out bnet n" "node_iter e r n = Some n'"
  shows "rx_quiet out bnet n'"
proof -
  obtain now m where t: "mesh_millis (nd_mesh n) = (now, m)" by fastforce
  have mw: "w_out (wld m) = w_out (wld (nd_mesh n))" using t by (auto simp: mesh_millis_def hal_millis_def)
  have "rx_quiet out bnet (n\<lparr>nd_mesh := m\<rparr>)" using assms(1) mw by (simp add: rx_quiet_def)
  moreover obtain n1 act where r: "node_receive e r (n\<lparr>nd_mesh := m\<rparr>) = (n1, act)" by fastforce
  ultimately have q: "rx_quiet out bnet n1" using quiet_receive [of out bnet "n\<lparr>nd_mesh := m\<rparr>" e r] by simp
  then have l: "lk_mode (nd_link n1) \<noteq> LINK_TX" and x: "nd_rx n1" and off: "bb_state (nd_bb n1) = BB_OFF"
    by (simp_all add: rx_quiet_def)
  let ?n4 = "n1\<lparr>prev_tx := tx_total (stats (nd_mesh n1))\<rparr>"
  let ?a = "act \<or> tx_total (stats (nd_mesh n1)) \<noteq> prev_tx n1"
  have n': "node_backbone e (node_led now ?a ?n4) = n'"
    using assms(2) l x by (simp add: node_iter_def t r Let_def node_transmit_def node_advert_def)
  have "rx_quiet out bnet (node_led now ?a ?n4)" using q by (simp add: node_led_def rx_quiet_def)
  then show ?thesis
    unfolding n' [symmetric] node_backbone_def mesh_millis_def hal_millis_def Let_def
    by (simp add: rx_quiet_def)
qed

lemma parse_rx: "strcaseeq s (lit ''rx'') \<Longrightarrow> parse_mode s = LINK_RX"
  by (simp add: parse_mode_def)

lemma link_init_mode: "link_init c n = (rc, lk, n') \<Longrightarrow> lk_mode lk = parse_mode (link_mode (link c)) \<or> lk_mode lk = LINK_OFF"
  by (auto simp: link_init_def link_fail_def zero_link_def Let_def split: if_splits option.splits prod.splits)

lemma start_quiet:
  assumes "strcaseeq (link_mode (link c)) (lit ''rx'')" "node_start e c self f up w lnet bnet = Some n"
  shows "rx_quiet (w_out w) bnet n"
proof -
  let ?m = "(mesh_init self c w)\<lparr>has_aprs := aprs_enable (aprs c) \<and> up, mon := Some 0\<rparr>"
  let ?rx = "strcaseeq (link_mode (link c)) (lit ''rx'')"
  obtain rc b m1 where b: "(if backbone_enable (backbone c) \<and> ?rx then (0, (zero_backbone False bnet)\<lparr>backoff_s := 0\<rparr>, ?m)
      else backbone_init True ?m bnet) = (rc, b, m1)" by (metis prod_cases3)
  have cm: "cfg ?m = c" by (simp add: mesh_init_def hal_millis_def)
  have bm: "bb_state b = BB_OFF \<and> bb_net b = bnet \<and> m1 = ?m"
  proof (cases "backbone_enable (backbone c)")
    case True
    with b assms(1) show ?thesis by (auto simp: zero_backbone_def)
  next
    case False
    then have "backbone_init True ?m bnet = (rc, b, m1)" using b by argo
    then show ?thesis using False by (simp add: backbone_init_def cm Let_def) (auto simp: zero_backbone_def)
  qed
  obtain rc' lk lnet' where l: "link_init c lnet = (rc', lk, lnet')" by (metis prod_cases3)
  have lk: "lk_mode lk \<noteq> LINK_TX" using link_init_mode [OF l] parse_rx [OF assms(1)] by auto
  let ?m2 = "keep_policy f b (m1\<lparr>has_bb := (bb_state b \<noteq> BB_OFF)\<rparr>)"
  let ?n = "\<lparr>nd_mesh = ?m2, nd_bb = b, nd_link = lk, nd_net = lnet', nd_rx = ?rx, prev_tx = 0, data_led = False, data_led_off = 0\<rparr>"
  have "n = ?n" using assms unfolding node_start_def Let_def l b by (auto split: if_splits)
  moreover have "w_out (wld ?m2) = w_out w" using bm by (simp add: keep_policy_def mesh_init_def hal_millis_def)
  ultimately show ?thesis using lk bm assms(1) by (simp add: rx_quiet_def)
qed

lemma quiet_reach: "node_reach e n0 n \<Longrightarrow> rx_quiet out bnet n0 \<Longrightarrow> rx_quiet out bnet n"
  by (induction rule: node_reach.induct) (auto intro: quiet_iter)

end
