(* ===== verification/Node_Props.thy ===== *)
theory Node_Props
  imports Node_Loop Bb_Props
begin

text \<open>
  The properties of the main loop: a receiving node never transmits, every reachable node is well
  formed, a turn of the loop returns when the relay socket runs dry, and a frame relayed by a receiving
  node is handled as if the transmitting node had heard it.
\<close>

section \<open>The relay socket\<close>

lemma link_recv_net:
  assumes "node_link_recv n = (got, n')"
  shows "n_recv (nd_net n') = n_recv (nd_net n)" "n_recv_i (nd_net n') \<le> n_recv_i (nd_net n) + 1"
    "got \<noteq> None \<Longrightarrow> n_recv_i (nd_net n') = n_recv_i (nd_net n) + 1 \<and> (\<forall>er. n_recv (nd_net n) (n_recv_i (nd_net n)) \<noteq> Inl er)"
  using assms
  by (auto simp: node_link_recv_def link_recv_def net_recv_def Let_def split: prod.splits if_splits sum.splits)

lemma inject_returns:
  "n_recv_i (nd_net n) \<le> k \<Longrightarrow> n_recv (nd_net n) k = Inl er \<Longrightarrow>
   \<exists>n' act'. inject e n act = Some (n', act') \<and> n_recv_i (nd_net n') \<le> k + 1"
proof (induction "k - n_recv_i (nd_net n)" arbitrary: n act rule: less_induct)
  case less
  obtain got n1 where g: "node_link_recv n = (got, n1)" by fastforce
  note f = link_recv_net [OF g]
  show ?case
  proof (cases got)
    case None
    then have "inject e n act = Some (n1, act)" by (simp add: inject.simps [of e n] g)
    then show ?thesis using f(2) less.prems(1) by auto
  next
    case (Some x)
    obtain frame rssi snr where x: "x = (frame, rssi, snr)" by (metis prod_cases3)
    let ?h = "hear e frame rssi snr n1"
    have i: "n_recv_i (nd_net n1) = n_recv_i (nd_net n) + 1" "n_recv_i (nd_net n) \<noteq> k"
      using f(3) Some less.prems(2) by auto
    then have "k - n_recv_i (nd_net ?h) < k - n_recv_i (nd_net n)" "n_recv_i (nd_net ?h) \<le> k"
      using less.prems(1) by simp_all
    moreover have "n_recv (nd_net ?h) k = Inl er" using f(1) less.prems(2) by simp
    ultimately obtain n' act' where "inject e ?h True = Some (n', act')" "n_recv_i (nd_net n') \<le> k + 1"
      using less.hyps [of ?h True] by blast
    moreover have "inject e n act = inject e ?h True" by (simp add: inject.simps [of e n] g Some x)
    ultimately show ?thesis by simp
  qed
qed

lemma relay_recv: "link_relay lk frame rssi snr w n = (lk', w', n') \<Longrightarrow> n_recv n' = n_recv n \<and> n_recv_i n' = n_recv_i n"
  by (auto simp: link_relay_def Let_def net_send_def net_do_def split: if_splits prod.splits)

lemma receive_recv:
  "n_recv (nd_net (fst (node_receive e r n))) = n_recv (nd_net n) \<and>
   n_recv_i (nd_net (fst (node_receive e r n))) = n_recv_i (nd_net n)"
proof (cases r)
  case (RX_OK frame rssi snr)
  obtain lk w net where l: "link_relay (nd_link n) frame rssi snr (wld (nd_mesh n)) (nd_net n) = (lk, w, net)" by (metis prod_cases3)
  from relay_recv [OF l] RX_OK show ?thesis by (simp add: node_receive_def l)
qed (simp_all add: node_receive_def)

lemma later_net [simp]:
  "nd_net (node_transmit now n) = nd_net n" "nd_net (node_advert e now n) = nd_net n"
  "nd_net (node_led now act n) = nd_net n" "nd_net (node_backbone e n) = nd_net n"
  by (simp_all add: node_transmit_def node_advert_def node_led_def node_backbone_def Let_def split: prod.split)

text \<open>C8: A turn of the main loop returns as soon as the relay socket has no more datagrams: if the socket
  fails or would block at its \<open>k\<close>-th read, the turn ends, and has read at most up to there, whatever
  datagrams come before.\<close>

theorem turn_returns:
  assumes "n_recv_i (nd_net n) \<le> k" "n_recv (nd_net n) k = Inl er"
  shows "\<exists>n'. node_iter e r n = Some n' \<and> n_recv_i (nd_net n') \<le> k + 1"
proof -
  obtain now m where t: "mesh_millis (nd_mesh n) = (now, m)" by fastforce
  obtain n1 act where r: "node_receive e r (n\<lparr>nd_mesh := m\<rparr>) = (n1, act)" by fastforce
  have n1: "n_recv (nd_net n1) = n_recv (nd_net n)" "n_recv_i (nd_net n1) = n_recv_i (nd_net n)"
    using receive_recv [of e r "n\<lparr>nd_mesh := m\<rparr>"] r by simp_all
  obtain n2 act2 where i: "(if lk_mode (nd_link n1) = LINK_TX then inject e n1 act else Some (n1, act)) = Some (n2, act2)"
      "n_recv_i (nd_net n2) \<le> k + 1"
  proof (cases "lk_mode (nd_link n1) = LINK_TX")
    case True
    with inject_returns [of n1 k er e act] n1 assms that show thesis by auto
  next
    case False
    with that [of n1 act] n1 assms show thesis by simp
  qed
  then show ?thesis by (simp add: node_iter_def t r Let_def)
qed

theorem turn_returns_witness:
  "\<exists>n'. node_iter demo_env (RX_CRC_ERR (- 90) 3)
     \<lparr>nd_mesh = demo_mesh, nd_bb = zero_backbone False demo_net, nd_link = zero_link\<lparr>lk_mode := LINK_TX, lk_fd := 4\<rparr>,
      nd_net = demo_net, nd_rx = False, prev_tx = 0, data_led = False, data_led_off = 0\<rparr> = Some n' \<and> n_recv_i (nd_net n') \<le> 4"
  using turn_returns [of "\<lparr>nd_mesh = demo_mesh, nd_bb = zero_backbone False demo_net,
      nd_link = zero_link\<lparr>lk_mode := LINK_TX, lk_fd := 4\<rparr>, nd_net = demo_net, nd_rx = False, prev_tx = 0,
      data_led = False, data_led_off = 0\<rparr>" 3 11 demo_env "RX_CRC_ERR (- 90) 3"]
  by (simp add: demo_net_def)

section \<open>Receiving nodes\<close>

text \<open>C5: A node configured to receive never transmits: from its start on, whatever it hears, nothing goes to its
  radio (no frame, no power setting, no reset), its backbone stays off and sends nothing, and all it
  does besides relaying is to report events.\<close>

theorem rx_node_mute:
  assumes "strcaseeq (link_mode (link c)) (lit ''rx'')" "node_start e c self f up w lnet bnet = Some n0" "node_reach e n0 n"
  shows "(\<exists>es. w_out (wld (nd_mesh n)) = w_out w @ es \<and> (\<forall>ef \<in> set es. \<not> on_radio ef)) \<and>
    bb_state (nd_bb n) = BB_OFF \<and> n_out (bb_net (nd_bb n)) = n_out bnet"
proof -
  have "rx_quiet (w_out w) bnet n" by (rule quiet_reach [OF assms(3) start_quiet [OF assms(1,2)]])
  moreover have "\<not> on_radio ef" if "local_event ef" for ef using that by (cases ef) simp_all
  ultimately show ?thesis unfolding rx_quiet_def by blast
qed

definition demo_rx :: mc_config where
  "demo_rx = config_defaults\<lparr>link := \<lparr>link_mode = lit ''RX'', link_key = lit ''k'', link_peer = lit ''tx.local'', link_port = 4404\<rparr>\<rparr>"

definition demo_lnet :: net where
  "demo_lnet = demo_net\<lparr>n_ret := \<lambda>i. if i = 0 then 7 else 0, n_addr := \<lambda>_. Some (replicate 16 1)\<rparr>"

lemma start_some: "link_init c lnet = (0, lk, lnet') \<Longrightarrow> \<exists>n. node_start e c self f up w lnet bnet = Some n"
  by (simp add: node_start_def Let_def split_beta)

lemma demo_rx_starts: "\<exists>n. node_start demo_env demo_rx demo_self None False demo_world demo_lnet demo_net = Some n"
proof -
  have "\<exists>lk n. link_init demo_rx demo_lnet = (0, lk, n)"
    by (simp add: link_init_def demo_rx_def demo_lnet_def demo_net_def config_defaults_def Let_def
      parse_mode_def strcaseeq_def tolower_def net_ret_def net_addr_def zero_link_def)
  then show ?thesis using start_some by blast
qed

lemma unlinked_turn: "lk_mode (nd_link n) \<noteq> LINK_TX \<Longrightarrow> \<exists>n'. node_iter e r n = Some n'"
proof -
  assume l: "lk_mode (nd_link n) \<noteq> LINK_TX"
  obtain now m where t: "mesh_millis (nd_mesh n) = (now, m)" by fastforce
  obtain n1 act where r: "node_receive e r (n\<lparr>nd_mesh := m\<rparr>) = (n1, act)" by fastforce
  have "lk_mode (nd_link n1) = lk_mode (nd_link n)"
  proof (cases r)
    case (RX_OK frame rssi snr)
    obtain lk w net where x: "link_relay (nd_link n) frame rssi snr (wld m) (nd_net n) = (lk, w, net)" by (metis prod_cases3)
    from relay_mode [OF x] r RX_OK x show ?thesis by (auto simp: node_receive_def)
  qed (use r in \<open>auto simp: node_receive_def\<close>)
  then show ?thesis using l by (simp add: node_iter_def t r Let_def)
qed

theorem rx_node_mute_witness:
  "\<exists>n0 n. node_start demo_env demo_rx demo_self None False demo_world demo_lnet demo_net = Some n0 \<and>
     node_iter demo_env (RX_OK [0x11, 0, 7] (- 80) 5) n0 = Some n \<and> bb_state (nd_bb n) = BB_OFF"
proof -
  have rx: "strcaseeq (link_mode (link demo_rx)) (lit ''rx'')" by (simp add: demo_rx_def strcaseeq_def tolower_def)
  obtain n0 where n0: "node_start demo_env demo_rx demo_self None False demo_world demo_lnet demo_net = Some n0"
    using demo_rx_starts by blast
  have q: "nd_rx n0" "lk_mode (nd_link n0) \<noteq> LINK_TX" using start_quiet [OF rx n0] by (simp_all add: rx_quiet_def)
  obtain n where n: "node_iter demo_env (RX_OK [0x11, 0, 7] (- 80) 5) n0 = Some n"
    using unlinked_turn [OF q(2)] by blast
  then have "node_reach demo_env n0 n" by (rule node_turn [OF node_here])
  from rx_node_mute [OF rx n0 this] n0 n show ?thesis by blast
qed

text \<open>C7: Every state the main loop reaches is well formed: the mesh's tables, queue, mailbox and configuration,
  and the phase, session, replay window and policy of the backbone client, for every sequence of
  frames from the radio, the relay socket and the hub.\<close>

theorem node_well_formed:
  assumes "wf_identity self" "wf_config c" "node_start e c self f up w lnet bnet = Some n0" "node_reach e n0 n"
  shows "wf_mesh (nd_mesh n) \<and> client_ok (nd_bb n)"
  using reach_ok [OF assms(4) start_ok [OF assms(1-3)]] by (simp add: node_ok_def)

theorem node_well_formed_witness:
  "\<exists>n0. node_start demo_env config_defaults demo_self None False demo_world demo_net demo_net = Some n0 \<and> wf_mesh (nd_mesh n0)"
proof -
  obtain n0 where n0: "node_start demo_env config_defaults demo_self None False demo_world demo_net demo_net = Some n0"
  proof -
    have "link_init config_defaults demo_net = (0, zero_link, demo_net)"
      by (simp add: link_init_def config_defaults_def Let_def parse_mode_def strcaseeq_def tolower_def zero_link_def)
    from start_some [OF this] that show thesis by blast
  qed
  from node_well_formed [OF _ wf_defaults n0 node_here] n0 show ?thesis by (simp add: demo_self_def wf_identity_def)
qed

section \<open>A frame that was relayed\<close>

lemma fresh_link_recv:
  assumes "lk_mode lk = LINK_TX" "0 \<le> lk_fd lk" "n_recv net (n_recv_i net) = Inr (link_datagram (lk_key lk) ts rssi snr frame)"
    and "time_now w = (t, w')" "ts_fresh (of_nat t) ts" "length frame \<le> 255" "rssi \<in> {-32768 ..< 32768}" "snr \<in> {-128 ..< 128}"
  shows "link_recv lk 255 w net = (1, Some (frame, rssi, snr), lk\<lparr>frames_in := frames_in lk + 1\<rparr>, w', net\<lparr>n_recv_i := n_recv_i net + 1\<rparr>)"
proof -
  let ?d = "link_datagram (lk_key lk) ts rssi snr frame"
  have s: "sint (word_of_int rssi :: u16) = rssi" "sint (word_of_int snr :: byte) = snr"
    using assms(7,8) by (simp_all add: sint_sbintrunc' signed_take_bit_int_eq_self)
  have f: "unat (of_nat (length frame) :: u16) = length frame" using assms(6) by (simp add: unat_of_nat)
  have d: "bslice 10 (length frame) ?d = frame" using link_fields(6) [of "lk_key lk" ts rssi snr frame] by (simp add: bslice_def)
  have r: "net_recv 530 net = (Inr ?d, net\<lparr>n_recv_i := n_recv_i net + 1\<rparr>)"
    using assms(3,6) by (simp add: net_recv_def)
  have c: "link_check (lk_key lk) 255 ?d" using assms(6) by (intro link_check_datagram) simp_all
  have "\<not> (lk_mode lk \<noteq> LINK_TX \<or> lk_fd lk < 0)" using assms(1,2) by simp
  then show ?thesis
    unfolding link_recv_def using assms(5) by (simp add: r c assms(4) link_fields(2) [simplified] link_fields(3-5) s f d)
qed

text \<open>C6: A frame relayed by a receiving node is handled as if the transmitting node had heard it itself: when
  the datagram the one sends for a frame reaches the other, under the same key and within a minute
  of its clock, the other's mesh gets the same bytes with the same signal values, reports them to the hub and
  goes on with the next datagram.\<close>

theorem relayed_as_heard:
  assumes "nd_rx a" "lk_mode (nd_link a) = LINK_RX" "0 \<le> lk_fd (nd_link a)" "frame \<noteq> []" "length frame \<le> 255"
    and "rssi \<in> {-32768 ..< 32768}" "snr \<in> {-128 ..< 128}" "node_receive ea (RX_OK frame rssi snr) a = (a', act')"
    and "lk_mode (nd_link b) = LINK_TX" "0 \<le> lk_fd (nd_link b)" "lk_key (nd_link b) = lk_key (nd_link a)"
    and "n_out (nd_net a') = n_out (nd_net a) @ [Sent fd d]" "n_recv (nd_net b) (n_recv_i (nd_net b)) = Inr d"
    and "ts_fresh (of_nat (fst (time_now (wld (nd_mesh b))))) (of_nat (fst (time_now (wld (nd_mesh a)))))"
  shows "\<exists>n. inject e b act = inject e (hear e frame rssi snr n) True \<and> nd_mesh n = snd (mesh_time (nd_mesh b)) \<and>
    nd_bb n = nd_bb b \<and> n_recv_i (nd_net n) = n_recv_i (nd_net b) + 1"
proof -
  obtain ta wa where ta: "time_now (wld (nd_mesh a)) = (ta, wa)" by fastforce
  obtain tb wb where tb: "time_now (wld (nd_mesh b)) = (tb, wb)" by fastforce
  have d: "d = link_datagram (lk_key (nd_link b)) (of_nat ta) rssi snr frame"
    using assms(1-5,8,11,12)
    by (auto simp: node_receive_def link_relay_def ta Let_def net_send_def net_do_def split: if_splits prod.splits)
  have "ts_fresh (of_nat tb) (of_nat ta)" using assms(14) ta tb by simp
  then have r: "link_recv (nd_link b) 255 (wld (nd_mesh b)) (nd_net b) = (1, Some (frame, rssi, snr),
      (nd_link b)\<lparr>frames_in := frames_in (nd_link b) + 1\<rparr>, wb, (nd_net b)\<lparr>n_recv_i := n_recv_i (nd_net b) + 1\<rparr>)"
    using assms(5-7,9,10,13) tb unfolding d by (intro fresh_link_recv) simp_all
  let ?n = "b\<lparr>nd_link := (nd_link b)\<lparr>frames_in := frames_in (nd_link b) + 1\<rparr>, nd_mesh := (nd_mesh b)\<lparr>wld := wb\<rparr>,
      nd_net := (nd_net b)\<lparr>n_recv_i := n_recv_i (nd_net b) + 1\<rparr>\<rparr>"
  have "node_link_recv b = (Some (frame, rssi, snr), ?n)" by (simp add: node_link_recv_def r)
  then have "inject e b act = inject e (hear e frame rssi snr ?n) True" by (simp add: inject.simps [of e b])
  moreover have "nd_mesh ?n = snd (mesh_time (nd_mesh b))" by (simp add: mesh_time_def tb)
  ultimately show ?thesis by (intro exI [of _ ?n]) simp
qed

definition demo_ear :: node where
  "demo_ear = \<lparr>nd_mesh = demo_mesh, nd_bb = zero_backbone False demo_net, nd_link = zero_link\<lparr>lk_mode := LINK_RX, lk_fd := 3\<rparr>,
      nd_net = demo_net, nd_rx = True, prev_tx = 0, data_led = False, data_led_off = 0\<rparr>"

definition demo_mast :: node where
  "demo_mast = demo_ear\<lparr>nd_link := zero_link\<lparr>lk_mode := LINK_TX, lk_fd := 4\<rparr>, nd_rx := False,
      nd_net := demo_net\<lparr>n_recv := \<lambda>_. Inr (link_datagram (replicate 32 0) 0 (- 80) 5 [0x11, 0, 7])\<rparr>\<rparr>"

theorem relayed_as_heard_witness:
  "\<exists>n. inject demo_env demo_mast False = inject demo_env (hear demo_env [0x11, 0, 7] (- 80) 5 n) True \<and>
     nd_mesh n = snd (mesh_time (nd_mesh demo_mast)) \<and> nd_bb n = nd_bb demo_mast \<and>
     n_recv_i (nd_net n) = n_recv_i (nd_net demo_mast) + 1"
proof -
  let ?d = "link_datagram (replicate 32 0) 0 (- 80) 5 [0x11, 0, 7]"
  obtain a' act' where r: "node_receive demo_env (RX_OK [0x11, 0, 7] (- 80) 5) demo_ear = (a', act')" by fastforce
  have w: "time_now (wld demo_mesh) = (0, (wld demo_mesh)\<lparr>w_time_i := w_time_i (wld demo_mesh) + 1\<rparr>)"
    by (simp add: demo_mesh_def mesh_init_def hal_millis_def demo_world_def time_now_def)
  have "n_out (nd_net a') = n_out (nd_net demo_ear) @ [Sent 3 ?d]"
    using r by (auto simp: node_receive_def link_relay_def demo_ear_def zero_link_def w Let_def net_send_def net_do_def demo_net_def)
  then show ?thesis
    by (intro relayed_as_heard [OF _ _ _ _ _ _ _ r, where fd = 3 and d = ?d])
      (simp_all add: demo_mast_def demo_ear_def zero_link_def ts_fresh_def w demo_net_def)
qed

end
