(* ===== verification/Aprs.thy ===== *)
theory Aprs
  imports Double
begin

text \<open>
  Positions in the format of APRS (\<^verbatim>\<open>aprs.c\<close>): the time stamp, the check of the symbol and the
  base-91 compressed position, whose every operation on a \<^verbatim>\<open>double\<close> is rounded (\<open>dbl\<close>). Only the
  logarithm of the speed is that of the reals; the gateway itself sends positions without a speed.
  The lemmas of the second half read a position back, with the error of the roundings
  (\<open>position_precise\<close>).
\<close>

section \<open>Formatting\<close>

definition dec_pad_int :: "nat \<Rightarrow> int \<Rightarrow> bytes" where
  \<comment> \<open>\<open>%0wd\<close>: the sign counts towards the width\<close>
  "dec_pad_int w i = (if i < 0 then 45 # dec_pad (w - 1) (nat (- i)) else dec_pad w (nat i))"

definition aprs_make_timestamp_z :: "nat \<Rightarrow> int \<Rightarrow> int \<Rightarrow> int \<Rightarrow> bytes" where
  "aprs_make_timestamp_z outsize day hour minute =
     snprintf_s outsize (dec_pad_int 2 day @ dec_pad_int 2 hour @ dec_pad_int 2 minute @ lit ''z'')"

definition symbol_valid :: "bytes \<Rightarrow> bool" where
  "symbol_valid s =
     (length s = 2 \<and>
      (let t = s ! 0; c = s ! 1 in
       (t = 47 \<or> t = 92 \<or> (65 \<le> t \<and> t \<le> 90) \<or> (48 \<le> t \<and> t \<le> 57)) \<and>
       ((0x21 \<le> c \<and> c \<le> 0x7b) \<or> c = 0x7d)))"

definition int_of_double :: "rat \<Rightarrow> int" where
  \<comment> \<open>the cast of C, towards zero\<close>
  "int_of_double x = (if x < 0 then \<lceil>x\<rceil> else \<lfloor>x\<rfloor>)"

fun base91 :: "nat \<Rightarrow> rat \<Rightarrow> bytes" where
  \<comment> \<open>the digits from \<open>91 ^ (k - 1)\<close> down\<close>
  "base91 0 x = []"
| "base91 (Suc k) x =
     (let v = int_of_double (dbl (x / 91 ^ k))
      in word_of_int (v + 33) # base91 k (dbl (x - dbl (of_int v * 91 ^ k))))"

definition speed_code :: "int \<Rightarrow> nat" where
  \<comment> \<open>\<open>(int) (log (speed / 1.852 + 1) / log (1.08) + 0.5)\<close> with 89 as its limit, by counting the
      speeds at which the rounded logarithm grows (\<open>speed_code_log\<close>)\<close>
  "speed_code speed =
     (let q = of_int speed / (1852 / 1000) + 1 :: rat
      in length (filter (\<lambda>n. (27 / 25) ^ (2 * n - 1) \<le> q * q) [1..<90]))"

definition course_speed :: "int \<Rightarrow> int \<Rightarrow> bytes" where
  "course_speed speed course =
     (if 0 \<le> speed \<and> 0 < course \<and> course \<le> 360 then
        let cval = (course + 2) div 4;
            cval = (if 89 < cval then 0 else cval)
        in [word_of_int (cval + 33), of_nat (speed_code speed + 33), 65]
      else lit ''  A'')"

definition aprs_make_position :: "nat \<Rightarrow> rat \<Rightarrow> rat \<Rightarrow> int \<Rightarrow> int \<Rightarrow> bytes \<Rightarrow> bytes option" where
  "aprs_make_position outsize lat lon speed course symbol =
     (if lat < dbl (-8999999 / 100000) \<or> dbl (8999999 / 100000) < lat \<or>
         lon < dbl (-17999999 / 100000) \<or> dbl (17999999 / 100000) < lon then None
      else if symbol \<noteq> [] \<and> \<not> symbol_valid symbol then None
      else
        let (table, code) = (if symbol = [] then (47, 47) else (symbol ! 0, symbol ! 1));
            latstring = base91 4 (dbl (380926 * dbl (90 - lat)));
            lonstring = base91 4 (dbl (190463 * dbl (180 + lon)));
            table = (if 48 \<le> table \<and> table \<le> 57 then table - 48 + 97 else table)
        in Some (snprintf_s outsize ([table] @ latstring @ lonstring @ [code] @ course_speed speed course)))"

lemma count_up_to: "length (filter (\<lambda>n. int n \<le> F) [1..<Suc k]) = nat (min (int k) F)" if "0 \<le> F"
  using that by (induction k) auto

lemma speed_code_log:
  assumes "0 \<le> speed"
  shows "int (speed_code speed) = min 89 \<lfloor>ln (of_int speed / (1852 / 1000) + 1) / ln (108 / 100) + 1 / 2 :: real\<rfloor>"
proof -
  define q where "q = of_int speed / (1852 / 1000) + (1 :: rat)"
  define r where "r = of_int speed / (1852 / 1000) + (1 :: real)"
  have qr: "of_rat q = r" by (simp add: q_def r_def of_rat_add of_rat_divide of_rat_mult)
  have r: "1 \<le> r" using assms by (simp add: r_def)
  let ?F = "\<lfloor>ln r / ln (108 / 100) + 1 / 2\<rfloor>"
  have F: "0 \<le> ?F" using r by simp
  have step: "((27 / 25) ^ (2 * n - 1) \<le> q * q) = (int n \<le> ?F)" if "n \<in> set [1..<90]" for n
  proof -
    have n: "real (2 * n - 1) = 2 * real n - 1" using that by (simp add: of_nat_diff)
    have "((27 / 25) ^ (2 * n - 1) \<le> q * q) = (of_rat ((27 / 25) ^ (2 * n - 1)) \<le> (of_rat (q * q) :: real))"
      by (simp add: of_rat_less_eq)
    also have "\<dots> = ((108 / 100) ^ (2 * n - 1) \<le> r * r)"
      by (simp add: of_rat_power of_rat_mult of_rat_divide qr)
    also have "\<dots> = (ln ((108 / 100) ^ (2 * n - 1)) \<le> ln (r * r))" using r by (subst ln_le_cancel_iff) auto
    also have "\<dots> = ((2 * real n - 1) * ln (108 / 100) \<le> 2 * ln r)"
      using r n by (simp add: ln_realpow ln_mult)
    also have "\<dots> = (real n \<le> ln r / ln (108 / 100) + 1 / 2)" by (simp add: field_simps)
    also have "\<dots> = (int n \<le> ?F)" by (simp add: le_floor_iff)
    finally show ?thesis .
  qed
  have "speed_code speed = length (filter (\<lambda>n. int n \<le> ?F) [1..<Suc 89])"
    unfolding speed_code_def Let_def q_def [symmetric]
    by (rule arg_cong [where f = length], rule filter_cong) (use step in simp_all)
  then show ?thesis using count_up_to [OF F, of 89] F by (simp add: r_def)
qed

section \<open>Reading a position back\<close>

definition unbase91 :: "bytes \<Rightarrow> int" where
  "unbase91 ds = foldl (\<lambda>a d. a * 91 + (int (unat d) - 33)) 0 ds"

lemma length_base91 [simp]: "length (base91 k x) = k"
  by (induction k arbitrary: x) (simp_all add: Let_def)

lemma length_course_speed [simp]: "length (course_speed s c) = 3"
  by (simp add: course_speed_def Let_def)

lemma unbase91_foldl: "foldl (\<lambda>a d. a * 91 + (int (unat d) - 33)) a ds = a * 91 ^ length ds + unbase91 ds"
proof (induction ds arbitrary: a)
  case (Cons d ds)
  have "foldl (\<lambda>a d. a * 91 + (int (unat d) - 33)) a (d # ds) = (a * 91 + (int (unat d) - 33)) * 91 ^ length ds + unbase91 ds"
    by (simp only: foldl.simps Cons.IH)
  moreover have "unbase91 (d # ds) = (int (unat d) - 33) * 91 ^ length ds + unbase91 ds"
    unfolding unbase91_def [of "d # ds"] by (simp only: foldl.simps Cons.IH) simp
  ultimately show ?case by (simp add: algebra_simps)
qed (simp add: unbase91_def)

lemma unbase91_Cons: "unbase91 (d # ds) = (int (unat d) - 33) * 91 ^ length ds + unbase91 ds"
  using unbase91_foldl [of "int (unat d) - 33" ds] by (simp add: unbase91_def)

lemma base91_digit:
  assumes "0 \<le> v" "v \<le> 91"
  shows "int (unat (word_of_int (v + 33) :: byte)) = v + 33"
    "33 \<le> (word_of_int (v + 33) :: byte)" "(word_of_int (v + 33) :: byte) \<le> 124"
proof -
  have "uint (word_of_int (v + 33) :: byte) = take_bit 8 (v + 33)" by (simp only: uint_word_of_int_eq) simp
  also have "\<dots> = v + 33" using assms by (intro take_bit_int_eq_self) simp_all
  finally have u: "uint (word_of_int (v + 33) :: byte) = v + 33" .
  then show "int (unat (word_of_int (v + 33) :: byte)) = v + 33" by (simp only: uint_nat)
  show "33 \<le> (word_of_int (v + 33) :: byte)" "(word_of_int (v + 33) :: byte) \<le> 124"
    unfolding word_le_def u using assms by simp_all
qed

text \<open>The rounding error of a number below \<open>2 ^ 28\<close> is at most \<open>2 ^ - 25\<close>, the slack of every step.\<close>

abbreviation slack :: rat where
  "slack \<equiv> 1 / 33554432"

lemma dbl_near: "\<bar>x\<bar> \<le> 2 ^ 28 \<Longrightarrow> \<bar>dbl x - x\<bar> \<le> slack"
  using dbl_err [of x] by simp

text \<open>One digit: it is at most one off the range, and what remains is as far out of the range of the
  next digits as the roundings put it.\<close>

lemma base91_step:
  fixes x p d :: rat
  assumes "- d \<le> x" "x < 91 * p + d" "0 \<le> d" "d \<le> 1 / 4" "1 \<le> p" "p \<le> 91 ^ 3"
    "v = int_of_double (dbl (x / p))"
  shows "0 \<le> v \<and> v \<le> 91 \<and> - (d + slack) \<le> x - of_int v * p \<and> x - of_int v * p < p + d + slack"
proof -
  let ?q = "dbl (x / p)"
  have x28: "\<bar>x\<bar> \<le> 2 ^ 27" using assms(1-6) by simp
  have p: "0 < p" using assms(5) by simp
  have sl: "slack \<le> 1 / 4" by simp
  have "\<bar>?q - x / p\<bar> \<le> \<bar>x / p\<bar> / 2 ^ 53" by (rule dbl_err)
  then have "\<bar>?q - x / p\<bar> * p \<le> \<bar>x / p\<bar> / 2 ^ 53 * p" using p by (intro mult_right_mono) simp_all
  moreover have "\<bar>?q - x / p\<bar> * p = \<bar>?q * p - x\<bar>"
    using abs_mult_pos [of p "?q - x / p"] p by (simp add: left_diff_distrib)
  moreover have "\<bar>x / p\<bar> / 2 ^ 53 * p = \<bar>x\<bar> / 2 ^ 53" using p by (simp add: abs_divide)
  ultimately have q: "\<bar>?q * p - x\<bar> \<le> slack" using x28 by simp
  show ?thesis
  proof (cases "?q < 0")
    case True
    have "- p < - (d + slack)" using assms(4,5) by simp
    also have "\<dots> \<le> ?q * p" using q assms(1) by linarith
    finally have "- 1 * p < ?q * p" by simp
    then have "- 1 < ?q" using p by (simp only: mult_less_cancel_right_pos)
    with True have "v = 0" unfolding assms(7) int_of_double_def by (simp add: ceiling_eq_iff)
    moreover have "?q * p < 0" using True p by (simp add: mult_neg_pos)
    ultimately have "x < p + d + slack" using q assms(3,5) by linarith
    then show ?thesis using \<open>v = 0\<close> assms(1) by simp
  next
    case False
    then have v: "v = \<lfloor>?q\<rfloor>" by (simp add: assms(7) int_of_double_def)
    then have lo: "of_int v \<le> ?q" and hi: "?q < of_int v + 1" by linarith+
    have a: "of_int v * p \<le> ?q * p" "?q * p < (of_int v + 1) * p" using lo hi p by simp_all
    then have "of_int v * p < (92 :: rat) * p" using q sl assms(2,4,5) by linarith
    then have "of_int v < (of_int 92 :: rat)" using p by simp
    then have "v < 92" by (simp only: of_int_less_iff)
    moreover have "0 \<le> v" using False v by simp
    moreover have "- (d + slack) \<le> x - of_int v * p" using a q assms(3) by linarith
    moreover have "x - of_int v * p < p + d + slack" using a q assms(3) unfolding distrib_right by linarith
    ultimately show ?thesis by simp
  qed
qed

lemma base91_digits:
  assumes "k \<le> 4" "- d \<le> x" "x < 91 ^ k + d" "0 \<le> d" "d + 2 * of_nat k * slack \<le> 1 / 4"
  shows "of_int (unbase91 (base91 k x)) - (d + 3 * of_nat k * slack) \<le> x \<and>
         x < of_int (unbase91 (base91 k x)) + 1 + (d + 3 * of_nat k * slack) \<and>
         (\<forall>c \<in> set (base91 k x). 33 \<le> c \<and> c \<le> 124)"
  using assms
proof (induction k arbitrary: x d)
  case 0
  then show ?case by (simp add: unbase91_def)
next
  case (Suc k)
  let ?p = "91 ^ k :: rat"
  define v where "v = int_of_double (dbl (x / ?p))"
  have "?p \<le> 91 ^ 3" using Suc.prems(1) by (intro power_increasing) simp_all
  moreover have "1 \<le> ?p" by simp
  moreover have "0 \<le> 2 * of_nat (Suc k) * slack" by simp
  then have d: "d \<le> 1 / 4" using Suc.prems(5) by linarith
  from calculation d have s: "0 \<le> v \<and> v \<le> 91 \<and> - (d + slack) \<le> x - of_int v * ?p \<and> x - of_int v * ?p < ?p + d + slack"
    using Suc.prems(2,3,4) by (intro base91_step) (simp_all add: v_def)
  have "\<bar>v * 91 ^ k\<bar> < 2 ^ 53"
  proof -
    have "v * 91 ^ k \<le> 91 * 91 ^ 3" using s Suc.prems(1) by (intro mult_mono power_increasing) simp_all
    then show ?thesis using s by simp
  qed
  then have e: "dbl (of_int v * ?p) = of_int v * ?p" using dbl_int [of "v * 91 ^ k"] by simp
  let ?y = "dbl (x - of_int v * ?p)"
  have "\<bar>x - of_int v * ?p\<bar> \<le> 2 ^ 28" using s d \<open>?p \<le> 91 ^ 3\<close> by simp linarith
  then have y: "\<bar>?y - (x - of_int v * ?p)\<bar> \<le> slack" by (rule dbl_near)
  have "of_int (unbase91 (base91 k ?y)) - ((d + 2 * slack) + 3 * of_nat k * slack) \<le> ?y \<and>
         ?y < of_int (unbase91 (base91 k ?y)) + 1 + ((d + 2 * slack) + 3 * of_nat k * slack) \<and>
         (\<forall>c \<in> set (base91 k ?y). 33 \<le> c \<and> c \<le> 124)"
  proof (rule Suc.IH)
    show "- (d + 2 * slack) \<le> ?y" "?y < ?p + (d + 2 * slack)" using s y by linarith+
    show "(d + 2 * slack) + 2 * of_nat k * slack \<le> 1 / 4" using Suc.prems(5) by (simp add: add_divide_distrib)
  qed (use Suc.prems in simp_all)
  then have r: "of_int (unbase91 (base91 k ?y)) - (d + 2 * slack + 3 * of_nat k * slack) \<le> ?y"
    "?y < of_int (unbase91 (base91 k ?y)) + 1 + (d + 2 * slack + 3 * of_nat k * slack)"
    "\<forall>c \<in> set (base91 k ?y). 33 \<le> c \<and> c \<le> 124" by blast+
  have b: "base91 (Suc k) x = word_of_int (v + 33) # base91 k ?y" by (simp add: Let_def e flip: v_def)
  have n: "of_int (unbase91 (base91 (Suc k) x)) = of_int v * ?p + (of_int (unbase91 (base91 k ?y)) :: rat)"
    using base91_digit(1) [of v] s by (simp add: b unbase91_Cons del: base91.simps)
  have g: "3 * of_nat (Suc k) * slack = 3 * of_nat k * slack + 3 * slack" by (simp add: add_divide_distrib)
  have "\<forall>c \<in> set (base91 (Suc k) x). 33 \<le> c \<and> c \<le> 124"
    using base91_digit(2,3) [of v] s r(3) unfolding b by simp
  then show ?case using r(1,2) y unfolding n g by linarith
qed

text \<open>The number of units a coordinate is away from the edge, as the code computes it.\<close>

lemma units_near:
  fixes a z :: rat
  assumes "0 \<le> z" "z \<le> 360" "0 \<le> a" "a * z \<le> 91 ^ 4 - 1" "a \<le> 2 ^ 19"
  shows "0 \<le> dbl (a * dbl z) \<and> dbl (a * dbl z) < 91 ^ 4 \<and> \<bar>dbl (a * dbl z) - a * z\<bar> \<le> 2 * slack"
proof -
  have "\<bar>dbl z - z\<bar> \<le> z / 2 ^ 53" using dbl_err [of z] assms(1) by simp
  then have "\<bar>dbl z - z\<bar> * a \<le> z / 2 ^ 53 * a" using assms(3) by (rule mult_right_mono)
  moreover have "\<bar>dbl z - z\<bar> * a = \<bar>a * dbl z - a * z\<bar>"
    using abs_mult_pos [OF assms(3), of "dbl z - z"] by (simp add: right_diff_distrib mult.commute)
  moreover have "z / 2 ^ 53 * a = a * z / 2 ^ 53" by simp
  moreover have "a * z / 2 ^ 53 \<le> (91 ^ 4 - 1) / 2 ^ 53" by (rule divide_right_mono [OF assms(4)]) simp
  moreover have "(91 ^ 4 - 1) / 2 ^ 53 \<le> slack / 2" by simp
  ultimately have n: "\<bar>a * dbl z - a * z\<bar> \<le> slack / 2" by linarith
  have m: "0 \<le> a * z" using assms(1,3) by simp
  have "\<bar>a * dbl z\<bar> \<le> 2 ^ 28"
  proof -
    have "slack / 2 \<le> 1" "91 ^ 4 \<le> (2 ^ 28 :: rat)" by simp_all
    then show ?thesis using n m assms(4) by linarith
  qed
  then have d: "\<bar>dbl (a * dbl z) - a * dbl z\<bar> \<le> slack" by (rule dbl_near)
  have "0 \<le> dbl (a * dbl z)" using assms(1,3) by (intro dbl_nonneg mult_nonneg_nonneg)
  moreover have "\<bar>dbl (a * dbl z) - a * z\<bar> \<le> 2 * slack"
  proof -
    have "0 \<le> slack" by simp
    then show ?thesis using n d by linarith
  qed
  moreover have "2 * slack < 1" by simp
  ultimately show ?thesis using assms(4) by linarith
qed

lemma digits_near:
  fixes x z :: rat
  assumes "0 \<le> x \<and> x < 91 ^ 4 \<and> \<bar>x - z\<bar> \<le> 2 * slack"
  shows "\<bar>of_int (unbase91 (base91 4 x)) - z\<bar> < 1 + 1 / 2 ^ 20 \<and> (\<forall>c \<in> set (base91 4 x). 33 \<le> c \<and> c \<le> 124)"
proof -
  let ?n = "of_int (unbase91 (base91 4 x)) :: rat"
  have "?n - (0 + 3 * of_nat 4 * slack) \<le> x \<and> x < ?n + 1 + (0 + 3 * of_nat 4 * slack) \<and>
      (\<forall>c \<in> set (base91 4 x). 33 \<le> c \<and> c \<le> 124)"
    by (rule base91_digits) (use assms in simp_all)
  moreover have "0 + 3 * of_nat 4 * slack + 2 * slack < 1 / 2 ^ 20" by simp
  ultimately show ?thesis using assms by linarith
qed

lemma position_precise:
  assumes "aprs_make_position sz lat lon speed course symbol = Some s" "14 \<le> sz"
  shows "length s = 13 \<and>
         \<bar>(90 - of_int (unbase91 (bslice 1 4 s)) / 380926) - lat\<bar> < (1 + 1 / 2 ^ 20) / 380926 \<and>
         \<bar>(of_int (unbase91 (bslice 5 4 s)) / 190463 - 180) - lon\<bar> < (1 + 1 / 2 ^ 20) / 190463 \<and>
         (\<forall>d \<in> set (bslice 1 8 s). 33 \<le> d \<and> d \<le> 124)"
proof -
  let ?x = "dbl (380926 * dbl (90 - lat))" and ?y = "dbl (190463 * dbl (180 + lon))"
  obtain t c where s: "s = [t] @ base91 4 ?x @ base91 4 ?y @ [c] @ course_speed speed course"
    using assms by (auto simp: aprs_make_position_def snprintf_s_def Let_def split: if_splits)
  have r: "dbl (-8999999 / 100000) \<le> lat" "lat \<le> dbl (8999999 / 100000)"
    "dbl (-17999999 / 100000) \<le> lon" "lon \<le> dbl (17999999 / 100000)"
    using assms(1) unfolding aprs_make_position_def by (auto split: if_splits)
  have l: "c - 1 / 200000 \<le> dbl c \<and> dbl c \<le> c + 1 / 200000" if "\<bar>c\<bar> \<le> 180" for c
  proof -
    have "\<bar>c\<bar> / 2 ^ 53 \<le> 180 / 2 ^ 53" by (rule divide_right_mono [OF that]) simp
    also have "\<dots> \<le> 1 / 200000" by simp
    finally have "\<bar>dbl c - c\<bar> \<le> 1 / 200000" by (rule order_trans [OF dbl_err])
    then show ?thesis by linarith
  qed
  have x: "0 \<le> 90 - lat" "90 - lat \<le> 180 - 1 / 200000"
    using r(1,2) l [of "-8999999 / 100000"] l [of "8999999 / 100000"] by simp_all
  have y: "0 \<le> 180 + lon" "180 + lon \<le> 360 - 1 / 200000"
    using r(3,4) l [of "-17999999 / 100000"] l [of "17999999 / 100000"] by simp_all
  have u: "0 \<le> ?x \<and> ?x < 91 ^ 4 \<and> \<bar>?x - 380926 * (90 - lat)\<bar> \<le> 2 * slack"
    by (rule units_near) (use x in simp_all)
  have w: "0 \<le> ?y \<and> ?y < 91 ^ 4 \<and> \<bar>?y - 190463 * (180 + lon)\<bar> \<le> 2 * slack"
    by (rule units_near) (use y in simp_all)
  have b: "bslice 1 4 s = base91 4 ?x" "bslice 5 4 s = base91 4 ?y" "bslice 1 8 s = base91 4 ?x @ base91 4 ?y"
    by (simp_all add: s bslice_def)
  from digits_near [OF u] digits_near [OF w]
  have dx: "\<bar>of_int (unbase91 (base91 4 ?x)) - 380926 * (90 - lat)\<bar> < 1 + 1 / 2 ^ 20"
    and dy: "\<bar>of_int (unbase91 (base91 4 ?y)) - 190463 * (180 + lon)\<bar> < 1 + 1 / 2 ^ 20"
    and g: "\<forall>d \<in> set (base91 4 ?x) \<union> set (base91 4 ?y). 33 \<le> d \<and> d \<le> 124" by blast+
  have "\<bar>(90 - of_int (unbase91 (base91 4 ?x)) / 380926) - lat\<bar> < (1 + 1 / 2 ^ 20) / 380926"
    using dx unfolding abs_less_iff by (simp add: field_simps)
  moreover have "\<bar>(of_int (unbase91 (base91 4 ?y)) / 190463 - 180) - lon\<bar> < (1 + 1 / 2 ^ 20) / 190463"
    using dy unfolding abs_less_iff by (simp add: field_simps)
  moreover have "length s = 13" by (simp add: s del: base91.simps)
  ultimately show ?thesis using g unfolding b set_append by blast
qed

end
