(* ===== verification/Aprsis.thy ===== *)
theory Aprsis
  imports Aprs Config_Keys
begin

text \<open>
  The APRS-IS gateway (\<^verbatim>\<open>aprsis.c\<close>): the pass code, the filter of call signs, the limit on how often a
  node is gated, and the connection to the server with its states, its queue of outgoing lines and
  its reader of the server's lines.

  A buffer with its length is the list of its valid bytes. The configuration the C struct points
  to is an argument of the operations that read it. What the socket calls will answer, in their
  order, is the record \<open>tcp\<close>, which also keeps the calls made. The cosine and the square root of
  \<open>dist_m\<close> are those of the reals. Logging is omitted.
\<close>

section \<open>Pass code and call signs\<close>

fun pass_hash :: "u32 \<Rightarrow> bytes \<Rightarrow> u32" where
  "pass_hash h [] = h"
| "pass_hash h [a] = h XOR push_bit 8 (ucast a)"
| "pass_hash h (a # b # cs) = pass_hash ((h XOR push_bit 8 (ucast a)) XOR ucast b) cs"

definition aprsis_passcode :: "bytes \<Rightarrow> int" where
  "aprsis_passcode callsign =
     uint (pass_hash 0x73e2 (map toupper (take 15 (takeWhile (\<lambda>c. c \<noteq> 45) callsign))) AND 0x7fff)"

definition is_upper :: "byte \<Rightarrow> bool" where
  "is_upper c = (65 \<le> c \<and> c \<le> 90)"

definition is_num :: "byte \<Rightarrow> bool" where
  "is_num c = (48 \<le> c \<and> c \<le> 57)"

definition ssid_ok :: "nat \<Rightarrow> bytes \<Rightarrow> bool" where
  \<comment> \<open>what follows the dash, behind a base call of \<open>cl\<close> letters\<close>
  "ssid_ok cl s =
     (1 \<le> length s \<and> length s \<le> 2 \<and> list_all (\<lambda>c. is_upper c \<or> is_num c) s \<and>
      s \<noteq> [48] \<and> cl + 1 + length s \<le> 9)"

definition itu_shape :: "bytes \<Rightarrow> bool" where
  "itu_shape b =
     (let suf = length (takeWhile is_upper (rev b)); s = length b - suf in
      1 \<le> suf \<and> suf \<le> 4 \<and> s \<noteq> 0 \<and> is_num (b ! (s - 1)) \<and>
      (let pl = s - 1 in
       1 \<le> pl \<and> pl \<le> 2 \<and> list_all (\<lambda>c. is_upper c \<or> is_num c) (take pl b) \<and>
       list_ex is_upper (take pl b)))"

definition aprsis_valid_callsign :: "bytes \<Rightarrow> nat \<Rightarrow> bytes option" where
  "aprsis_valid_callsign nm outsz =
     (let up = map toupper nm; base = takeWhile (\<lambda>c. c \<noteq> 45) up; cl = length base in
      if \<not> list_all (\<lambda>c. is_upper c \<or> is_num c \<or> c = 45) up \<or> 15 < length up then None
      else if cl < 3 \<or> 7 < cl then None
      else if 45 \<in> set up \<and> \<not> ssid_ok cl (drop (cl + 1) up) then None
      else if \<not> itu_shape base then None
      else Some (snprintf_s outsz up))"

section \<open>State\<close>

datatype aprsis_state = APRSIS_DISCONNECTED | APRSIS_CONNECTING | APRSIS_LOGIN | APRSIS_READY

record aprs_node =
  an_call :: bytes
  an_last_ms :: u64
  an_lat :: rat
  an_lon :: rat

record mc_aprsis =
  ai_pub :: bytes
  ai_passcode :: int
  ai_fd :: int
  ai_state :: aprsis_state
  ai_resolved :: bool
  ai_next_connect_ms :: u64
  ai_backoff_s :: int
  ai_deadline_ms :: u64
  ai_last_beacon_ms :: u64
  ai_txbuf :: bytes
  ai_rxbuf :: bytes
  ai_nodes :: "aprs_node list"
  ai_gated :: u64
  ai_beacons :: u64
  ai_dropped :: u64

definition APRSIS_MAX_NODES :: nat where "APRSIS_MAX_NODES = 64"
definition APRSIS_TXBUF :: nat where "APRSIS_TXBUF = 2048"
definition APRSIS_RXBUF :: nat where "APRSIS_RXBUF = 600"

section \<open>The socket\<close>

datatype conn_result = CONN_OK | CONN_PROGRESS | CONN_FAILED
datatype sock_result = SOCK_TOOK nat | SOCK_AGAIN | SOCK_FAILED
datatype recv_result = RECV_DATA bytes | RECV_AGAIN | RECV_FAILED

datatype tcp_call = TcpOpen int | TcpSent int bytes | TcpClose int

record tcp =
  t_socket :: "nat \<Rightarrow> int"
  t_connect :: "nat \<Rightarrow> conn_result"
  t_soerr :: "nat \<Rightarrow> int"
  t_recv :: "nat \<Rightarrow> recv_result"
  t_send :: "nat \<Rightarrow> sock_result"
  t_i :: nat
  t_calls :: "tcp_call list"

definition tcp_tick :: "tcp \<Rightarrow> tcp" where
  \<comment> \<open>one more call was made: each answer is that of its place in the order of calls\<close>
  "tcp_tick t = t\<lparr>t_i := t_i t + 1\<rparr>"

definition tcp_do :: "tcp_call \<Rightarrow> tcp \<Rightarrow> tcp" where
  "tcp_do c t = t\<lparr>t_calls := t_calls t @ [c]\<rparr>"

definition tcp_recv :: "nat \<Rightarrow> tcp \<Rightarrow> recv_result \<times> tcp" where
  "tcp_recv cap t = ((case t_recv t (t_i t) of RECV_DATA d \<Rightarrow> RECV_DATA (take cap d) | r \<Rightarrow> r), tcp_tick t)"

definition tcp_send :: "int \<Rightarrow> bytes \<Rightarrow> tcp \<Rightarrow> sock_result \<times> tcp" where
  \<comment> \<open>\<open>send\<close> takes a prefix, never more than it was given\<close>
  "tcp_send fd d t =
     (case t_send t (t_i t) of
        SOCK_TOOK n \<Rightarrow> (SOCK_TOOK (min n (length d)), tcp_do (TcpSent fd (take n d)) (tcp_tick t))
      | r \<Rightarrow> (r, tcp_tick t))"

section \<open>Outgoing lines\<close>

definition type_name :: "byte \<Rightarrow> bytes" where
  "type_name t =
     (if t = 1 then lit ''chat'' else if t = 2 then lit ''repeater'' else if t = 3 then lit ''room''
      else if t = 4 then lit ''sensor'' else lit ''node'')"

definition tx_queue :: "bytes \<Rightarrow> mc_aprsis \<Rightarrow> mc_aprsis" where
  "tx_queue line a =
     (if APRSIS_TXBUF < length (ai_txbuf a) + length line then a\<lparr>ai_dropped := ai_dropped a + 1\<rparr>
      else a\<lparr>ai_txbuf := ai_txbuf a @ line\<rparr>)"

definition crlf :: bytes where "crlf = [13, 10]"

definition build_beacon :: "mc_config \<Rightarrow> bytes" where
  \<comment> \<open>empty where the position cannot be written; the configuration holds the decimals of its file,
      here the doubles next to them\<close>
  "build_beacon c =
     (case aprs_make_position 64 (dbl (latitude c)) (dbl (longitude c)) (-1) (-1) (aprs_symbol (aprs c)) of
        None \<Rightarrow> []
      | Some ps \<Rightarrow>
          let alt = (if aprs_altitude (aprs c) \<noteq> 0
                     then snprintf_s 24 (lit '' /A='' @ dec_pad_int 6 (int_of_double (dbl (dbl (aprs_altitude (aprs c)) * dbl (32808399 / 10000000)))))
                     else [])
          in snprintf_s 400 (aprs_call (aprs c) @ lit ''>'' @ aprs_tocall (aprs c) @ lit '',TCPIP*:!'' @ ps
                             @ lit '' '' @ aprs_comment (aprs c) @ alt @ crlf))"

definition gate_line :: "mc_config \<Rightarrow> bytes \<Rightarrow> bytes \<Rightarrow> byte \<Rightarrow> bytes" where
  "gate_line c call ps typ =
     snprintf_s 300 (call @ lit ''>'' @ aprs_tocall (aprs c) @ lit '',qAO,'' @ aprs_call (aprs c) @ lit '':!'' @ ps
                     @ lit '' MeshCore '' @ type_name typ @ crlf)"

definition login_line :: "mc_config \<Rightarrow> int \<Rightarrow> bytes" where
  "login_line c pass =
     snprintf_s 128 (lit ''user '' @ aprs_call (aprs c) @ lit '' pass '' @ dec_int pass
                     @ lit '' vers meshcore-repeater 1.0'' @ crlf)"

section \<open>How often a node is gated\<close>

definition dist_m :: "rat \<Rightarrow> rat \<Rightarrow> rat \<Rightarrow> rat \<Rightarrow> real" where
  "dist_m la1 lo1 la2 lo2 =
     (let dlat = of_rat (la2 - la1) * 111320;
          dlon = of_rat (lo2 - lo1) * 111320 * cos (of_rat la1 * (314159265358979 / 100000000000000) / 180)
      in sqrt (dlat * dlat + dlon * dlon))"

definition oldest_node :: "aprs_node list \<Rightarrow> nat" where
  \<comment> \<open>the first of the slots with the least \<open>last_ms\<close>\<close>
  "oldest_node xs = foldl (\<lambda>s i. if an_last_ms (xs ! i) < an_last_ms (xs ! s) then i else s) 0 [1..<length xs]"

definition rate_ok :: "mc_config \<Rightarrow> bytes \<Rightarrow> u64 \<Rightarrow> rat \<Rightarrow> rat \<Rightarrow> mc_aprsis \<Rightarrow> bool \<times> mc_aprsis" where
  "rate_ok c call now lat lon a =
     (let min_ms = ucast (aprs_node_rate (aprs c)) * 1000; xs = ai_nodes a;
          nd = \<lparr>an_call = snprintf_s 12 call, an_last_ms = now, an_lat = lat, an_lon = lon\<rparr> in
      case find_index (\<lambda>e. an_call e = call) xs of
        Some i \<Rightarrow>
          (let e = xs ! i in
           if now - an_last_ms e < min_ms \<and> dist_m (an_lat e) (an_lon e) lat lon < 100 then (False, a)
           else (True, a\<lparr>ai_nodes := xs[i := e\<lparr>an_last_ms := now, an_lat := lat, an_lon := lon\<rparr>]\<rparr>))
      | None \<Rightarrow>
          if length xs < APRSIS_MAX_NODES then (True, a\<lparr>ai_nodes := xs @ [nd]\<rparr>)
          else (True, a\<lparr>ai_nodes := xs[oldest_node xs := nd]\<rparr>))"

definition aprsis_gate_node :: "mc_config \<Rightarrow> u64 \<Rightarrow> bytes \<Rightarrow> byte \<Rightarrow> rat \<Rightarrow> rat \<Rightarrow> bytes \<Rightarrow> mc_aprsis \<Rightarrow> mc_aprsis" where
  "aprsis_gate_node c now nm typ lat lon pk a =
     (if ai_state a \<noteq> APRSIS_READY then a
      else if pk = ai_pub a then a
      else if typ \<noteq> 1 \<and> typ \<noteq> 2 then a
      else case aprsis_valid_callsign nm 12 of
             None \<Rightarrow> a
           | Some call \<Rightarrow>
               (case rate_ok c call now lat lon a of
                  (False, a) \<Rightarrow> a
                | (True, a) \<Rightarrow>
                    (case aprs_make_position 64 lat lon (-1) (-1) (aprs_node_symbol (aprs c)) of
                       None \<Rightarrow> a
                     | Some ps \<Rightarrow>
                         let a = tx_queue (gate_line c call ps typ) a
                         in a\<lparr>ai_gated := ai_gated a + 1\<rparr>)))"

section \<open>The connection\<close>

definition go_disconnected :: "u64 \<Rightarrow> bool \<Rightarrow> mc_aprsis \<times> tcp \<Rightarrow> mc_aprsis \<times> tcp" where
  "go_disconnected now bump st =
     (let (a, t) = st;
          t = (if 0 \<le> ai_fd a then tcp_do (TcpClose (ai_fd a)) t else t);
          b = ai_backoff_s a;
          b = (if bump then min 300 (if b < 5 then 5 else b * 2) else b)
      in (a\<lparr>ai_fd := -1, ai_state := APRSIS_DISCONNECTED, ai_txbuf := [], ai_rxbuf := [],
            ai_backoff_s := b, ai_next_connect_ms := now + word_of_int b * 1000\<rparr>, t))"

definition start_connect :: "u64 \<Rightarrow> mc_aprsis \<times> tcp \<Rightarrow> mc_aprsis \<times> tcp" where
  "start_connect now st =
     (let (a, t) = st; fd = t_socket t (t_i t); t = tcp_tick t in
      if fd < 0 then go_disconnected now True (a, t)
      else
        let t = tcp_do (TcpOpen fd) t; rc = t_connect t (t_i t); t = tcp_tick t;
            a = a\<lparr>ai_fd := fd, ai_deadline_ms := now + 10000\<rparr>
        in if rc = CONN_FAILED then go_disconnected now True (a, t)
           else (a\<lparr>ai_state := APRSIS_CONNECTING\<rparr>, t))"

definition send_login :: "mc_config \<Rightarrow> u64 \<Rightarrow> mc_aprsis \<Rightarrow> mc_aprsis" where
  "send_login c now a =
     (tx_queue (login_line c (ai_passcode a)) a)\<lparr>ai_state := APRSIS_LOGIN, ai_deadline_ms := now + 10000\<rparr>"

definition handle_server_line :: "bytes \<Rightarrow> u64 \<Rightarrow> mc_aprsis \<times> tcp \<Rightarrow> mc_aprsis \<times> tcp" where
  "handle_server_line line now st =
     (if take 1 line \<noteq> [35] then st
      else if ai_state (fst st) = APRSIS_LOGIN \<and> strstr line (lit ''logresp'') \<noteq> None then
        (if strstr line (lit '' verified,'') \<noteq> None then
           ((fst st)\<lparr>ai_state := APRSIS_READY, ai_backoff_s := 5, ai_last_beacon_ms := 0\<rparr>, snd st)
         else
           let (a, t) = go_disconnected now True st
           in (a\<lparr>ai_backoff_s := 300, ai_next_connect_ms := now + 300000\<rparr>, t))
      else st)"

definition server_text :: "bytes \<Rightarrow> bytes" where
  \<comment> \<open>a line without its LF: a CR before the LF becomes its end, and so does a NUL\<close>
  "server_text l = c_str (if l \<noteq> [] \<and> last l = 13 then butlast l else l)"

fun split_lines :: "bytes \<Rightarrow> bytes \<Rightarrow> bytes list \<times> bytes" where
  \<comment> \<open>the complete lines behind \<open>cur\<close>, and what follows the last LF\<close>
  "split_lines cur [] = ([], cur)"
| "split_lines cur (b # bs) =
     (if b = 10 then let (ls, r) = split_lines [] bs in (cur # ls, r) else split_lines (cur @ [b]) bs)"

fun server_lines :: "u64 \<Rightarrow> bytes list \<Rightarrow> mc_aprsis \<times> tcp \<Rightarrow> mc_aprsis \<times> tcp" where
  "server_lines now [] st = st"
| "server_lines now (l # ls) st =
     (let st = handle_server_line (server_text l) now st in
      if ai_state (fst st) = APRSIS_DISCONNECTED then st else server_lines now ls st)"

definition read_server :: "u64 \<Rightarrow> mc_aprsis \<times> tcp \<Rightarrow> mc_aprsis \<times> tcp" where
  "read_server now st =
     (let (a, t) = st; (r, t) = tcp_recv (APRSIS_RXBUF - 1 - length (ai_rxbuf a)) t in
      case r of
        RECV_AGAIN \<Rightarrow> (a, t)
      | RECV_FAILED \<Rightarrow> go_disconnected now True (a, t)
      | RECV_DATA d \<Rightarrow>
          if d = [] then go_disconnected now True (a, t)
          else
            let buf = ai_rxbuf a @ d;
                (ls, rest) = split_lines [] buf;
                (a, t) = server_lines now ls (a\<lparr>ai_rxbuf := buf\<rparr>, t) in
            if ai_state a = APRSIS_DISCONNECTED \<and> ls \<noteq> [] then (a, t)
            else if ls \<noteq> [] then (a\<lparr>ai_rxbuf := rest\<rparr>, t)
            else if APRSIS_RXBUF - 1 \<le> length buf then (a\<lparr>ai_rxbuf := []\<rparr>, t)
            else (a, t))"

function tx_flush :: "u64 \<Rightarrow> mc_aprsis \<times> tcp \<Rightarrow> mc_aprsis \<times> tcp" where
  "tx_flush now (a, t) =
     (if ai_txbuf a = [] then (a, t)
      else
        let (r, t) = tcp_send (ai_fd a) (ai_txbuf a) t in
        case r of
          SOCK_TOOK (Suc n) \<Rightarrow> tx_flush now (a\<lparr>ai_txbuf := drop (Suc n) (ai_txbuf a)\<rparr>, t)
        | SOCK_TOOK 0 \<Rightarrow> (a, t)
        | SOCK_AGAIN \<Rightarrow> (a, t)
        | SOCK_FAILED \<Rightarrow> go_disconnected now True (a, t))"
  by pat_completeness auto
termination
  by (relation "measure (\<lambda>(now, a, t). length (ai_txbuf a))") auto

declare tx_flush.simps [simp del]

text \<open>What \<^verbatim>\<open>poll\<close> said of the socket: an error or hang-up, readable, writable.\<close>

record poll_events =
  ev_err :: bool
  ev_in :: bool
  ev_out :: bool

definition aprsis_pollfd :: "mc_aprsis \<Rightarrow> int \<times> bool \<times> bool" where
  \<comment> \<open>the descriptor, and whether to wait for input and for output\<close>
  "aprsis_pollfd a =
     (if ai_fd a < 0 then (-1, False, False)
      else if ai_state a = APRSIS_CONNECTING then (ai_fd a, False, True)
      else (ai_fd a, True, ai_txbuf a \<noteq> []))"

definition beacon_due :: "mc_config \<Rightarrow> u64 \<Rightarrow> mc_aprsis \<Rightarrow> bool" where
  "beacon_due c now a =
     (aprs_beacon_interval (aprs c) \<noteq> 0 \<and>
      ucast (aprs_beacon_interval (aprs c)) * 1000 \<le> now - ai_last_beacon_ms a)"

definition send_beacon :: "mc_config \<Rightarrow> u64 \<Rightarrow> mc_aprsis \<times> tcp \<Rightarrow> mc_aprsis \<times> tcp" where
  "send_beacon c now st =
     (let (a, t) = st; b = build_beacon c;
          (a, t) = (if b = [] then (a, t)
                    else let (a, t) = tx_flush now (tx_queue b a, t) in (a\<lparr>ai_beacons := ai_beacons a + 1\<rparr>, t))
      in (a\<lparr>ai_last_beacon_ms := now\<rparr>, t))"

definition service_connecting :: "mc_config \<Rightarrow> u64 \<Rightarrow> poll_events \<Rightarrow> mc_aprsis \<times> tcp \<Rightarrow> mc_aprsis \<times> tcp" where
  "service_connecting c now ev st =
     (let (a, t) = st in
      if ev_err ev then go_disconnected now True (a, t)
      else if ev_out ev then
        (let err = t_soerr t (t_i t); t = tcp_tick t in
         if err \<noteq> 0 then go_disconnected now True (a, t)
         else tx_flush now (send_login c now a, t))
      else if ai_deadline_ms a < now then go_disconnected now True (a, t)
      else (a, t))"

definition service_connected :: "mc_config \<Rightarrow> u64 \<Rightarrow> poll_events \<Rightarrow> mc_aprsis \<times> tcp \<Rightarrow> mc_aprsis \<times> tcp" where
  "service_connected c now ev st =
     (if ev_err ev then go_disconnected now True st
      else
        let st = (if ev_in ev then read_server now st else st) in
        if ai_state (fst st) = APRSIS_DISCONNECTED then st
        else
          let st = tx_flush now st in
          if ai_state (fst st) = APRSIS_LOGIN \<and> ai_deadline_ms (fst st) < now then go_disconnected now True st
          else if ai_state (fst st) = APRSIS_READY \<and> beacon_due c now (fst st) then send_beacon c now st
          else st)"

definition aprsis_service :: "mc_config \<Rightarrow> u64 \<Rightarrow> poll_events \<Rightarrow> mc_aprsis \<times> tcp \<Rightarrow> mc_aprsis \<times> tcp" where
  "aprsis_service c now ev st =
     (case ai_state (fst st) of
        APRSIS_DISCONNECTED \<Rightarrow>
          if ai_resolved (fst st) \<and> ai_next_connect_ms (fst st) \<le> now then start_connect now st else st
      | APRSIS_CONNECTING \<Rightarrow> service_connecting c now ev st
      | _ \<Rightarrow> service_connected c now ev st)"

section \<open>Starting and stopping\<close>

definition zero_aprsis :: "bytes \<Rightarrow> mc_aprsis" where
  "zero_aprsis our_pub =
     \<lparr>ai_pub = our_pub, ai_passcode = 0, ai_fd = -1, ai_state = APRSIS_DISCONNECTED, ai_resolved = False,
      ai_next_connect_ms = 0, ai_backoff_s = 5, ai_deadline_ms = 0, ai_last_beacon_ms = 0,
      ai_txbuf = [], ai_rxbuf = [], ai_nodes = [], ai_gated = 0, ai_beacons = 0, ai_dropped = 0\<rparr>"

definition atoi :: "bytes \<Rightarrow> int" where
  "atoi s = (case strtol s of None \<Rightarrow> 0 | Some (v, r) \<Rightarrow> sint (word_of_int v :: u32))"

definition aprsis_init :: "mc_config \<Rightarrow> bytes \<Rightarrow> bool \<Rightarrow> int \<times> mc_aprsis" where
  \<comment> \<open>with whether the resolver knows the server\<close>
  "aprsis_init c our_pub known =
     (let a = zero_aprsis our_pub in
      if \<not> aprs_enable (aprs c) \<or> aprs_call (aprs c) = [] then (-1, a)
      else
        let a = a\<lparr>ai_passcode := (if strcaseeq (aprs_passcode (aprs c)) (lit ''auto'')
                                 then aprsis_passcode (aprs_call (aprs c)) else atoi (aprs_passcode (aprs c)))\<rparr>
        in (0, a\<lparr>ai_resolved := known\<rparr>))"

definition aprsis_close :: "mc_aprsis \<times> tcp \<Rightarrow> mc_aprsis \<times> tcp" where
  "aprsis_close st =
     (let (a, t) = st
      in (a\<lparr>ai_fd := -1, ai_state := APRSIS_DISCONNECTED\<rparr>, if 0 \<le> ai_fd a then tcp_do (TcpClose (ai_fd a)) t else t))"

end
