(* ===== verification/Aprsis_Inv.thy ===== *)
theory Aprsis_Inv
  imports Aprsis "HOL-Library.Sublist"
begin

text \<open>
  Facts of the APRS-IS gateway: the filter of call signs accepts exactly the strings of a grammar
  (\<open>valid_callsign_iff\<close>); the invariant of the connection \<open>aprs_inv\<close>, with what was written to the
  socket since it was opened as a sequence of whole lines; and its preservation by every operation.
\<close>

section \<open>The grammar of call signs\<close>

lemma digit_not_upper: "is_num c \<Longrightarrow> \<not> is_upper c"
  by (auto simp: is_num_def is_upper_def word_le_nat_alt)

lemma not_dash [simp]: "\<not> is_num 45" "\<not> is_upper 45"
  by (auto simp: is_num_def is_upper_def)

lemma itu_shape_iff:
  "itu_shape b \<longleftrightarrow>
   (\<exists>p d s. b = p @ [d] @ s \<and> 1 \<le> length p \<and> length p \<le> 2 \<and> list_all (\<lambda>c. is_upper c \<or> is_num c) p \<and>
            list_ex is_upper p \<and> is_num d \<and> 1 \<le> length s \<and> length s \<le> 4 \<and> list_all is_upper s)"
  (is "_ \<longleftrightarrow> ?g")
proof
  let ?t = "takeWhile is_upper (rev b)"
  let ?n = "length b - length ?t"
  assume i: "itu_shape b"
  have "b = rev (?t @ dropWhile is_upper (rev b))" by simp
  then have b: "b = rev (dropWhile is_upper (rev b)) @ rev ?t" unfolding rev_append .
  have n: "length (rev (dropWhile is_upper (rev b))) = ?n" using arg_cong [OF b, of length] by simp
  have "drop ?n b = rev ?t" by (subst b) (simp only: n append_eq_conv_conj [symmetric] drop_append drop_all order_refl diff_self_eq_0 drop_0 append_Nil)
  moreover have "b = take (?n - 1) b @ [b ! (?n - 1)] @ drop ?n b"
  proof -
    have "?n - 1 < length b" "Suc (?n - 1) = ?n" using i by (auto simp: itu_shape_def Let_def)
    then show ?thesis using id_take_nth_drop [of "?n - 1" b] by simp
  qed
  moreover have "list_all is_upper (rev ?t)" by (auto simp: list_all_iff dest: set_takeWhileD)
  ultimately show ?g using i
    by (intro exI [of _ "take (?n - 1) b"] exI [of _ "b ! (?n - 1)"] exI [of _ "rev ?t"])
      (auto simp: itu_shape_def Let_def)
next
  assume ?g
  then obtain p d s where b: "b = p @ [d] @ s" and g: "1 \<le> length p" "length p \<le> 2"
    "list_all (\<lambda>c. is_upper c \<or> is_num c) p" "list_ex is_upper p" "is_num d" "1 \<le> length s" "length s \<le> 4"
    "list_all is_upper s" by blast
  have "takeWhile is_upper (rev s @ [d] @ rev p) = rev s"
    using g(5,8) by (subst takeWhile_append2) (auto simp: list_all_iff digit_not_upper)
  then have t: "takeWhile is_upper (rev b) = rev s" by (simp add: b)
  show "itu_shape b" unfolding itu_shape_def t Let_def using g by (simp add: b nth_append)
qed

lemma valid_callsign_iff:
  "aprsis_valid_callsign nm 12 = Some c \<longleftrightarrow>
   c = map toupper nm \<and>
   (\<exists>p d s x. c = p @ [d] @ s @ x \<and> length c \<le> 9 \<and>
      1 \<le> length p \<and> length p \<le> 2 \<and> list_all (\<lambda>c. is_upper c \<or> is_num c) p \<and> list_ex is_upper p \<and>
      is_num d \<and> 1 \<le> length s \<and> length s \<le> 4 \<and> list_all is_upper s \<and>
      (x = [] \<or> (\<exists>y. x = 45 # y \<and> 1 \<le> length y \<and> length y \<le> 2 \<and>
                     list_all (\<lambda>c. is_upper c \<or> is_num c) y \<and> y \<noteq> [48])))"
  (is "?l \<longleftrightarrow> _ \<and> ?g")
proof -
  let ?up = "map toupper nm"
  let ?b = "takeWhile (\<lambda>c. c \<noteq> 45) ?up"
  let ?an = "\<lambda>c. is_upper c \<or> is_num c"
  show ?thesis
  proof (intro iffI conjI)
    assume l: ?l
    have i: "itu_shape ?b" and cl: "length ?b \<le> 7" and ss: "45 \<in> set ?up \<Longrightarrow> ssid_ok (length ?b) (drop (length ?b + 1) ?up)"
      and c: "c = take 11 ?up"
      using l by (auto simp: aprsis_valid_callsign_def Let_def snprintf_s_def split: if_splits)
    define x where "x = dropWhile (\<lambda>c. c \<noteq> 45) ?up"
    have up: "?up = ?b @ x" by (simp add: x_def)
    have x: "x = [] \<or> x = 45 # drop (length ?b + 1) ?up"
    proof (cases x)
      case (Cons a y)
      then have "a = 45" using hd_dropWhile [of "\<lambda>c. c \<noteq> 45" ?up] by (simp add: x_def)
      moreover have "drop (length ?b + 1) ?up = y" by (subst (2) up) (simp add: Cons)
      ultimately show ?thesis by (simp add: Cons)
    qed simp
    have lu: "length ?up = length ?b + length x" and su: "set ?up = set ?b \<union> set x"
      using arg_cong [OF up, of length] arg_cong [OF up, of set] by (simp_all only: length_append set_append)
    have s: "ssid_ok (length ?b) (drop (length ?b + 1) ?up)" if "x \<noteq> []"
    proof (rule ss)
      have "45 \<in> set x" using x that by (metis list.set_intros(1))
      then show "45 \<in> set ?up" unfolding su by blast
    qed
    have len: "length ?up \<le> 9"
    proof (cases "x = []")
      case True
      then show ?thesis using lu cl by (simp only: list.size)
    next
      case False
      then have "length x = 1 + length (drop (length ?b + 1) ?up)"
        using x by (metis length_Cons plus_1_eq_Suc)
      with lu s [OF False] show ?thesis unfolding ssid_ok_def by linarith
    qed
    show cu: "c = ?up" using len c by simp
    obtain p d s where b: "?b = p @ [d] @ s" and g: "1 \<le> length p" "length p \<le> 2" "list_all ?an p" "list_ex is_upper p"
      "is_num d" "1 \<le> length s" "length s \<le> 4" "list_all is_upper s" using i unfolding itu_shape_iff by blast
    have "c = p @ [d] @ s @ x" using cu up b by simp
    moreover have "x = [] \<or> (\<exists>y. x = 45 # y \<and> 1 \<le> length y \<and> length y \<le> 2 \<and> list_all ?an y \<and> y \<noteq> [48])"
      using x s by (auto simp: ssid_ok_def)
    ultimately show ?g using g len unfolding cu [symmetric]
      by (intro exI [of _ p] exI [of _ d] exI [of _ s] exI [of _ x] conjI)
  next
    assume "c = ?up \<and> ?g"
    then obtain p d s x where c: "c = ?up" "c = p @ [d] @ s @ x" "length c \<le> 9" and g: "1 \<le> length p" "length p \<le> 2"
      "list_all ?an p" "list_ex is_upper p" "is_num d" "1 \<le> length s" "length s \<le> 4" "list_all is_upper s"
      and x: "x = [] \<or> (\<exists>y. x = 45 # y \<and> 1 \<le> length y \<and> length y \<le> 2 \<and> list_all ?an y \<and> y \<noteq> [48])" by blast
    have nd: "\<forall>c \<in> set (p @ [d] @ s). c \<noteq> 45" using g by (auto simp: list_all_iff Ball_def)
    have b: "?b = p @ [d] @ s"
    proof -
      have "takeWhile (\<lambda>c. c \<noteq> 45) ((p @ [d] @ s) @ x) = (p @ [d] @ s) @ takeWhile (\<lambda>c. c \<noteq> 45) x"
        using nd by (intro takeWhile_append2) blast
      moreover have "takeWhile (\<lambda>c. c \<noteq> 45) x = []" using x by auto
      ultimately show ?thesis using c by simp
    qed
    have "itu_shape ?b" unfolding itu_shape_iff using b g by blast
    moreover have "list_all (\<lambda>c. ?an c \<or> c = 45) ?up"
      unfolding c(1) [symmetric] c(2) using g x by (auto simp: list_all_iff)
    moreover have "45 \<in> set ?up \<Longrightarrow> ssid_ok (length ?b) (drop (length ?b + 1) ?up)"
    proof -
      assume "45 \<in> set ?up"
      then have "x \<noteq> []" unfolding c(1) [symmetric] c(2) using nd by auto
      then obtain y where y: "x = 45 # y" "1 \<le> length y" "length y \<le> 2" "list_all ?an y" "y \<noteq> [48]"
        using x by blast
      have l: "length ?b = length p + 1 + length s" by (simp only: b length_append list.size)
      have "drop (length p + 1 + length s + 1) c = y" unfolding c(2) y(1) by simp
      then have "drop (length ?b + 1) ?up = y" unfolding l c(1) .
      moreover have "length ?b + 1 + length y \<le> 9" using c(3) unfolding l c(2) y(1) by simp
      ultimately show ?thesis using y by (simp only: ssid_ok_def simp_thms)
    qed
    moreover have "3 \<le> length ?b" "length ?b \<le> 7" "length ?up \<le> 9" using b g c by auto
    ultimately show ?l using c(1) by (simp add: aprsis_valid_callsign_def Let_def snprintf_s_def del: length_map)
  qed
qed

section \<open>What goes over the socket\<close>

definition stream :: "tcp_call list \<Rightarrow> bytes" where
  \<comment> \<open>the bytes sent since the last connection was opened\<close>
  "stream cs = foldl (\<lambda>s c. case c of TcpOpen _ \<Rightarrow> [] | TcpSent _ d \<Rightarrow> s @ d | TcpClose _ \<Rightarrow> s) [] cs"

definition open_fds :: "tcp_call list \<Rightarrow> int list" where
  "open_fds cs = foldl (\<lambda>fs c. case c of TcpOpen f \<Rightarrow> f # fs | TcpSent _ _ \<Rightarrow> fs | TcpClose f \<Rightarrow> remove1 f fs) [] cs"

lemma stream_simps [simp]:
  "stream [] = []" "stream (cs @ [TcpOpen fd]) = []" "stream (cs @ [TcpSent fd d]) = stream cs @ d"
  "stream (cs @ [TcpClose fd]) = stream cs"
  by (simp_all add: stream_def)

lemma open_fds_simps [simp]:
  "open_fds [] = []" "open_fds (cs @ [TcpOpen fd]) = fd # open_fds cs" "open_fds (cs @ [TcpSent fd d]) = open_fds cs"
  "open_fds (cs @ [TcpClose fd]) = remove1 fd (open_fds cs)"
  by (simp_all add: open_fds_def)

definition uplink :: "mc_config \<Rightarrow> bytes \<Rightarrow> bool" where
  \<comment> \<open>a line the gateway may put on the network: its own beacon, or the position of a station\<close>
  "uplink c l \<longleftrightarrow>
     l = build_beacon c \<or>
     (\<exists>nm call ps typ lat lon. aprsis_valid_callsign nm 12 = Some call \<and> (typ = 1 \<or> typ = 2) \<and>
        aprs_make_position 64 lat lon (-1) (-1) (aprs_node_symbol (aprs c)) = Some ps \<and> l = gate_line c call ps typ)"

definition spoken :: "mc_config \<Rightarrow> int \<Rightarrow> bytes \<Rightarrow> bool" where
  \<comment> \<open>the log-in and whole lines behind it\<close>
  "spoken c pass s \<longleftrightarrow> (\<exists>ls. list_all (uplink c) ls \<and> s = login_line c pass @ concat ls)"

definition aprs_base :: "mc_config \<Rightarrow> mc_aprsis \<times> tcp \<Rightarrow> bool" where
  \<comment> \<open>what holds in every state\<close>
  "aprs_base c st \<longleftrightarrow>
     (\<exists>s. spoken c (ai_passcode (fst st)) s \<and> prefix (stream (t_calls (snd st))) s) \<and>
     open_fds (t_calls (snd st)) = (if 0 \<le> ai_fd (fst st) then [ai_fd (fst st)] else []) \<and>
     5 \<le> ai_backoff_s (fst st) \<and> ai_backoff_s (fst st) \<le> 300 \<and>
     length (ai_txbuf (fst st)) \<le> APRSIS_TXBUF \<and>
     length (ai_nodes (fst st)) \<le> APRSIS_MAX_NODES"

definition aprs_conn :: "mc_config \<Rightarrow> mc_aprsis \<times> tcp \<Rightarrow> bool" where
  \<comment> \<open>what the state says of the socket and of the queue\<close>
  "aprs_conn c st \<longleftrightarrow>
     (case ai_state (fst st) of
        APRSIS_DISCONNECTED \<Rightarrow> ai_fd (fst st) = -1 \<and> ai_txbuf (fst st) = []
      | APRSIS_CONNECTING \<Rightarrow> 0 \<le> ai_fd (fst st) \<and> ai_txbuf (fst st) = [] \<and> stream (t_calls (snd st)) = []
      | APRSIS_LOGIN \<Rightarrow> 0 \<le> ai_fd (fst st) \<and> stream (t_calls (snd st)) @ ai_txbuf (fst st) = login_line c (ai_passcode (fst st))
      | APRSIS_READY \<Rightarrow> 0 \<le> ai_fd (fst st) \<and> spoken c (ai_passcode (fst st)) (stream (t_calls (snd st)) @ ai_txbuf (fst st)))"

definition aprs_inv :: "mc_config \<Rightarrow> mc_aprsis \<times> tcp \<Rightarrow> bool" where
  "aprs_inv c st \<longleftrightarrow> aprs_base c st \<and> aprs_conn c st \<and> length (ai_rxbuf (fst st)) < APRSIS_RXBUF - 1"

lemma spoken_login: "spoken c p (login_line c p)"
  unfolding spoken_def by (rule exI [of _ "[]"]) simp

lemma spoken_more: "spoken c p s \<Longrightarrow> uplink c l \<Longrightarrow> spoken c p (s @ l)"
proof -
  assume "spoken c p s" and l: "uplink c l"
  then obtain ls where ls: "list_all (uplink c) ls" "s = login_line c p @ concat ls" by (auto simp: spoken_def)
  show ?thesis unfolding spoken_def by (rule exI [of _ "ls @ [l]"]) (simp add: ls l)
qed

lemma login_short: "length (login_line c p) \<le> 127"
  by (simp add: login_line_def snprintf_s_def)

lemma disconnected_inv:
  assumes "aprs_base c st"
  shows "aprs_inv c (go_disconnected now bump st)"
proof -
  obtain a t where st: "st = (a, t)" by fastforce
  have b: "5 \<le> min 300 (if ai_backoff_s a < 5 then 5 else ai_backoff_s a * 2)" if "5 \<le> ai_backoff_s a"
    using that by simp
  show ?thesis using assms b
    by (auto simp: st aprs_inv_def aprs_base_def aprs_conn_def go_disconnected_def Let_def tcp_do_def APRSIS_RXBUF_def)
qed

lemma tcp_fields [simp]:
  "t_calls (tcp_tick t) = t_calls t" "t_calls (tcp_do e t) = t_calls t @ [e]" "t_calls (snd (tcp_recv cap t)) = t_calls t"
  by (simp_all add: tcp_tick_def tcp_do_def tcp_recv_def)

lemma tcp_send_cases:
  assumes "tcp_send fd d t = (r, t')"
  obtains (took) n where "r = SOCK_TOOK n" "n \<le> length d" "t_calls t' = t_calls t @ [TcpSent fd (take n d)]"
  | (other) "\<And>n. r \<noteq> SOCK_TOOK n" "t_calls t' = t_calls t"
proof (cases "t_send t (t_i t)")
  case (SOCK_TOOK n)
  then have "r = SOCK_TOOK (min n (length d))" "t_calls t' = t_calls t @ [TcpSent fd (take (min n (length d)) d)]"
    using assms by (auto simp: tcp_send_def min_def)
  then show thesis by (intro took [of "min n (length d)"]) auto
next
  case SOCK_AGAIN
  then show thesis using assms by (intro other) (auto simp: tcp_send_def)
next
  case SOCK_FAILED
  then show thesis using assms by (intro other) (auto simp: tcp_send_def)
qed

lemma conn_cong:
  "ai_state a' = ai_state a \<Longrightarrow> ai_fd a' = ai_fd a \<Longrightarrow> ai_txbuf a' = ai_txbuf a \<Longrightarrow> ai_passcode a' = ai_passcode a \<Longrightarrow>
   t_calls t' = t_calls t \<Longrightarrow> aprs_conn c (a', t') = aprs_conn c (a, t)"
  by (simp add: aprs_conn_def split: aprsis_state.split)

lemma inv_calls: "t_calls t' = t_calls t \<Longrightarrow> aprs_inv c (a, t') = aprs_inv c (a, t)"
  by (simp add: aprs_inv_def aprs_base_def aprs_conn_def split: aprsis_state.split)

lemma sent_inv:
  assumes "aprs_inv c (a, t)" "t_calls t' = t_calls t @ [TcpSent fd (take n (ai_txbuf a))]"
  shows "aprs_inv c (a\<lparr>ai_txbuf := drop n (ai_txbuf a)\<rparr>, t')"
proof -
  let ?s = "stream (t_calls t)"
  have p: "\<exists>s. spoken c (ai_passcode a) s \<and> prefix (?s @ take n (ai_txbuf a)) s"
  proof (cases "ai_txbuf a = []")
    case True
    then show ?thesis using assms(1) by (simp add: aprs_inv_def aprs_base_def)
  next
    case False
    then have "spoken c (ai_passcode a) (?s @ ai_txbuf a)"
      using assms(1) spoken_login by (auto simp: aprs_inv_def aprs_conn_def split: aprsis_state.splits)
    moreover have "prefix (?s @ take n (ai_txbuf a)) (?s @ ai_txbuf a)" by (simp add: take_is_prefix)
    ultimately show ?thesis by blast
  qed
  have k: "aprs_conn c (a\<lparr>ai_txbuf := drop n (ai_txbuf a)\<rparr>, t')"
    using assms by (simp add: aprs_inv_def aprs_conn_def split: aprsis_state.splits)
  show ?thesis using assms p k by (simp add: aprs_inv_def aprs_base_def) (meson diff_le_self le_trans)
qed

lemma flush_inv: "aprs_inv c st \<Longrightarrow> aprs_inv c (tx_flush now st)"
proof (induction now st rule: tx_flush.induct)
  case (1 now a t)
  obtain r t' where r: "tcp_send (ai_fd a) (ai_txbuf a) t = (r, t')" by fastforce
  show ?case
  proof (cases "ai_txbuf a = []")
    case True
    then show ?thesis using 1(2) by (simp add: tx_flush.simps)
  next
    case False
    show ?thesis using r
    proof (cases rule: tcp_send_cases)
      case (took n)
      show ?thesis
      proof (cases n)
        case 0
        have "aprs_inv c (a\<lparr>ai_txbuf := drop 0 (ai_txbuf a)\<rparr>, t')"
          by (rule sent_inv [OF 1(2)]) (simp add: took 0)
        then show ?thesis using False r took 0 by (simp add: tx_flush.simps)
      next
        case (Suc m)
        then have "aprs_inv c (a\<lparr>ai_txbuf := drop (Suc m) (ai_txbuf a)\<rparr>, t')"
          using sent_inv [OF 1(2)] took by simp
        moreover have k: "r = SOCK_TOOK (Suc m)" using took Suc by simp
        ultimately show ?thesis using 1(1) [OF False refl r [symmetric] k refl] False r k by (simp add: tx_flush.simps)
      qed
    next
      case other
      have i: "aprs_inv c (a, t')" using inv_calls [OF other(2)] 1(2) by blast
      then have "aprs_inv c (go_disconnected now True (a, t'))" by (intro disconnected_inv) (simp add: aprs_inv_def)
      moreover have "r = SOCK_AGAIN \<or> r = SOCK_FAILED" using other(1) by (metis sock_result.exhaust)
      ultimately show ?thesis using False r i by (auto simp: tx_flush.simps [of now a t])
    qed
  qed
qed

lemma flush_state:
  "(ai_state (fst (tx_flush now st)) = ai_state (fst st) \<or> ai_state (fst (tx_flush now st)) = APRSIS_DISCONNECTED) \<and>
   ai_resolved (fst (tx_flush now st)) = ai_resolved (fst st)"
proof (induction now st rule: tx_flush.induct)
  case (1 now a t)
  obtain r t' where r: "tcp_send (ai_fd a) (ai_txbuf a) t = (r, t')" by fastforce
  show ?case
  proof (cases "\<exists>n. r = SOCK_TOOK (Suc n) \<and> ai_txbuf a \<noteq> []")
    case True
    then obtain n where n: "r = SOCK_TOOK (Suc n)" "ai_txbuf a \<noteq> []" by blast
    show ?thesis using 1 [OF n(2) refl r [symmetric] n(1) refl] n r by (simp add: tx_flush.simps [of now a t])
  next
    case False
    then show ?thesis using r
      by (auto simp: tx_flush.simps [of now a t] go_disconnected_def Let_def split: sock_result.split nat.split)
  qed
qed

lemma line_inv:
  assumes "aprs_base c st" "aprs_conn c st"
  shows "aprs_base c (handle_server_line l now st) \<and> aprs_conn c (handle_server_line l now st)"
proof -
  obtain a t where st: "st = (a, t)" by fastforce
  obtain a' t' where d: "go_disconnected now True (a, t) = (a', t')" by fastforce
  have "aprs_inv c (a', t')" using disconnected_inv [of c st now True] assms(1) by (simp add: st d)
  then have 1: "aprs_base c (a'\<lparr>ai_backoff_s := 300, ai_next_connect_ms := n\<rparr>, t')"
      "aprs_conn c (a'\<lparr>ai_backoff_s := 300, ai_next_connect_ms := n\<rparr>, t')" for n
    using conn_cong [of "a'\<lparr>ai_backoff_s := 300, ai_next_connect_ms := n\<rparr>" a' t' t' c for n]
    by (simp_all add: aprs_inv_def aprs_base_def)
  have 2: "aprs_base c (a\<lparr>ai_state := APRSIS_READY, ai_backoff_s := 5, ai_last_beacon_ms := 0\<rparr>, t)"
    using assms(1) by (simp add: st aprs_base_def)
  have 3: "aprs_conn c (a\<lparr>ai_state := APRSIS_READY, ai_backoff_s := 5, ai_last_beacon_ms := 0\<rparr>, t)"
    if "ai_state a = APRSIS_LOGIN"
    using assms(2) that spoken_login [of c "ai_passcode a"] by (simp add: st aprs_conn_def)
  show ?thesis unfolding handle_server_line_def using assms 1 2 3 by (simp add: st d)
qed

lemma lines_inv:
  "aprs_base c st \<Longrightarrow> aprs_conn c st \<Longrightarrow> aprs_base c (server_lines now ls st) \<and> aprs_conn c (server_lines now ls st)"
proof (induction now ls st rule: server_lines.induct)
  case (2 now l ls st)
  show ?case using 2(1) [OF refl] line_inv [OF 2(2,3), of "server_text l" now] by (simp add: Let_def)
qed simp

lemma lines_state:
  assumes "ai_state (fst st) \<noteq> APRSIS_DISCONNECTED"
  shows "(ai_state (fst (server_lines now ls st)) = APRSIS_DISCONNECTED \<longrightarrow> ai_rxbuf (fst (server_lines now ls st)) = []) \<and>
         ai_resolved (fst (server_lines now ls st)) = ai_resolved (fst st)"
  using assms
proof (induction now ls st rule: server_lines.induct)
  case (2 now l ls st)
  have "(ai_state (fst (handle_server_line k now st)) = APRSIS_DISCONNECTED \<longrightarrow> ai_rxbuf (fst (handle_server_line k now st)) = []) \<and>
        ai_resolved (fst (handle_server_line k now st)) = ai_resolved (fst st)" for k
    using 2(2) by (auto simp: handle_server_line_def go_disconnected_def Let_def split: prod.splits)
  with 2(1) [OF refl] show ?case by (simp add: Let_def)
qed simp

lemma split_lines_length:
  "split_lines cur bs = (ls, r) \<Longrightarrow> length r \<le> length cur + length bs \<and> (ls \<noteq> [] \<longrightarrow> length r < length cur + length bs)"
proof (induction cur bs arbitrary: ls r rule: split_lines.induct)
  case (2 cur b bs)
  show ?case
  proof (cases "b = 10")
    case True
    obtain ls' where "split_lines [] bs = (ls', r)" using 2(3) True by (auto split: prod.splits)
    with 2(1) [OF True] show ?thesis by fastforce
  next
    case False
    with 2(2) [OF False, of ls r] 2(3) show ?thesis by simp
  qed
qed simp

lemma recv_short: "tcp_recv cap t = (RECV_DATA d, t') \<Longrightarrow> length d \<le> cap"
  by (auto simp: tcp_recv_def split: recv_result.splits)

lemma read_inv:
  assumes "aprs_inv c st" "ai_state (fst st) \<noteq> APRSIS_DISCONNECTED"
  shows "aprs_inv c (read_server now st)"
proof -
  obtain a t where st: "st = (a, t)" by fastforce
  obtain r t1 where r: "tcp_recv (APRSIS_RXBUF - 1 - length (ai_rxbuf a)) t = (r, t1)" by fastforce
  have i: "aprs_inv c (a, t1)"
    using assms(1) inv_calls [of t1 t c a] r tcp_fields(3) [of "APRSIS_RXBUF - 1 - length (ai_rxbuf a)" t] by (simp add: st)
  have gone: "aprs_inv c (go_disconnected now True (a, t1))" by (rule disconnected_inv) (use i in \<open>simp add: aprs_inv_def\<close>)
  show ?thesis
  proof (cases r)
    case (RECV_DATA d)
    show ?thesis
    proof (cases "d = []")
      case True
      then show ?thesis using gone by (simp add: read_server_def st r [simplified] RECV_DATA)
    next
      case False
      let ?buf = "ai_rxbuf a @ d"
      obtain ls rest where s: "split_lines [] ?buf = (ls, rest)" by fastforce
      obtain a2 t2 where l: "server_lines now ls (a\<lparr>ai_rxbuf := ?buf\<rparr>, t1) = (a2, t2)" by fastforce
      have i1: "aprs_base c (a\<lparr>ai_rxbuf := ?buf\<rparr>, t1)" "aprs_conn c (a\<lparr>ai_rxbuf := ?buf\<rparr>, t1)"
        using i conn_cong [of "a\<lparr>ai_rxbuf := ?buf\<rparr>" a t1 t1 c] by (simp_all add: aprs_inv_def aprs_base_def)
      from lines_inv [OF i1, of now ls] have i2: "aprs_base c (a2, t2)" "aprs_conn c (a2, t2)" by (simp_all add: l)
      then have i3: "aprs_base c (a2\<lparr>ai_rxbuf := x\<rparr>, t2)" "aprs_conn c (a2\<lparr>ai_rxbuf := x\<rparr>, t2)" for x
        using conn_cong [of "a2\<lparr>ai_rxbuf := x\<rparr>" a2 t2 t2 c for x] by (simp_all add: aprs_base_def)
      have z: "ai_state a2 = APRSIS_DISCONNECTED \<longrightarrow> ai_rxbuf a2 = []"
        using lines_state [of "(a\<lparr>ai_rxbuf := ?buf\<rparr>, t1)" now ls] assms(2) by (simp add: l st)
      have len: "length (ai_rxbuf a) + length d \<le> APRSIS_RXBUF - 1"
        using recv_short [OF r [unfolded RECV_DATA]] assms(1) by (auto simp: st aprs_inv_def APRSIS_RXBUF_def)
      have same: "length (ai_rxbuf a2) = length ?buf" if "ls = []" using l that by auto
      have e: "read_server now st =
          (if ai_state a2 = APRSIS_DISCONNECTED \<and> ls \<noteq> [] then (a2, t2)
           else if ls \<noteq> [] then (a2\<lparr>ai_rxbuf := rest\<rparr>, t2)
           else if APRSIS_RXBUF - 1 \<le> length ?buf then (a2\<lparr>ai_rxbuf := []\<rparr>, t2) else (a2, t2))"
        using False by (simp add: read_server_def st r [simplified] RECV_DATA s l Let_def)
      have "length rest < APRSIS_RXBUF - 1" if "ls \<noteq> []" using split_lines_length [OF s] len that by simp
      moreover have "length (ai_rxbuf a2) < APRSIS_RXBUF - 1" if "\<not> APRSIS_RXBUF - 1 \<le> length ?buf" "ls = []"
        using same that by simp
      ultimately show ?thesis unfolding e aprs_inv_def using i2 i3 z by (simp add: APRSIS_RXBUF_def)
    qed
  qed (use gone i in \<open>simp_all add: read_server_def st r [simplified]\<close>)
qed

lemma queue_inv:
  assumes "aprs_inv c (a, t)" "ai_state a = APRSIS_READY" "uplink c l"
  shows "aprs_inv c (tx_queue l a, t)"
proof (cases "APRSIS_TXBUF < length (ai_txbuf a) + length l")
  case True
  then show ?thesis using assms(1) conn_cong [of "a\<lparr>ai_dropped := ai_dropped a + 1\<rparr>" a t t c]
    by (simp add: tx_queue_def aprs_inv_def aprs_base_def)
next
  case False
  have "spoken c (ai_passcode a) ((stream (t_calls t) @ ai_txbuf a) @ l)"
    by (rule spoken_more [OF _ assms(3)]) (use assms in \<open>simp add: aprs_inv_def aprs_conn_def\<close>)
  then show ?thesis using assms False by (simp add: tx_queue_def aprs_inv_def aprs_base_def aprs_conn_def)
qed

lemma queue_state [simp]: "ai_state (tx_queue l a) = ai_state a"
  by (simp add: tx_queue_def)

lemma stat_inv [simp]:
  "aprs_inv c (a\<lparr>ai_gated := n\<rparr>, t) = aprs_inv c (a, t)" "aprs_inv c (a\<lparr>ai_beacons := n\<rparr>, t) = aprs_inv c (a, t)"
  "aprs_inv c (a\<lparr>ai_last_beacon_ms := now\<rparr>, t) = aprs_inv c (a, t)"
  using conn_cong [of "a\<lparr>ai_gated := n\<rparr>" a t t c] conn_cong [of "a\<lparr>ai_beacons := n\<rparr>" a t t c]
    conn_cong [of "a\<lparr>ai_last_beacon_ms := now\<rparr>" a t t c]
  by (simp_all add: aprs_inv_def aprs_base_def)

lemma connect_inv:
  assumes "aprs_inv c st" "ai_state (fst st) = APRSIS_DISCONNECTED"
  shows "aprs_inv c (start_connect now st)"
proof -
  obtain a t where st: "st = (a, t)" by fastforce
  let ?fd = "t_socket t (t_i t)"
  have a: "ai_fd a = -1" "ai_txbuf a = []" "ai_state a = APRSIS_DISCONNECTED" using assms by (auto simp: st aprs_inv_def aprs_conn_def)
  have 1: "aprs_inv c (go_disconnected now True (a, tcp_tick t))"
    using assms(1) by (intro disconnected_inv) (simp add: st aprs_inv_def aprs_base_def)
  have 2: "aprs_inv c (go_disconnected now True (a\<lparr>ai_fd := ?fd, ai_deadline_ms := now + 10000\<rparr>, tcp_tick (tcp_do (TcpOpen ?fd) (tcp_tick t))))"
    if "0 \<le> ?fd"
    using assms(1) a spoken_login that by (intro disconnected_inv) (auto simp: st aprs_inv_def aprs_base_def)
  have 3: "aprs_inv c (a\<lparr>ai_fd := ?fd, ai_deadline_ms := now + 10000, ai_state := APRSIS_CONNECTING\<rparr>, tcp_tick (tcp_do (TcpOpen ?fd) (tcp_tick t)))"
    if "0 \<le> ?fd"
    using assms(1) a spoken_login that by (auto simp: st aprs_inv_def aprs_base_def aprs_conn_def)
  show ?thesis using 1 2 3 by (auto simp: st start_connect_def Let_def)
qed

lemma login_inv:
  assumes "aprs_inv c (a, t)" "ai_state a = APRSIS_CONNECTING"
  shows "aprs_inv c (send_login c now a, t)"
proof -
  have "ai_txbuf a = []" "stream (t_calls t) = []" "0 \<le> ai_fd a" using assms by (auto simp: aprs_inv_def aprs_conn_def)
  moreover have "length (login_line c (ai_passcode a)) \<le> 2048" using login_short [of c "ai_passcode a"] by linarith
  ultimately show ?thesis using assms
    by (simp add: send_login_def tx_queue_def aprs_inv_def aprs_base_def aprs_conn_def APRSIS_TXBUF_def)
qed

lemma service_inv:
  assumes "aprs_inv c st"
  shows "aprs_inv c (aprsis_service c now ev st)"
proof -
  obtain a t where st: "st = (a, t)" by fastforce
  have gone: "aprs_inv c (go_disconnected now True x)" if "aprs_inv c x" for x
    by (rule disconnected_inv) (use that in \<open>simp add: aprs_inv_def\<close>)
  have tick: "aprs_inv c (x, tcp_tick t)" if "aprs_inv c (x, t)" for x
    using that inv_calls [of "tcp_tick t" t c x] by simp
  have con: "aprs_inv c (service_connecting c now ev (a, t))" if "ai_state a = APRSIS_CONNECTING"
  proof -
    have i: "aprs_inv c (a, t)" using assms st by simp
    then show ?thesis
      using gone [OF i] gone [OF tick [OF i]] flush_inv [OF tick [OF login_inv [OF i that]]]
      by (simp add: service_connecting_def Let_def)
  qed
  have up: "aprs_inv c (service_connected c now ev st)" if "ai_state a \<noteq> APRSIS_DISCONNECTED"
  proof -
    define x where "x = (if ev_in ev then read_server now st else st)"
    have x: "aprs_inv c x" using assms read_inv [OF assms] that by (simp add: x_def st)
    define y where "y = tx_flush now x"
    have y: "aprs_inv c y" unfolding y_def by (rule flush_inv [OF x])
    have b: "aprs_inv c (send_beacon c now y)" if r: "ai_state (fst y) = APRSIS_READY"
    proof (cases y)
      case (Pair a' t')
      have "aprs_inv c (tx_queue (build_beacon c) a', t')"
        using y r by (intro queue_inv) (simp_all add: Pair uplink_def)
      from flush_inv [OF this, of now] show ?thesis using y
        by (cases "tx_flush now (tx_queue (build_beacon c) a', t')") (simp add: send_beacon_def Pair Let_def)
    qed
    show ?thesis unfolding service_connected_def Let_def x_def [symmetric] y_def [symmetric]
      using gone [OF assms] x y gone [OF y] b by simp
  qed
  show ?thesis using connect_inv [OF assms] con up assms
    by (cases "ai_state a") (simp_all add: aprsis_service_def st)
qed

lemma rate_inv:
  assumes "rate_ok c call now lat lon a = (ok, a')" "aprs_inv c (a, t)"
  shows "aprs_inv c (a', t) \<and> ai_state a' = ai_state a"
proof -
  have "a' = a\<lparr>ai_nodes := ai_nodes a'\<rparr> \<and> (length (ai_nodes a) \<le> APRSIS_MAX_NODES \<longrightarrow> length (ai_nodes a') \<le> APRSIS_MAX_NODES)"
    using assms(1) by (auto simp: rate_ok_def Let_def split: option.splits if_splits)
  then obtain xs where "a' = a\<lparr>ai_nodes := xs\<rparr>" "length (ai_nodes a) \<le> APRSIS_MAX_NODES \<longrightarrow> length xs \<le> APRSIS_MAX_NODES"
    by blast
  then show ?thesis using assms(2) conn_cong [of "a\<lparr>ai_nodes := xs\<rparr>" a t t c]
    by (simp add: aprs_inv_def aprs_base_def)
qed

lemma gate_inv:
  assumes "aprs_inv c (a, t)"
  shows "aprs_inv c (aprsis_gate_node c now nm typ lat lon pk a, t)"
proof (cases "ai_state a \<noteq> APRSIS_READY \<or> pk = ai_pub a \<or> typ \<noteq> 1 \<and> typ \<noteq> 2 \<or> aprsis_valid_callsign nm 12 = None")
  case True
  then show ?thesis using assms by (auto simp: aprsis_gate_node_def)
next
  case False
  then obtain call where call: "aprsis_valid_callsign nm 12 = Some call" by blast
  obtain ok a' where r: "rate_ok c call now lat lon a = (ok, a')" by fastforce
  note i = rate_inv [OF r assms]
  have "aprs_inv c (tx_queue (gate_line c call ps typ) a', t)"
    if "aprs_make_position 64 lat lon (-1) (-1) (aprs_node_symbol (aprs c)) = Some ps" for ps
  proof (rule queue_inv)
    show "uplink c (gate_line c call ps typ)" unfolding uplink_def using call that False by blast
  qed (use i False in simp_all)
  then show ?thesis using i False call r
    by (auto simp: aprsis_gate_node_def Let_def split: option.split bool.split)
qed

section \<open>Every run\<close>

text \<open>
  The states the gateway can reach from its start, under one configuration: an edit from the console
  between two turns is not part of a run.
\<close>

inductive aprs_reach :: "mc_config \<Rightarrow> mc_aprsis \<times> tcp \<Rightarrow> bool" for c where
  aprs_start: "t_calls t = [] \<Longrightarrow> aprs_reach c (snd (aprsis_init c our_pub known), t)"
| aprs_turn: "aprs_reach c st \<Longrightarrow> aprs_reach c (aprsis_service c now ev st)"
| aprs_heard: "aprs_reach c (a, t) \<Longrightarrow> aprs_reach c (aprsis_gate_node c now nm typ lat lon pk a, t)"

lemma init_inv: "t_calls t = [] \<Longrightarrow> aprs_inv c (snd (aprsis_init c our_pub known), t)"
  using spoken_login
  by (auto simp: aprsis_init_def zero_aprsis_def aprs_inv_def aprs_base_def aprs_conn_def Let_def
      APRSIS_RXBUF_def)

lemma aprs_reach_inv: "aprs_reach c st \<Longrightarrow> aprs_inv c st"
  by (induction rule: aprs_reach.induct) (auto intro: init_inv service_inv gate_inv)

section \<open>Becoming ready\<close>

definition verifies :: "bytes \<Rightarrow> bool" where
  \<comment> \<open>a line of the server that accepts the log-in\<close>
  "verifies l \<longleftrightarrow> take 1 l = [35] \<and> strstr l (lit ''logresp'') \<noteq> None \<and> strstr l (lit '' verified,'') \<noteq> None"

lemma line_ready:
  assumes "ai_state (fst st) \<noteq> APRSIS_READY" "ai_state (fst (handle_server_line l now st)) = APRSIS_READY"
  shows "ai_state (fst st) = APRSIS_LOGIN \<and> verifies l"
  using assms by (auto simp: handle_server_line_def verifies_def go_disconnected_def Let_def split: if_splits prod.splits)

lemma lines_ready:
  "ai_state (fst st) \<noteq> APRSIS_READY \<Longrightarrow> ai_state (fst (server_lines now ls st)) = APRSIS_READY \<Longrightarrow>
   \<exists>l \<in> set ls. verifies (server_text l)"
proof (induction now ls st rule: server_lines.induct)
  case (2 now l ls st)
  show ?case
  proof (cases "ai_state (fst (handle_server_line (server_text l) now st)) = APRSIS_READY")
    case True
    then show ?thesis using line_ready [OF 2(2) True] by simp
  next
    case False
    then show ?thesis using 2(1) [OF refl _ False] 2(3) by (auto simp: Let_def split: if_splits)
  qed
qed simp

lemma disconnected_state [simp]:
  "ai_state (fst (go_disconnected now b st)) = APRSIS_DISCONNECTED"
  "ai_resolved (fst (go_disconnected now b st)) = ai_resolved (fst st)"
  by (simp_all add: go_disconnected_def Let_def split: prod.split)

lemma connect_state:
  "ai_state (fst (start_connect now st)) \<in> {APRSIS_DISCONNECTED, APRSIS_CONNECTING}"
  "ai_resolved (fst (start_connect now st)) = ai_resolved (fst st)"
  by (simp_all add: start_connect_def Let_def split: prod.split)

lemma read_ready:
  assumes "ai_state a \<noteq> APRSIS_READY" "ai_state (fst (read_server now (a, t))) = APRSIS_READY"
  shows "\<exists>d t'. tcp_recv (APRSIS_RXBUF - 1 - length (ai_rxbuf a)) t = (RECV_DATA d, t') \<and>
    (\<exists>l \<in> set (fst (split_lines [] (ai_rxbuf a @ d))). verifies (server_text l))"
proof -
  obtain r t1 where r: "tcp_recv (APRSIS_RXBUF - 1 - length (ai_rxbuf a)) t = (r, t1)" by fastforce
  show ?thesis
  proof (cases r)
    case (RECV_DATA d)
    let ?ls = "fst (split_lines [] (ai_rxbuf a @ d))"
    have "ai_state (fst (server_lines now ?ls (a\<lparr>ai_rxbuf := ai_rxbuf a @ d\<rparr>, t1))) = APRSIS_READY"
      using assms(2) by (auto simp: read_server_def r [simplified] RECV_DATA Let_def split: if_splits prod.splits)
    then show ?thesis using lines_ready [of "(a\<lparr>ai_rxbuf := ai_rxbuf a @ d\<rparr>, t1)" now ?ls] assms(1) r RECV_DATA by auto
  qed (use assms r [simplified] in \<open>auto simp: read_server_def\<close>)
qed

lemma service_ready:
  assumes "ai_state a \<noteq> APRSIS_READY" "ai_state (fst (aprsis_service c now ev (a, t))) = APRSIS_READY"
  shows "ai_state a = APRSIS_LOGIN \<and>
    (\<exists>d t'. tcp_recv (APRSIS_RXBUF - 1 - length (ai_rxbuf a)) t = (RECV_DATA d, t') \<and>
      (\<exists>l \<in> set (fst (split_lines [] (ai_rxbuf a @ d))). verifies (server_text l)))"
proof (cases "ai_state a")
  case APRSIS_DISCONNECTED
  then show ?thesis using assms connect_state(1) [of now "(a, t)"] by (auto simp: aprsis_service_def split: if_splits)
next
  case APRSIS_CONNECTING
  then show ?thesis using assms flush_state [of now "(send_login c now a, tcp_tick t)"]
    by (auto simp: aprsis_service_def service_connecting_def Let_def send_login_def split: if_splits)
next
  case APRSIS_LOGIN
  define x where "x = (if ev_in ev then read_server now (a, t) else (a, t))"
  have "ai_state (fst x) = APRSIS_READY"
    using assms flush_state [of now x] APRSIS_LOGIN
    by (auto simp: aprsis_service_def service_connected_def x_def [symmetric] Let_def split: if_splits)
  then show ?thesis using read_ready [OF assms(1)] APRSIS_LOGIN by (auto simp: x_def split: if_splits)
qed (use assms in simp)

section \<open>A server that was not found\<close>

lemma read_resolved:
  assumes "ai_state (fst st) \<noteq> APRSIS_DISCONNECTED"
  shows "ai_resolved (fst (read_server now st)) = ai_resolved (fst st)"
proof -
  obtain a t where st: "st = (a, t)" by fastforce
  obtain r t1 where r: "tcp_recv (APRSIS_RXBUF - 1 - length (ai_rxbuf a)) t = (r, t1)" by fastforce
  have "ai_resolved (fst (server_lines now ls (a\<lparr>ai_rxbuf := b\<rparr>, t1))) = ai_resolved a" for ls b
    using lines_state [of "(a\<lparr>ai_rxbuf := b\<rparr>, t1)" now ls] assms by (simp add: st)
  then show ?thesis by (auto simp: st read_server_def r [simplified] Let_def split_beta split: recv_result.split)
qed

lemma beacon_resolved: "ai_resolved (fst (send_beacon c now st)) = ai_resolved (fst st)"
  using flush_state [of now "(tx_queue (build_beacon c) (fst st), snd st)"]
  by (auto simp: send_beacon_def Let_def split_beta tx_queue_def)

lemma service_resolved: "ai_resolved (fst (aprsis_service c now ev st)) = ai_resolved (fst st)"
proof -
  obtain a t where st: "st = (a, t)" by fastforce
  have l: "ai_resolved (fst (tx_flush now (send_login c now a, t'))) = ai_resolved a" for t'
    using flush_state [of now "(send_login c now a, t')"] by (simp add: send_login_def tx_queue_def)
  have r: "ai_state a \<noteq> APRSIS_DISCONNECTED \<Longrightarrow> ai_resolved (fst (tx_flush now (read_server now (a, t)))) = ai_resolved a"
    using flush_state [of now "read_server now (a, t)"] read_resolved [of "(a, t)" now] by simp
  have f: "ai_resolved (fst (tx_flush now (a, t))) = ai_resolved a" using flush_state [of now "(a, t)"] by simp
  show ?thesis
    using l r f read_resolved [of "(a, t)" now] connect_state(2) [of now "(a, t)"]
    by (cases "ai_state a") (auto simp: st aprsis_service_def service_connecting_def service_connected_def Let_def beacon_resolved)
qed

lemma gate_off: "ai_state a \<noteq> APRSIS_READY \<Longrightarrow> aprsis_gate_node c now nm typ lat lon pk a = a"
  by (simp add: aprsis_gate_node_def)

lemma gate_resolved: "ai_resolved (aprsis_gate_node c now nm typ lat lon pk a) = ai_resolved a"
  by (auto simp: aprsis_gate_node_def rate_ok_def tx_queue_def Let_def split: option.split bool.split)

lemma unresolved_never_connects:
  "aprs_reach c st \<Longrightarrow> \<not> ai_resolved (fst st) \<Longrightarrow> ai_state (fst st) = APRSIS_DISCONNECTED \<and> t_calls (snd st) = []"
proof (induction rule: aprs_reach.induct)
  case (aprs_start t our_pub known)
  then show ?case by (auto simp: aprsis_init_def zero_aprsis_def Let_def)
next
  case (aprs_turn st now ev)
  then show ?case by (simp add: service_resolved) (simp add: aprsis_service_def)
next
  case (aprs_heard a t now nm ty lat lon pk)
  then show ?case by (simp add: gate_resolved gate_off)
qed

end
