(* ===== verification/Monitor.thy ===== *)
theory Monitor
  imports World Double "HOL-Library.Multiset"
begin

text \<open>
  The live monitors of the control interface (\<^verbatim>\<open>monitor.c\<close>): a table of up to four clients, the
  test each event makes of them, the lines the events print, and the two loops over the table,
  which run from its end because dropping a client moves the last one into its place. Both loops
  are instances of \<open>sweep\<close>, which is shown to treat every client exactly once whatever is dropped
  on the way (\<open>sweep_visits\<close>).

  \<open>mon_io\<close> holds the answers \<^verbatim>\<open>write\<close> and \<^verbatim>\<open>read\<close> will give and the calls made so far. The time of
  day of a line is an argument.
\<close>

section \<open>State\<close>

datatype mon_kind = MON_ALL | MON_PUBLIC | MON_CHANNEL | MON_ROOM | MON_ADVERT | MON_DROP | MON_TX

record mon_conn =
  mc_fd :: int
  mc_kind :: mon_kind
  mc_target :: bytes

text \<open>The entries \<^verbatim>\<open>conn[0]\<close> to \<^verbatim>\<open>conn[n - 1]\<close> of the table.\<close>

type_synonym mc_monitor = "mon_conn list"

definition MC_MAX_MONITORS :: nat where "MC_MAX_MONITORS = 4"
definition MC_MON_TARGET_LEN :: nat where "MC_MON_TARGET_LEN = 40"

datatype io_result = IO_COUNT nat | IO_AGAIN | IO_ERROR

datatype mon_call = MonWrite int bytes | MonClose int | MonNonblock int

record mon_io =
  io_write :: "nat \<Rightarrow> io_result"
  io_write_i :: nat
  io_read :: "nat \<Rightarrow> io_result"
  io_read_i :: nat
  io_calls :: "mon_call list"

definition io_do :: "mon_call \<Rightarrow> mon_io \<Rightarrow> mon_io" where
  "io_do c io = io\<lparr>io_calls := io_calls io @ [c]\<rparr>"

definition do_write :: "int \<Rightarrow> bytes \<Rightarrow> mon_io \<Rightarrow> io_result \<times> mon_io" where
  "do_write fd s io = (io_write io (io_write_i io), io_do (MonWrite fd s) (io\<lparr>io_write_i := io_write_i io + 1\<rparr>))"

definition do_read :: "mon_io \<Rightarrow> io_result \<times> mon_io" where
  "do_read io = (io_read io (io_read_i io), io\<lparr>io_read_i := io_read_i io + 1\<rparr>)"

section \<open>The table\<close>

definition mon_drop :: "nat \<Rightarrow> mc_monitor \<times> mon_io \<Rightarrow> mc_monitor \<times> mon_io" where
  "mon_drop idx st =
     (let (xs, io) = st in (butlast (xs[idx := last xs]), io_do (MonClose (mc_fd (xs ! idx))) io))"

fun sweep :: "(nat \<Rightarrow> mon_conn \<Rightarrow> mon_io \<Rightarrow> bool \<times> mon_io) \<Rightarrow> nat \<Rightarrow> mc_monitor \<times> mon_io \<Rightarrow> mc_monitor \<times> mon_io" where
  \<comment> \<open>\<open>for (i = k - 1; i >= 0; i--)\<close> with a body that says whether entry \<open>i\<close> is to be dropped\<close>
  "sweep f 0 st = st"
| "sweep f (Suc i) (xs, io) =
     (let (gone, io) = f i (xs ! i) io
      in sweep f i (if gone then mon_drop i (xs, io) else (xs, io)))"

definition mon_write :: "bytes \<Rightarrow> mon_conn \<Rightarrow> mon_io \<Rightarrow> bool \<times> mon_io" where
  \<comment> \<open>one write; whether it failed for good\<close>
  "mon_write s c io = (let (r, io) = do_write (mc_fd c) s io in (r = IO_ERROR, io))"

definition mon_send :: "(mon_conn \<Rightarrow> bool) \<Rightarrow> nat \<Rightarrow> bytes \<Rightarrow> mc_monitor \<times> mon_io \<Rightarrow> mc_monitor \<times> mon_io" where
  \<comment> \<open>the loop that ends every event: the line, cut to a buffer of \<open>sz\<close> bytes, to the clients that want it\<close>
  "mon_send wants sz s st =
     sweep (\<lambda>i c io. if wants c then mon_write (snprintf_s sz s) c io else (False, io)) (length (fst st)) st"

section \<open>Registering a client\<close>

definition mon_target :: "bytes \<Rightarrow> bytes" where
  "mon_target cmdline = dropWhile is_blank (dropWhile (\<lambda>b. \<not> is_blank b) cmdline)"

definition mon_parse :: "bytes \<Rightarrow> mon_kind \<times> bytes" where
  "mon_parse p =
     (if p = [] \<or> strcaseeq p (lit ''all'') then (MON_ALL, [])
      else if hd p = 35 then (MON_ROOM, snprintf_s MC_MON_TARGET_LEN p)
      else if strcaseeq p (lit ''public'') then (MON_PUBLIC, [])
      else if strcaseeq p (lit ''adverts'') \<or> strcaseeq p (lit ''advert'') then (MON_ADVERT, [])
      else if strcaseeq p (lit ''drops'') \<or> strcaseeq p (lit ''drop'') then (MON_DROP, [])
      else if strcaseeq p (lit ''tx'') then (MON_TX, [])
      else (MON_CHANNEL, snprintf_s MC_MON_TARGET_LEN p))"

definition mon_what :: "mon_kind \<Rightarrow> bytes \<Rightarrow> bytes" where
  "mon_what k target =
     (case k of
        MON_ALL \<Rightarrow> lit ''all activity (public msgs, region hits, adverts, drops, tx)''
      | MON_PUBLIC \<Rightarrow> lit ''all public channels''
      | MON_ADVERT \<Rightarrow> lit ''adverts''
      | MON_DROP \<Rightarrow> lit ''drops''
      | MON_TX \<Rightarrow> lit ''transmissions''
      | MON_ROOM \<Rightarrow> target
      | MON_CHANNEL \<Rightarrow> target)"

definition monitor_add :: "int \<Rightarrow> bytes \<Rightarrow> mc_monitor \<times> mon_io \<Rightarrow> bool \<times> mc_monitor \<times> mon_io" where
  "monitor_add fd cmdline st =
     (let (xs, io) = st; (k, target) = mon_parse (mon_target cmdline) in
      if MC_MAX_MONITORS \<le> length xs then
        (False, xs, snd (do_write fd (lit ''monitor: too many active monitors (max '' @ dec_nat MC_MAX_MONITORS @ lit '')'' @ [10]) io))
      else
        let io = io_do (MonNonblock fd) io;
            hdr = lit ''# monitoring '' @ mon_what k target
                  @ (if k = MON_ROOM then lit '' (region: opaque, metadata only)'' else [])
                  @ lit '' - Ctrl-C to stop'' @ [10]
        in (True, xs @ [\<lparr>mc_fd = fd, mc_kind = k, mc_target = target\<rparr>], snd (do_write fd hdr io)))"

section \<open>Who wants an event\<close>

definition monitor_wants_public :: "mon_conn \<Rightarrow> bytes \<Rightarrow> bool" where
  "monitor_wants_public c chan =
     (case mc_kind c of
        MON_ALL \<Rightarrow> True
      | MON_PUBLIC \<Rightarrow> True
      | MON_CHANNEL \<Rightarrow> chan \<noteq> [] \<and> strcaseeq (mc_target c) chan
      | MON_ROOM \<Rightarrow> chan \<noteq> [] \<and> mc_target c = chan
      | _ \<Rightarrow> False)"

definition monitor_wants_room :: "mon_conn \<Rightarrow> bytes \<Rightarrow> bool" where
  "monitor_wants_room c room = (mc_kind c = MON_ALL \<or> mc_kind c = MON_ROOM \<and> mc_target c = room)"

definition monitor_wants_advert :: "mon_conn \<Rightarrow> bool" where
  "monitor_wants_advert c = (mc_kind c = MON_ALL \<or> mc_kind c = MON_ADVERT)"

definition monitor_wants_drop :: "mon_conn \<Rightarrow> bool" where
  "monitor_wants_drop c = (mc_kind c = MON_ALL \<or> mc_kind c = MON_DROP)"

definition monitor_wants_tx :: "mon_conn \<Rightarrow> bool" where
  "monitor_wants_tx c = (mc_kind c = MON_ALL \<or> mc_kind c = MON_TX)"

section \<open>The events\<close>

definition sig_str :: "int \<Rightarrow> int \<Rightarrow> bytes" where
  \<comment> \<open>an RSSI of \<open>-32768\<close> marks a frame that came over the backbone\<close>
  "sig_str rssi snr_q =
     (if rssi = -32768 then lit ''via backbone''
      else lit ''rssi '' @ dec_int rssi @ lit '' snr '' @ fmt_quarter snr_q)"

definition public_line :: "bytes \<Rightarrow> bytes \<Rightarrow> bytes \<Rightarrow> int \<Rightarrow> int \<Rightarrow> bytes" where
  "public_line t chan txt rssi snr_q =
     t @ lit '' [public '' @ (if chan \<noteq> [] then chan else lit ''-'') @ lit ''] '' @ txt
     @ lit ''  ('' @ sig_str rssi snr_q @ lit '')'' @ [10]"

definition monitor_public :: "bytes \<Rightarrow> bytes \<Rightarrow> bytes \<Rightarrow> int \<Rightarrow> int \<Rightarrow> mc_monitor \<times> mon_io \<Rightarrow> mc_monitor \<times> mon_io" where
  "monitor_public t chan txt rssi snr_q =
     mon_send (\<lambda>c. monitor_wants_public c chan) 600 (public_line t chan txt rssi snr_q)"

definition region_line :: "bytes \<Rightarrow> bytes \<Rightarrow> byte \<Rightarrow> nat \<Rightarrow> int \<Rightarrow> int \<Rightarrow> bytes" where
  "region_line t room ptype len_b rssi snr_q =
     t @ lit '' [room '' @ room @ lit ''] relayed  type=0x'' @ hex_fixed True 2 (unat ptype)
     @ lit ''  len='' @ dec_nat len_b @ lit ''B  ('' @ sig_str rssi snr_q @ lit '')'' @ [10]"

definition monitor_region :: "bytes \<Rightarrow> bytes \<Rightarrow> byte \<Rightarrow> nat \<Rightarrow> int \<Rightarrow> int \<Rightarrow> mc_monitor \<times> mon_io \<Rightarrow> mc_monitor \<times> mon_io" where
  "monitor_region t room ptype len_b rssi snr_q =
     mon_send (\<lambda>c. monitor_wants_room c room) 256 (region_line t room ptype len_b rssi snr_q)"

definition advert_line :: "bytes \<Rightarrow> bytes \<Rightarrow> byte \<Rightarrow> (rat \<times> rat) option \<Rightarrow> int \<Rightarrow> int \<Rightarrow> bytes" where
  "advert_line t nm atype loc rssi snr_q =
     t @ lit '' [advert] '' @ [39] @ (if nm \<noteq> [] then nm else lit ''?'') @ [39] @ lit '' type='' @ dec_nat (unat atype)
     @ (case loc of
          Some (lat, lon) \<Rightarrow> lit ''  loc '' @ fmt_f 5 lat @ lit '','' @ fmt_f 5 lon
        | None \<Rightarrow> [])
     @ lit ''  ('' @ sig_str rssi snr_q @ lit '')'' @ [10]"

definition monitor_advert :: "bytes \<Rightarrow> bytes \<Rightarrow> byte \<Rightarrow> (rat \<times> rat) option \<Rightarrow> int \<Rightarrow> int \<Rightarrow> mc_monitor \<times> mon_io \<Rightarrow> mc_monitor \<times> mon_io" where
  "monitor_advert t nm atype loc rssi snr_q =
     mon_send monitor_wants_advert 200 (advert_line t nm atype loc rssi snr_q)"

definition drop_line :: "bytes \<Rightarrow> byte \<Rightarrow> bytes \<Rightarrow> int \<Rightarrow> bytes" where
  "drop_line t ptype reason chan_hash =
     t @ lit '' [drop] type=0x'' @ hex_fixed True 2 (unat ptype)
     @ (if 0 \<le> chan_hash then lit '' chan=0x'' @ hex_fixed True 2 (nat chan_hash) else [])
     @ lit ''  '' @ reason @ [10]"

definition monitor_drop :: "bytes \<Rightarrow> byte \<Rightarrow> bytes \<Rightarrow> int \<Rightarrow> mc_monitor \<times> mon_io \<Rightarrow> mc_monitor \<times> mon_io" where
  "monitor_drop t ptype reason chan_hash = mon_send monitor_wants_drop 200 (drop_line t ptype reason chan_hash)"

definition tx_line :: "bytes \<Rightarrow> bytes \<Rightarrow> bool \<Rightarrow> nat \<Rightarrow> nat \<Rightarrow> int \<Rightarrow> u32 \<Rightarrow> bytes \<Rightarrow> bytes" where
  "tx_line t ptype fld len_b hops power_dbm airtime_ms detail =
     t @ lit '' [tx] '' @ ptype @ lit '' '' @ (if fld then lit ''flood'' else lit ''direct'') @ lit '' ''
     @ dec_nat len_b @ lit ''B '' @ dec_nat hops @ lit ''hop '' @ dec_int power_dbm @ lit ''dBm ''
     @ dec_nat (unat airtime_ms) @ lit ''ms'' @ (if detail \<noteq> [] then lit ''  '' else []) @ detail @ [10]"

definition monitor_tx :: "bytes \<Rightarrow> bytes \<Rightarrow> bool \<Rightarrow> nat \<Rightarrow> nat \<Rightarrow> int \<Rightarrow> u32 \<Rightarrow> bytes \<Rightarrow> mc_monitor \<times> mon_io \<Rightarrow> mc_monitor \<times> mon_io" where
  "monitor_tx t ptype fld len_b hops power_dbm airtime_ms detail =
     mon_send monitor_wants_tx 600 (tx_line t ptype fld len_b hops power_dbm airtime_ms detail)"

definition degrees :: "int \<times> int \<Rightarrow> rat \<times> rat" where
  \<comment> \<open>the coordinates of an advert, read as \<open>lat / 1e6\<close> and \<open>lon / 1e6\<close>\<close>
  "degrees l = (dbl (of_int (fst l) / 1000000), dbl (of_int (snd l) / 1000000))"

definition mon_tell :: "bytes \<Rightarrow> effect \<Rightarrow> mc_monitor \<times> mon_io \<Rightarrow> mc_monitor \<times> mon_io" where
  \<comment> \<open>the calls the mesh makes, as the effects that stand for them\<close>
  "mon_tell t ef =
     (case ef of
        MonPublic chan txt rssi snr_q \<Rightarrow> monitor_public t chan txt rssi snr_q
      | MonRegion room ptype len_b rssi snr_q \<Rightarrow> monitor_region t room ptype len_b rssi snr_q
      | MonAdvert nm atype loc rssi snr_q \<Rightarrow> monitor_advert t nm atype (map_option degrees loc) rssi snr_q
      | MonDrop ptype reason chan_hash \<Rightarrow> monitor_drop t ptype reason chan_hash
      | MonTx ptype fld len_b hops power_dbm airtime_ms detail \<Rightarrow>
          monitor_tx t ptype fld len_b hops power_dbm airtime_ms detail
      | _ \<Rightarrow> (\<lambda>st. st))"

section \<open>Clients that went away\<close>

datatype poll_bits = POLL_NONE | POLL_HUNG | POLL_READABLE

definition monitor_pollfds :: "mc_monitor \<Rightarrow> nat \<Rightarrow> int list" where
  "monitor_pollfds xs mx = take mx (map mc_fd xs)"

definition mon_gone :: "poll_bits list \<Rightarrow> nat \<Rightarrow> mon_conn \<Rightarrow> mon_io \<Rightarrow> bool \<times> mon_io" where
  "mon_gone pfd i c io =
     (case pfd ! i of
        POLL_HUNG \<Rightarrow> (True, io)
      | POLL_READABLE \<Rightarrow> (let (r, io) = do_read io in (r = IO_COUNT 0 \<or> r = IO_ERROR, io))
      | POLL_NONE \<Rightarrow> (False, io))"

definition monitor_reap :: "poll_bits list \<Rightarrow> mc_monitor \<times> mon_io \<Rightarrow> mc_monitor \<times> mon_io" where
  "monitor_reap pfd st = sweep (mon_gone pfd) (min (length pfd) (length (fst st))) st"

section \<open>Every client once\<close>

fun visit :: "(nat \<Rightarrow> mon_conn \<Rightarrow> mon_io \<Rightarrow> bool \<times> mon_io) \<Rightarrow> (nat \<times> mon_conn) list \<Rightarrow> mon_io \<Rightarrow> mon_conn list \<times> mon_io" where
  \<comment> \<open>the specification of \<open>sweep\<close>: the clients in turn, with those that stay\<close>
  "visit f [] io = ([], io)"
| "visit f ((i, c) # cs) io =
     (let (gone, io) = f i c io in
      if gone then visit f cs (io_do (MonClose (mc_fd c)) io)
      else let (ks, io) = visit f cs io in (c # ks, io))"

lemma zip_upt_Suc: "i < length xs \<Longrightarrow> rev (zip [0..<Suc i] (take (Suc i) xs)) = (i, xs ! i) # rev (zip [0..<i] (take i xs))"
  by (simp add: take_Suc_conv_app_nth zip_append)

lemma drop_moved:
  assumes "i < length xs"
  shows "mset (drop i (butlast (xs[i := last xs]))) = mset (drop (Suc i) xs)"
proof -
  have "drop i (butlast (xs[i := last xs])) = butlast (last xs # drop (Suc i) xs)"
    using assms by (simp add: butlast_drop [symmetric] drop_update_swap Cons_nth_drop_Suc [symmetric] del: drop_Suc)
  moreover have "mset (butlast (last xs # drop (Suc i) xs)) = mset (drop (Suc i) xs)"
  proof (cases "drop (Suc i) xs = []")
    case False
    then have "mset (drop (Suc i) xs) = mset (butlast (drop (Suc i) xs) @ [last xs])"
      using append_butlast_last_id [OF False] by (metis drop_eq_Nil last_drop linorder_not_le)
    with False show ?thesis by simp
  qed simp
  ultimately show ?thesis by simp
qed

lemma sweep_visits:
  assumes "k \<le> length xs"
  shows "snd (sweep f k (xs, io)) = snd (visit f (rev (zip [0..<k] (take k xs))) io) \<and>
         mset (fst (sweep f k (xs, io))) = mset (drop k xs) + mset (fst (visit f (rev (zip [0..<k] (take k xs))) io))"
  using assms
proof (induction k arbitrary: xs io)
  case (Suc i)
  obtain gone io1 where f: "f i (xs ! i) io = (gone, io1)" by fastforce
  note z = zip_upt_Suc [of i xs]
  show ?case
  proof (cases gone)
    case False
    then show ?thesis using Suc.IH [of xs io1] Suc.prems f z
      by (simp add: Cons_nth_drop_Suc [symmetric] del: upt_Suc split: prod.split)
  next
    case True
    let ?ys = "butlast (xs[i := last xs])"
    have "take i ?ys = take i xs" using Suc.prems by (simp add: take_butlast)
    then show ?thesis using Suc.IH [of ?ys "io_do (MonClose (mc_fd (xs ! i))) io1"] Suc.prems f z True
      by (simp add: drop_moved mon_drop_def del: upt_Suc)
  qed
qed simp

section \<open>What an event does\<close>

definition event_wants :: "effect \<Rightarrow> mon_conn \<Rightarrow> bool" where
  "event_wants ef c =
     (case ef of
        MonPublic chan _ _ _ \<Rightarrow> monitor_wants_public c chan
      | MonRegion room _ _ _ _ \<Rightarrow> monitor_wants_room c room
      | MonAdvert _ _ _ _ _ \<Rightarrow> monitor_wants_advert c
      | MonDrop _ _ _ \<Rightarrow> monitor_wants_drop c
      | MonTx _ _ _ _ _ _ _ \<Rightarrow> monitor_wants_tx c
      | _ \<Rightarrow> False)"

definition event_line :: "bytes \<Rightarrow> effect \<Rightarrow> bytes" where
  "event_line t ef =
     (case ef of
        MonPublic chan txt rssi snr_q \<Rightarrow> snprintf_s 600 (public_line t chan txt rssi snr_q)
      | MonRegion room ptype len_b rssi snr_q \<Rightarrow> snprintf_s 256 (region_line t room ptype len_b rssi snr_q)
      | MonAdvert nm atype loc rssi snr_q \<Rightarrow> snprintf_s 200 (advert_line t nm atype (map_option degrees loc) rssi snr_q)
      | MonDrop ptype reason chan_hash \<Rightarrow> snprintf_s 200 (drop_line t ptype reason chan_hash)
      | MonTx ptype fld len_b hops power_dbm airtime_ms detail \<Rightarrow>
          snprintf_s 600 (tx_line t ptype fld len_b hops power_dbm airtime_ms detail)
      | _ \<Rightarrow> [])"

definition answers :: "mon_io \<Rightarrow> nat \<Rightarrow> io_result list" where
  \<comment> \<open>what the next \<open>n\<close> writes return\<close>
  "answers io n = map (\<lambda>j. io_write io (io_write_i io + j)) [0..<n]"

definition told :: "bytes \<Rightarrow> mon_conn \<times> io_result \<Rightarrow> mon_call list" where
  \<comment> \<open>the calls for one client: the line, and the end of a client that failed\<close>
  "told s x = MonWrite (mc_fd (fst x)) s # (if snd x = IO_ERROR then [MonClose (mc_fd (fst x))] else [])"

lemma io_do_calls [simp]: "io_calls (io_do e io) = io_calls io @ [e]"
  by (simp add: io_do_def)

lemma answers_Suc:
  "answers io (Suc n) = io_write io (io_write_i io) # answers (io\<lparr>io_write_i := Suc (io_write_i io)\<rparr>) n"
  by (simp add: answers_def upt_conv_Cons map_Suc_upt [symmetric] del: upt_Suc)

lemma answers_cong: "io_write io = io_write io' \<Longrightarrow> io_write_i io = io_write_i io' \<Longrightarrow> answers io n = answers io' n"
  by (simp add: answers_def)

lemma visit_send:
  fixes s wants
  defines "f \<equiv> \<lambda>i c io. if wants c then mon_write s c io else (False, io)"
  shows "let ts = filter wants (map snd ps); rs = zip ts (answers io (length ts)) in
         io_calls (snd (visit f ps io)) = io_calls io @ concat (map (told s) rs) \<and>
         mset (fst (visit f ps io)) =
           mset (filter (\<lambda>c. \<not> wants c) (map snd ps)) + mset (map fst (filter (\<lambda>x. snd x \<noteq> IO_ERROR) rs))"
proof (induction ps arbitrary: io)
  case (Cons p ps)
  obtain i c where p: "p = (i, c)" by fastforce
  show ?case
  proof (cases "wants c")
    case False
    then show ?thesis using Cons.IH [of io] by (simp add: p f_def Let_def split_beta)
  next
    case True
    let ?io = "snd (do_write (mc_fd c) s io)"
    have a: "answers (io_do e ?io) n = answers (io\<lparr>io_write_i := Suc (io_write_i io)\<rparr>) n"
      "answers ?io n = answers (io\<lparr>io_write_i := Suc (io_write_i io)\<rparr>) n" for e n
      by (auto intro!: answers_cong simp: do_write_def io_do_def)
    have w: "mon_write s c io = (io_write io (io_write_i io) = IO_ERROR, ?io)"
      by (simp add: mon_write_def do_write_def)
    have c: "io_calls ?io = io_calls io @ [MonWrite (mc_fd c) s]" by (simp add: do_write_def io_do_def)
    show ?thesis
      using Cons.IH [of ?io] Cons.IH [of "io_do (MonClose (mc_fd c)) ?io"] True w c
      by (auto simp: p f_def [abs_def] Let_def split_beta answers_Suc a told_def)
  qed
qed (simp add: answers_def)

lemma mon_send_spec:
  assumes "mon_send wants sz s (xs, io) = (ys, io')"
  shows "let ts = filter wants (rev xs); rs = zip ts (answers io (length ts)) in
         io_calls io' = io_calls io @ concat (map (told (snprintf_s sz s)) rs) \<and>
         mset ys = mset (filter (\<lambda>c. \<not> wants c) xs) + mset (map fst (filter (\<lambda>x. snd x \<noteq> IO_ERROR) rs))"
proof -
  have "map snd (rev (zip [0..<length xs] xs)) = rev xs" by (simp add: rev_map [symmetric])
  moreover have "mset (filter (\<lambda>c. \<not> wants c) (rev xs)) = mset (filter (\<lambda>c. \<not> wants c) xs)"
    by (simp add: rev_filter [symmetric])
  ultimately show ?thesis
    using sweep_visits [OF order_refl, of "\<lambda>i c io. if wants c then mon_write (snprintf_s sz s) c io else (False, io)" xs io]
      visit_send [of wants "rev (zip [0..<length xs] xs)" io "snprintf_s sz s"] assms
    by (simp add: mon_send_def Let_def)
qed

lemma mon_tell_send:
  "\<exists>sz s. event_line t ef = snprintf_s sz s \<and> mon_tell t ef = mon_send (event_wants ef) sz s \<or>
   mon_tell t ef = (\<lambda>st. st) \<and> (\<forall>c. \<not> event_wants ef c)"
  by (cases ef) (auto simp: event_line_def mon_tell_def event_wants_def [abs_def] monitor_public_def
    monitor_region_def monitor_advert_def monitor_drop_def monitor_tx_def)

section \<open>The table keeps its bounds\<close>

definition mon_ok :: "mc_monitor \<Rightarrow> bool" where
  "mon_ok xs \<longleftrightarrow> length xs \<le> MC_MAX_MONITORS \<and> (\<forall>c \<in> set xs. length (mc_target c) < MC_MON_TARGET_LEN)"

lemma visit_subset: "mset (fst (visit f ps io)) \<subseteq># mset (map snd ps)"
proof (induction f ps io rule: visit.induct)
  case (2 f i c cs io)
  obtain gone io1 where f: "f i c io = (gone, io1)" by fastforce
  show ?case
  proof (cases gone)
    case True
    then show ?thesis using 2(1) [OF f [symmetric] refl True] f
      by (auto intro: subset_mset.order_trans)
  next
    case False
    then show ?thesis using 2(2) [OF f [symmetric] refl False] f by (simp add: split_beta)
  qed
qed simp

lemma sweep_subset: "k \<le> length xs \<Longrightarrow> mset (fst (sweep f k (xs, io))) \<subseteq># mset xs"
proof -
  assume k: "k \<le> length xs"
  have "mset (map snd (rev (zip [0..<k] (take k xs)))) = mset (take k xs)"
    using k by (simp add: rev_map [symmetric] del: mset_map)
  then have "mset (fst (sweep f k (xs, io))) \<subseteq># mset (drop k xs) + mset (take k xs)"
    using sweep_visits [OF k, of f io] visit_subset [of f "rev (zip [0..<k] (take k xs))" io] by simp
  also have "mset (drop k xs) + mset (take k xs) = mset xs"
    by (metis append_take_drop_id mset_append union_commute)
  finally show ?thesis .
qed

lemma mon_ok_sub: "mset ys \<subseteq># mset xs \<Longrightarrow> mon_ok xs \<Longrightarrow> mon_ok ys"
  unfolding mon_ok_def by (metis mset_subset_eqD order_trans set_mset_mset size_mset size_mset_mono)

lemma sweep_ok: "k \<le> length (fst st) \<Longrightarrow> mon_ok (fst st) \<Longrightarrow> mon_ok (fst (sweep f k st))"
  by (metis mon_ok_sub prod.collapse sweep_subset)

lemma monitor_add_ok: "monitor_add fd cmd st = (b, st') \<Longrightarrow> mon_ok (fst st) \<Longrightarrow> mon_ok (fst st')"
  by (auto simp: monitor_add_def mon_parse_def mon_ok_def MC_MON_TARGET_LEN_def MC_MAX_MONITORS_def snprintf_s_def Let_def
      split: prod.splits if_splits)

lemma mon_tell_ok: "mon_ok (fst st) \<Longrightarrow> mon_ok (fst (mon_tell t ef st))"
  by (rule disjE [OF mon_tell_send [of t ef, unfolded ex_disj_distrib]]) (auto simp: mon_send_def intro!: sweep_ok)

lemma monitor_reap_ok: "mon_ok (fst st) \<Longrightarrow> mon_ok (fst (monitor_reap pfd st))"
  by (simp add: monitor_reap_def sweep_ok)

inductive mon_reach :: "mon_io \<Rightarrow> mc_monitor \<times> mon_io \<Rightarrow> bool" for io0 where
  mon_empty: "mon_reach io0 ([], io0)"
| mon_added: "mon_reach io0 st \<Longrightarrow> mon_reach io0 (snd (monitor_add fd cmd st))"
| mon_told: "mon_reach io0 st \<Longrightarrow> mon_reach io0 (mon_tell t ef st)"
| mon_reaped: "mon_reach io0 st \<Longrightarrow> mon_reach io0 (monitor_reap pfd st)"

lemma mon_reach_ok: "mon_reach io0 st \<Longrightarrow> mon_ok (fst st)"
proof (induction rule: mon_reach.induct)
  case mon_empty
  then show ?case by (simp add: mon_ok_def)
next
  case (mon_added st fd cmd)
  then show ?case using monitor_add_ok by (metis prod.collapse)
qed (rule mon_tell_ok monitor_reap_ok, assumption)+

end
