(* ===== verification/Console_Props.thy ===== *)
theory Console_Props
  imports Aprsis_Inv Monitor
begin

text \<open>
  What is proved of the two observers of the repeater: the APRS-IS gateway (\<^verbatim>\<open>aprs.c\<close>,
  \<^verbatim>\<open>aprsis.c\<close>) and the live monitors (\<^verbatim>\<open>monitor.c\<close>). The witnesses run the gateway against a server
  that accepts the log-in, and an event past a table with a client that went away.
\<close>

section \<open>The APRS-IS gateway\<close>

text \<open>C31: On every connection the gateway has ever opened it has sent nothing but the beginning of its
  log-in line followed by whole lines, each of them its own beacon or the position of a station with a
  valid call sign and a node type that may be gated; while the log-in is unanswered, nothing but the
  log-in. At most one descriptor is open, the one it polls, and all others were closed. The buffers
  stay within their sizes, the reader always has room for one more byte, and the wait between two
  attempts to connect stays between 5 and 300 seconds. (The runs keep the configuration they
  start with.)\<close>

theorem aprs_lines_whole:
  assumes "aprs_reach c (a, t)"
  shows "(\<exists>ls. list_all (uplink c) ls \<and> prefix (stream (t_calls t)) (login_line c (ai_passcode a) @ concat ls)) \<and>
    (ai_state a = APRSIS_LOGIN \<longrightarrow> prefix (stream (t_calls t)) (login_line c (ai_passcode a))) \<and>
    (ai_state a = APRSIS_READY \<longrightarrow>
       (\<exists>ls. list_all (uplink c) ls \<and> stream (t_calls t) @ ai_txbuf a = login_line c (ai_passcode a) @ concat ls)) \<and>
    open_fds (t_calls t) = (if 0 \<le> ai_fd a then [ai_fd a] else []) \<and>
    length (ai_txbuf a) \<le> 2048 \<and> length (ai_rxbuf a) < 599 \<and> length (ai_nodes a) \<le> 64 \<and>
    5 \<le> ai_backoff_s a \<and> ai_backoff_s a \<le> 300"
proof -
  have i: "aprs_base c (a, t)" "aprs_conn c (a, t)" "length (ai_rxbuf a) < APRSIS_RXBUF - 1"
    using aprs_reach_inv [OF assms] by (simp_all add: aprs_inv_def)
  have "ai_state a = APRSIS_LOGIN \<Longrightarrow> prefix (stream (t_calls t)) (login_line c (ai_passcode a))"
    using i(2) by (simp add: aprs_conn_def) (metis prefixI)
  then show ?thesis using i
    by (auto simp: aprs_base_def aprs_conn_def spoken_def APRSIS_TXBUF_def APRSIS_RXBUF_def APRSIS_MAX_NODES_def)
qed

definition demo_gate :: mc_config where
  "demo_gate = config_defaults\<lparr>aprs := (aprs config_defaults)\<lparr>aprs_enable := True, aprs_call := lit ''ON6URE-10'',
     aprs_beacon_interval := 0\<rparr>\<rparr>"

definition demo_tcp :: tcp where
  "demo_tcp = \<lparr>t_socket = \<lambda>_. 5, t_connect = \<lambda>_. CONN_PROGRESS, t_soerr = \<lambda>_. 0,
     t_recv = \<lambda>_. RECV_DATA (lit ''# logresp ON6URE-10 verified, server T2X'' @ [13, 10]), t_send = \<lambda>_. SOCK_TOOK 49,
     t_i = 0, t_calls = []\<rparr>"

definition demo_writable :: poll_events where
  "demo_writable = \<lparr>ev_err = False, ev_in = False, ev_out = True\<rparr>"

definition demo_readable :: poll_events where
  "demo_readable = \<lparr>ev_err = False, ev_in = True, ev_out = False\<rparr>"

definition demo_waiting :: "mc_aprsis \<times> tcp" where
  \<comment> \<open>connected, the log-in sent\<close>
  "demo_waiting = aprsis_service demo_gate 20 demo_writable
     (aprsis_service demo_gate 10 demo_writable (snd (aprsis_init demo_gate [] True), demo_tcp))"

lemma demo_waiting_reach: "aprs_reach demo_gate demo_waiting"
  unfolding demo_waiting_def by (intro aprs_turn aprs_start) (simp add: demo_tcp_def)

lemma demo_gate_fields:
  "aprs_enable (aprs demo_gate)" "aprs_call (aprs demo_gate) = lit ''ON6URE-10''"
  "aprs_passcode (aprs demo_gate) = lit ''auto''" "aprs_beacon_interval (aprs demo_gate) = 0"
  by (simp_all add: demo_gate_def config_defaults_def)

lemma demo_passcode: "aprsis_passcode (lit ''ON6URE-10'') = 22716"
  by code_simp

lemma demo_login:
  "login_line demo_gate 22716 = lit ''user ON6URE-10 pass 22716 vers meshcore-repeater 1.0'' @ [13, 10]"
proof -
  have "dec_int 22716 = lit ''22716''" by (simp add: dec_int_def dec_nat.simps)
  then show ?thesis unfolding login_line_def demo_gate_fields snprintf_s_def crlf_def
    by (simp del: take_Cons_numeral)
qed

lemma demo_init:
  "snd (aprsis_init demo_gate [] True) = (zero_aprsis [])\<lparr>ai_passcode := 22716, ai_resolved := True\<rparr>"
proof -
  have "lit ''ON6URE-10'' \<noteq> []" by simp
  then show ?thesis
    by (simp only: demo_gate_fields aprsis_init_def Let_def demo_passcode strcaseeq_refl if_True if_False simp_thms snd_conv)
qed

lemma demo_connecting:
  "aprsis_service demo_gate 10 demo_writable ((zero_aprsis [])\<lparr>ai_passcode := 22716, ai_resolved := True\<rparr>, demo_tcp) =
   ((zero_aprsis [])\<lparr>ai_passcode := 22716, ai_resolved := True, ai_fd := 5, ai_deadline_ms := 10010, ai_state := APRSIS_CONNECTING\<rparr>,
    demo_tcp\<lparr>t_i := 2, t_calls := [TcpOpen 5]\<rparr>)"
  by (simp add: aprsis_service_def start_connect_def zero_aprsis_def Let_def demo_tcp_def tcp_tick_def tcp_do_def)

lemma demo_waiting_is:
  "demo_waiting =
   ((zero_aprsis [])\<lparr>ai_passcode := 22716, ai_resolved := True, ai_fd := 5, ai_deadline_ms := 10020, ai_state := APRSIS_LOGIN\<rparr>,
    demo_tcp\<lparr>t_i := 5, t_calls := [TcpOpen 5, TcpSent 5 (lit ''user ON6URE-10 pass 22716 vers meshcore-repeater ''),
      TcpSent 5 (lit ''1.0'' @ [13, 10])]\<rparr>)"
  unfolding demo_waiting_def demo_init demo_connecting
  by (simp add: aprsis_service_def service_connecting_def send_login_def tx_queue_def demo_login APRSIS_TXBUF_def zero_aprsis_def
      Let_def demo_tcp_def tcp_tick_def tcp_do_def tx_flush.simps tcp_send_def demo_writable_def numeral_eq_Suc)

lemma demo_waiting_fields:
  "ai_state (fst demo_waiting) = APRSIS_LOGIN" "stream (t_calls (snd demo_waiting)) \<noteq> []"
  by (simp_all add: demo_waiting_is stream_def)

lemma demo_verified: "ai_state (fst (aprsis_service demo_gate 30 demo_readable demo_waiting)) = APRSIS_READY"
  unfolding demo_waiting_is
  by (simp add: aprsis_service_def service_connected_def read_server_def tcp_recv_def zero_aprsis_def Let_def demo_gate_fields
      beacon_due_def demo_tcp_def tcp_tick_def tcp_do_def tx_flush.simps demo_readable_def APRSIS_RXBUF_def server_text_def
      c_str_def handle_server_line_def)

theorem aprs_lines_whole_witness:
  "\<exists>a t. aprs_reach demo_gate (a, t) \<and> ai_state a = APRSIS_LOGIN \<and> stream (t_calls t) \<noteq> [] \<and>
     prefix (stream (t_calls t)) (login_line demo_gate (ai_passcode a))"
proof -
  obtain a t where d: "demo_waiting = (a, t)" by fastforce
  have r: "aprs_reach demo_gate (a, t)" and s: "ai_state a = APRSIS_LOGIN" and n: "stream (t_calls t) \<noteq> []"
    using demo_waiting_reach demo_waiting_fields by (simp_all add: d)
  from aprs_lines_whole [OF r] s have "prefix (stream (t_calls t)) (login_line demo_gate (ai_passcode a))" by blast
  with r s n show ?thesis by blast
qed

text \<open>C32: The gateway becomes ready, and so may put positions on the network, only from the log-in state and
  only in a turn that read from the server a complete comment line with both \<open>logresp\<close> and
  \<open> verified,\<close>; an answer that says \<open>unverified\<close> is not one.\<close>

theorem aprs_verified_first:
  assumes "aprsis_service c now ev (a, t) = (a', t')" "ai_state a \<noteq> APRSIS_READY" "ai_state a' = APRSIS_READY"
  shows "ai_state a = APRSIS_LOGIN \<and>
    (\<exists>d t1 l. tcp_recv (599 - length (ai_rxbuf a)) t = (RECV_DATA d, t1) \<and>
       l \<in> set (fst (split_lines [] (ai_rxbuf a @ d))) \<and> take 1 (server_text l) = lit ''#'' \<and>
       strstr (server_text l) (lit ''logresp'') \<noteq> None \<and> strstr (server_text l) (lit '' verified,'') \<noteq> None)"
  using service_ready [OF assms(2), of c now ev t] assms(1,3)
  by (auto simp: verifies_def APRSIS_RXBUF_def)

theorem aprs_verified_first_witness:
  "\<exists>a t a' t'. aprsis_service demo_gate 30 demo_readable (a, t) = (a', t') \<and> ai_state a' = APRSIS_READY \<and>
     ai_state a = APRSIS_LOGIN"
proof -
  obtain a t where d: "demo_waiting = (a, t)" by fastforce
  obtain a' t' where s: "aprsis_service demo_gate 30 demo_readable (a, t) = (a', t')" by fastforce
  have r: "ai_state a' = APRSIS_READY" using demo_verified by (simp add: d s)
  have l: "ai_state a = APRSIS_LOGIN" using demo_waiting_fields by (simp add: d)
  have "ai_state a = APRSIS_LOGIN" using aprs_verified_first [OF s _ r] l by simp
  with s r show ?thesis by blast
qed

text \<open>C34: The filter lets through exactly the node names that, in capitals, are a call sign of at most nine
  characters: a prefix of one or two letters and digits with a letter among them, a digit, a suffix of
  one to four letters, and perhaps a dash with one or two letters or digits other than a single zero.\<close>

theorem aprs_call_signs:
  "aprsis_valid_callsign nm 12 = Some c \<longleftrightarrow>
   c = map toupper nm \<and>
   (\<exists>p d s x. c = p @ [d] @ s @ x \<and> length c \<le> 9 \<and>
      1 \<le> length p \<and> length p \<le> 2 \<and> list_all (\<lambda>c. is_upper c \<or> is_num c) p \<and> list_ex is_upper p \<and>
      is_num d \<and> 1 \<le> length s \<and> length s \<le> 4 \<and> list_all is_upper s \<and>
      (x = [] \<or> (\<exists>y. x = 45 # y \<and> 1 \<le> length y \<and> length y \<le> 2 \<and>
                     list_all (\<lambda>c. is_upper c \<or> is_num c) y \<and> y \<noteq> [48])))"
  by (rule valid_callsign_iff)

text \<open>C35: A position that is accepted is written, in a buffer of at least 14 bytes, as thirteen bytes from whose eight base-91 digits, all of
  them printable, the latitude is recovered to less than 1/380926 of a degree and the longitude to
  less than 1/190463, up to a millionth part for the roundings of the double arithmetic: the digits
  are computed in it, and one of them may come out as 91, which is still the printable byte 124.\<close>

theorem aprs_position_precise:
  assumes "aprs_make_position sz lat lon speed course symbol = Some s" "14 \<le> sz"
  shows "length s = 13 \<and>
    \<bar>(90 - of_int (unbase91 (bslice 1 4 s)) / 380926) - lat\<bar> < (1 + 1 / 2 ^ 20) / 380926 \<and>
    \<bar>(of_int (unbase91 (bslice 5 4 s)) / 190463 - 180) - lon\<bar> < (1 + 1 / 2 ^ 20) / 190463 \<and>
    (\<forall>d \<in> set (bslice 1 8 s). 33 \<le> d \<and> d \<le> 124)"
  by (rule position_precise [OF assms])

text \<open>The instance is the worked example of \<^verbatim>\<open>tools/selftest.c\<close>.\<close>

theorem aprs_position_precise_witness:
  "aprs_make_position 64 (dbl (512095 / 10000)) (dbl (29247 / 10000)) (-1) (-1) (lit ''Mn'') = Some (lit ''M4XB$O69En  A'') \<and>
   \<bar>(90 - of_int (unbase91 (bslice 1 4 (lit ''M4XB$O69En  A''))) / 380926) - dbl (512095 / 10000)\<bar> < (1 + 1 / 2 ^ 20) / (380926 :: rat)"
proof -
  have s: "aprs_make_position 64 (dbl (512095 / 10000)) (dbl (29247 / 10000)) (-1) (-1) (lit ''Mn'') = Some (lit ''M4XB$O69En  A'')"
    by code_simp
  have "(14 :: nat) \<le> 64" by simp
  from aprs_position_precise [OF s this] s show ?thesis by blast
qed

section \<open>The monitors\<close>

text \<open>C33: An event of the mesh writes its line once to every client that asked for such events, from the last
  in the table to the first, and to nobody else; a client whose write fails for good is closed at once
  and leaves the table, and every other client stays in it, although removing one moves another during
  the loop.\<close>

theorem monitors_told_once:
  assumes "mon_tell t ef (xs, io) = (ys, io')"
  shows "let ts = filter (event_wants ef) (rev xs); rs = zip ts (answers io (length ts)) in
    io_calls io' = io_calls io @
      concat (map (\<lambda>x. MonWrite (mc_fd (fst x)) (event_line t ef) #
                       (if snd x = IO_ERROR then [MonClose (mc_fd (fst x))] else [])) rs) \<and>
    mset ys = mset (filter (\<lambda>c. \<not> event_wants ef c) xs) + mset (map fst (filter (\<lambda>x. snd x \<noteq> IO_ERROR) rs))"
proof -
  from mon_tell_send [of t ef] show ?thesis
  proof (elim exE disjE conjE)
    fix sz s
    assume "event_line t ef = snprintf_s sz s" "mon_tell t ef = mon_send (event_wants ef) sz s"
    with mon_send_spec [of "event_wants ef" sz s xs io ys io'] assms show ?thesis by (simp add: told_def [abs_def])
  next
    assume "mon_tell t ef = (\<lambda>st. st)" and n: "\<forall>c. \<not> event_wants ef c"
    with assms have "ys = xs" "io' = io" by simp_all
    with n show ?thesis by (simp add: answers_def)
  qed
qed

definition demo_table :: mc_monitor where
  "demo_table = [\<lparr>mc_fd = 7, mc_kind = MON_ALL, mc_target = []\<rparr>, \<lparr>mc_fd = 8, mc_kind = MON_TX, mc_target = []\<rparr>,
     \<lparr>mc_fd = 9, mc_kind = MON_DROP, mc_target = []\<rparr>]"

definition demo_io :: mon_io where
  "demo_io = \<lparr>io_write = \<lambda>i. if i = 1 then IO_ERROR else IO_COUNT 10, io_write_i = 0, io_read = \<lambda>_. IO_AGAIN,
     io_read_i = 0, io_calls = []\<rparr>"

theorem monitors_told_once_witness:
  "\<exists>ys io'. mon_tell (lit ''10:00:00'') (MonDrop 2 (lit ''duplicate'') (-1)) (demo_table, demo_io) = (ys, io') \<and>
     io_calls io' =
       [MonWrite 9 (lit ''10:00:00 [drop] type=0x02  duplicate'' @ [10]),
        MonWrite 7 (lit ''10:00:00 [drop] type=0x02  duplicate'' @ [10]), MonClose 7]"
proof -
  let ?ef = "MonDrop 2 (lit ''duplicate'') (-1)"
  obtain ys io' where e: "mon_tell (lit ''10:00:00'') ?ef (demo_table, demo_io) = (ys, io')" by fastforce
  have l: "event_line (lit ''10:00:00'') ?ef = lit ''10:00:00 [drop] type=0x02  duplicate'' @ [10]" by code_simp
  have f: "filter (event_wants ?ef) (rev demo_table) =
      [\<lparr>mc_fd = 9, mc_kind = MON_DROP, mc_target = []\<rparr>, \<lparr>mc_fd = 7, mc_kind = MON_ALL, mc_target = []\<rparr>]"
    by (simp add: demo_table_def event_wants_def monitor_wants_drop_def)
  have a: "answers demo_io (Suc (Suc 0)) = [IO_COUNT 10, IO_ERROR]" and c: "io_calls demo_io = []"
    by (simp_all add: answers_def demo_io_def)
  show ?thesis using e monitors_told_once [OF e] unfolding Let_def f l by (simp add: a c)
qed

end
