(* ===== verification/Radio.thy ===== *)
theory Radio
  imports World Format
begin

text \<open>
  The radio driver (\<^verbatim>\<open>sx126x.c\<close>): its commands as the bytes of the transfers, the bring-up with the
  fall-back to a plain crystal, reception, transmission, the check of the channel and the live changes
  of settings. What \<^verbatim>\<open>hal.h\<close> answers, in the order of the calls, and the calls that change the
  hardware are part of the record \<open>sx\<close>, beside the driver's settings \<^verbatim>\<open>g_cfg\<close>. The loops that wait
  for an interrupt are partial functions: they end by the interrupt or by the clock. The mesh and the
  console see the driver through the record \<open>world\<close>, which has its answers only.
\<close>

section \<open>Hardware and state\<close>

datatype rf_switch = RF_SW_OFF | RF_SW_RX | RF_SW_TX

datatype hal_call = SpiXfer bytes | RfSwitch rf_switch | ResetPin int | DelayMs nat | DelayUs nat

record sx =
  g_cfg :: sx126x_cfg
  h_wait :: "nat \<Rightarrow> int"
  h_wait_i :: nat
  h_spi :: "nat \<Rightarrow> int \<times> bytes"
  h_spi_i :: nat
  h_dio1 :: "nat \<Rightarrow> int"
  h_dio1_i :: nat
  h_millis :: "nat \<Rightarrow> u64"
  h_millis_i :: nat
  h_out :: "hal_call list"

definition hal_do :: "hal_call \<Rightarrow> sx \<Rightarrow> sx" where
  "hal_do c s = s\<lparr>h_out := h_out s @ [c]\<rparr>"

definition hal_wait_busy_low :: "sx \<Rightarrow> int \<times> sx" where
  "hal_wait_busy_low s = (h_wait s (h_wait_i s), s\<lparr>h_wait_i := h_wait_i s + 1\<rparr>)"

definition hal_spi_xfer :: "bytes \<Rightarrow> sx \<Rightarrow> int \<times> bytes \<times> sx" where
  \<comment> \<open>the return code, and as many bytes as went out\<close>
  "hal_spi_xfer tx s =
     (let (rc, rx) = h_spi s (h_spi_i s)
      in (rc, take (length tx) (rx @ replicate (length tx) 0), hal_do (SpiXfer tx) (s\<lparr>h_spi_i := h_spi_i s + 1\<rparr>)))"

definition hal_dio1_read :: "sx \<Rightarrow> int \<times> sx" where
  "hal_dio1_read s = (h_dio1 s (h_dio1_i s), s\<lparr>h_dio1_i := h_dio1_i s + 1\<rparr>)"

definition drv_millis :: "sx \<Rightarrow> u64 \<times> sx" where
  "drv_millis s = (h_millis s (h_millis_i s), s\<lparr>h_millis_i := h_millis_i s + 1\<rparr>)"

section \<open>Transfers\<close>

definition sx_write :: "bytes \<Rightarrow> sx \<Rightarrow> int \<times> sx" where
  \<comment> \<open>the part common to all commands that only write\<close>
  "sx_write tx s =
     (let (w, s) = hal_wait_busy_low s in
      if w \<noteq> 0 then (-2, s) else let (rc, _, s) = hal_spi_xfer tx s in (rc, s))"

definition sx_write_cmd :: "byte \<Rightarrow> bytes \<Rightarrow> sx \<Rightarrow> int \<times> sx" where
  "sx_write_cmd opcode params s = (if 16 < length params then (-1, s) else sx_write (opcode # params) s)"

definition sx_read_cmd :: "byte \<Rightarrow> nat \<Rightarrow> sx \<Rightarrow> int \<times> bytes \<times> sx" where
  \<comment> \<open>the callers' buffer is all zero where nothing was read\<close>
  "sx_read_cmd opcode n s =
     (if 8 < n then (-1, replicate n 0, s)
      else
        let (w, s) = hal_wait_busy_low s in
        if w \<noteq> 0 then (-2, replicate n 0, s)
        else let (rc, rx, s) = hal_spi_xfer (opcode # replicate (1 + n) 0) s
             in (rc, if rc \<noteq> 0 then replicate n 0 else bslice 2 n rx, s))"

definition hi8 :: "u16 \<Rightarrow> byte" where "hi8 x = ucast (drop_bit 8 x)"
definition lo8 :: "u16 \<Rightarrow> byte" where "lo8 x = ucast x"

definition sx_write_register :: "u16 \<Rightarrow> bytes \<Rightarrow> sx \<Rightarrow> int \<times> sx" where
  "sx_write_register addr data s = (if 8 < length data then (-1, s) else sx_write ([0x0D, hi8 addr, lo8 addr] @ data) s)"

definition sx_write_buffer :: "byte \<Rightarrow> bytes \<Rightarrow> sx \<Rightarrow> int \<times> sx" where
  "sx_write_buffer offset data s = (if 256 < length data then (-1, s) else sx_write ([0x0E, offset] @ data) s)"

definition sx_read_buffer :: "byte \<Rightarrow> nat \<Rightarrow> sx \<Rightarrow> int \<times> bytes \<times> sx" where
  "sx_read_buffer offset n s =
     (if 256 < n then (-1, [], s)
      else
        let (w, s) = hal_wait_busy_low s in
        if w \<noteq> 0 then (-2, [], s)
        else let (rc, rx, s) = hal_spi_xfer ([0x1E, offset] @ replicate (1 + n) 0) s
             in (rc, if rc \<noteq> 0 then [] else bslice 3 n rx, s))"

definition IRQ_TX_DONE :: u16 where "IRQ_TX_DONE = 0x0001"
definition IRQ_RX_DONE :: u16 where "IRQ_RX_DONE = 0x0002"
definition IRQ_HEADER_ERR :: u16 where "IRQ_HEADER_ERR = 0x0020"
definition IRQ_CRC_ERR :: u16 where "IRQ_CRC_ERR = 0x0040"
definition IRQ_CAD_DONE :: u16 where "IRQ_CAD_DONE = 0x0080"
definition IRQ_CAD_DETECTED :: u16 where "IRQ_CAD_DETECTED = 0x0100"
definition IRQ_TIMEOUT :: u16 where "IRQ_TIMEOUT = 0x0200"
definition IRQ_ALL :: u16 where "IRQ_ALL = 0x03FF"
definition ERR_XOSC_START :: u16 where "ERR_XOSC_START = 0x0020"

definition be16 :: "bytes \<Rightarrow> u16" where
  "be16 r = push_bit 8 (ucast (r ! 0)) OR ucast (r ! 1)"

definition sx_clear_irq :: "u16 \<Rightarrow> sx \<Rightarrow> int \<times> sx" where
  "sx_clear_irq msk s = sx_write_cmd 0x02 [hi8 msk, lo8 msk] s"

definition sx_get_irq :: "u16 \<Rightarrow> sx \<Rightarrow> int \<times> u16 \<times> sx" where
  \<comment> \<open>the status, or the value the caller had where the read fails\<close>
  "sx_get_irq irq s = (let (rc, r, s) = sx_read_cmd 0x12 2 s in (rc, if rc \<noteq> 0 then irq else be16 r, s))"

definition sx_set_dio_irq :: "u16 \<Rightarrow> u16 \<Rightarrow> u16 \<Rightarrow> u16 \<Rightarrow> sx \<Rightarrow> int \<times> sx" where
  "sx_set_dio_irq irq d1 d2 d3 s =
     sx_write_cmd 0x08 [hi8 irq, lo8 irq, hi8 d1, lo8 d1, hi8 d2, lo8 d2, hi8 d3, lo8 d3] s"

definition sx_set_standby :: "byte \<Rightarrow> sx \<Rightarrow> int \<times> sx" where
  "sx_set_standby mode s = sx_write_cmd 0x80 [mode] s"

definition sx_get_device_errors :: "sx \<Rightarrow> int \<times> u16 \<times> sx" where
  "sx_get_device_errors s = (let (rc, r, s) = sx_read_cmd 0x17 2 s in (rc, if rc \<noteq> 0 then 0 else be16 r, s))"

section \<open>Settings\<close>

definition bw_code :: "rat \<Rightarrow> byte" where
  "bw_code bw =
     (let hz = \<lfloor>bw * 1000 + 1 / 2\<rfloor> in
      if hz = 62500 then 0x03 else if hz = 125000 then 0x04 else if hz = 250000 then 0x05
      else if hz = 500000 then 0x06 else 0x05)"

definition tcxo_voltage_code :: "rat \<Rightarrow> byte" where
  "tcxo_voltage_code v =
     (if 33 / 10 \<le> v then 0x07 else if 3 \<le> v then 0x06 else if 27 / 10 \<le> v then 0x05
      else if 24 / 10 \<le> v then 0x04 else if 22 / 10 \<le> v then 0x03 else if 18 / 10 \<le> v then 0x02
      else if 17 / 10 \<le> v then 0x01 else 0x00)"

definition calibrate_image_params :: "rat \<Rightarrow> bytes" where
  "calibrate_image_params f =
     (if 430 \<le> f \<and> f \<le> 440 then [0x6B, 0x6F]
      else if 470 \<le> f \<and> f \<le> 510 then [0x75, 0x81]
      else if 779 \<le> f \<and> f \<le> 787 then [0xC1, 0xC5]
      else if 863 \<le> f \<and> f \<le> 870 then [0xD7, 0xDB]
      else [0xE1, 0xE9])"

definition llround :: "rat \<Rightarrow> int" where
  "llround x = (if x < 0 then - \<lfloor>1 / 2 - x\<rfloor> else \<lfloor>x + 1 / 2\<rfloor>)"

definition freq_bytes :: "rat \<Rightarrow> bytes" where
  "freq_bytes f =
     (let w = word_of_int (llround ((f * 1000000) * 33554432 / 32000000)) :: u32
      in [ucast (drop_bit 24 w), ucast (drop_bit 16 w), ucast (drop_bit 8 w), ucast w])"

definition set_rf_frequency :: "rat \<Rightarrow> sx \<Rightarrow> int \<times> sx" where
  "set_rf_frequency f s =
     (let (rc, s) = sx_write_cmd 0x86 (freq_bytes f) s in
      if rc \<noteq> 0 then (rc, s) else sx_write_cmd 0x98 (calibrate_image_params f) s)"

definition pkt_params :: "sx126x_cfg \<Rightarrow> byte \<Rightarrow> bytes" where
  "pkt_params g len =
     [hi8 (sx_preamble g), lo8 (sx_preamble g), 0x00, len, if sx_crc_on g then 1 else 0, if sx_iq_inverted g then 1 else 0]"

definition set_modem_params :: "sx126x_cfg \<Rightarrow> sx \<Rightarrow> int \<times> sx" where
  "set_modem_params g s =
     (let (rc, s) = sx_write_cmd 0x8B [sx_sf g, bw_code (sx_bw g), sx_cr g - 4, if sx_ldro g then 1 else 0] s in
      if rc \<noteq> 0 then (rc, s) else sx_write_cmd 0x8C (pkt_params g 0xFF) s)"

definition set_packet_params_len :: "byte \<Rightarrow> sx \<Rightarrow> int \<times> sx" where
  "set_packet_params_len len s = sx_write_cmd 0x8C (pkt_params (g_cfg s) len) s"

definition tx_params :: "int \<Rightarrow> bytes" where
  "tx_params dbm = [word_of_int dbm, 0x04]"

section \<open>Bring-up\<close>

fun sx_run :: "(int \<times> (sx \<Rightarrow> int \<times> sx)) list \<Rightarrow> sx \<Rightarrow> int \<times> sx" where
  \<comment> \<open>steps in turn; the code with the first that fails is the result\<close>
  "sx_run [] s = (0, s)"
| "sx_run ((e, f) # fs) s = (let (rc, s) = f s in if rc \<noteq> 0 then (e, s) else sx_run fs s)"

definition tcxo_steps :: "sx126x_cfg \<Rightarrow> (int \<times> (sx \<Rightarrow> int \<times> sx)) list" where
  "tcxo_steps g =
     [(-20, sx_write_cmd 0x97 [tcxo_voltage_code (sx_tcxo g), 0x00, 0x01, 0x40]),
      (-20, sx_write_cmd 0x89 [0x7F]),
      (-20, \<lambda>s. let (_, s) = hal_wait_busy_low (hal_do (DelayMs 5) s) in sx_set_standby 0 s),
      (-100, \<lambda>s. let (rc, errs, s) = sx_get_device_errors s
                in (if rc = 0 \<and> errs AND ERR_XOSC_START \<noteq> 0 then 1 else 0, s))]"

definition radio_steps :: "sx126x_cfg \<Rightarrow> (int \<times> (sx \<Rightarrow> int \<times> sx)) list" where
  "radio_steps g =
     (if sx_dio2 g then [(-20, sx_write_cmd 0x9D [0x01])] else []) @
     [(-20, sx_write_cmd 0x8A [0x01]),
      (-3, set_rf_frequency (sx_freq g)),
      (-20, sx_write_cmd 0x95 [0x04, 0x07, 0x00, 0x01]),
      (-20, sx_write_register 0x08E7 [sx_ocp g]),
      (-20, sx_write_cmd 0x8E (tx_params (sx_power g))),
      (-4, set_modem_params g),
      (-20, sx_write_register 0x0740 [hi8 (sx_sync_word g)]),
      (-20, sx_write_register 0x0741 [lo8 (sx_sync_word g)]),
      (-20, sx_write_cmd 0x8F [0x00, 0x00])]"

definition init_sequence :: "sx \<Rightarrow> int \<times> sx" where
  "init_sequence s =
     (let s = hal_do (RfSwitch RF_SW_OFF) s;
          s = hal_do (DelayMs 10) (hal_do (ResetPin 1) (hal_do (DelayMs 2) (hal_do (ResetPin 0) s)))
      in sx_run
           ([(-1, hal_wait_busy_low),
             (-2, sx_set_standby 0),
             (-20, sx_write_cmd 0x96 [0x01]),
             (0, \<lambda>s. (0, snd (sx_write_cmd 0x07 [0x00, 0x00] s)))]
            @ (if 0 < sx_tcxo (g_cfg s) then tcxo_steps (g_cfg s) else [])
            @ radio_steps (g_cfg s)) s)"

definition sx126x_init :: "sx126x_cfg \<Rightarrow> sx \<Rightarrow> int \<times> sx" where
  "sx126x_init c s =
     (let (rc, s) = init_sequence (s\<lparr>g_cfg := c\<rparr>) in
      if rc = -100 \<and> 0 < sx_tcxo (g_cfg s)
      then init_sequence (s\<lparr>g_cfg := (g_cfg s)\<lparr>sx_tcxo := 0\<rparr>\<rparr>)
      else (rc, s))"

section \<open>Receiving\<close>

definition RX_IRQS :: u16 where "RX_IRQS = IRQ_RX_DONE OR IRQ_CRC_ERR OR IRQ_HEADER_ERR"

definition sx126x_start_rx :: "sx \<Rightarrow> int \<times> sx" where
  "sx126x_start_rx s =
     (let s = snd (sx_set_standby 0 s);
          s = snd (sx_clear_irq IRQ_ALL s);
          s = snd (sx_set_dio_irq RX_IRQS RX_IRQS 0 0 s)
      in sx_write_cmd 0x82 [0xFF, 0xFF, 0xFF] (hal_do (RfSwitch RF_SW_RX) s))"

definition sx126x_standby :: "sx \<Rightarrow> sx" where
  "sx126x_standby s = hal_do (RfSwitch RF_SW_OFF) (snd (sx_set_standby 0 s))"

datatype rx_poll = PollNone | PollErr int | PollFrame bytes int int | PollCrcErr int int | PollHdrErr

definition signal :: "bytes \<Rightarrow> int \<times> int" where
  \<comment> \<open>RSSI in dBm and SNR in quarters of a dB, of a packet status\<close>
  "signal ps = (- (int (unat (ps ! 0)) div 2), sint (ps ! 1))"

definition sx126x_poll_rx :: "nat \<Rightarrow> sx \<Rightarrow> rx_poll \<times> sx" where
  "sx126x_poll_rx bufsz s =
     (let (d, s) = hal_dio1_read s in
      if d = 0 then (PollNone, s)
      else if d < 0 then (PollErr d, s)
      else
        let (rc, irq, s) = sx_get_irq 0 s in
        if rc \<noteq> 0 then (PollErr (-1), s)
        else if irq AND IRQ_RX_DONE \<noteq> 0 then
          (if irq AND IRQ_CRC_ERR \<noteq> 0 then
             (let (_, ps, s) = sx_read_cmd 0x14 3 s; (rssi, snr) = signal ps
              in (PollCrcErr rssi snr, snd (sx_clear_irq IRQ_ALL s)))
           else
             let (rc, st, s) = sx_read_cmd 0x13 2 s in
             if rc \<noteq> 0 then (PollErr (-2), snd (sx_clear_irq IRQ_ALL s))
             else
               let len = min (unat (st ! 0)) bufsz;
                   (rc, frame, s) = sx_read_buffer (st ! 1) len s in
               if rc \<noteq> 0 then (PollErr (-3), snd (sx_clear_irq IRQ_ALL s))
               else
                 let (_, ps, s) = sx_read_cmd 0x14 3 s; (rssi, snr) = signal ps
                 in (PollFrame frame rssi snr, snd (sx_clear_irq IRQ_ALL s)))
        else if irq AND IRQ_HEADER_ERR \<noteq> 0 then (PollHdrErr, snd (sx_clear_irq IRQ_ALL s))
        else (PollNone, snd (sx_clear_irq IRQ_ALL s)))"

section \<open>Transmitting and listening before\<close>

definition look :: "u16 \<Rightarrow> sx \<Rightarrow> int \<times> u16 \<times> sx" where
  \<comment> \<open>one look at the interrupt line, and at the status if the line is up\<close>
  "look irq s =
     (let (d, s) = hal_dio1_read s in
      if d = 1 then let (_, irq, s) = sx_get_irq irq s in (d, irq, s) else (d, irq, s))"

partial_function (option) irq_wait ::
  "bool \<Rightarrow> (int \<Rightarrow> u16 \<Rightarrow> 'r option) \<Rightarrow> 'r \<Rightarrow> u64 \<Rightarrow> u64 \<Rightarrow> u16 \<Rightarrow> sx \<Rightarrow> ('r \<times> sx) option" where
  \<comment> \<open>the shape of both waits: \<open>stop\<close> says whether the interrupt status ends the loop, \<open>late\<close> is the
      result once \<open>limit\<close> ms have passed; the status is declared inside the loop or, with \<open>keep\<close>,
      outside of it\<close>
  "irq_wait keep stop late limit start irq s =
     (let (d, irq, s) = look (if keep then irq else 0) s in
      case stop d irq of
        Some r \<Rightarrow> Some (r, s)
      | None \<Rightarrow>
          let (now, s) = drv_millis s in
          if limit < now - start then Some (late, s)
          else irq_wait keep stop late limit start irq (hal_do (DelayUs 500) s))"

definition tx_stop :: "int \<Rightarrow> u16 \<Rightarrow> int option" where
  "tx_stop d irq =
     (if d = 1 \<and> irq AND IRQ_TX_DONE \<noteq> 0 then Some 0
      else if d = 1 \<and> irq AND IRQ_TIMEOUT \<noteq> 0 then Some (-1) else None)"

definition tx_wait :: "u64 \<Rightarrow> u32 \<Rightarrow> sx \<Rightarrow> (int \<times> sx) option" where
  "tx_wait start timeout s = irq_wait False tx_stop (-1) (ucast timeout) start 0 s"

definition drv_transmit :: "bytes \<Rightarrow> u32 \<Rightarrow> sx \<Rightarrow> (int \<times> sx) option" where
  \<comment> \<open>\<^verbatim>\<open>sx126x_transmit\<close>\<close>
  "drv_transmit buf timeout s =
     (if buf = [] \<or> 255 < length buf then Some (-10, s)
      else
        let s = snd (sx_set_standby 0 s);
            s = snd (sx_clear_irq IRQ_ALL s);
            s = snd (set_packet_params_len (of_nat (length buf)) s);
            s = snd (sx_write_cmd 0x8F [0x00, 0x00] s);
            (rc, s) = sx_write_buffer 0 buf s in
        if rc \<noteq> 0 then Some (-11, s)
        else
          let irqs = IRQ_TX_DONE OR IRQ_TIMEOUT;
              s = snd (sx_set_dio_irq irqs irqs 0 0 s);
              (rc, s) = sx_write_cmd 0x83 [0x00, 0x00, 0x00] (hal_do (RfSwitch RF_SW_TX) s) in
          if rc \<noteq> 0 then Some (-12, snd (sx126x_start_rx (hal_do (RfSwitch RF_SW_OFF) s)))
          else
            let (start, s) = drv_millis s in
            case tx_wait start timeout s of
              None \<Rightarrow> None
            | Some (result, s) \<Rightarrow>
                let s = hal_do (RfSwitch RF_SW_OFF) (snd (sx_clear_irq IRQ_ALL s))
                in Some (result, snd (sx126x_start_rx s)))"

definition cad_stop :: "int \<Rightarrow> u16 \<Rightarrow> u16 option" where
  "cad_stop d irq = (if d = 1 \<and> irq AND IRQ_CAD_DONE \<noteq> 0 then Some irq else None)"

definition cad_wait :: "u64 \<Rightarrow> sx \<Rightarrow> (u16 \<times> sx) option" where
  "cad_wait start s = irq_wait True cad_stop 0 100 start 0 s"

definition cad_peak :: "byte \<Rightarrow> byte" where
  "cad_peak sf = (if 7 \<le> sf \<and> sf \<le> 12 then [22, 22, 23, 24, 25, 28] ! unat (sf - 7) else 24)"

definition drv_channel_busy :: "sx \<Rightarrow> (int \<times> sx) option" where
  \<comment> \<open>\<^verbatim>\<open>sx126x_channel_busy\<close>\<close>
  "drv_channel_busy s =
     (if \<not> sx_use_cad (g_cfg s) then Some (0, s)
      else
        let irqs = IRQ_CAD_DONE OR IRQ_CAD_DETECTED;
            s = snd (sx_set_standby 0 s);
            s = snd (sx_clear_irq IRQ_ALL s);
            s = snd (sx_set_dio_irq irqs irqs 0 0 s);
            s = snd (sx_write_cmd 0x88 [0x02, cad_peak (sx_sf (g_cfg s)), 0x0A, 0x00, 0x00, 0x00, 0x00] s);
            s = snd (sx_write_cmd 0xC5 [] (hal_do (RfSwitch RF_SW_RX) s));
            (start, s) = drv_millis s in
        case cad_wait start s of
          None \<Rightarrow> None
        | Some (irq, s) \<Rightarrow>
            Some (if irq AND IRQ_CAD_DETECTED \<noteq> 0 then 1 else 0,
                  hal_do (RfSwitch RF_SW_OFF) (snd (sx_clear_irq IRQ_ALL s))))"

section \<open>Live changes\<close>

definition sx126x_clock_str :: "nat \<Rightarrow> sx \<Rightarrow> bytes" where
  "sx126x_clock_str outsz s =
     snprintf_s outsz (if 0 < sx_tcxo (g_cfg s) then lit ''TCXO '' @ fmt_f 1 (sx_tcxo (g_cfg s)) @ lit ''V'' else lit ''crystal'')"

definition sx126x_reinit :: "sx \<Rightarrow> int \<times> sx" where
  "sx126x_reinit s = (let (rc, s) = sx126x_init (g_cfg s) s in if rc = 0 then sx126x_start_rx s else (rc, s))"

definition sx126x_set_frequency :: "rat \<Rightarrow> sx \<Rightarrow> int \<times> sx" where
  "sx126x_set_frequency f s =
     (let s = snd (sx_set_standby 0 (s\<lparr>g_cfg := (g_cfg s)\<lparr>sx_freq := f\<rparr>\<rparr>));
          (rc, s) = set_rf_frequency f s
      in if rc \<noteq> 0 then (rc, s) else sx126x_start_rx s)"

definition sx126x_set_modem :: "sx126x_cfg \<Rightarrow> sx \<Rightarrow> int \<times> sx" where
  "sx126x_set_modem c s =
     (let g = (g_cfg s)\<lparr>sx_freq := sx_freq c, sx_bw := sx_bw c, sx_sf := sx_sf c, sx_cr := sx_cr c,
                sx_preamble := sx_preamble c, sx_crc_on := sx_crc_on c, sx_iq_inverted := sx_iq_inverted c,
                sx_ldro := sx_ldro c, sx_power := sx_power c\<rparr>;
          s = snd (sx_set_standby 0 (s\<lparr>g_cfg := g\<rparr>));
          s = snd (sx_write_cmd 0x8E (tx_params (sx_power g)) s);
          (rc, s) = set_modem_params g s
      in if rc \<noteq> 0 then (rc, s) else sx126x_start_rx s)"

definition sx126x_set_tx_power :: "int \<Rightarrow> sx \<Rightarrow> sx" where
  "sx126x_set_tx_power dbm s =
     (let dbm = (if dbm < -9 then -9 else dbm); dbm = (if 22 < dbm then 22 else dbm) in
      if dbm = sx_power (g_cfg s) then s
      else snd (sx_write_cmd 0x8E (tx_params dbm) (snd (sx_set_standby 0 (s\<lparr>g_cfg := (g_cfg s)\<lparr>sx_power := dbm\<rparr>\<rparr>)))))"

end
