(* ===== verification/Radio_Props.thy ===== *)
theory Radio_Props
  imports Radio
begin

text \<open>
  What is proved of the radio driver. With a chip that answers, a transmission is one fixed sequence of
  commands around its wait, and leaves the chip receiving with the antenna switched to the receiver
  (\<open>transmit_then_listens\<close>); the waits end once the clock has passed their limit, whatever the chip does
  (\<open>waits_end\<close>). A check of the channel, on the other hand, leaves the chip out of its receiving mode
  with the antenna off (\<open>channel_busy_not_listening\<close>), and the mesh does not transmit after a busy one.
\<close>

section \<open>Calls made\<close>

definition spi_ok :: "sx \<Rightarrow> bool" where
  \<comment> \<open>a chip that is there: it is never busy for too long, and no transfer fails\<close>
  "spi_ok s \<longleftrightarrow> (\<forall>i. h_wait s i = 0) \<and> (\<forall>i. fst (h_spi s i) = 0)"

definition did :: "sx \<Rightarrow> sx \<Rightarrow> hal_call list \<Rightarrow> bool" where
  \<comment> \<open>the calls made between two states, which otherwise differ in the answers used\<close>
  "did s s' cs \<longleftrightarrow> h_out s' = h_out s @ cs \<and> g_cfg s' = g_cfg s \<and> h_wait s' = h_wait s \<and> h_spi s' = h_spi s \<and>
     h_dio1 s' = h_dio1 s \<and> h_millis s' = h_millis s \<and> h_millis_i s \<le> h_millis_i s'"

lemma did_refl [simp]: "did s s []"
  by (simp add: did_def)

lemma did_trans: "did s s' cs \<Longrightarrow> did s' s'' ds \<Longrightarrow> did s s'' (cs @ ds)"
  by (simp add: did_def)

lemma did_ok: "did s s' cs \<Longrightarrow> spi_ok s \<Longrightarrow> spi_ok s'"
  by (simp add: did_def spi_ok_def)

lemma did_hal: "did s (hal_do c s) [c]"
  by (simp add: did_def hal_do_def)

lemma did_reads:
  "did s (snd (hal_dio1_read s)) []" "did s (snd (drv_millis s)) []"
  by (simp_all add: did_def hal_dio1_read_def drv_millis_def)

lemma write_ok: "spi_ok s \<Longrightarrow> sx_write tx s = (0, snd (sx_write tx s)) \<and> did s (snd (sx_write tx s)) [SpiXfer tx]"
  by (simp add: spi_ok_def sx_write_def hal_wait_busy_low_def hal_spi_xfer_def hal_do_def did_def split_beta)

lemma write_cmd_ok:
  "spi_ok s \<Longrightarrow> length ps \<le> 16 \<Longrightarrow>
   sx_write_cmd op ps s = (0, snd (sx_write_cmd op ps s)) \<and> did s (snd (sx_write_cmd op ps s)) [SpiXfer (op # ps)]"
  using write_ok [of s "op # ps"] by (simp add: sx_write_cmd_def)

lemma read_cmd_did: "spi_ok s \<Longrightarrow> n \<le> 8 \<Longrightarrow> did s (snd (snd (sx_read_cmd op n s))) [SpiXfer (op # replicate (1 + n) 0)]"
  by (simp add: spi_ok_def sx_read_cmd_def hal_wait_busy_low_def hal_spi_xfer_def hal_do_def did_def split_beta Let_def)

definition clear_call :: hal_call where "clear_call = SpiXfer [0x02, hi8 IRQ_ALL, lo8 IRQ_ALL]"

definition irq_call :: "u16 \<Rightarrow> hal_call" where
  "irq_call x = SpiXfer [0x08, hi8 x, lo8 x, hi8 x, lo8 x, hi8 0, lo8 0, hi8 0, lo8 0]"

definition listen_calls :: "hal_call list" where
  "listen_calls = [SpiXfer [0x80, 0], clear_call, irq_call RX_IRQS, RfSwitch RF_SW_RX, SpiXfer [0x82, 0xFF, 0xFF, 0xFF]]"

lemma cmd_did:
  assumes "spi_ok s"
  shows "did s (snd (sx_set_standby 0 s)) [SpiXfer [0x80, 0]]"
    "did s (snd (sx_clear_irq IRQ_ALL s)) [clear_call]"
    "did s (snd (sx_set_dio_irq x x 0 0 s)) [irq_call x]"
    "did s (snd (set_packet_params_len n s)) [SpiXfer (0x8C # pkt_params (g_cfg s) n)]"
  using assms write_cmd_ok
  by (simp_all add: sx_set_standby_def sx_clear_irq_def sx_set_dio_irq_def set_packet_params_len_def
      clear_call_def irq_call_def pkt_params_def)

lemma start_rx_did:
  assumes "spi_ok s"
  shows "did s (snd (sx126x_start_rx s)) listen_calls"
proof -
  let ?a = "snd (sx_set_standby 0 s)"
  let ?b = "snd (sx_clear_irq IRQ_ALL ?a)"
  let ?c = "snd (sx_set_dio_irq RX_IRQS RX_IRQS 0 0 ?b)"
  let ?d = "hal_do (RfSwitch RF_SW_RX) ?c"
  note a = cmd_did(1) [OF assms]
  note b = cmd_did(2) [OF did_ok [OF a assms]]
  note c = cmd_did(3) [OF did_ok [OF b did_ok [OF a assms]], of RX_IRQS]
  have d: "spi_ok ?d" by (rule did_ok [OF did_hal did_ok [OF c did_ok [OF b did_ok [OF a assms]]]])
  have e: "did ?d (snd (sx_write_cmd 0x82 [0xFF, 0xFF, 0xFF] ?d)) [SpiXfer [0x82, 0xFF, 0xFF, 0xFF]]"
    using write_cmd_ok [OF d, of "[0xFF, 0xFF, 0xFF]" "0x82"] by simp
  show ?thesis
    using did_trans [OF a did_trans [OF b did_trans [OF c did_trans [OF did_hal e]]]]
    by (simp add: sx126x_start_rx_def Let_def listen_calls_def)
qed

section \<open>The wait for the end of a transmission\<close>

fun wait_call :: "hal_call \<Rightarrow> bool" where
  "wait_call (SpiXfer tx) = (tx = [0x12, 0, 0, 0])"
| "wait_call (DelayUs n) = True"
| "wait_call _ = False"

lemma get_irq_did:
  assumes "spi_ok s"
  shows "did s (snd (snd (sx_get_irq irq s))) [SpiXfer [0x12, 0, 0, 0]]"
  using read_cmd_did [OF assms, of 2 "0x12"] by (simp add: sx_get_irq_def split_beta numeral_2_eq_2)

lemma look_did:
  assumes "spi_ok s"
  shows "\<exists>cs. did s (snd (snd (look irq s))) cs \<and> list_all wait_call cs"
proof -
  let ?s = "snd (hal_dio1_read s)"
  have r: "did s ?s []" by (rule did_reads)
  note g = did_trans [OF r get_irq_did [OF did_ok [OF r assms], of irq]]
  show ?thesis
  proof (cases "fst (hal_dio1_read s) = 1")
    case True
    then have "snd (snd (look irq s)) = snd (snd (sx_get_irq irq ?s))" by (simp add: look_def split_beta)
    with g show ?thesis by (intro exI [of _ "[SpiXfer [0x12, 0, 0, 0]]"]) simp
  next
    case False
    then have "snd (snd (look irq s)) = ?s" by (simp add: look_def split_beta)
    with r show ?thesis by (intro exI [of _ "[]"]) simp
  qed
qed

lemma look_clock [simp]:
  "h_millis (snd (snd (look irq s))) = h_millis s" "h_millis_i (snd (snd (look irq s))) = h_millis_i s"
  by (simp_all add: look_def hal_dio1_read_def sx_get_irq_def sx_read_cmd_def hal_wait_busy_low_def hal_spi_xfer_def
      hal_do_def split_beta Let_def)

lemma tick_did: "did s (hal_do (DelayUs 500) (snd (drv_millis s))) [DelayUs 500]"
  using did_trans [OF did_reads(2) [of s] did_hal] by simp

lemma irq_wait_did:
  assumes "irq_wait keep stop late limit start irq s = Some y" "spi_ok s"
  shows "(fst y = late \<or> (\<exists>d x. stop d x = Some (fst y))) \<and> (\<exists>cs. did s (snd y) cs \<and> list_all wait_call cs)"
proof -
  let ?P = "\<lambda>(keep :: bool) stop late (limit :: u64) (start :: u64) (irq :: u16) s y. spi_ok s \<longrightarrow>
    (fst y = late \<or> (\<exists>d x. stop d x = Some (fst y))) \<and> (\<exists>cs. did s (snd y) cs \<and> list_all wait_call cs)"
  have "?P keep stop late limit start irq s y"
  proof (rule irq_wait.raw_induct [OF _ assms(1), where P = ?P], rule impI)
    fix f keep and stop :: "int \<Rightarrow> u16 \<Rightarrow> 'a option" and late limit start irq s and y :: "'a \<times> sx"
    assume ih: "\<And>keep stop late limit start irq s y. f keep stop late limit start irq s = Some y \<Longrightarrow> ?P keep stop late limit start irq s y"
      and s: "spi_ok s"
      and y: "(let (d, irq, s) = look (if keep then irq else 0) s
        in case stop d irq of
             None \<Rightarrow> let (now, s) = drv_millis s
               in if limit < now - start then Some (late, s) else f keep stop late limit start irq (hal_do (DelayUs 500) s)
           | Some r \<Rightarrow> Some (r, s)) = Some y"
    obtain d x s1 where l: "look (if keep then irq else 0) s = (d, x, s1)" by (metis prod_cases3)
    obtain cs where cs: "did s s1 cs" "list_all wait_call cs" using look_did [OF s, of "if keep then irq else 0"] l by auto
    have c1: "did s (snd (drv_millis s1)) cs" using did_trans [OF cs(1) did_reads(2)] by simp
    have c2: "did s (hal_do (DelayUs 500) (snd (drv_millis s1))) (cs @ [DelayUs 500])" by (rule did_trans [OF cs(1) tick_did])
    show "(fst y = late \<or> (\<exists>d x. stop d x = Some (fst y))) \<and> (\<exists>cs. did s (snd y) cs \<and> list_all wait_call cs)"
    proof (cases "stop d x \<noteq> None \<or> limit < fst (drv_millis s1) - start")
      case True
      then have "(\<exists>r. stop d x = Some r \<and> y = (r, s1)) \<or> y = (late, snd (drv_millis s1))"
        using y l by (auto simp: split_beta Let_def split: option.splits)
      then show ?thesis using cs c1 by auto
    next
      case False
      then have "f keep stop late limit start x (hal_do (DelayUs 500) (snd (drv_millis s1))) = Some y"
        using y l by (auto simp: split_beta Let_def)
      from ih [OF this] did_ok [OF c2 s] obtain ds where
        ds: "fst y = late \<or> (\<exists>d x. stop d x = Some (fst y))"
          "did (hal_do (DelayUs 500) (snd (drv_millis s1))) (snd y) ds" "list_all wait_call ds" by blast
      have "did s (snd y) ((cs @ [DelayUs 500]) @ ds)" by (rule did_trans [OF c2 ds(2)])
      moreover have "list_all wait_call ((cs @ [DelayUs 500]) @ ds)" using cs ds by simp
      ultimately show ?thesis using ds(1) by blast
    qed
  qed
  with assms(2) show ?thesis by blast
qed

lemma irq_wait_returns:
  "h_millis_i s \<le> n \<Longrightarrow> limit < h_millis s n - start \<Longrightarrow> irq_wait keep stop late limit start irq s \<noteq> None"
proof (induction "n - h_millis_i s" arbitrary: s irq)
  case 0
  then have "h_millis_i s = n" by simp
  with 0(3) show ?case
    by (subst irq_wait.simps) (auto simp: drv_millis_def split_beta Let_def split: option.split)
next
  case (Suc k)
  let ?l = "look (if keep then irq else 0) s"
  let ?s = "hal_do (DelayUs 500) (snd (drv_millis (snd (snd ?l))))"
  have "k = n - h_millis_i ?s" "h_millis_i ?s \<le> n" "limit < h_millis ?s n - start"
    using Suc(2-4) by (simp_all add: drv_millis_def hal_do_def)
  from Suc(1) [OF this, of "fst (snd ?l)"] show ?case
    by (subst irq_wait.simps) (auto simp: split_beta Let_def split: option.split)
qed

section \<open>The chip as its commands set it\<close>

datatype chip = Standby | Receiving | Sending | Sensing

fun chip_step :: "chip \<times> rf_switch \<Rightarrow> hal_call \<Rightarrow> chip \<times> rf_switch" where
  "chip_step (m, a) (SpiXfer tx) =
     (if tx = [] then (m, a)
      else if hd tx = 0x80 then (Standby, a)
      else if hd tx = 0x82 then (Receiving, a)
      else if hd tx = 0x83 then (Sending, a)
      else if hd tx = 0xC5 then (Sensing, a)
      else (m, a))"
| "chip_step (m, a) (RfSwitch b) = (m, b)"
| "chip_step st _ = st"

definition chip_after :: "hal_call list \<Rightarrow> chip \<times> rf_switch" where
  \<comment> \<open>the mode of the last command that sets one, and the position of the antenna switch\<close>
  "chip_after cs = foldl chip_step (Standby, RF_SW_OFF) cs"

lemma chip_after_append: "chip_after (cs @ ds) = foldl chip_step (chip_after cs) ds"
  by (simp add: chip_after_def)

lemma chip_wait: "list_all wait_call cs \<Longrightarrow> foldl chip_step st cs = st"
proof (induction cs arbitrary: st)
  case (Cons c cs)
  then show ?case by (cases c; cases st) auto
qed simp

lemma chip_listen: "foldl chip_step st listen_calls = (Receiving, RF_SW_RX)"
  by (cases st) (simp add: listen_calls_def clear_call_def irq_call_def)

section \<open>A transmission\<close>

definition TX_IRQS :: u16 where "TX_IRQS = IRQ_TX_DONE OR IRQ_TIMEOUT"

definition send_calls :: "sx126x_cfg \<Rightarrow> bytes \<Rightarrow> hal_call list" where
  \<comment> \<open>up to the command that starts the transmitter\<close>
  "send_calls g buf =
     [SpiXfer [0x80, 0], clear_call, SpiXfer (0x8C # pkt_params g (of_nat (length buf))), SpiXfer [0x8F, 0, 0],
      SpiXfer (0x0E # 0 # buf), irq_call TX_IRQS, RfSwitch RF_SW_TX, SpiXfer [0x83, 0, 0, 0]]"

lemma transmit_calls:
  assumes s: "spi_ok s" and buf: "buf \<noteq> []" "length buf \<le> 255" and y: "drv_transmit buf timeout s = Some (rc, s')"
  shows "(rc = 0 \<or> rc = -1) \<and>
    (\<exists>ws. list_all wait_call ws \<and> did s s' (send_calls (g_cfg s) buf @ ws @ [clear_call, RfSwitch RF_SW_OFF] @ listen_calls))"
proof -
  define s1 where "s1 = snd (sx_set_standby 0 s)"
  define s2 where "s2 = snd (sx_clear_irq IRQ_ALL s1)"
  define s3 where "s3 = snd (set_packet_params_len (of_nat (length buf)) s2)"
  define s4 where "s4 = snd (sx_write_cmd 0x8F [0, 0] s3)"
  define s5 where "s5 = snd (sx_write_buffer 0 buf s4)"
  define s6 where "s6 = snd (sx_set_dio_irq TX_IRQS TX_IRQS 0 0 s5)"
  define s7 where "s7 = hal_do (RfSwitch RF_SW_TX) s6"
  define s8 where "s8 = snd (sx_write_cmd 0x83 [0, 0, 0] s7)"
  define s9 where "s9 = snd (drv_millis s8)"
  note d1 = cmd_did(1) [OF s, folded s1_def]
  note k1 = did_ok [OF d1 s]
  note d2 = cmd_did(2) [OF k1, folded s2_def]
  note k2 = did_ok [OF d2 k1]
  note d3 = cmd_did(4) [OF k2, of "of_nat (length buf)", folded s3_def]
  note k3 = did_ok [OF d3 k2]
  have d4: "did s3 s4 [SpiXfer [0x8F, 0, 0]]" using write_cmd_ok [OF k3, of "[0, 0]" "0x8F"] by (simp add: s4_def)
  note k4 = did_ok [OF d4 k3]
  have d5: "did s4 s5 [SpiXfer (0x0E # 0 # buf)]" "fst (sx_write_buffer 0 buf s4) = 0"
    using write_ok [OF k4, of "0x0E # 0 # buf"] buf(2) by (simp_all add: s5_def sx_write_buffer_def) (metis fst_conv)
  note k5 = did_ok [OF d5(1) k4]
  note d6 = cmd_did(3) [OF k5, of TX_IRQS, folded s6_def]
  note k6 = did_ok [OF d6 k5]
  have d7: "did s6 s7 [RfSwitch RF_SW_TX]" unfolding s7_def by (rule did_hal)
  note k7 = did_ok [OF d7 k6]
  have d8: "did s7 s8 [SpiXfer [0x83, 0, 0, 0]]" "fst (sx_write_cmd 0x83 [0, 0, 0] s7) = 0"
    using write_cmd_ok [OF k7, of "[0, 0, 0]" "0x83"] by (simp_all add: s8_def) (metis fst_conv)
  note k8 = did_ok [OF d8(1) k7]
  have d9: "did s8 s9 []" unfolding s9_def by (rule did_reads)
  note k9 = did_ok [OF d9 k8]
  have g: "g_cfg s2 = g_cfg s" using d1 d2 by (simp add: did_def)
  have sent: "did s s9 (send_calls (g_cfg s) buf)"
    using did_trans [OF d1 did_trans [OF d2 did_trans [OF d3 did_trans [OF d4 did_trans [OF d5(1) did_trans [OF d6
      did_trans [OF d7 did_trans [OF d8(1) d9]]]]]]]] by (simp add: send_calls_def g)
  have "drv_transmit buf timeout s =
      (case tx_wait (fst (drv_millis s8)) timeout s9 of None \<Rightarrow> None
       | Some (r, t) \<Rightarrow> Some (r, snd (sx126x_start_rx (hal_do (RfSwitch RF_SW_OFF) (snd (sx_clear_irq IRQ_ALL t))))))"
    using buf d5(2) d8(2)
    by (simp add: drv_transmit_def Let_def split_beta s1_def s2_def s3_def s4_def s5_def s6_def s7_def s8_def s9_def
        TX_IRQS_def not_less split: option.split)
  then obtain r t where w: "tx_wait (fst (drv_millis s8)) timeout s9 = Some (r, t)"
    and r: "rc = r" "s' = snd (sx126x_start_rx (hal_do (RfSwitch RF_SW_OFF) (snd (sx_clear_irq IRQ_ALL t))))"
    using y by (auto split: option.splits)
  from irq_wait_did [OF w [unfolded tx_wait_def] k9] obtain ws where
    ws: "r = -1 \<or> (\<exists>d x. tx_stop d x = Some r)" "did s9 t ws" "list_all wait_call ws" by auto
  have rc: "rc = 0 \<or> rc = -1" using ws(1) r(1) by (auto simp: tx_stop_def split: if_splits)
  note kt = did_ok [OF ws(2) k9]
  note e1 = cmd_did(2) [OF kt]
  note e2 = did_trans [OF e1 did_hal [of _ "RfSwitch RF_SW_OFF"]]
  note e3 = start_rx_did [OF did_ok [OF e2 kt], folded r(2)]
  have "did s s' (send_calls (g_cfg s) buf @ ws @ ([clear_call] @ [RfSwitch RF_SW_OFF]) @ listen_calls)"
    by (rule did_trans [OF sent did_trans [OF ws(2) did_trans [OF e2 e3]]])
  with rc ws(3) show ?thesis by auto
qed

section \<open>A check of the channel\<close>

lemma channel_busy_chip:
  assumes s: "spi_ok s" and cad: "sx_use_cad (g_cfg s)" and y: "drv_channel_busy s = Some (b, s')"
  shows "chip_after (h_out s') = (Sensing, RF_SW_OFF)"
proof -
  define x where "x = (IRQ_CAD_DONE OR IRQ_CAD_DETECTED)"
  define p where "p = [0x02, cad_peak (sx_sf (g_cfg s)), 0x0A, 0x00, 0x00, 0x00, 0x00 :: byte]"
  define s1 where "s1 = snd (sx_set_standby 0 s)"
  define s2 where "s2 = snd (sx_clear_irq IRQ_ALL s1)"
  define s3 where "s3 = snd (sx_set_dio_irq x x 0 0 s2)"
  define s4 where "s4 = snd (sx_write_cmd 0x88 p s3)"
  define s5 where "s5 = hal_do (RfSwitch RF_SW_RX) s4"
  define s6 where "s6 = snd (sx_write_cmd 0xC5 [] s5)"
  define s7 where "s7 = snd (drv_millis s6)"
  note d1 = cmd_did(1) [OF s, folded s1_def]
  note k1 = did_ok [OF d1 s]
  note d2 = cmd_did(2) [OF k1, folded s2_def]
  note k2 = did_ok [OF d2 k1]
  note d3 = cmd_did(3) [OF k2, of x, folded s3_def]
  note k3 = did_ok [OF d3 k2]
  have d4: "did s3 s4 [SpiXfer (0x88 # p)]" using write_cmd_ok [OF k3, of p "0x88"] by (simp add: s4_def p_def)
  note k4 = did_ok [OF d4 k3]
  have d5: "did s4 s5 [RfSwitch RF_SW_RX]" unfolding s5_def by (rule did_hal)
  note k5 = did_ok [OF d5 k4]
  have d6: "did s5 s6 [SpiXfer [0xC5]]" using write_cmd_ok [OF k5, of "[]" "0xC5"] by (simp add: s6_def)
  note k6 = did_ok [OF d6 k5]
  have d7: "did s6 s7 []" unfolding s7_def by (rule did_reads)
  note k7 = did_ok [OF d7 k6]
  have g: "g_cfg s3 = g_cfg s" using d1 d2 d3 by (simp add: did_def)
  have "drv_channel_busy s =
      (case cad_wait (fst (drv_millis s6)) s7 of None \<Rightarrow> None
       | Some (irq, t) \<Rightarrow> Some (if irq AND IRQ_CAD_DETECTED \<noteq> 0 then 1 else 0,
                             hal_do (RfSwitch RF_SW_OFF) (snd (sx_clear_irq IRQ_ALL t))))"
    using cad g by (simp add: drv_channel_busy_def Let_def split_beta x_def p_def s1_def s2_def s3_def s4_def s5_def
        s6_def s7_def split: option.split)
  then obtain irq t where w: "cad_wait (fst (drv_millis s6)) s7 = Some (irq, t)"
    and r: "s' = hal_do (RfSwitch RF_SW_OFF) (snd (sx_clear_irq IRQ_ALL t))"
    using y by (auto split: option.splits)
  from irq_wait_did [OF w [unfolded cad_wait_def] k7] obtain ws where ws: "did s7 t ws" "list_all wait_call ws" by auto
  note e = did_trans [OF cmd_did(2) [OF did_ok [OF ws(1) k7]] did_hal [of _ "RfSwitch RF_SW_OFF"], folded r]
  have "did s s' ([SpiXfer [0x80, 0]] @ [clear_call] @ [irq_call x] @ [SpiXfer (0x88 # p)] @ [RfSwitch RF_SW_RX] @
      [SpiXfer [0xC5]] @ [] @ ws @ ([clear_call] @ [RfSwitch RF_SW_OFF]))"
    by (rule did_trans [OF d1 did_trans [OF d2 did_trans [OF d3 did_trans [OF d4 did_trans [OF d5 did_trans [OF d6
      did_trans [OF d7 did_trans [OF ws(1) e]]]]]]]])
  then show ?thesis
    by (cases "chip_after (h_out s)")
      (simp add: did_def chip_after_append chip_wait [OF ws(2)] clear_call_def irq_call_def p_def)
qed

section \<open>The clock\<close>

lemma write_clock [simp]:
  "h_millis (snd (sx_write tx s)) = h_millis s" "h_millis_i (snd (sx_write tx s)) = h_millis_i s"
  by (simp_all add: sx_write_def hal_wait_busy_low_def hal_spi_xfer_def hal_do_def split_beta Let_def)

lemma cmd_clock [simp]:
  "h_millis (snd (sx_write_cmd op ps s)) = h_millis s" "h_millis_i (snd (sx_write_cmd op ps s)) = h_millis_i s"
  "h_millis (snd (sx_write_buffer off ps s)) = h_millis s" "h_millis_i (snd (sx_write_buffer off ps s)) = h_millis_i s"
  "h_millis (hal_do c s) = h_millis s" "h_millis_i (hal_do c s) = h_millis_i s"
  by (simp_all add: sx_write_cmd_def sx_write_buffer_def hal_do_def)

lemmas cmd_defs = sx_set_standby_def sx_clear_irq_def sx_set_dio_irq_def set_packet_params_len_def

lemma transmit_returns:
  assumes "h_millis_i s < n" "ucast timeout < h_millis s n - h_millis s (h_millis_i s)"
  shows "drv_transmit buf timeout s \<noteq> None"
proof -
  have w: "tx_wait (fst (drv_millis t)) timeout (snd (drv_millis t)) \<noteq> None"
    if "h_millis t = h_millis s" "h_millis_i t = h_millis_i s" for t
    unfolding tx_wait_def using assms that by (intro irq_wait_returns [of _ n]) (simp_all add: drv_millis_def)
  show ?thesis
    unfolding drv_transmit_def Let_def split_beta cmd_defs option.case_eq_if
    by (simp only: option.distinct not_False_eq_True simp_thms w cmd_clock split: if_split)
qed

lemma channel_busy_returns:
  assumes "h_millis_i s < n" "100 < h_millis s n - h_millis s (h_millis_i s)"
  shows "drv_channel_busy s \<noteq> None"
proof -
  have w: "cad_wait (fst (drv_millis t)) (snd (drv_millis t)) \<noteq> None"
    if "h_millis t = h_millis s" "h_millis_i t = h_millis_i s" for t
    unfolding cad_wait_def using assms that by (intro irq_wait_returns [of _ n]) (simp_all add: drv_millis_def)
  show ?thesis
    unfolding drv_channel_busy_def Let_def split_beta cmd_defs option.case_eq_if
    by (simp only: option.distinct not_False_eq_True simp_thms w cmd_clock split: if_split)
qed

section \<open>Properties\<close>

text \<open>C9: With a chip that answers, a transmission of 1 to 255 bytes makes exactly these calls: standby, the
  length and the frame into the chip, the antenna to the transmitter and only then the start of the
  transmitter; looks at the interrupt status; the antenna off, and the calls that start the receiver.
  So whatever the result, a time-out included, the chip is left receiving with its antenna on the
  receiver.\<close>

theorem transmit_then_listens:
  assumes "spi_ok s" "buf \<noteq> []" "length buf \<le> 255" "drv_transmit buf timeout s = Some (rc, s')"
  shows "chip_after (h_out s') = (Receiving, RF_SW_RX) \<and> (rc = 0 \<or> rc = -1) \<and>
    (\<exists>ws. list_all wait_call ws \<and>
       h_out s' = h_out s @ send_calls (g_cfg s) buf @ ws @ [clear_call, RfSwitch RF_SW_OFF] @ listen_calls)"
proof -
  obtain ws where ws: "list_all wait_call ws" "rc = 0 \<or> rc = -1"
    "did s s' (send_calls (g_cfg s) buf @ ws @ [clear_call, RfSwitch RF_SW_OFF] @ listen_calls)"
    using transmit_calls [OF assms] by blast
  then have o: "h_out s' = (h_out s @ send_calls (g_cfg s) buf @ ws @ [clear_call, RfSwitch RF_SW_OFF]) @ listen_calls"
    by (simp add: did_def)
  have "chip_after (h_out s') = (Receiving, RF_SW_RX)" unfolding o chip_after_append by (rule chip_listen)
  with ws o show ?thesis by auto
qed

definition demo_sx :: sx where
  \<comment> \<open>a chip that never raises its interrupt line\<close>
  "demo_sx = \<lparr>g_cfg = config_to_sx126x config_defaults, h_wait = \<lambda>_. 0, h_wait_i = 0, h_spi = \<lambda>_. (0, []), h_spi_i = 0,
     h_dio1 = \<lambda>_. 0, h_dio1_i = 0, h_millis = \<lambda>i. 600 * of_nat i, h_millis_i = 0, h_out = []\<rparr>"

theorem transmit_then_listens_witness:
  "\<exists>rc s'. drv_transmit [1, 2, 3] 1000 demo_sx = Some (rc, s') \<and> chip_after (h_out s') = (Receiving, RF_SW_RX)"
proof -
  have "drv_transmit [1, 2, 3] 1000 demo_sx \<noteq> None"
    by (rule transmit_returns [of _ 2]) (simp_all add: demo_sx_def)
  then obtain rc s' where t: "drv_transmit [1, 2, 3] 1000 demo_sx = Some (rc, s')" by auto
  have "spi_ok demo_sx" by (simp add: spi_ok_def demo_sx_def)
  from transmit_then_listens [OF this _ _ t] t show ?thesis by simp
qed

text \<open>C10: The two waits of the driver end, whatever the chip does: if the clock ever shows more than the limit
  since the start of the wait, a transmission returns, and so does a check of the channel.\<close>

theorem waits_end:
  assumes "h_millis_i s < n" "ucast timeout < h_millis s n - h_millis s (h_millis_i s)"
    "h_millis_i s < k" "100 < h_millis s k - h_millis s (h_millis_i s)"
  shows "(\<exists>rc s'. drv_transmit buf timeout s = Some (rc, s')) \<and> (\<exists>busy s'. drv_channel_busy s = Some (busy, s'))"
  using transmit_returns [OF assms(1,2), of buf] channel_busy_returns [OF assms(3,4)] by auto

theorem waits_end_witness:
  "(\<exists>rc s'. drv_transmit [1, 2, 3] 1000 demo_sx = Some (rc, s')) \<and> (\<exists>busy s'. drv_channel_busy demo_sx = Some (busy, s'))"
  by (rule waits_end [of _ 2 _ 1]) (simp_all add: demo_sx_def)

text \<open>C25: With a chip that answers, a check of the channel ends with the chip out of its receiving mode and
  the antenna switched off, whatever it heard; unlike a transmission it does not start the receiver again.\<close>

theorem channel_busy_not_listening:
  assumes "spi_ok s" "sx_use_cad (g_cfg s)" "drv_channel_busy s = Some (busy, s')"
  shows "chip_after (h_out s') = (Sensing, RF_SW_OFF)"
  by (rule channel_busy_chip [OF assms])

theorem channel_busy_not_listening_witness:
  "\<exists>busy s'. drv_channel_busy (demo_sx\<lparr>g_cfg := (g_cfg demo_sx)\<lparr>sx_use_cad := True\<rparr>\<rparr>) = Some (busy, s') \<and>
     chip_after (h_out s') = (Sensing, RF_SW_OFF)"
proof -
  let ?s = "demo_sx\<lparr>g_cfg := (g_cfg demo_sx)\<lparr>sx_use_cad := True\<rparr>\<rparr>"
  have "drv_channel_busy ?s \<noteq> None"
    by (rule channel_busy_returns [of _ 1]) (simp_all add: demo_sx_def)
  then obtain busy s' where t: "drv_channel_busy ?s = Some (busy, s')" by auto
  have "spi_ok ?s" by (simp add: spi_ok_def demo_sx_def)
  from channel_busy_not_listening [OF this _ t] t show ?thesis by simp
qed

end
