(* ===== verification/Spec2Isabelle.thy ===== *)
theory Spec2Isabelle
  imports Mesh_Props Core_Props Service_Props Config_Props Node_Props Console_Props Radio_Props
begin

text \<open>
  A verification development of the MeshCore repeater, a daemon in C for a LoRa radio (\<^verbatim>\<open>src/\<close>).

  \<^bold>\<open>The program.\<close> One thread turns a loop (\<^verbatim>\<open>main.c\<close>): it polls the radio, hands every frame to the
  mesh core (\<^verbatim>\<open>mesh.c\<close>), lets the mesh send what is due, and serves its side connections. The mesh
  parses a frame (\<^verbatim>\<open>packet.c\<close>), drops what it has seen, verifies adverts (\<^verbatim>\<open>advert.c\<close>, \<^verbatim>\<open>identity.c\<close>),
  applies the content policy (only public channels and adverts are relayed), answers its local
  services (ping, help, time, probes, the mailbox of \<^verbatim>\<open>mbox.c\<close>) and queues copies to relay. A split
  repeater has receiving nodes that send what they hear to a transmitting node over UDP (\<^verbatim>\<open>link.c\<close>). A
  backbone client (\<^verbatim>\<open>backbone.c\<close>) keeps an authenticated session with a hub, bridges frames in both
  directions and takes the hub's rooms and blocks into the configuration (\<^verbatim>\<open>config.c\<close>). Stations that
  advertise a position are reported to APRS-IS (\<^verbatim>\<open>aprs.c\<close>, \<^verbatim>\<open>aprsis.c\<close>), and clients of the control
  port watch the traffic (\<^verbatim>\<open>monitor.c\<close>). Below the mesh is the driver of the radio chip (\<^verbatim>\<open>sx126x.c\<close>).

  \<^bold>\<open>Theories and code.\<close>
  \<^item> \<open>Prelude\<close>, \<open>Format\<close>, \<open>Double\<close>: words, buffers, C strings, \<^verbatim>\<open>snprintf\<close>, the rounding of \<^verbatim>\<open>double\<close>;
    shared by all.
  \<^item> \<open>Util\<close> (\<^verbatim>\<open>util.c\<close>), \<open>Sha256\<close>, \<open>Hmac\<close>, \<open>Aes128\<close> (\<^verbatim>\<open>crypto/\<close>, \<^verbatim>\<open>hmac_sha256.c\<close>).
  \<^item> \<open>Packet\<close>, \<open>Identity\<close>, \<open>Advert\<close>, \<open>Mbox\<close>: the C files of these names.
  \<^item> \<open>Config\<close> (the record, the lists, the hub's policy), \<open>Policy_File\<close> (the value parsers and the
    policy file), \<open>Config_Keys\<close> (\<open>config_set\<close>) and \<open>Config_File\<close> (\<open>config_get\<close>, \<open>config_load\<close>,
    \<open>config_save\<close>): \<^verbatim>\<open>config.c\<close>. The chains of string comparisons are tables with one entry per key.
  \<^item> \<open>World\<close>: the clock, the random numbers, the settings and answers of the radio, and the list of effects,
    as the mesh sees them; \<open>Net\<close>: the same for datagram sockets.
  \<^item> \<open>Mesh_State\<close> to \<open>Mesh_Tx\<close>: \<^verbatim>\<open>mesh.c\<close> in its own order: tables (\<open>Mesh_Tables\<close>), content policy
    (\<open>Mesh_Policy\<close>), the channel codec (\<open>Mesh_Channel\<close>), the queue (\<open>Mesh_Queue\<close>), the local services
    (\<open>Mesh_Services\<close>), \<open>mesh_on_recv\<close> and \<open>mesh_on_backbone\<close> (\<open>Mesh_Recv\<close>), \<open>mesh_service_tx\<close> (\<open>Mesh_Tx\<close>).
  \<^item> \<open>Link\<close> (\<^verbatim>\<open>link.c\<close>); \<open>Bb_Codec\<close>, \<open>Bb_State\<close>, \<open>Bb_Json\<close>, \<open>Bb_Client\<close> (\<^verbatim>\<open>backbone.c\<close>).
  \<^item> \<open>Node_Loop\<close>: \<^verbatim>\<open>main\<close> from the loaded configuration on, and a turn of its loop.
  \<^item> \<open>Aprs\<close>, \<open>Aprsis\<close>, \<open>Monitor\<close>, \<open>Radio\<close>: \<^verbatim>\<open>aprs.c\<close>, \<^verbatim>\<open>aprsis.c\<close>, \<^verbatim>\<open>monitor.c\<close>, \<^verbatim>\<open>sx126x.c\<close>.

  A C struct is a record with the C field names where they are free (prefixed otherwise), an enum a
  datatype, an unsigned integer a word of its width, a buffer with its length the list of its valid
  bytes. A function with side effects takes the record of its component and returns it with its result.
  What the environment will answer (the clock, the sockets, the hardware) is a sequence in that record,
  read in the order of the calls; what the program does to it is a list of calls.

  \<^bold>\<open>Interfaces.\<close> \<open>once\<close> with \<open>once_window\<close> and \<open>once_forever\<close> is what a filter promises that admits an
  item at most once; the dedup ring of the mesh and the replay window of the backbone session are its
  interpretations. \<open>mac_fn\<close> is a truncated authentication tag, interpreted by HMAC; \<open>block_cipher\<close> an
  invertible block operation, interpreted by AES-128. \<open>mesh_rel\<close> is a relation that the primitive
  steps of the mesh keep; its lemmas extend it to every operation, and the interpretation \<open>evolves\<close> yields
  the invariant and the frame facts at once.

  \<^bold>\<open>What the lemmas show.\<close>
  \<^item> Codecs: packets, adverts, channel messages, session datagrams and the files are read back as
    written; the digest equals its one-shot definition and ECB is inverted (\<open>Core_Props\<close>, \<open>Mesh_Props\<close>,
    \<open>Bb_Props\<close>, \<open>Service_Props\<close>, \<open>Config_Props\<close>).
  \<^item> Mesh: \<open>wf_mesh\<close> holds of every state reachable from where \<^verbatim>\<open>main\<close> enters its loop (\<open>mesh_boot\<close>),
    console commands included; only public traffic is relayed; the copy that is
    queued, its priority and its path; what a frame from the hub cannot touch; what goes on air first, and that
    something does (\<open>Mesh_Inv\<close>, \<open>Mesh_Facts\<close>, \<open>Mesh_Hub\<close>, \<open>Mesh_Air\<close>, \<open>Mesh_Path\<close>, \<open>Mesh_Limits\<close>).
  \<^item> Backbone and link: only authentic, fresh datagrams have an effect; both ends of a handshake agree on
    the keys; the rate of bridged frames is bounded; the hub's policy is assembled from its pages in any
    order; a silent hub is given up (\<open>Bb_Inv\<close>, \<open>Bb_Run\<close>, \<open>Bb_Policy\<close>).
  \<^item> Configuration: values keep their ranges whatever a file says; a saved configuration is restored
    (\<open>Config_Trip\<close>, \<open>Config_Back\<close>, \<open>Config_Restore\<close>).
  \<^item> The whole node: a receiving node never transmits; a relayed frame is handled as if heard locally; a
    turn of the loop ends (\<open>Node_Props\<close>).
  \<^item> Observers: whole lines and only permitted ones go to APRS-IS, and only behind a verified log-in;
    every monitor is told once (\<open>Aprsis_Inv\<close>, \<open>Monitor\<close>, \<open>Console_Props\<close>).
  \<^item> Radio driver: the calls of a transmission and their end (\<open>Radio_Props\<close>).

  \<^bold>\<open>Bounds and fuel.\<close> A call of \<open>backbone_service\<close> reads at most 16 datagrams, as the code does
  (\<^verbatim>\<open>BB_RX_BURST\<close>); that number is the fuel of the reader. The loop over the relay socket (\<open>inject\<close>) and
  the two waits of the driver may run forever in the code, so they are partial functions and their end is
  a theorem with its condition. All other loops are total functions.

  \<^bold>\<open>Abstractions.\<close> A \<^verbatim>\<open>double\<close> is the rational it denotes. The arithmetic that decides a property is
  rounded after every operation (\<open>dbl\<close>): positions and altitudes for APRS-IS, the coordinates of
  adverts, the token bucket. The exact value is taken for the time on air and the frequency word of the
  driver, and a real where the code takes a logarithm, a root or a cosine. The configuration holds the
  decimals of its file, not the doubles next to them, which print as the same decimals (\<open>fmt_f_dbl\<close>);
  infinities and NaN are values of the number parsers only. The runs of the APRS-IS client keep one
  configuration, although the console may edit the shared one between turns. The signature, key exchange and random bytes of TweetNaCl are
  parameters; where a property relies on them, its hypothesis says what (a signature made is accepted,
  the two sides of an exchange get the same secret). Log lines are omitted. The mesh uses the radio by its
  answers in \<open>world\<close>, not through \<open>Radio\<close>; the effects it leaves for the gateway and the monitors are the
  arguments of \<open>aprsis_gate_node\<close> and of the monitor events.

  \<^bold>\<open>Not modelled.\<close> The console (\<^verbatim>\<open>cli.c\<close> and the control socket and standard input of \<^verbatim>\<open>main.c\<close>): it
  prints, and changes state only through \<open>config_set\<close>, \<open>config_load\<close>, the blacklist, \<open>mesh_send_advert\<close>,
  \<open>mesh_start_probe\<close> and the driver, which are modelled. The system calls of \<^verbatim>\<open>hal_linux.c\<close>, \<^verbatim>\<open>log.c\<close>,
  the third-party code of \<^verbatim>\<open>crypto/tweetnacl.c\<close>, the self-test, the command-line client, the web page and
  the installation scripts.
\<close>

end
